(* ===== verification/Domain.thy ===== *)
theory Domain
  imports Prelude
begin

text \<open>
  The data model of \<open>core/domain\<close>: one record per Go struct, one datatype per
  enumeration, with the source's constants as constructors. An enumeration that is
  read from a user's file can hold any string, so its last constructor carries that
  string and the source's \<open>default\<close> branches have something to match.

  \<open>map[string]any\<close> values are \<open>json\<close> trees. An object is an association list, so
  that code which iterates over a map can be stated for every iteration order; numbers
  are rationals (Go decodes them to \<open>float64\<close>; rounding is not modelled). Times are
  nanoseconds since Go's zero time.
\<close>

section \<open>JSON values\<close>

datatype 'n json =
    JNull
  | JBool bool
  | JNum 'n
  | JStr string
  | JArr "'n json list"
  | JObj "(string \<times> 'n json) list"

type_synonym gval = "rat json"
type_synonym payload = "(string \<times> gval) list"

definition jint :: "int \<Rightarrow> gval" where
  "jint i = JNum (of_int i)"

text \<open>Type assertions \<open>v, ok := payload[key].(T)\<close> on decoded payloads.\<close>

definition payload_string :: "payload \<Rightarrow> string \<Rightarrow> string option" where
  "payload_string p k = (case map_of p k of Some (JStr s) \<Rightarrow> Some s | _ \<Rightarrow> None)"

definition payload_float :: "payload \<Rightarrow> string \<Rightarrow> rat option" where
  "payload_float p k = (case map_of p k of Some (JNum q) \<Rightarrow> Some q | _ \<Rightarrow> None)"

text \<open>Go's conversion \<open>int64(f)\<close> truncates towards zero.\<close>

definition trunc_rat :: "rat \<Rightarrow> int" where
  "trunc_rat q = (if 0 \<le> q then \<lfloor>q\<rfloor> else \<lceil>q\<rceil>)"

lemma trunc_rat_of_int [simp]: "trunc_rat (of_int i) = i"
  by (simp add: trunc_rat_def)

section \<open>Artifacts, budgets, contracts, workers\<close>

type_synonym artifact_type = string

abbreviation ArtifactJSON :: artifact_type where "ArtifactJSON \<equiv> ''json''"
abbreviation ArtifactDiff :: artifact_type where "ArtifactDiff \<equiv> ''diff''"
abbreviation ArtifactTestResult :: artifact_type where "ArtifactTestResult \<equiv> ''test-result''"

record artifact =
  art_id :: string
  art_type :: artifact_type
  art_content_hash :: string
  art_mime_type :: string
  art_metadata :: payload
  art_produced_by :: string

record budget =
  max_cost_usd :: rat
  max_tokens :: int
  max_duration_ms :: int
  max_retries_per_node :: int

datatype context_mode =
    ContextUnset | ContextFull | ContextParentOnly | ContextArtifacts
  | ContextDiffOnly | ContextSummary | ContextNone | ContextOther string

fun context_mode_str :: "context_mode \<Rightarrow> string" where
  "context_mode_str ContextUnset = ''''"
| "context_mode_str ContextFull = ''full''"
| "context_mode_str ContextParentOnly = ''parent-only''"
| "context_mode_str ContextArtifacts = ''artifacts''"
| "context_mode_str ContextDiffOnly = ''diff-only''"
| "context_mode_str ContextSummary = ''summary''"
| "context_mode_str ContextNone = ''none''"
| "context_mode_str (ContextOther s) = s"

text \<open>\<open>cp_params\<close> is the \<open>Params\<close> pointer; its content is the list of admitted node ids.\<close>

record context_policy =
  cp_mode :: context_mode
  cp_params :: "string list option"

record contract =
  con_goal :: string
  con_rules :: "string list"
  con_output_schema :: payload
  con_success_criteria :: "string list"
  con_max_retries :: int

record model_config =
  mc_provider :: string
  mc_model :: string
  mc_params :: payload

record worker =
  wk_id :: string
  wk_version :: string
  wk_description :: string
  wk_objective :: string
  wk_constraints :: "string list"
  wk_tools :: "string list"
  wk_context_policy :: context_policy
  wk_contract :: contract
  wk_model :: model_config

section \<open>Workflows\<close>

record tool_call =
  tc_name :: string
  tc_input :: payload

datatype failure_mode =
    FailUnset | FailExecution | FailContinue | FailFallback | FailOther string

record failure_policy =
  fp_mode :: failure_mode
  fp_fallback :: string

record node =
  node_id :: string
  node_worker :: string
  node_tool :: "tool_call option"
  node_policy :: "context_policy option"
  node_on_failure :: "failure_policy option"

datatype compare_op =
  OpEq | OpNe | OpGt | OpGte | OpLt | OpLte | OpExists | OpTruthy | OpOther string

fun compare_op_str :: "compare_op \<Rightarrow> string" where
  "compare_op_str OpEq = ''eq''"
| "compare_op_str OpNe = ''ne''"
| "compare_op_str OpGt = ''gt''"
| "compare_op_str OpGte = ''gte''"
| "compare_op_str OpLt = ''lt''"
| "compare_op_str OpLte = ''lte''"
| "compare_op_str OpExists = ''exists''"
| "compare_op_str OpTruthy = ''truthy''"
| "compare_op_str (OpOther s) = s"

record condition =
  cond_path :: string
  cond_op :: compare_op
  cond_value :: gval

record edge =
  edge_from :: string
  edge_to :: string
  edge_cond :: "condition option"

record input_decl =
  in_name :: string
  in_required :: bool
  in_default :: string
  in_description :: string

record wf_defaults =
  def_model :: "model_config option"
  def_context_policy :: "context_policy option"

record workflow =
  wf_id :: string
  wf_version :: string
  wf_nodes :: "node list"
  wf_edges :: "edge list"
  wf_defaults :: "wf_defaults option"
  wf_inputs :: "input_decl list"
  wf_budget :: budget

section \<open>Events and executions\<close>

datatype event_type =
    ExecutionStarted | ExecutionFinished | WorkerStarted | WorkerFinished
  | ToolCalled | ToolResult | ArtifactCreated | ContractValidated | ContractViolated
  | Retry | Failure | CacheHit | CacheMiss | BudgetWarning | BudgetExceeded
  | ApprovalRequested | ApprovalGranted | ApprovalRejected | Cancelled
  | EventOther string

record event =
  ev_type :: event_type
  ev_time :: int
  ev_exec :: string
  ev_node :: string
  ev_prev :: string
  ev_payload :: payload

datatype execution_state =
    ExecutionPending | ExecutionRunning | ExecutionSucceeded | ExecutionFailed
  | ExecutionCancelled | ExecutionPaused

fun execution_state_str :: "execution_state \<Rightarrow> string" where
  "execution_state_str ExecutionPending = ''pending''"
| "execution_state_str ExecutionRunning = ''running''"
| "execution_state_str ExecutionSucceeded = ''succeeded''"
| "execution_state_str ExecutionFailed = ''failed''"
| "execution_state_str ExecutionCancelled = ''cancelled''"
| "execution_state_str ExecutionPaused = ''paused''"

record budget_status =
  bs_limit :: budget
  bs_spent_cost :: rat
  bs_spent_tokens :: int
  bs_elapsed_ms :: int

record execution =
  ex_id :: string
  ex_workflow_ref :: string
  ex_state :: execution_state
  ex_graph :: workflow
  ex_budget :: budget_status
  ex_started_at :: int
  ex_finished_at :: "int option"

lemma payload_string_Some:
  "payload_string p k = Some s \<longleftrightarrow> map_of p k = Some (JStr s)"
  by (auto simp: payload_string_def split: option.splits json.splits)

lemma payload_float_Some:
  "payload_float p k = Some q \<longleftrightarrow> map_of p k = Some (JNum q)"
  by (auto simp: payload_float_def split: option.splits json.splits)

lemma execution_state_str_inject [simp]:
  "execution_state_str a = execution_state_str b \<longleftrightarrow> a = b"
  by (cases a; cases b) auto

end
