(* ===== verification/GoErr.thy ===== *)
theory GoErr
  imports Domain
begin

text \<open>
  Go errors as the engine builds them: a chain of wrappers ending in a sentinel or a
  plain message. \<open>errors.Is\<close> and \<open>errors.As\<close> walk the chain, so the retry class, the
  diagnostic overlay (\<open>core/diagnostic\<close>) and the exit state of a run are functions of
  that chain and not of the message text.
\<close>

section \<open>The error chain\<close>

datatype sentinel =
    ErrBudgetExceeded | ErrCancelled | ErrNodeFailed | ErrIncompleteGraph
  | ErrMissingInput | ErrApprovalRequired | ErrApprovalRejected
  | CtxCanceled | CtxDeadlineExceeded | ErrNotExist

datatype diag_kind =
    KindEngine | KindTool | KindProvider | KindValidation | KindBudget | KindCache
  | KindArtifact | KindCancellation | KindTimeout

fun diag_kind_str :: "diag_kind \<Rightarrow> string" where
  "diag_kind_str KindEngine = ''engine''"
| "diag_kind_str KindTool = ''tool''"
| "diag_kind_str KindProvider = ''provider''"
| "diag_kind_str KindValidation = ''validation''"
| "diag_kind_str KindBudget = ''budget''"
| "diag_kind_str KindCache = ''cache''"
| "diag_kind_str KindArtifact = ''artifact''"
| "diag_kind_str KindCancellation = ''cancellation''"
| "diag_kind_str KindTimeout = ''timeout''"

text \<open>\<open>diagnostic.Diagnostic\<close> without its \<open>Cause\<close>, which is the chain's next error.\<close>

record diag =
  dg_kind :: diag_kind
  dg_code :: string
  dg_node :: string
  dg_operation :: string
  dg_message :: string
  dg_likely_fix :: string
  dg_retry_after :: int

text \<open>\<open>tool.Mutation\<close>, which approval errors and approval events carry.\<close>

record mutation =
  mut_mutating :: bool
  mut_operation :: string
  mut_summary :: string
  mut_paths :: "string list"
  mut_command :: "string list"
  mut_method :: string
  mut_url :: string

datatype err =
    ESentinel sentinel
  | EMsg string
  | EWrap string err
  | ETransient err
  | EContract err string int
  | EFatal err
  | EDiag diag err
  | EProvTransient err int bool
  | EProvFatal err
  | EViolation string err
  | EApprovalRequired string string string mutation
  | EApprovalRejected string string string
  | ELimit string int int string

fun unwrap :: "err \<Rightarrow> err option" where
  "unwrap (ESentinel s) = None"
| "unwrap (EMsg m) = None"
| "unwrap (EWrap m e) = Some e"
| "unwrap (ETransient e) = Some e"
| "unwrap (EContract e f n) = Some e"
| "unwrap (EFatal e) = Some e"
| "unwrap (EDiag d e) = Some e"
| "unwrap (EProvTransient e d h) = Some e"
| "unwrap (EProvFatal e) = Some e"
| "unwrap (EViolation f e) = Some e"
| "unwrap (EApprovalRequired c n t m) = Some (ESentinel ErrApprovalRequired)"
| "unwrap (EApprovalRejected c n t) = Some (ESentinel ErrApprovalRejected)"
| "unwrap (ELimit c l a s) = None"

text \<open>The chain an error starts: itself, then what it unwraps to, to the end.\<close>

fun err_chain :: "err \<Rightarrow> err list" where
  "err_chain (EWrap m e) = EWrap m e # err_chain e"
| "err_chain (ETransient e) = ETransient e # err_chain e"
| "err_chain (EContract e f n) = EContract e f n # err_chain e"
| "err_chain (EFatal e) = EFatal e # err_chain e"
| "err_chain (EDiag d e) = EDiag d e # err_chain e"
| "err_chain (EProvTransient e d h) = EProvTransient e d h # err_chain e"
| "err_chain (EProvFatal e) = EProvFatal e # err_chain e"
| "err_chain (EViolation f e) = EViolation f e # err_chain e"
| "err_chain (EApprovalRequired c n t m) =
     [EApprovalRequired c n t m, ESentinel ErrApprovalRequired]"
| "err_chain (EApprovalRejected c n t) =
     [EApprovalRejected c n t, ESentinel ErrApprovalRejected]"
| "err_chain e = [e]"

lemma err_chain_unwrap:
  "err_chain e = e # (case unwrap e of None \<Rightarrow> [] | Some e' \<Rightarrow> err_chain e')"
  by (cases e) auto

definition is_err :: "sentinel \<Rightarrow> err \<Rightarrow> bool" where
  "is_err s e \<longleftrightarrow> ESentinel s \<in> set (err_chain e)"

text \<open>\<open>errors.As\<close>: the first error of the chain that the extractor accepts.\<close>

fun first_some :: "('a \<Rightarrow> 'b option) \<Rightarrow> 'a list \<Rightarrow> 'b option" where
  "first_some f [] = None"
| "first_some f (x # xs) = (case f x of None \<Rightarrow> first_some f xs | Some y \<Rightarrow> Some y)"

definition as_err :: "(err \<Rightarrow> 'a option) \<Rightarrow> err \<Rightarrow> 'a option" where
  "as_err f e = first_some f (err_chain e)"

lemma first_some_None: "first_some f xs = None \<longleftrightarrow> (\<forall>x\<in>set xs. f x = None)"
  by (induction xs) (auto split: option.splits)

lemma first_some_Some: "first_some f xs = Some y \<Longrightarrow> \<exists>x\<in>set xs. f x = Some y"
  by (induction xs) (auto split: option.splits)

section \<open>Messages: the Error() methods\<close>

fun sentinel_str :: "sentinel \<Rightarrow> string" where
  "sentinel_str ErrBudgetExceeded = ''engine: budget exceeded''"
| "sentinel_str ErrCancelled = ''engine: execution cancelled''"
| "sentinel_str ErrNodeFailed = ''engine: node failed''"
| "sentinel_str ErrIncompleteGraph =
     ''engine: workflow graph did not fully resolve (cycle or unreachable node?)''"
| "sentinel_str ErrMissingInput = ''engine: missing required workflow input''"
| "sentinel_str ErrApprovalRequired = ''engine: approval required''"
| "sentinel_str ErrApprovalRejected = ''engine: approval rejected''"
| "sentinel_str CtxCanceled = ''context canceled''"
| "sentinel_str CtxDeadlineExceeded = ''context deadline exceeded''"
| "sentinel_str ErrNotExist = ''file does not exist''"

text \<open>\<open>Diagnostic.Error\<close> with a non-nil cause, whose message is the second argument.\<close>

definition diag_msg :: "diag \<Rightarrow> string \<Rightarrow> string" where
  "diag_msg d cause =
     (let m = (if dg_message d = '''' then cause else dg_message d @ '': '' @ cause);
          m = (if dg_node d = '''' then m else ''node '' @ quote (dg_node d) @ '': '' @ m)
      in if dg_likely_fix d = '''' then m else m @ ''; likely fix: '' @ dg_likely_fix d)"

fun err_msg :: "err \<Rightarrow> string" where
  "err_msg (ESentinel s) = sentinel_str s"
| "err_msg (EMsg m) = m"
| "err_msg (EWrap m e) = m"
| "err_msg (ETransient e) = err_msg e"
| "err_msg (EContract e f n) = err_msg e"
| "err_msg (EFatal e) = err_msg e"
| "err_msg (EDiag d e) = diag_msg d (err_msg e)"
| "err_msg (EProvTransient e d h) = err_msg e"
| "err_msg (EProvFatal e) = err_msg e"
| "err_msg (EViolation f e) = err_msg e"
| "err_msg (EApprovalRequired c n t m) =
     ''engine: approval required: node '' @ quote n @ '' requires approval for '' @ mut_operation m"
| "err_msg (EApprovalRejected c n t) =
     ''engine: approval rejected: node '' @ quote n @ '' checkpoint '' @ c @ '' was rejected''"
| "err_msg (ELimit code limit actual summary) =
     ''store: '' @ code @ '' limit exceeded: '' @ itoa actual @ '' > '' @ itoa limit @
     '' bytes; preview: '' @ summary"

text \<open>\<open>fmt.Errorf\<close> with one \<open>%w\<close> between a prefix and a suffix.\<close>

definition errorf :: "string \<Rightarrow> err \<Rightarrow> string \<Rightarrow> err" where
  "errorf pre e suf = EWrap (pre @ err_msg e @ suf) e"

section \<open>core/diagnostic\<close>

definition diag_wrap ::
  "err \<Rightarrow> diag_kind \<Rightarrow> string \<Rightarrow> string \<Rightarrow> string \<Rightarrow> string \<Rightarrow> string \<Rightarrow> err" where
  "diag_wrap e k code nid op msg fix_text =
     EDiag \<lparr>dg_kind = k, dg_code = code, dg_node = nid, dg_operation = op,
            dg_message = msg, dg_likely_fix = fix_text, dg_retry_after = 0\<rparr> e"

fun as_diag :: "err \<Rightarrow> diag option" where
  "as_diag (EDiag d e) = Some d"
| "as_diag _ = None"

definition diag_from :: "err \<Rightarrow> diag option" where
  "diag_from e = as_err as_diag e"

text \<open>\<open>WithRetryAfter\<close> assigns to the first diagnostic of the chain in place.\<close>

fun with_retry_after :: "err \<Rightarrow> int \<Rightarrow> err" where
  "with_retry_after (EDiag d e) t = EDiag (d\<lparr>dg_retry_after := t\<rparr>) e"
| "with_retry_after (EWrap m e) t = EWrap m (with_retry_after e t)"
| "with_retry_after (ETransient e) t = ETransient (with_retry_after e t)"
| "with_retry_after (EContract e f n) t = EContract (with_retry_after e t) f n"
| "with_retry_after (EFatal e) t = EFatal (with_retry_after e t)"
| "with_retry_after (EProvTransient e d h) t = EProvTransient (with_retry_after e t) d h"
| "with_retry_after (EProvFatal e) t = EProvFatal (with_retry_after e t)"
| "with_retry_after (EViolation f e) t = EViolation f (with_retry_after e t)"
| "with_retry_after e t = e"

text \<open>\<open>Duration.Milliseconds\<close> truncates; it is only asked for positive durations here.\<close>

definition diag_payload :: "err \<Rightarrow> string \<Rightarrow> payload" where
  "diag_payload e fallback =
     (case diag_from e of
        None \<Rightarrow>
          [(''kind'', JStr (diag_kind_str KindEngine)), (''code'', JStr ''runtime_error''),
           (''nodeId'', JStr fallback), (''message'', JStr (err_msg e))]
      | Some d \<Rightarrow>
          [(''kind'', JStr (diag_kind_str (dg_kind d))), (''code'', JStr (dg_code d)),
           (''nodeId'', JStr (if dg_node d = '''' then fallback else dg_node d)),
           (''operation'', JStr (dg_operation d)), (''message'', JStr (dg_message d)),
           (''likelyFix'', JStr (dg_likely_fix d))] @
          (if 0 < dg_retry_after d
           then [(''retryAfterMs'', jint (dg_retry_after d div 1000000))] else []))"

section \<open>Wrapping keeps the cause\<close>

lemma is_err_simps [simp]:
  "is_err s (ESentinel s') \<longleftrightarrow> s = s'"
  "is_err s (EMsg m) \<longleftrightarrow> False"
  "is_err s (EWrap m e) \<longleftrightarrow> is_err s e"
  "is_err s (ETransient e) \<longleftrightarrow> is_err s e"
  "is_err s (EContract e f n) \<longleftrightarrow> is_err s e"
  "is_err s (EFatal e) \<longleftrightarrow> is_err s e"
  "is_err s (EDiag d e) \<longleftrightarrow> is_err s e"
  "is_err s (EProvTransient e t h) \<longleftrightarrow> is_err s e"
  "is_err s (EProvFatal e) \<longleftrightarrow> is_err s e"
  "is_err s (EViolation f e) \<longleftrightarrow> is_err s e"
  "is_err s (EApprovalRequired c i tn mu) \<longleftrightarrow> s = ErrApprovalRequired"
  "is_err s (EApprovalRejected c i tn) \<longleftrightarrow> s = ErrApprovalRejected"
  "is_err s (ELimit code l a sm) \<longleftrightarrow> False"
  by (auto simp: is_err_def)

lemma is_err_wrappers [simp]:
  "is_err s (errorf pre e suf) \<longleftrightarrow> is_err s e"
  "is_err s (diag_wrap e k code nid op msg fx) \<longleftrightarrow> is_err s e"
  by (simp_all add: errorf_def diag_wrap_def)

lemma as_err_simps [simp]:
  "as_err f (ESentinel s) = f (ESentinel s)"
  "as_err f (EMsg m) = f (EMsg m)"
  "as_err f (EWrap m e) = (case f (EWrap m e) of None \<Rightarrow> as_err f e | Some y \<Rightarrow> Some y)"
  "as_err f (ETransient e) = (case f (ETransient e) of None \<Rightarrow> as_err f e | Some y \<Rightarrow> Some y)"
  "as_err f (EContract e fb n) =
     (case f (EContract e fb n) of None \<Rightarrow> as_err f e | Some y \<Rightarrow> Some y)"
  "as_err f (EFatal e) = (case f (EFatal e) of None \<Rightarrow> as_err f e | Some y \<Rightarrow> Some y)"
  "as_err f (EDiag d e) = (case f (EDiag d e) of None \<Rightarrow> as_err f e | Some y \<Rightarrow> Some y)"
  "as_err f (EProvTransient e t h) =
     (case f (EProvTransient e t h) of None \<Rightarrow> as_err f e | Some y \<Rightarrow> Some y)"
  "as_err f (EProvFatal e) = (case f (EProvFatal e) of None \<Rightarrow> as_err f e | Some y \<Rightarrow> Some y)"
  "as_err f (EViolation fb e) =
     (case f (EViolation fb e) of None \<Rightarrow> as_err f e | Some y \<Rightarrow> Some y)"
  by (auto simp: as_err_def split: option.splits)

lemma as_err_leaves [simp]:
  "as_err f (EApprovalRequired c i t m) =
     (case f (EApprovalRequired c i t m) of
        None \<Rightarrow> f (ESentinel ErrApprovalRequired) | Some y \<Rightarrow> Some y)"
  "as_err f (EApprovalRejected c i t) =
     (case f (EApprovalRejected c i t) of
        None \<Rightarrow> f (ESentinel ErrApprovalRejected) | Some y \<Rightarrow> Some y)"
  "as_err f (ELimit code l a sm) = f (ELimit code l a sm)"
  by (auto simp: as_err_def split: option.splits)

lemma diag_from_wrap [simp]:
  "diag_from (diag_wrap e k code nid op msg fx) =
     Some \<lparr>dg_kind = k, dg_code = code, dg_node = nid, dg_operation = op,
           dg_message = msg, dg_likely_fix = fx, dg_retry_after = 0\<rparr>"
  by (simp add: diag_from_def diag_wrap_def)

lemma is_err_with_retry_after [simp]: "is_err s (with_retry_after e t) \<longleftrightarrow> is_err s e"
  by (induction e t rule: with_retry_after.induct) auto

lemma with_retry_after_diag:
  "diag_from (with_retry_after e t) = map_option (\<lambda>d. d\<lparr>dg_retry_after := t\<rparr>) (diag_from e)"
  by (induction e t rule: with_retry_after.induct) (auto simp: diag_from_def)

end
