(* ===== verification/Graph.thy ===== *)
theory Graph
  imports GoErr Domain
begin

text \<open>
  \<open>core/validate/graph.go\<close> and \<open>errors.go\<close>: the checks a workflow must pass before it is run.
  The depth-first search \<open>findCycle\<close> and the flood \<open>ancestorsOf\<close> are modelled with their stacks
  and colours and shown to decide acyclicity and reachability; \<open>graph_problems\<close> collects the
  problems in the order of the code. A source position resolver is the argument \<open>src\<close>.
\<close>

section \<open>Problems (errors.go)\<close>

record problem =
  pb_pointer :: string
  pb_line :: int
  pb_message :: string

record line_resolver =
  lr_line :: "string \<Rightarrow> int option"
  lr_file :: string

definition problem_str :: "problem \<Rightarrow> string" where
  "problem_str p =
     (let loc = (if pb_pointer p = [] then ''/'' else pb_pointer p) in
      if 0 < pb_line p then loc @ '' (line '' @ itoa (pb_line p) @ ''): '' @ pb_message p
      else loc @ '': '' @ pb_message p)"

definition resolve_line :: "line_resolver option \<Rightarrow> problem \<Rightarrow> problem" where
  "resolve_line src p =
     (case src of
        None \<Rightarrow> p
      | Some r \<Rightarrow> (case lr_line r (pb_pointer p) of Some k \<Rightarrow> p\<lparr>pb_line := k\<rparr> | None \<Rightarrow> p))"

definition format_problems :: "string \<Rightarrow> line_resolver option \<Rightarrow> problem list \<Rightarrow> string" where
  "format_problems header src ps =
     header @ (case src of Some r \<Rightarrow> if lr_file r = [] then [] else '' in '' @ lr_file r | None \<Rightarrow> []) @
     '':'' @ concat (map (\<lambda>p. CHR 0x0A # ''  - '' @ problem_str p) ps)"

definition problem_at :: "line_resolver option \<Rightarrow> string \<Rightarrow> string \<Rightarrow> problem" where
  "problem_at src ptr msg = resolve_line src \<lparr>pb_pointer = ptr, pb_line = 0, pb_message = msg\<rparr>"

section \<open>Cycles\<close>

text \<open>
  One call of \<open>visit\<close> is the loop of \<open>dfs\<close> over the successors \<open>ns\<close> of the node on top of the
  stack \<open>st\<close>; entering a white node is the recursive call. \<open>fuel\<close> bounds the depth and
  \<open>None\<close> means that it ran out, which \<open>visit_total\<close> excludes.
\<close>

datatype colour = White | Gray | Black

fun visit ::
  "nat \<Rightarrow> (string \<Rightarrow> string list) \<Rightarrow> string list \<Rightarrow> (string \<Rightarrow> colour) \<Rightarrow> string list \<Rightarrow>
     (string list option \<times> (string \<Rightarrow> colour)) option" where
  "visit fuel adj [] col st = Some (None, col)"
| "visit fuel adj (n # ns) col st =
     (case col n of
        White \<Rightarrow>
          (case fuel of
             0 \<Rightarrow> None
           | Suc k \<Rightarrow>
               (case visit k adj (adj n) (col(n := Gray)) (st @ [n]) of
                  None \<Rightarrow> None
                | Some (Some c, col') \<Rightarrow> Some (Some c, col')
                | Some (None, col') \<Rightarrow> visit fuel adj ns (col'(n := Black)) st))
      | Gray \<Rightarrow>
          if n \<in> set st then Some (Some (dropWhile (\<lambda>s. s \<noteq> n) st @ [n]), col)
          else visit fuel adj ns col st
      | Black \<Rightarrow> visit fuel adj ns col st)"

fun search ::
  "nat \<Rightarrow> (string \<Rightarrow> string list) \<Rightarrow> string list \<Rightarrow> (string \<Rightarrow> colour) \<Rightarrow> string list option option" where
  "search fuel adj [] col = Some None"
| "search fuel adj (i # rest) col =
     (if i \<noteq> [] \<and> col i = White
      then (case visit fuel adj [i] col [] of
              None \<Rightarrow> None
            | Some (Some c, col') \<Rightarrow> Some (Some c)
            | Some (None, col') \<Rightarrow> search fuel adj rest col')
      else search fuel adj rest col)"

definition find_cycle :: "nat \<Rightarrow> node list \<Rightarrow> (string \<Rightarrow> string list) \<Rightarrow> string list option option" where
  "find_cycle fuel nodes adj = search fuel adj (map node_id nodes) (\<lambda>i. White)"

section \<open>Ancestors\<close>

text \<open>\<open>rev\<close> of \<open>ancestorsOf\<close> over the resolved edges, and its flood from a stack.\<close>

definition rev_adj :: "(string \<times> string) list \<Rightarrow> string \<Rightarrow> string list" where
  "rev_adj es i = map fst (filter (\<lambda>e. snd e = i) es)"

lemma rev_adj_target: "rev_adj es i \<noteq> [] \<Longrightarrow> i \<in> set (map snd es)"
  by (auto simp: rev_adj_def filter_empty_conv)

function flood :: "(string \<times> string) list \<Rightarrow> string list \<Rightarrow> string list \<Rightarrow> string list" where
  "flood es seen [] = seen"
| "flood es seen (cur # st) =
     (if cur \<in> set seen then flood es seen st else flood es (cur # seen) (rev (rev_adj es cur) @ st))"
  by pat_completeness auto

termination
proof (relation "measures [\<lambda>(es, seen, st). card (set (map snd es) - set seen), \<lambda>(es, seen, st). length st]")
  fix es :: "(string \<times> string) list" and seen st :: "string list" and cur
  assume new: "cur \<notin> set seen"
  show "((es, cur # seen, rev (rev_adj es cur) @ st), (es, seen, cur # st))
      \<in> measures [\<lambda>(es, seen, st). card (set (map snd es) - set seen), \<lambda>(es, seen, st). length st]"
  proof (cases "cur \<in> set (map snd es)")
    case True
    with new have "card (set (map snd es) - set (cur # seen)) < card (set (map snd es) - set seen)"
      by (intro psubset_card_mono) auto
    then show ?thesis by simp
  next
    case False
    then have "rev_adj es cur = []" using rev_adj_target by blast
    moreover have "set (map snd es) - set (cur # seen) = set (map snd es) - set seen" using False by auto
    ultimately show ?thesis by simp
  qed
qed auto

text \<open>The stack of the code has its top at the end; here it is the head of the list.\<close>

definition ancestors_of :: "string \<Rightarrow> (string \<times> string) list \<Rightarrow> string list" where
  "ancestors_of target es = flood es [] (rev (rev_adj es target))"

section \<open>The checks\<close>

text \<open>\<open>index\<close>: the first position of a node id; the problems of the pass that builds it.\<close>

fun index_nodes ::
  "line_resolver option \<Rightarrow> nat \<Rightarrow> node list \<Rightarrow> (string \<rightharpoonup> nat) \<Rightarrow> problem list \<times> (string \<rightharpoonup> nat)" where
  "index_nodes src i [] ix = ([], ix)"
| "index_nodes src i (n # ns) ix =
     (let ptr = ''/nodes/'' @ nat_str i @ ''/id'' in
      if node_id n = []
      then (case index_nodes src (Suc i) ns ix of
              (ps, ix') \<Rightarrow> (problem_at src ptr ''node has an empty id'' # ps, ix'))
      else case ix (node_id n) of
        Some prev \<Rightarrow>
          (case index_nodes src (Suc i) ns ix of
             (ps, ix') \<Rightarrow>
               (problem_at src ptr (''duplicate node id '' @ quote (node_id n) @
                  '' (first defined at node index '' @ nat_str prev @ '')'') # ps, ix'))
      | None \<Rightarrow> index_nodes src (Suc i) ns (ix(node_id n \<mapsto> i)))"

definition enum :: "'a list \<Rightarrow> (nat \<times> 'a) list" where
  "enum xs = zip [0..<length xs] xs"

definition em_dash :: string where
  "em_dash = [CHR 0xE2, CHR 0x80, CHR 0x94]"

definition check_node_ref :: "line_resolver option \<Rightarrow> node list \<Rightarrow> problem list" where
  "check_node_ref src nodes =
     concat (map (\<lambda>(i, n).
       if node_id n = [] then []
       else let ptr = ''/nodes/'' @ nat_str i; pre = ''node '' @ quote (node_id n) in
         if node_worker n = [] \<and> node_tool n = None
         then [problem_at src ptr (pre @ '' references neither a worker nor a tool '' @ em_dash @ '' exactly one is required'')]
         else if node_worker n \<noteq> [] \<and> node_tool n \<noteq> None
         then [problem_at src ptr (pre @ '' references both a worker and a tool '' @ em_dash @ '' exactly one is required'')]
         else []) (enum nodes))"

text \<open>\<open>inputPlaceholderRe\<close>; objects are walked in the order of their fields: the dot does not match a newline.\<close>

definition input_placeholder :: "string \<Rightarrow> string option" where
  "input_placeholder s =
     (case cut_prefix ''${input:'' s of
        None \<Rightarrow> None
      | Some r \<Rightarrow>
          if r \<noteq> [] \<and> last r = CHR ''}'' \<and> butlast r \<noteq> [] \<and> CHR 0x0A \<notin> set (butlast r)
          then Some (butlast r) else None)"

fun walk_input_refs :: "gval \<Rightarrow> string \<Rightarrow> (string \<times> string) list"
  and walk_fields :: "(string \<times> gval) list \<Rightarrow> string \<Rightarrow> (string \<times> string) list"
  and walk_items :: "gval list \<Rightarrow> nat \<Rightarrow> string \<Rightarrow> (string \<times> string) list" where
  "walk_input_refs (JStr s) ptr = (case input_placeholder s of Some name \<Rightarrow> [(name, ptr)] | None \<Rightarrow> [])"
| "walk_input_refs (JObj fs) ptr = walk_fields fs ptr"
| "walk_input_refs (JArr vs) ptr = walk_items vs 0 ptr"
| "walk_input_refs v ptr = []"
| "walk_fields [] ptr = []"
| "walk_fields ((k, v) # fs) ptr = walk_input_refs v (ptr @ ''/'' @ k) @ walk_fields fs ptr"
| "walk_items [] i ptr = []"
| "walk_items (v # vs) i ptr = walk_input_refs v (ptr @ ''/'' @ nat_str i) @ walk_items vs (Suc i) ptr"

definition input_problems :: "line_resolver option \<Rightarrow> workflow \<Rightarrow> nat \<Rightarrow> node \<Rightarrow> problem list" where
  "input_problems src w i n =
     (case node_tool n of
        None \<Rightarrow> []
      | Some t \<Rightarrow>
          map (\<lambda>(name, ptr). problem_at src ptr (''node '' @ quote (node_id n) @
              '' references undeclared workflow input '' @ quote name @
              '' (add it to the workflow'' @ [CHR 0x27] @ ''s top-level '' @ quote ''inputs'' @ '')''))
            (filter (\<lambda>p. fst p \<notin> set (map in_name (wf_inputs w)))
              (walk_input_refs (JObj (tc_input t)) (''/nodes/'' @ nat_str i @ ''/tool/input''))))"

definition check_input_refs :: "line_resolver option \<Rightarrow> workflow \<Rightarrow> problem list" where
  "check_input_refs src w = concat (map (\<lambda>(i, n). input_problems src w i n) (enum (wf_nodes w)))"

definition endpoint_problem :: "line_resolver option \<Rightarrow> (string \<rightharpoonup> nat) \<Rightarrow> nat \<Rightarrow> string \<Rightarrow> string \<Rightarrow> problem list" where
  "endpoint_problem src ix i side v =
     (if ix v \<noteq> None then []
      else [problem_at src (''/edges/'' @ nat_str i @ ''/'' @ side)
              (''edge '' @ nat_str i @ '' '' @ side @ '' references unknown node '' @ quote v)])"

definition edge_problems :: "line_resolver option \<Rightarrow> (string \<rightharpoonup> nat) \<Rightarrow> edge list \<Rightarrow> problem list" where
  "edge_problems src ix es =
     concat (map (\<lambda>(i, e). endpoint_problem src ix i ''from'' (edge_from e) @
       endpoint_problem src ix i ''to'' (edge_to e)) (enum es))"

text \<open>The edges that feed the graph analysis.\<close>

definition known_edges :: "(string \<rightharpoonup> nat) \<Rightarrow> edge list \<Rightarrow> (string \<times> string) list" where
  "known_edges ix es =
     map (\<lambda>e. (edge_from e, edge_to e)) (filter (\<lambda>e. ix (edge_from e) \<noteq> None \<and> ix (edge_to e) \<noteq> None) es)"

definition adj_of :: "(string \<times> string) list \<Rightarrow> string \<Rightarrow> string list" where
  "adj_of es i = map snd (filter (\<lambda>e. fst e = i) es)"

definition orphan_problems :: "line_resolver option \<Rightarrow> (string \<rightharpoonup> nat) \<Rightarrow> (string \<times> string) list \<Rightarrow> node list \<Rightarrow> problem list" where
  "orphan_problems src ix es nodes =
     (if length nodes \<le> 1 then []
      else map (\<lambda>n. problem_at src (''/nodes/'' @ nat_str (the (ix (node_id n))))
               (''node '' @ quote (node_id n) @ '' is an orphan (no edges in or out)''))
             (filter (\<lambda>n. node_id n \<noteq> [] \<and> node_id n \<notin> fst ` set es \<union> snd ` set es) nodes))"

definition ref_problems ::
  "line_resolver option \<Rightarrow> (string \<rightharpoonup> nat) \<Rightarrow> (string \<times> string) list \<Rightarrow> nat \<Rightarrow> node \<Rightarrow> nat \<Rightarrow> string \<Rightarrow> problem list" where
  "ref_problems src ix es i n j ref =
     (let ptr = ''/nodes/'' @ nat_str i @ ''/contextPolicy/params/artifacts/'' @ nat_str j in
      if ix ref = None
      then [problem_at src ptr (''node '' @ quote (node_id n) @
              '' references artifact from unknown node '' @ quote ref)]
      else if ref \<notin> set (ancestors_of (node_id n) es)
      then [problem_at src ptr (''node '' @ quote (node_id n) @ '' reads an artifact from '' @
              quote ref @ '', which is not upstream of it'')]
      else [])"

definition context_problems ::
  "line_resolver option \<Rightarrow> (string \<rightharpoonup> nat) \<Rightarrow> (string \<times> string) list \<Rightarrow> nat \<Rightarrow> node \<Rightarrow> problem list" where
  "context_problems src ix es i n =
     (case node_policy n of
        None \<Rightarrow> []
      | Some p \<Rightarrow>
          if cp_mode p \<noteq> ContextArtifacts then []
          else case cp_params p of
            None \<Rightarrow> []
          | Some refs \<Rightarrow> concat (map (\<lambda>(j, ref). ref_problems src ix es i n j ref) (enum refs)))"

definition check_context_artifacts ::
  "line_resolver option \<Rightarrow> (string \<rightharpoonup> nat) \<Rightarrow> (string \<times> string) list \<Rightarrow> node list \<Rightarrow> problem list" where
  "check_context_artifacts src ix es nodes =
     concat (map (\<lambda>(i, n). context_problems src ix es i n) (enum nodes))"

text \<open>\<open>Graph\<close>: the problems of a workflow, none if it is valid. The fuel of the cycle search is the
  number of nodes.\<close>

definition graph_problems :: "line_resolver option \<Rightarrow> workflow \<Rightarrow> problem list" where
  "graph_problems src w =
     (let (dups, ix) = index_nodes src 0 (wf_nodes w) Map.empty;
          es = known_edges ix (wf_edges w)
      in dups @ check_node_ref src (wf_nodes w) @ check_input_refs src w @
         edge_problems src ix (wf_edges w) @ orphan_problems src ix es (wf_nodes w) @
         (case find_cycle (length (wf_nodes w)) (wf_nodes w) (adj_of es) of
            Some (Some c) \<Rightarrow>
              [problem_at src (''/nodes/'' @ nat_str (the (ix (hd c))))
                 (''cycle detected: '' @ join '' -> '' c)]
          | _ \<Rightarrow> check_context_artifacts src ix es (wf_nodes w)))"

definition graph_error :: "line_resolver option \<Rightarrow> workflow \<Rightarrow> err option" where
  "graph_error src w =
     (case graph_problems src w of
        [] \<Rightarrow> None
      | ps \<Rightarrow> Some (EMsg (format_problems ''workflow graph is invalid'' src ps)))"

section \<open>The search is correct\<close>

definition edge_rel :: "(string \<Rightarrow> string list) \<Rightarrow> (string \<times> string) set" where
  "edge_rel adj = {(a, b). b \<in> set (adj a)}"

lemma edge_rel_iff [simp]: "(a, b) \<in> edge_rel adj \<longleftrightarrow> b \<in> set (adj a)"
  by (simp add: edge_rel_def)

text \<open>A cycle as it is reported: at least one edge, and the last node is the first.\<close>

definition walk :: "(string \<Rightarrow> string list) \<Rightarrow> string list \<Rightarrow> bool" where
  "walk adj p \<longleftrightarrow> (\<forall>i. Suc i < length p \<longrightarrow> p ! Suc i \<in> set (adj (p ! i)))"

definition is_cycle :: "(string \<Rightarrow> string list) \<Rightarrow> string list \<Rightarrow> bool" where
  "is_cycle adj c \<longleftrightarrow> 2 \<le> length c \<and> hd c = last c \<and> walk adj c"

lemma walk_snoc: "walk adj (p @ [a]) \<longleftrightarrow> walk adj p \<and> (p \<noteq> [] \<longrightarrow> a \<in> set (adj (last p)))"
proof (cases p rule: rev_cases)
  case (snoc q b)
  then show ?thesis
    by (auto simp: walk_def nth_append less_Suc_eq split: if_splits)
qed (simp add: walk_def)

lemma walk_suffix: "walk adj (p @ q) \<Longrightarrow> walk adj q"
proof -
  assume w: "walk adj (p @ q)"
  have "q ! Suc i \<in> set (adj (q ! i))" if "Suc i < length q" for i
    using w that unfolding walk_def
    by (metis add_Suc_right length_append nat_add_left_cancel_less nth_append_length_plus)
  then show ?thesis by (simp add: walk_def)
qed

lemma walk_trancl: "walk adj p \<Longrightarrow> 2 \<le> length p \<Longrightarrow> (hd p, last p) \<in> (edge_rel adj)\<^sup>+"
proof (induction p rule: rev_induct)
  case (snoc a p)
  show ?case
  proof (cases "length p = 1")
    case True
    then obtain b where "p = [b]" by (cases p) auto
    with snoc.prems(1) have "a \<in> set (adj b)" using walk_snoc [of adj p a] by simp
    with \<open>p = [b]\<close> show ?thesis by (auto intro: r_into_trancl)
  next
    case False
    with snoc.prems(2) have p: "2 \<le> length p" by simp
    then have "p \<noteq> []" by auto
    with snoc p have "(hd p, last p) \<in> (edge_rel adj)\<^sup>+" "(last p, a) \<in> edge_rel adj"
      by (auto simp: walk_snoc)
    with \<open>p \<noteq> []\<close> show ?thesis by (auto intro: trancl_into_trancl)
  qed
qed simp

lemma cycle_not_acyclic: "is_cycle adj c \<Longrightarrow> \<not> acyclic (edge_rel adj)"
  using walk_trancl unfolding is_cycle_def acyclic_def by metis

text \<open>What the colours mean: gray nodes are the stack, which is a path; black nodes are closed
  under successors and lie on no cycle.\<close>

definition visit_inv :: "(string \<Rightarrow> string list) \<Rightarrow> (string \<Rightarrow> colour) \<Rightarrow> string list \<Rightarrow> bool" where
  "visit_inv adj col st \<longleftrightarrow> {i. col i = Gray} = set st \<and> walk adj st \<and>
     (\<forall>i. col i = Black \<longrightarrow> (\<forall>j\<in>set (adj i). col j = Black) \<and> (i, i) \<notin> (edge_rel adj)\<^sup>+)"

lemma black_closed:
  assumes "visit_inv adj col st" and "(i, j) \<in> (edge_rel adj)\<^sup>+" and "col i = Black"
  shows "col j = Black"
  using assms(2,3)
proof (induction rule: trancl_induct)
  case (base j)
  with assms(1) show ?case by (auto simp: visit_inv_def)
next
  case (step j k)
  then have "col j = Black" by simp
  with step.hyps(2) assms(1) show ?case by (auto simp: visit_inv_def)
qed

lemma visit_inv_push:
  assumes "visit_inv adj col st" and "col n = White" and "st \<noteq> [] \<longrightarrow> n \<in> set (adj (last st))"
  shows "visit_inv adj (col(n := Gray)) (st @ [n])"
proof -
  have "{i. (col(n := Gray)) i = Gray} = insert n {i. col i = Gray}" by auto
  moreover have "j \<noteq> n" if "col i = Black" "j \<in> set (adj i)" for i j
    using assms that by (auto simp: visit_inv_def)
  ultimately show ?thesis using assms by (auto simp: visit_inv_def walk_snoc)
qed

lemma visit_inv_pop:
  assumes inv: "visit_inv adj col (st @ [n])" and "n \<notin> set st" and succ: "\<forall>j\<in>set (adj n). col j = Black"
  shows "visit_inv adj (col(n := Black)) st"
proof -
  have gray: "col n = Gray" using inv by (auto simp: visit_inv_def)
  have "(n, n) \<notin> (edge_rel adj)\<^sup>+"
  proof
    assume "(n, n) \<in> (edge_rel adj)\<^sup>+"
    then obtain j where j: "j \<in> set (adj n)" "(j, n) \<in> (edge_rel adj)\<^sup>*"
      by (metis edge_rel_iff tranclD)
    then have "col j = Black" using succ by blast
    moreover from j(2) have "j = n \<or> (j, n) \<in> (edge_rel adj)\<^sup>+" by (metis rtranclD)
    ultimately show False using gray black_closed [OF inv, of j n] by auto
  qed
  moreover have "{i. (col(n := Black)) i = Gray} = {i. col i = Gray} - {n}" by auto
  moreover have "walk adj st" using inv by (simp add: visit_inv_def walk_snoc)
  ultimately show ?thesis using inv assms(2) succ by (auto simp: visit_inv_def)
qed

lemma stack_cycle:
  assumes "walk adj st" and "n \<in> set st" and "n \<in> set (adj (last st))"
  shows "is_cycle adj (dropWhile (\<lambda>s. s \<noteq> n) st @ [n])"
proof -
  let ?d = "dropWhile (\<lambda>s. s \<noteq> n) st"
  have d: "?d \<noteq> []" using assms(2) by (auto simp: dropWhile_eq_Nil_conv)
  then have "hd ?d = n" using hd_dropWhile [OF d] by simp
  moreover have "last ?d = last st"
    using d by (metis last_appendR takeWhile_dropWhile_id)
  moreover have "walk adj ?d"
    using assms(1) walk_suffix [of adj "takeWhile (\<lambda>s. s \<noteq> n) st" ?d] by simp
  ultimately have "walk adj (?d @ [n])" "hd (?d @ [n]) = n" "2 \<le> length (?d @ [n])"
    using d assms(3) walk_snoc [of adj ?d n] by (simp_all add: Suc_le_eq)
  then show ?thesis by (simp add: is_cycle_def)
qed

lemma visit_correct:
  assumes "visit fuel adj ns col st = Some (r, col')" and "visit_inv adj col st"
    and "st \<noteq> [] \<longrightarrow> set ns \<subseteq> set (adj (last st))"
  shows "case r of
      Some c \<Rightarrow> is_cycle adj c
    | None \<Rightarrow> visit_inv adj col' st \<and> (\<forall>n\<in>set ns. col' n = Black) \<and> (\<forall>i. col i = Black \<longrightarrow> col' i = Black)"
  using assms
proof (induction fuel adj ns col st arbitrary: r col' rule: visit.induct)
  case (2 fuel adj n ns col st)
  have next_ok: "st \<noteq> [] \<longrightarrow> set ns \<subseteq> set (adj (last st))" and n_ok: "st \<noteq> [] \<longrightarrow> n \<in> set (adj (last st))"
    using "2.prems"(3) by auto
  show ?case
  proof (cases "col n")
    case White
    with "2.prems"(1) obtain k where k: "fuel = Suc k" by (cases fuel) auto
    from White "2.prems"(1) k obtain r1 col1 where
      v: "visit k adj (adj n) (col(n := Gray)) (st @ [n]) = Some (r1, col1)"
      by (auto split: option.splits)
    have push: "visit_inv adj (col(n := Gray)) (st @ [n])"
      using "2.prems"(2) White n_ok by (rule visit_inv_push)
    have new: "n \<notin> set st"
    proof
      assume "n \<in> set st"
      with "2.prems"(2) have "col n = Gray" unfolding visit_inv_def by blast
      with White show False by simp
    qed
    have IH1: "case r1 of Some c \<Rightarrow> is_cycle adj c
      | None \<Rightarrow> visit_inv adj col1 (st @ [n]) \<and> (\<forall>m\<in>set (adj n). col1 m = Black) \<and>
          (\<forall>i. (col(n := Gray)) i = Black \<longrightarrow> col1 i = Black)"
      by (rule "2.IH"(1) [OF White k v push]) simp
    show ?thesis
    proof (cases r1)
      case (Some c)
      with IH1 v White k "2.prems"(1) show ?thesis by auto
    next
      case None
      with IH1 have post: "visit_inv adj col1 (st @ [n])" "\<forall>m\<in>set (adj n). col1 m = Black"
        "\<forall>i. (col(n := Gray)) i = Black \<longrightarrow> col1 i = Black" by simp_all
      from None v White k "2.prems"(1) have
        rest: "visit fuel adj ns (col1(n := Black)) st = Some (r, col')" by simp
      have "visit_inv adj (col1(n := Black)) st" by (rule visit_inv_pop [OF post(1) new post(2)])
      from "2.IH"(2) [OF White k v refl None rest this next_ok] post(3) White
      show ?thesis by (cases r) (auto simp: visit_inv_def)
    qed
  next
    case Gray
    with "2.prems"(2) have n: "n \<in> set st" unfolding visit_inv_def by blast
    then have "st \<noteq> []" by auto
    with n_ok stack_cycle [OF _ n] "2.prems"(2) have "is_cycle adj (dropWhile (\<lambda>s. s \<noteq> n) st @ [n])"
      unfolding visit_inv_def by blast
    with Gray n "2.prems"(1) show ?thesis by auto
  next
    case Black
    with "2.prems"(1) have rest: "visit fuel adj ns col st = Some (r, col')" by simp
    from "2.IH"(4) [OF Black rest "2.prems"(2) next_ok] Black show ?thesis by (cases r) auto
  qed
qed simp

text \<open>The fuel suffices: a search among the nodes \<open>U\<close> enters each white node at most once.\<close>

definition whites :: "string set \<Rightarrow> (string \<Rightarrow> colour) \<Rightarrow> string set" where
  "whites U col = {i \<in> U. col i = White}"

lemma visit_total:
  assumes "finite U" and "\<forall>i\<in>U. set (adj i) \<subseteq> U" and "set ns \<subseteq> U" and "card (whites U col) \<le> fuel"
  shows "\<exists>r col'. visit fuel adj ns col st = Some (r, col') \<and> whites U col' \<subseteq> whites U col"
  using assms(2-4)
proof (induction fuel adj ns col st rule: visit.induct)
  case (2 fuel adj n ns col st)
  have fin: "finite (whites U c)" for c using assms(1) by (simp add: whites_def)
  have ns: "set ns \<subseteq> U" and n: "n \<in> U" using "2.prems"(2) by auto
  show ?case
  proof (cases "col n")
    case White
    then have mem: "n \<in> whites U col" using n by (simp add: whites_def)
    with fin have "0 < card (whites U col)" by (metis card_gt_0_iff empty_iff)
    with "2.prems"(3) obtain k where k: "fuel = Suc k" by (cases fuel) auto
    have gray: "whites U (col(n := Gray)) = whites U col - {n}" by (auto simp: whites_def)
    then have "card (whites U (col(n := Gray))) \<le> k"
      using mem fin "2.prems"(3) k by simp
    with "2.IH"(1) [OF White k "2.prems"(1)] "2.prems"(1) n obtain r1 col1 where
      v: "visit k adj (adj n) (col(n := Gray)) (st @ [n]) = Some (r1, col1)"
        "whites U col1 \<subseteq> whites U col"
      using gray by blast
    show ?thesis
    proof (cases r1)
      case (Some c)
      with v White k show ?thesis by auto
    next
      case None
      have w: "whites U (col1(n := Black)) \<subseteq> whites U col"
        using v(2) by (auto simp: whites_def)
      then have "card (whites U (col1(n := Black))) \<le> fuel"
        using card_mono [OF fin w] "2.prems"(3) by simp
      from "2.IH"(2) [OF White k v(1) refl None "2.prems"(1) ns this] obtain r c2 where
        "visit fuel adj ns (col1(n := Black)) st = Some (r, c2)" "whites U c2 \<subseteq> whites U col"
        using w by blast
      with v(1) White k None show ?thesis by (simp del: fun_upd_apply)
    qed
  next
    case Gray
    then show ?thesis
      using "2.IH"(3) [OF Gray _ "2.prems"(1) ns "2.prems"(3)] by (cases "n \<in> set st") auto
  next
    case Black
    then show ?thesis using "2.IH"(4) [OF Black "2.prems"(1) ns "2.prems"(3)] by auto
  qed
qed simp

lemma search_correct:
  assumes "finite U" and "\<forall>i\<in>U. set (adj i) \<subseteq> U" and "set is - {[]} \<subseteq> U" and "card (whites U col) \<le> fuel"
    and "visit_inv adj col []"
  shows "case search fuel adj is col of
      None \<Rightarrow> False
    | Some (Some c) \<Rightarrow> is_cycle adj c
    | Some None \<Rightarrow> \<forall>i\<in>set is. i = [] \<or> (i, i) \<notin> (edge_rel adj)\<^sup>+"
  using assms(3-5)
proof (induction "is" arbitrary: col)
  case (Cons i rest)
  have fin: "finite (whites U c)" for c using assms(1) by (simp add: whites_def)
  show ?case
  proof (cases "i \<noteq> [] \<and> col i = White")
    case False
    have "i = [] \<or> (i, i) \<notin> (edge_rel adj)\<^sup>+"
    proof (cases "col i")
      case Gray
      with Cons.prems(3) show ?thesis by (auto simp: visit_inv_def)
    next
      case Black
      with Cons.prems(3) show ?thesis by (auto simp: visit_inv_def)
    qed (use False in simp)
    moreover have "search fuel adj (i # rest) col = search fuel adj rest col"
      by (simp only: search.simps False if_False)
    moreover have "case search fuel adj rest col of
        None \<Rightarrow> False
      | Some (Some c) \<Rightarrow> is_cycle adj c
      | Some None \<Rightarrow> \<forall>i\<in>set rest. i = [] \<or> (i, i) \<notin> (edge_rel adj)\<^sup>+"
      using Cons.prems by (intro Cons.IH) auto
    ultimately show ?thesis by (simp split: option.splits)
  next
    case True
    have i: "set [i] \<subseteq> U" using Cons.prems(1) True by auto
    obtain r col' where v: "visit fuel adj [i] col [] = Some (r, col')" "whites U col' \<subseteq> whites U col"
      using visit_total [OF assms(1,2) i Cons.prems(2)] by blast
    note post = visit_correct [OF v(1) Cons.prems(3)]
    show ?thesis
    proof (cases r)
      case (Some c)
      with post v True show ?thesis by simp
    next
      case None
      with post have p: "visit_inv adj col' []" "col' i = Black" by simp_all
      have "card (whites U col') \<le> fuel" using card_mono [OF fin v(2)] Cons.prems(2) by simp
      with Cons.prems(1) p(1) have "case search fuel adj rest col' of
          None \<Rightarrow> False
        | Some (Some c) \<Rightarrow> is_cycle adj c
        | Some None \<Rightarrow> \<forall>i\<in>set rest. i = [] \<or> (i, i) \<notin> (edge_rel adj)\<^sup>+"
        by (intro Cons.IH) auto
      moreover have "(i, i) \<notin> (edge_rel adj)\<^sup>+" using p by (auto simp: visit_inv_def)
      moreover have "search fuel adj (i # rest) col = search fuel adj rest col'" using True v(1) None by simp
      ultimately show ?thesis by (simp split: option.splits)
    qed
  qed
qed simp

lemma find_cycle_correct:
  assumes "\<And>e. e \<in> set es \<Longrightarrow> fst e \<in> node_id ` set nodes - {[]} \<and> snd e \<in> node_id ` set nodes - {[]}"
  shows "case find_cycle (length nodes) nodes (adj_of es) of
      None \<Rightarrow> False
    | Some (Some c) \<Rightarrow> is_cycle (adj_of es) c \<and> \<not> acyclic (set es)
    | Some None \<Rightarrow> acyclic (set es)"
proof -
  let ?U = "node_id ` set nodes - {[]}" and ?adj = "adj_of es"
  have rel: "edge_rel ?adj = set es"
    by (force simp: edge_rel_def adj_of_def)
  have closed: "\<forall>i\<in>?U. set (?adj i) \<subseteq> ?U"
    using assms by (force simp: adj_of_def)
  have "card (whites ?U (\<lambda>i. White)) \<le> card (node_id ` set nodes)"
    by (intro card_mono) (auto simp: whites_def)
  also have "\<dots> \<le> length nodes"
    using card_image_le [of "set nodes" node_id] card_length [of nodes] by simp
  finally have fuel: "card (whites ?U (\<lambda>i. White)) \<le> length nodes" .
  have start: "visit_inv ?adj (\<lambda>i. White) []" by (simp add: visit_inv_def walk_def)
  have "case search (length nodes) ?adj (map node_id nodes) (\<lambda>i. White) of
      None \<Rightarrow> False
    | Some (Some c) \<Rightarrow> is_cycle ?adj c
    | Some None \<Rightarrow> \<forall>i\<in>set (map node_id nodes). i = [] \<or> (i, i) \<notin> (edge_rel ?adj)\<^sup>+"
    by (rule search_correct [OF _ closed _ fuel start]) auto
  moreover have "acyclic (set es)"
    if "\<forall>i\<in>set (map node_id nodes). i = [] \<or> (i, i) \<notin> (edge_rel ?adj)\<^sup>+"
    unfolding acyclic_def
  proof (intro allI notI)
    fix i
    assume i: "(i, i) \<in> (set es)\<^sup>+"
    then obtain j where "(i, j) \<in> set es" by (meson tranclD)
    with assms have "i \<in> node_id ` set nodes" "i \<noteq> []" by force+
    with that i show False unfolding rel by auto
  qed
  ultimately show ?thesis
    using cycle_not_acyclic [of ?adj] unfolding rel find_cycle_def by (auto split: option.splits)
qed

section \<open>The flood is correct\<close>

lemma set_rev_adj [simp]: "set (rev_adj es i) = {p. (p, i) \<in> set es}"
  by (force simp: rev_adj_def)

lemma flood_correct:
  assumes "\<forall>c\<in>set seen. \<forall>p. (p, c) \<in> set es \<longrightarrow> p \<in> set seen \<union> set st"
  shows "set (flood es seen st) = {x. \<exists>s\<in>set seen \<union> set st. (x, s) \<in> (set es)\<^sup>*}"
  using assms
proof (induction es seen st rule: flood.induct)
  case (1 es seen)
  have "x \<in> set seen" if "(x, s) \<in> (set es)\<^sup>*" "s \<in> set seen" for x s
    using that 1 by (induction rule: converse_rtrancl_induct) auto
  then show ?case by auto
next
  case (2 es seen cur st)
  show ?case
  proof (cases "cur \<in> set seen")
    case True
    with "2.prems" have "\<forall>c\<in>set seen. \<forall>p. (p, c) \<in> set es \<longrightarrow> p \<in> set seen \<union> set st" by auto
    with "2.IH"(1) [OF True] True show ?thesis by (auto simp: insert_absorb)
  next
    case False
    from "2.prems" have "\<forall>c\<in>set (cur # seen). \<forall>p. (p, c) \<in> set es \<longrightarrow>
        p \<in> set (cur # seen) \<union> set (rev (rev_adj es cur) @ st)" by auto
    note IH = "2.IH"(2) [OF False this]
    have "\<exists>s\<in>set seen \<union> set (cur # st). (x, s) \<in> (set es)\<^sup>*"
      if "(x, s) \<in> (set es)\<^sup>*" "(s, cur) \<in> set es" for x s
      using that by (auto intro: rtrancl_into_rtrancl)
    with False IH show ?thesis by auto
  qed
qed

lemma ancestors_of_correct: "set (ancestors_of i es) = {x. (x, i) \<in> (set es)\<^sup>+}"
proof -
  have "set (ancestors_of i es) = {x. \<exists>s. (s, i) \<in> set es \<and> (x, s) \<in> (set es)\<^sup>*}"
    using flood_correct [of "[]" es "rev (rev_adj es i)"] by (auto simp: ancestors_of_def)
  also have "\<dots> = {x. (x, i) \<in> (set es)\<^sup>+}"
    by (auto simp: trancl_unfold_right)
  finally show ?thesis .
qed

section \<open>What a workflow without problems is\<close>

lemma index_nodes_correct:
  "index_nodes src i ns ix = (ps, ix') \<Longrightarrow> dom ix' = dom ix \<union> (node_id ` set ns - {[]}) \<and>
    (ps = [] \<longleftrightarrow> [] \<notin> node_id ` set ns \<and> distinct (map node_id ns) \<and> dom ix \<inter> node_id ` set ns = {})"
proof (induction ns arbitrary: i ix ps ix')
  case (Cons n ns)
  consider (empty) "node_id n = []" | (dup) k where "node_id n \<noteq> []" "ix (node_id n) = Some k"
    | (new) "node_id n \<noteq> []" "ix (node_id n) = None" by blast
  then show ?case
  proof cases
    case empty
    obtain qs jx where q: "index_nodes src (Suc i) ns ix = (qs, jx)" by fastforce
    with Cons.prems empty have "ix' = jx" "ps \<noteq> []" by (auto simp: Let_def)
    with Cons.IH [OF q] empty show ?thesis by auto
  next
    case dup
    obtain qs jx where q: "index_nodes src (Suc i) ns ix = (qs, jx)" by fastforce
    with Cons.prems dup have "ix' = jx" "ps \<noteq> []" by (auto simp: Let_def)
    with Cons.IH [OF q] dup show ?thesis by auto
  next
    case new
    then have q: "index_nodes src (Suc i) ns (ix(node_id n \<mapsto> i)) = (ps, ix')"
      using Cons.prems by (simp add: Let_def)
    have d: "dom (ix(node_id n \<mapsto> i)) = insert (node_id n) (dom ix)" by simp
    have "node_id n \<notin> dom ix" using new by (simp add: domIff)
    with Cons.IH [OF q, unfolded d] new(1) show ?thesis
      by (auto simp del: domIff)
  qed
qed auto

text \<open>The reference definition: what a valid workflow is, without pointers, passes or searches.\<close>

definition wf_rel :: "workflow \<Rightarrow> (string \<times> string) set" where
  "wf_rel w = {(edge_from e, edge_to e) | e. e \<in> set (wf_edges w)}"

definition ids_ok :: "workflow \<Rightarrow> bool" where
  "ids_ok w \<longleftrightarrow> [] \<notin> set (map node_id (wf_nodes w)) \<and> distinct (map node_id (wf_nodes w))"

definition backing_ok :: "workflow \<Rightarrow> bool" where
  "backing_ok w \<longleftrightarrow> (\<forall>n\<in>set (wf_nodes w). (node_worker n = []) \<noteq> (node_tool n = None))"

definition inputs_ok :: "workflow \<Rightarrow> bool" where
  "inputs_ok w \<longleftrightarrow> (\<forall>n\<in>set (wf_nodes w). \<forall>t. node_tool n = Some t \<longrightarrow>
     fst ` set (walk_input_refs (JObj (tc_input t)) []) \<subseteq> set (map in_name (wf_inputs w)))"

definition edges_ok :: "workflow \<Rightarrow> bool" where
  "edges_ok w \<longleftrightarrow> (\<forall>e\<in>set (wf_edges w). {edge_from e, edge_to e} \<subseteq> set (map node_id (wf_nodes w)))"

definition connected_ok :: "workflow \<Rightarrow> bool" where
  "connected_ok w \<longleftrightarrow> length (wf_nodes w) \<le> 1 \<or> set (map node_id (wf_nodes w)) \<subseteq> Domain (wf_rel w) \<union> Range (wf_rel w)"

definition context_ok :: "workflow \<Rightarrow> bool" where
  "context_ok w \<longleftrightarrow> (\<forall>n\<in>set (wf_nodes w). \<forall>p refs. node_policy n = Some p \<longrightarrow> cp_mode p = ContextArtifacts \<longrightarrow>
     cp_params p = Some refs \<longrightarrow> (\<forall>r\<in>set refs. r \<in> set (map node_id (wf_nodes w)) \<and> (r, node_id n) \<in> (wf_rel w)\<^sup>+))"

definition valid_workflow :: "workflow \<Rightarrow> bool" where
  "valid_workflow w \<longleftrightarrow> ids_ok w \<and> backing_ok w \<and> inputs_ok w \<and> edges_ok w \<and> connected_ok w \<and>
     acyclic (wf_rel w) \<and> context_ok w"

lemma concat_enum_Nil: "concat (map f (enum xs)) = [] \<longleftrightarrow> (\<forall>i < length xs. f (i, xs ! i) = [])"
proof -
  have "enum xs = map (\<lambda>i. (i, xs ! i)) [0..<length xs]"
    by (auto intro: nth_equalityI simp: enum_def)
  then show ?thesis by auto
qed

lemma walk_refs_ptr:
  "fst ` set (walk_input_refs v p) = fst ` set (walk_input_refs v q)"
  "fst ` set (walk_fields fs p) = fst ` set (walk_fields fs q)"
  "fst ` set (walk_items vs i p) = fst ` set (walk_items vs k q)"
proof (induction v p and fs p and vs i p arbitrary: q and q and k q
    rule: walk_input_refs_walk_fields_walk_items.induct)
  case (1 s ptr)
  show ?case by (cases "input_placeholder s") simp_all
next
  case (6 k v fs ptr)
  from "6.IH"(1) [of "q @ ''/'' @ k"] "6.IH"(2) [of q] show ?case by (simp add: image_Un)
next
  case (8 v vs i ptr)
  from "8.IH"(1) [of "q @ ''/'' @ nat_str k"] "8.IH"(2) [of "Suc k" q] show ?case by (simp add: image_Un)
qed (simp_all split: option.split)

lemma check_node_ref_Nil:
  "check_node_ref src nodes = [] \<longleftrightarrow>
     (\<forall>n\<in>set nodes. node_id n = [] \<or> (node_worker n = []) \<noteq> (node_tool n = None))"
  unfolding check_node_ref_def concat_enum_Nil all_set_conv_all_nth [of nodes]
  by (auto simp: Let_def)

lemma check_input_refs_Nil: "check_input_refs src w = [] \<longleftrightarrow> inputs_ok w"
proof -
  have "input_problems src w i n = [] \<longleftrightarrow> (\<forall>t. node_tool n = Some t \<longrightarrow>
      fst ` set (walk_input_refs (JObj (tc_input t)) []) \<subseteq> set (map in_name (wf_inputs w)))" for i n
  proof (cases "node_tool n")
    case (Some t)
    then have "input_problems src w i n = [] \<longleftrightarrow>
        fst ` set (walk_input_refs (JObj (tc_input t)) (''/nodes/'' @ nat_str i @ ''/tool/input''))
          \<subseteq> set (map in_name (wf_inputs w))"
      unfolding input_problems_def by (simp only: option.case map_is_Nil_conv filter_empty_conv) auto
    also have "fst ` set (walk_input_refs (JObj (tc_input t)) (''/nodes/'' @ nat_str i @ ''/tool/input'')) =
        fst ` set (walk_input_refs (JObj (tc_input t)) [])"
      by (rule walk_refs_ptr(1))
    finally show ?thesis using Some by simp
  qed (simp add: input_problems_def)
  then show ?thesis
    unfolding check_input_refs_def concat_enum_Nil inputs_ok_def all_set_conv_all_nth [of "wf_nodes w"]
    by (simp only: prod.case)
qed

lemma edge_problems_Nil:
  "edge_problems src ix es = [] \<longleftrightarrow> (\<forall>e\<in>set es. {edge_from e, edge_to e} \<subseteq> dom ix)"
  unfolding edge_problems_def concat_enum_Nil all_set_conv_all_nth [of es]
  by (auto simp: endpoint_problem_def domIff)

lemma check_context_Nil:
  "check_context_artifacts src ix es nodes = [] \<longleftrightarrow>
     (\<forall>n\<in>set nodes. \<forall>p refs. node_policy n = Some p \<longrightarrow> cp_mode p = ContextArtifacts \<longrightarrow> cp_params p = Some refs \<longrightarrow>
        (\<forall>r\<in>set refs. r \<in> dom ix \<and> (r, node_id n) \<in> (set es)\<^sup>+))"
proof -
  have ref: "ref_problems src ix es i n j r = [] \<longleftrightarrow> r \<in> dom ix \<and> (r, node_id n) \<in> (set es)\<^sup>+" for i n j r
    by (auto simp: ref_problems_def Let_def ancestors_of_correct domIff)
  have "context_problems src ix es i n = [] \<longleftrightarrow>
      (\<forall>p refs. node_policy n = Some p \<longrightarrow> cp_mode p = ContextArtifacts \<longrightarrow> cp_params p = Some refs \<longrightarrow>
        (\<forall>r\<in>set refs. r \<in> dom ix \<and> (r, node_id n) \<in> (set es)\<^sup>+))" for i n
  proof (cases "node_policy n")
    case (Some p)
    show ?thesis
    proof (cases "cp_mode p = ContextArtifacts \<and> cp_params p \<noteq> None")
      case True
      then obtain refs where r: "cp_mode p = ContextArtifacts" "cp_params p = Some refs" by blast
      have "context_problems src ix es i n =
          concat (map (\<lambda>(j, ref). ref_problems src ix es i n j ref) (enum refs))"
        using Some r by (simp add: context_problems_def)
      then have "context_problems src ix es i n = [] \<longleftrightarrow>
          (\<forall>k<length refs. refs ! k \<in> dom ix \<and> (refs ! k, node_id n) \<in> (set es)\<^sup>+)"
        by (simp only: concat_enum_Nil prod.case ref)
      then show ?thesis using Some r by (simp add: all_set_conv_all_nth)
    qed (use Some in \<open>auto simp: context_problems_def split: option.splits\<close>)
  qed (simp add: context_problems_def)
  then show ?thesis
    unfolding check_context_artifacts_def concat_enum_Nil all_set_conv_all_nth [of nodes]
    by (simp only: prod.case)
qed

lemma known_edges_rel:
  "(\<forall>e\<in>set (wf_edges w). {edge_from e, edge_to e} \<subseteq> dom ix) \<Longrightarrow> set (known_edges ix (wf_edges w)) = wf_rel w"
  by (auto simp: known_edges_def wf_rel_def domIff)

lemma graph_problems_Nil: "graph_problems src w = [] \<longleftrightarrow> valid_workflow w"
proof -
  obtain dups ix where ix: "index_nodes src 0 (wf_nodes w) Map.empty = (dups, ix)" by fastforce
  let ?es = "known_edges ix (wf_edges w)" and ?ids = "set (map node_id (wf_nodes w))"
  have dom: "dom ix = ?ids - {[]}" and dups: "dups = [] \<longleftrightarrow> ids_ok w"
    using index_nodes_correct [OF ix] by (auto simp: ids_ok_def)
  have known: "fst e \<in> node_id ` set (wf_nodes w) - {[]} \<and> snd e \<in> node_id ` set (wf_nodes w) - {[]}" if "e \<in> set ?es" for e
    using that dom by (auto simp: known_edges_def domIff [symmetric])
  note cyc = find_cycle_correct [of ?es, OF known]
  show ?thesis
  proof (cases "ids_ok w \<and> edges_ok w")
    case True
    then have d: "dom ix = ?ids" using dom by (auto simp: ids_ok_def)
    with True have all: "\<forall>e\<in>set (wf_edges w). {edge_from e, edge_to e} \<subseteq> dom ix" by (simp add: edges_ok_def)
    note rel = known_edges_rel [OF all]
    have ne: "node_id n \<noteq> []" if "n \<in> set (wf_nodes w)" for n
      using True that by (force simp: ids_ok_def)
    have orphans: "orphan_problems src ix ?es (wf_nodes w) = [] \<longleftrightarrow> connected_ok w"
      using ne rel by (auto simp: orphan_problems_def connected_ok_def filter_empty_conv Domain_fst Range_snd)
    have ctx: "check_context_artifacts src ix ?es (wf_nodes w) = [] \<longleftrightarrow> context_ok w"
      using rel d by (simp add: check_context_Nil context_ok_def)
    have node_refs: "check_node_ref src (wf_nodes w) = [] \<longleftrightarrow> backing_ok w"
      using ne by (simp add: check_node_ref_Nil backing_ok_def)
    show ?thesis
      using cyc True ix dups all orphans ctx node_refs check_input_refs_Nil [of src w] rel
      by (auto simp: graph_problems_def Let_def valid_workflow_def edge_problems_Nil split: option.splits)
  next
    case False
    then have "dups \<noteq> [] \<or> edge_problems src ix (wf_edges w) \<noteq> []"
      using dups dom by (auto simp: edge_problems_Nil edges_ok_def)
    with False ix show ?thesis by (auto simp: graph_problems_def Let_def valid_workflow_def)
  qed
qed

text \<open>C6. Validation decides validity: \<open>Graph\<close> reports no problem exactly for the workflows whose
  node ids are non-empty and distinct, whose nodes are backed by a worker or a tool but not
  both, whose input references are declared, whose edges join existing nodes, in which no node
  of several is isolated, whose edges form no cycle, and whose context policies name only
  nodes upstream.\<close>

theorem graph_decides_validity: "graph_problems src w = [] \<longleftrightarrow> valid_workflow w"
  by (rule graph_problems_Nil)

text \<open>A reported cycle is one.\<close>

lemma reported_cycle:
  assumes "find_cycle (length nodes) nodes (adj_of es) = Some (Some c)"
    and "\<And>e. e \<in> set es \<Longrightarrow> fst e \<in> node_id ` set nodes - {[]} \<and> snd e \<in> node_id ` set nodes - {[]}"
  shows "is_cycle (adj_of es) c"
  using find_cycle_correct [of es, OF assms(2)] assms(1) by simp

text \<open>A node no edge touches is a problem in every workflow of several nodes, also when the node is
  the dedicated fallback of another, the use the scheduler is made for.\<close>

lemma isolated_fallback_rejected:
  assumes "i \<in> set (map node_id (wf_nodes w))" and "1 < length (wf_nodes w)"
    and "\<And>e. e \<in> set (wf_edges w) \<Longrightarrow> edge_from e \<noteq> i \<and> edge_to e \<noteq> i"
  shows "graph_problems src w \<noteq> []"
proof -
  have "i \<notin> Domain (wf_rel w) \<union> Range (wf_rel w)"
    using assms(3) by (auto simp: wf_rel_def)
  with assms(1,2) have "\<not> connected_ok w" by (auto simp: connected_ok_def)
  then show ?thesis by (simp add: graph_problems_Nil valid_workflow_def)
qed

end
