(* ===== verification/RunConfig.thy ===== *)
theory RunConfig
  imports GoErr
begin

text \<open>
  What a run is configured with before its first node: the resolved workflow inputs
  (\<open>core/engine/inputs.go\<close>), the failure policy of a node
  (\<open>core/engine/failure_policy.go\<close>) and the cache mode (\<open>core/engine/scheduler.go\<close>).
\<close>

section \<open>Workflow inputs\<close>

text \<open>The loop over the declarations: the resolved map and the missing names so far.\<close>

fun resolve_decls ::
  "(string \<rightharpoonup> string) \<Rightarrow> string list \<Rightarrow> input_decl list \<Rightarrow> (string \<rightharpoonup> string) \<times> string list" where
  "resolve_decls r missing [] = (r, missing)"
| "resolve_decls r missing (d # ds) =
     (if r (in_name d) \<noteq> None then resolve_decls r missing ds
      else if in_default d \<noteq> '''' then resolve_decls (r(in_name d \<mapsto> in_default d)) missing ds
      else if in_required d then resolve_decls r (missing @ [in_name d]) ds
      else resolve_decls r missing ds)"

definition resolve_workflow_inputs ::
  "input_decl list \<Rightarrow> (string \<rightharpoonup> string) \<Rightarrow> err + (string \<rightharpoonup> string)" where
  "resolve_workflow_inputs decls supplied =
     (case resolve_decls supplied [] decls of (resolved, missing) \<Rightarrow>
        if missing \<noteq> []
        then Inl (errorf '''' (ESentinel ErrMissingInput) ('': '' @ join '', '' (sort missing)))
        else Inr resolved)"

section \<open>Failure policy\<close>

definition failure_policy_of :: "node \<Rightarrow> failure_policy" where
  "failure_policy_of n =
     (case node_on_failure n of
        Some p \<Rightarrow> if fp_mode p \<noteq> FailUnset then p else \<lparr>fp_mode = FailExecution, fp_fallback = ''''\<rparr>
      | None \<Rightarrow> \<lparr>fp_mode = FailExecution, fp_fallback = ''''\<rparr>)"

section \<open>Cache mode\<close>

datatype cache_mode = CacheUnset | CacheOn | CacheOff | CacheReadOnly

definition normalize_cache_mode :: "bool \<Rightarrow> cache_mode \<Rightarrow> cache_mode" where
  "normalize_cache_mode has_cache m =
     (if \<not> has_cache then CacheOff else if m = CacheUnset then CacheOn else m)"

section \<open>Lemmas\<close>

lemma resolve_decls_supplied:
  "r k = Some v \<Longrightarrow> fst (resolve_decls r missing ds) k = Some v"
proof (induction ds arbitrary: r missing)
  case (Cons d ds)
  then have "(r(in_name d \<mapsto> in_default d)) k = Some v" if "r (in_name d) = None"
    using that by auto
  with Cons show ?case by simp
qed simp

lemma resolve_decls_dom:
  "dom (fst (resolve_decls r missing ds)) =
     dom r \<union> {x. \<exists>d\<in>set ds. in_name d = x \<and> in_default d \<noteq> ''''}"
proof (induction ds arbitrary: r missing)
  case (Cons d ds)
  have set_Cons: "{x. \<exists>e\<in>set (d # ds). in_name e = x \<and> in_default e \<noteq> ''''} =
      (if in_default d \<noteq> '''' then {in_name d} else {}) \<union>
      {x. \<exists>e\<in>set ds. in_name e = x \<and> in_default e \<noteq> ''''}"
    by auto
  show ?case
  proof (cases "r (in_name d)")
    case None
    then show ?thesis unfolding set_Cons by (auto simp: Cons.IH split: if_splits)
  next
    case (Some v)
    then have "in_name d \<in> dom r" by blast
    with Some show ?thesis unfolding set_Cons by (auto simp: Cons.IH)
  qed
qed auto

text \<open>A declaration is unsatisfied when it is required, has no default, was not supplied and
  no earlier declaration of the same name brought a default.\<close>

definition unsatisfied :: "(string \<rightharpoonup> string) \<Rightarrow> input_decl list \<Rightarrow> input_decl \<Rightarrow> bool" where
  "unsatisfied r pre d \<longleftrightarrow>
     in_required d \<and> in_default d = '''' \<and> r (in_name d) = None \<and>
     (\<forall>p\<in>set pre. in_name p = in_name d \<longrightarrow> in_default p = '''')"

lemma resolve_decls_missing_append:
  "resolve_decls r missing ds =
     (fst (resolve_decls r [] ds), missing @ snd (resolve_decls r [] ds))"
proof (induction ds arbitrary: r missing)
  case (Cons d ds)
  show ?case
    using Cons.IH [of r "missing @ [in_name d]"] Cons.IH [of r "[in_name d]"]
      Cons.IH [of r missing] Cons.IH [of "r(in_name d \<mapsto> in_default d)" missing]
    by (simp add: fun_upd_def)
qed simp

lemma unsatisfied_Cons:
  "unsatisfied r (a # pre) d \<longleftrightarrow>
     unsatisfied r pre d \<and> (in_name a = in_name d \<longrightarrow> in_default a = '''')"
  by (auto simp: unsatisfied_def)

lemma unsatisfied_upd:
  "unsatisfied (r(k \<mapsto> v)) pre d \<longleftrightarrow> unsatisfied r pre d \<and> k \<noteq> in_name d"
  by (auto simp: unsatisfied_def)

lemma resolve_decls_missing_iff:
  "snd (resolve_decls r [] ds) \<noteq> [] \<longleftrightarrow>
     (\<exists>pre d post. ds = pre @ d # post \<and> unsatisfied r pre d)"
proof (induction ds arbitrary: r)
  case (Cons a ds)
  have split: "(\<exists>pre d post. a # ds = pre @ d # post \<and> unsatisfied r pre d) \<longleftrightarrow>
      unsatisfied r [] a \<or>
      (\<exists>pre d post. ds = pre @ d # post \<and> unsatisfied r (a # pre) d)"
    by (rule ex_split_Cons)
  consider (present) "r (in_name a) \<noteq> None" | (default) "r (in_name a) = None" "in_default a \<noteq> ''''"
    | (req) "r (in_name a) = None" "in_default a = ''''" "in_required a"
    | (opt) "r (in_name a) = None" "in_default a = ''''" "\<not> in_required a"
    by blast
  then show ?case
  proof cases
    case present
    then have "unsatisfied r (a # pre) d \<longleftrightarrow> unsatisfied r pre d" for pre d
      by (auto simp: unsatisfied_def)
    moreover have "\<not> unsatisfied r [] a" using present by (simp add: unsatisfied_def)
    moreover have "resolve_decls r [] (a # ds) = resolve_decls r [] ds" using present by simp
    ultimately show ?thesis unfolding split using Cons.IH [of r] by simp
  next
    case default
    then have "unsatisfied (r(in_name a \<mapsto> in_default a)) pre d \<longleftrightarrow> unsatisfied r (a # pre) d" for pre d
      by (auto simp: unsatisfied_upd unsatisfied_Cons)
    moreover have "\<not> unsatisfied r [] a" using default by (simp add: unsatisfied_def)
    moreover have "resolve_decls r [] (a # ds) = resolve_decls (r(in_name a \<mapsto> in_default a)) [] ds"
      using default by simp
    ultimately show ?thesis
      unfolding split using Cons.IH [of "r(in_name a \<mapsto> in_default a)"] by (simp add: fun_upd_def)
  next
    case req
    then have "unsatisfied r [] a" by (simp add: unsatisfied_def)
    moreover have "snd (resolve_decls r [] (a # ds)) \<noteq> []"
      using req resolve_decls_missing_append [of r "[in_name a]" ds] by simp
    ultimately show ?thesis unfolding split by simp
  next
    case opt
    then have "unsatisfied r (a # pre) d \<longleftrightarrow> unsatisfied r pre d" for pre d
      by (simp add: unsatisfied_Cons)
    moreover have "\<not> unsatisfied r [] a" using opt by (simp add: unsatisfied_def)
    moreover have "resolve_decls r [] (a # ds) = resolve_decls r [] ds" using opt by simp
    ultimately show ?thesis unfolding split using Cons.IH [of r] by simp
  qed
qed simp

lemma resolve_inputs_error_iff:
  "(\<exists>e. resolve_workflow_inputs ds r = Inl e) \<longleftrightarrow>
     (\<exists>pre d post. ds = pre @ d # post \<and> unsatisfied r pre d)"
proof -
  have "(\<exists>e. resolve_workflow_inputs ds r = Inl e) \<longleftrightarrow> snd (resolve_decls r [] ds) \<noteq> []"
    by (auto simp: resolve_workflow_inputs_def split: prod.splits)
  then show ?thesis by (simp add: resolve_decls_missing_iff)
qed

lemma resolve_inputs_error_missing:
  "resolve_workflow_inputs ds r = Inl e \<Longrightarrow> is_err ErrMissingInput e"
  by (auto simp: resolve_workflow_inputs_def split: prod.splits if_splits)

lemma resolve_inputs_Inr:
  "resolve_workflow_inputs ds r = Inr m \<Longrightarrow>
     m = fst (resolve_decls r [] ds) \<and> snd (resolve_decls r [] ds) = []"
  by (auto simp: resolve_workflow_inputs_def split: prod.splits if_splits)

lemma resolve_decls_closed:
  assumes "\<And>d. d \<in> set ds \<Longrightarrow> r (in_name d) = None \<Longrightarrow> in_default d = '''' \<and> \<not> in_required d"
  shows "resolve_decls r [] ds = (r, [])"
  using assms by (induction ds) auto

lemma resolved_undefined:
  assumes "resolve_workflow_inputs ds r = Inr m" and "d \<in> set ds" and "m (in_name d) = None"
  shows "in_default d = '''' \<and> \<not> in_required d"
proof -
  note m = resolve_inputs_Inr [OF assms(1)]
  from assms(3) have nd: "in_name d \<notin> dom m" by auto
  then have "in_name d \<notin> dom r"
    and nodef: "\<And>p. p \<in> set ds \<Longrightarrow> in_name p = in_name d \<Longrightarrow> in_default p = ''''"
    using resolve_decls_dom [of r "[]" ds] m by fastforce+
  then have notin: "r (in_name d) = None" by blast
  from assms(2) obtain pre post where ds: "ds = pre @ d # post" by (meson split_list)
  have "\<not> unsatisfied r pre d"
    using m resolve_decls_missing_iff [of r ds] ds by blast
  with notin nodef assms(2) ds show ?thesis
    by (auto simp: unsatisfied_def)
qed

text \<open>The resolved map is a fixed point: resolving again with it as the supplied values gives it
  back, so a resumed run sees the inputs of the original.\<close>

lemma resolve_inputs_idem:
  assumes "resolve_workflow_inputs ds r = Inr m"
  shows "resolve_workflow_inputs ds m = Inr m"
  using resolve_decls_closed [of ds m] resolved_undefined [OF assms]
  by (simp add: resolve_workflow_inputs_def)

lemma resolve_inputs_value:
  assumes "resolve_workflow_inputs ds r = Inr m"
  shows "r k = Some v \<Longrightarrow> m k = Some v"
    and "\<lbrakk>d \<in> set ds; in_required d\<rbrakk> \<Longrightarrow> m (in_name d) \<noteq> None"
  using resolve_inputs_Inr [OF assms] resolved_undefined [OF assms]
  by (auto simp: resolve_decls_supplied)

end
