(* ===== verification/BudgetTracker.thy ===== *)
theory BudgetTracker
  imports GoErr
begin

text \<open>
  \<open>core/engine/budget.go\<close>: spend against a budget. The clock \<open>now()\<close> is the argument
  \<open>now\<close> (nanoseconds) of the operations that read it. Costs are exact rationals,
  tokens an \<open>int64\<close> that wraps.
\<close>

section \<open>The tracker\<close>

record budget_tracker =
  bt_limit :: budget
  bt_start :: int
  bt_cost :: rat
  bt_tokens :: int
  bt_warned :: bool

definition new_budget_tracker :: "budget \<Rightarrow> int \<Rightarrow> budget_tracker" where
  "new_budget_tracker limit now =
     \<lparr>bt_limit = limit, bt_start = now, bt_cost = 0, bt_tokens = 0, bt_warned = False\<rparr>"

definition budget_add :: "rat \<Rightarrow> int \<Rightarrow> budget_tracker \<Rightarrow> budget_tracker" where
  "budget_add c n b = b\<lparr>bt_cost := bt_cost b + c, bt_tokens := wrap64 (bt_tokens b + n)\<rparr>"

text \<open>\<open>Duration.Milliseconds\<close>: integer division that truncates towards zero.\<close>

definition millis :: "int \<Rightarrow> int" where
  "millis d = sgn d * (\<bar>d\<bar> div 1000000)"

definition elapsed_ms :: "budget_tracker \<Rightarrow> int \<Rightarrow> int" where
  "elapsed_ms b now = millis (now - bt_start b)"

definition budget_exceeded :: "budget_tracker \<Rightarrow> int \<Rightarrow> bool" where
  "budget_exceeded b now \<longleftrightarrow>
     (let l = bt_limit b in
      if 0 < max_cost_usd l \<and> max_cost_usd l \<le> bt_cost b then True
      else if 0 < max_tokens l \<and> max_tokens l \<le> bt_tokens b then True
      else if 0 < max_duration_ms l \<and> max_duration_ms l \<le> elapsed_ms b now then True
      else False)"

definition warn_threshold :: rat where
  "warn_threshold = 4 / 5"

definition warn_hit :: "budget_tracker \<Rightarrow> int \<Rightarrow> bool" where
  "warn_hit b now \<longleftrightarrow>
     (let l = bt_limit b in
      (0 < max_cost_usd l \<and> warn_threshold * max_cost_usd l \<le> bt_cost b) \<or>
      (0 < max_tokens l \<and> warn_threshold * of_int (max_tokens l) \<le> of_int (bt_tokens b)) \<or>
      (0 < max_duration_ms l \<and>
         warn_threshold * of_int (max_duration_ms l) \<le> of_int (elapsed_ms b now)))"

definition should_warn :: "budget_tracker \<Rightarrow> int \<Rightarrow> budget_tracker \<times> bool" where
  "should_warn b now =
     (if bt_warned b then (b, False)
      else (let hit = warn_hit b now in (if hit then b\<lparr>bt_warned := True\<rparr> else b, hit)))"

definition budget_status_payload :: "budget_tracker \<Rightarrow> int \<Rightarrow> payload" where
  "budget_status_payload b now =
     [(''spentCostUsd'', JNum (bt_cost b)), (''spentTokens'', jint (bt_tokens b)),
      (''elapsedMs'', jint (elapsed_ms b now)), (''maxCostUsd'', JNum (max_cost_usd (bt_limit b))),
      (''maxTokens'', jint (max_tokens (bt_limit b))),
      (''maxDurationMs'', jint (max_duration_ms (bt_limit b)))]"

section \<open>Lemmas\<close>

lemma budget_add_simps [simp]:
  "bt_limit (budget_add c n b) = bt_limit b" "bt_start (budget_add c n b) = bt_start b"
  "bt_cost (budget_add c n b) = bt_cost b + c" "bt_warned (budget_add c n b) = bt_warned b"
  "bt_tokens (budget_add c n b) = wrap64 (bt_tokens b + n)"
  by (simp_all add: budget_add_def)

lemma should_warn_limit [simp]:
  "bt_limit (fst (should_warn b now)) = bt_limit b"
  "bt_cost (fst (should_warn b now)) = bt_cost b"
  "bt_tokens (fst (should_warn b now)) = bt_tokens b"
  "bt_start (fst (should_warn b now)) = bt_start b"
  by (simp_all add: should_warn_def Let_def)

lemma should_warn_once: "bt_warned b \<Longrightarrow> \<not> snd (should_warn b now)"
  by (simp add: should_warn_def)

lemma should_warn_sets: "snd (should_warn b now) \<Longrightarrow> bt_warned (fst (should_warn b now))"
  by (auto simp: should_warn_def Let_def split: if_splits)

lemma should_warn_warned_mono: "bt_warned b \<Longrightarrow> bt_warned (fst (should_warn b now))"
  by (auto simp: should_warn_def Let_def)

lemma millis_mono: "a \<le> b \<Longrightarrow> millis a \<le> millis b"
proof -
  assume ab: "a \<le> b"
  consider "0 \<le> a" | "a < 0" "0 \<le> b" | "b < 0" using ab by linarith
  then show ?thesis
  proof cases
    case 1
    with ab show ?thesis by (auto simp: millis_def sgn_if zdiv_mono1)
  next
    case 2
    then have "millis a \<le> 0" and "0 \<le> millis b"
      by (auto simp: millis_def sgn_if pos_imp_zdiv_nonneg_iff)
    then show ?thesis by simp
  next
    case 3
    with ab show ?thesis by (auto simp: millis_def sgn_if zdiv_mono1)
  qed
qed

lemma elapsed_mono: "now \<le> now' \<Longrightarrow> elapsed_ms b now \<le> elapsed_ms b now'"
  by (simp add: elapsed_ms_def millis_mono)

lemma scale_le: "0 < m \<Longrightarrow> m \<le> c \<Longrightarrow> warn_threshold * m \<le> (c :: rat)"
  by (simp add: warn_threshold_def)

text \<open>Reaching a limit is past the warning threshold in the same dimension.\<close>

lemma exceeded_warn_hit: "budget_exceeded b now \<Longrightarrow> warn_hit b now"
  by (auto simp: budget_exceeded_def warn_hit_def Let_def scale_le split: if_splits)

lemma budget_exceeded_mono:
  assumes "budget_exceeded b now" and "0 \<le> c" and "0 \<le> n" and "now \<le> now'"
    and "int64_range (bt_tokens b + n)"
  shows "budget_exceeded (budget_add c n b) now'"
  using assms elapsed_mono [OF assms(4), of "budget_add c n b"]
  by (auto simp: budget_exceeded_def Let_def elapsed_ms_def split: if_splits)

lemma budget_unlimited:
  assumes "max_cost_usd l = 0" and "max_tokens l = 0" and "max_duration_ms l = 0"
    and "bt_limit b = l"
  shows "\<not> budget_exceeded b now" and "\<not> warn_hit b now"
  using assms by (auto simp: budget_exceeded_def warn_hit_def Let_def)

end
