(* ===== verification/Condition.thy ===== *)
theory Condition
  imports GoErr
begin

text \<open>
  Conditional edges (\<open>core/engine/conditional.go\<close>): the dotted-path walk over a decoded
  JSON document and the scalar comparison. Decoding (\<open>encoding/json\<close>) is the argument
  \<open>unmarshal\<close> of \<open>eval_condition\<close>: an error or the decoded document.
\<close>

section \<open>Path lookup\<close>

fun step_path :: "gval \<Rightarrow> string \<Rightarrow> gval option" where
  "step_path (JObj kvs) seg = map_of kvs seg"
| "step_path (JArr vs) seg =
     (case atoi seg of
        None \<Rightarrow> None
      | Some idx \<Rightarrow>
          if idx < 0 \<or> int (length vs) \<le> idx then None else Some (vs ! nat idx))"
| "step_path _ seg = None"

fun walk_path :: "gval \<Rightarrow> string list \<Rightarrow> gval option" where
  "walk_path cur [] = Some cur"
| "walk_path cur (seg # segs) =
     (case step_path cur seg of None \<Rightarrow> None | Some v \<Rightarrow> walk_path v segs)"

definition lookup_path :: "gval \<Rightarrow> string \<Rightarrow> gval option" where
  "lookup_path doc path =
     (if path = [] then Some doc else walk_path doc (split_on CHR ''.'' path))"

section \<open>Scalars\<close>

fun to_float :: "gval \<Rightarrow> rat option" where
  "to_float (JNum q) = Some q"
| "to_float _ = None"

fun equal_scalar :: "gval \<Rightarrow> gval \<Rightarrow> bool" where
  "equal_scalar (JNum a) b = (case to_float b of Some q \<Rightarrow> a = q | None \<Rightarrow> False)"
| "equal_scalar (JStr a) b = (case b of JStr s \<Rightarrow> a = s | _ \<Rightarrow> False)"
| "equal_scalar (JBool a) b = (case b of JBool c \<Rightarrow> a = c | _ \<Rightarrow> False)"
| "equal_scalar JNull b = (b = JNull)"
| "equal_scalar _ b = False"

fun truthy :: "gval \<Rightarrow> bool" where
  "truthy JNull = False"
| "truthy (JBool b) = b"
| "truthy (JStr s) = (s \<noteq> [])"
| "truthy (JArr vs) = (0 < length vs)"
| "truthy (JObj kvs) = (0 < length kvs)"
| "truthy (JNum q) = (q \<noteq> 0)"

fun go_type_name :: "gval \<Rightarrow> string" where
  "go_type_name JNull = ''<nil>''"
| "go_type_name (JBool b) = ''bool''"
| "go_type_name (JNum q) = ''float64''"
| "go_type_name (JStr s) = ''string''"
| "go_type_name (JArr vs) = ''[]interface {}''"
| "go_type_name (JObj kvs) = ''map[string]interface {}''"

definition compare_vals :: "gval \<Rightarrow> compare_op \<Rightarrow> gval \<Rightarrow> err + bool" where
  "compare_vals got op want =
     (case op of
        OpEq \<Rightarrow> Inr (equal_scalar got want)
      | OpNe \<Rightarrow> Inr (\<not> equal_scalar got want)
      | _ \<Rightarrow>
         if op \<in> {OpGt, OpGte, OpLt, OpLte} then
           (case (to_float got, to_float want) of
              (Some g, Some w) \<Rightarrow>
                Inr (if op = OpGt then g > w else if op = OpGte then g \<ge> w
                     else if op = OpLt then g < w else g \<le> w)
            | _ \<Rightarrow>
                Inl (EMsg (''operator '' @ quote (compare_op_str op) @
                  '' requires numbers, got '' @ go_type_name got @ '' and '' @ go_type_name want)))
         else Inl (EMsg (''unknown operator '' @ quote (compare_op_str op))))"

section \<open>Conditions\<close>

fun is_comparison :: "compare_op \<Rightarrow> bool" where
  "is_comparison (OpOther s) = False"
| "is_comparison OpExists = False"
| "is_comparison OpTruthy = False"
| "is_comparison _ = True"

definition eval_condition ::
  "(bytes \<Rightarrow> err + gval) \<Rightarrow> condition option \<Rightarrow> bytes \<Rightarrow> err + bool" where
  "eval_condition unmarshal c art =
     (case c of
        None \<Rightarrow> Inr True
      | Some cond \<Rightarrow>
          (case unmarshal art of
             Inl e \<Rightarrow>
               Inl (errorf (''condition on '' @ quote (cond_path cond) @
                      '': upstream artifact is not valid JSON: '') e '''')
           | Inr doc \<Rightarrow>
               let got = lookup_path doc (cond_path cond) in
               (case cond_op cond of
                  OpExists \<Rightarrow> Inr (got \<noteq> None)
                | OpTruthy \<Rightarrow> Inr (case got of None \<Rightarrow> False | Some v \<Rightarrow> truthy v)
                | op \<Rightarrow>
                   if is_comparison op then
                     (case got of
                        None \<Rightarrow> Inr (op = OpNe)
                      | Some v \<Rightarrow> compare_vals v op (cond_value cond))
                   else
                     Inl (EMsg (''condition on '' @ quote (cond_path cond) @
                            '': unknown operator '' @ quote (compare_op_str op))))))"

section \<open>Lemmas\<close>

lemma walk_path_append:
  "walk_path d (xs @ ys) = Option.bind (walk_path d xs) (\<lambda>v. walk_path v ys)"
  by (induction xs arbitrary: d) (auto split: option.splits)

lemma split_on_append_sep: "split_on c (p @ c # q) = split_on c p @ split_on c q"
proof (induction p)
  case (Cons a p)
  obtain x xs where x: "split_on c p = x # xs"
    by (cases "split_on c p") auto
  with Cons show ?case by auto
qed simp

text \<open>A dotted path is walked segment by segment: looking up \<open>p.q\<close> is looking up \<open>q\<close> in
  what \<open>p\<close> resolves to.\<close>

lemma lookup_path_dot:
  assumes "p \<noteq> []" and "q \<noteq> []"
  shows "lookup_path d (p @ CHR ''.'' # q) = Option.bind (lookup_path d p) (\<lambda>v. lookup_path v q)"
  using assms by (simp add: lookup_path_def split_on_append_sep walk_path_append)

lemma compare_op_exhaust_cmp:
  "is_comparison op \<longleftrightarrow> op \<in> {OpEq, OpNe, OpGt, OpGte, OpLt, OpLte}"
  by (cases op) auto

lemma equal_scalar_num [simp]:
  "equal_scalar v (JNum q) \<longleftrightarrow> v = JNum q" "equal_scalar (JNum q) v \<longleftrightarrow> v = JNum q"
  by (cases v; auto)+

lemma compare_vals_order_error:
  assumes "op \<in> {OpGt, OpGte, OpLt, OpLte}"
  shows "(\<exists>e. compare_vals got op want = Inl e) \<longleftrightarrow> to_float got = None \<or> to_float want = None"
  using assms by (auto simp: compare_vals_def split: option.splits)

text \<open>The exact condition under which an edge cannot be evaluated.\<close>

lemma eval_condition_error_iff:
  "(\<exists>e. eval_condition unm (Some c) art = Inl e) \<longleftrightarrow>
     (\<exists>e. unm art = Inl e) \<or>
     (\<exists>s. cond_op c = OpOther s) \<or>
     (\<exists>doc v. unm art = Inr doc \<and> lookup_path doc (cond_path c) = Some v \<and>
        cond_op c \<in> {OpGt, OpGte, OpLt, OpLte} \<and>
        (to_float v = None \<or> to_float (cond_value c) = None))"
proof (cases "unm art")
  case (Inr doc)
  then show ?thesis
    by (cases "cond_op c"; cases "lookup_path doc (cond_path c)")
      (auto simp: eval_condition_def Let_def compare_vals_order_error compare_vals_def
        split: option.splits)
qed (auto simp: eval_condition_def)

lemma eval_condition_absent:
  assumes "unm art = Inr doc" and "lookup_path doc (cond_path c) = None"
    and "\<forall>s. cond_op c \<noteq> OpOther s"
  shows "eval_condition unm (Some c) art = Inr (cond_op c = OpNe)"
  using assms by (cases "cond_op c") (auto simp: eval_condition_def)

lemma eval_condition_eq_ne:
  assumes "unm art = Inr doc"
  shows "\<exists>b. eval_condition unm (Some (c\<lparr>cond_op := OpEq\<rparr>)) art = Inr b \<and>
             eval_condition unm (Some (c\<lparr>cond_op := OpNe\<rparr>)) art = Inr (\<not> b)"
  using assms
  by (cases "lookup_path doc (cond_path c)") (auto simp: eval_condition_def compare_vals_def)

lemma eval_condition_order:
  assumes "unm art = Inr doc" and "lookup_path doc (cond_path c) = Some (JNum x)"
    and "cond_value c = JNum y"
  shows "eval_condition unm (Some (c\<lparr>cond_op := OpLt\<rparr>)) art = Inr (x < y)"
    and "eval_condition unm (Some (c\<lparr>cond_op := OpGt\<rparr>)) art = Inr (x > y)"
    and "eval_condition unm (Some (c\<lparr>cond_op := OpLte\<rparr>)) art = Inr (x \<le> y)"
    and "eval_condition unm (Some (c\<lparr>cond_op := OpGte\<rparr>)) art = Inr (x \<ge> y)"
    and "eval_condition unm (Some (c\<lparr>cond_op := OpEq\<rparr>)) art = Inr (x = y)"
  using assms by (auto simp: eval_condition_def compare_vals_def)

end
