(* ===== verification/RunTypes.thy ===== *)
theory RunTypes
  imports RunConfig BudgetTracker Condition
begin

text \<open>
  The types that \<open>core/engine\<close> passes between its scheduler, its node runner and its
  executors: node states and outcomes, the inputs and the request of one node, the
  result of a node and of a run, the run options and the snapshot written for resume
  and replay (\<open>scheduler.go\<close>, \<open>node.go\<close>, \<open>approval.go\<close>, \<open>resume.go\<close>).
\<close>

section \<open>Node states and outcomes\<close>

text \<open>\<open>NodeState\<close> is a string; \<open>StateUnset\<close> is its zero value, which a map lookup of a missing
  key returns.\<close>

datatype node_state =
    StateUnset | StatePending | StateRunning | StateSucceeded | StateFailed | StateSkipped

definition terminal :: "node_state \<Rightarrow> bool" where
  "terminal st \<longleftrightarrow> st = StateSucceeded \<or> st = StateFailed \<or> st = StateSkipped"

lemma terminal_simps [simp]:
  "terminal StateSucceeded" "terminal StateFailed" "terminal StateSkipped"
  "\<not> terminal StatePending" "\<not> terminal StateRunning" "\<not> terminal StateUnset"
  by (simp_all add: terminal_def)

record node_outcome =
  no_state :: node_state
  no_hash :: string
  no_type :: artifact_type
  no_cost :: rat
  no_tokens :: int
  no_err :: string

text \<open>A \<open>NodeOutcome\<close> literal that sets the state and the error only.\<close>

definition outcome_of :: "node_state \<Rightarrow> string \<Rightarrow> node_outcome" where
  "outcome_of st e =
     \<lparr>no_state = st, no_hash = '''', no_type = '''', no_cost = 0, no_tokens = 0, no_err = e\<rparr>"

lemma no_state_outcome_of [simp]: "no_state (outcome_of st e) = st"
  by (simp add: outcome_of_def)

record run_result =
  rr_execution_id :: string
  rr_state :: execution_state
  rr_nodes :: "string \<rightharpoonup> node_outcome"
  rr_spent_cost :: rat
  rr_spent_tokens :: int
  rr_budget_exceeded :: bool

section \<open>What flows along an edge\<close>

record node_output =
  out_hash :: string
  out_content :: bytes
  out_type :: artifact_type

definition zero_output :: node_output where
  "zero_output = \<lparr>out_hash = '''', out_content = '''', out_type = ''''\<rparr>"

record node_input =
  ni_from :: string
  ni_content :: bytes
  ni_type :: artifact_type
  ni_hash :: string

record node_result =
  nr_content :: bytes
  nr_type :: artifact_type
  nr_mime :: string
  nr_cost :: rat
  nr_tokens :: int
  nr_hash :: string
  nr_validated :: bool
  nr_context_hashes :: "string list"

definition zero_result :: node_result where
  "zero_result =
     \<lparr>nr_content = '''', nr_type = '''', nr_mime = '''', nr_cost = 0, nr_tokens = 0,
      nr_hash = '''', nr_validated = False, nr_context_hashes = []\<rparr>"

section \<open>Approvals and connections\<close>

datatype approval_status = ApPending | ApGranted | ApRejected

record approval_record =
  ar_checkpoint :: string
  ar_node :: string
  ar_tool :: string
  ar_status :: approval_status

record connection_ref =
  cr_id :: string
  cr_label :: string
  cr_kind :: string
  cr_type :: string
  cr_base_url :: string
  cr_secret_env :: string
  cr_defaults :: "string \<rightharpoonup> string"

record node_request =
  rq_node :: node
  rq_inputs :: "node_input list"
  rq_feedback :: string
  rq_wf_inputs :: "string \<rightharpoonup> string"
  rq_connections :: "string \<rightharpoonup> connection_ref"
  rq_exec :: string
  rq_approvals :: "string \<rightharpoonup> approval_record"
  rq_allow_mutations :: bool

section \<open>Run options and snapshot\<close>

record run_options =
  ro_execution_id :: string
  ro_concurrency :: int
  ro_budget :: budget
  ro_backoff :: int
  ro_backoff_max :: int
  ro_cache :: cache_mode
  ro_definition_hashes :: "string \<rightharpoonup> string"
  ro_workers :: "string \<rightharpoonup> worker"
  ro_inputs :: "string \<rightharpoonup> string"
  ro_connections :: "string \<rightharpoonup> connection_ref"
  ro_allow_mutations :: bool

record snapshot =
  sn_workflow :: workflow
  sn_budget :: budget
  sn_concurrency :: int
  sn_definition_hashes :: "string \<rightharpoonup> string"
  sn_workers :: "string \<rightharpoonup> worker"
  sn_inputs :: "string \<rightharpoonup> string"
  sn_connections :: "string \<rightharpoonup> connection_ref"
  sn_allow_mutations :: bool

definition default_concurrency :: int where
  "default_concurrency = 4"

text \<open>The defaults \<open>run\<close> fills in before anything else.\<close>

definition run_defaults :: "run_options \<Rightarrow> run_options" where
  "run_defaults opts =
     (let opts = (if ro_concurrency opts \<le> 0
                  then opts\<lparr>ro_concurrency := default_concurrency\<rparr> else opts)
      in if ro_backoff_max opts \<le> 0 then opts\<lparr>ro_backoff_max := 30000000000\<rparr> else opts)"

lemma run_defaults_concurrency: "0 < ro_concurrency (run_defaults opts)"
  by (simp add: run_defaults_def Let_def default_concurrency_def)

end
