(* ===== verification/Scheduler.thy ===== *)
theory Scheduler
  imports RunTypes "HOL-Library.Finite_Map"
begin

text \<open>
  The coordinator of \<open>core/engine/scheduler.go\<close>: the graph structures of \<open>run\<close>, its
  run state, its closures (\<open>halt\<close>, \<open>cancelHalt\<close>, \<open>settle\<close>, \<open>processDecisions\<close>,
  \<open>handleCompletion\<close>), the coordinator loop as a step relation and the finalization.

  The worker pool is the list \<open>ss_running\<close> of the tasks the goroutines hold: an
  unbuffered send on \<open>tasks\<close> succeeds when a worker is idle, and \<open>completions\<close> delivers
  some running task with whatever result its node run had. The \<open>select\<close> statement
  picks any enabled branch, so the loop is an inductive relation; \<open>sched_do\<close> is its
  executable form, one action at a time. \<open>state\<close> is a finite map, because
  \<open>processDecisions\<close> stops for the reason that every skip consumes a pending node.
\<close>

section \<open>Graph structures\<close>

definition zero_node :: node where
  "zero_node = \<lparr>node_id = '''', node_worker = '''', node_tool = None, node_policy = None,
     node_on_failure = None\<rparr>"

definition nodes_by_id :: "workflow \<Rightarrow> string \<rightharpoonup> node" where
  "nodes_by_id w = fold (\<lambda>n m. m(node_id n \<mapsto> n)) (wf_nodes w) Map.empty"

definition node_at :: "workflow \<Rightarrow> string \<Rightarrow> node" where
  "node_at w i = (case nodes_by_id w i of Some n \<Rightarrow> n | None \<Rightarrow> zero_node)"

definition live_edges :: "workflow \<Rightarrow> edge list" where
  "live_edges w =
     filter (\<lambda>e. nodes_by_id w (edge_from e) \<noteq> None \<and> nodes_by_id w (edge_to e) \<noteq> None)
       (wf_edges w)"

definition children :: "workflow \<Rightarrow> string \<Rightarrow> string list" where
  "children w i = map edge_to (filter (\<lambda>e. edge_from e = i) (live_edges w))"

definition parents :: "workflow \<Rightarrow> string \<Rightarrow> edge list" where
  "parents w i = filter (\<lambda>e. edge_to e = i) (live_edges w)"

text \<open>\<open>pendingParents\<close> after the two construction loops: zero, then one more per edge.\<close>

definition count_parents :: "workflow \<Rightarrow> string \<Rightarrow> int" where
  "count_parents w =
     fold (\<lambda>e pp. pp(edge_to e := pp (edge_to e) + 1)) (live_edges w) (\<lambda>_. 0)"

text \<open>The ids of \<open>fallbackOnly\<close>, in the order the loop inserts them.\<close>

definition fallback_targets :: "workflow \<Rightarrow> string list" where
  "fallback_targets w =
     concat (map (\<lambda>n. case node_on_failure n of
         None \<Rightarrow> []
       | Some p \<Rightarrow> if fp_mode p = FailFallback \<and> fp_fallback p \<noteq> '''' then [fp_fallback p] else [])
       (wf_nodes w))"

section \<open>Run state\<close>

record task =
  tk_node :: node
  tk_inputs :: "node_input list"
  tk_attr :: string

record sched_env =
  se_wf :: workflow
  se_opts :: run_options
  se_unmarshal :: "bytes \<Rightarrow> err + gval"

record sched =
  ss_state :: "(string, node_state) fmap"
  ss_output :: "string \<rightharpoonup> node_output"
  ss_outcomes :: "string \<rightharpoonup> node_outcome"
  ss_inputs_used :: "string \<rightharpoonup> node_input list"
  ss_fb_tried :: "string \<Rightarrow> bool"
  ss_pending :: "string \<Rightarrow> int"
  ss_budget :: budget_tracker
  ss_ready :: "task list"
  ss_to_decide :: "string list"
  ss_in_flight :: int
  ss_running :: "task list"
  ss_halted :: bool
  ss_halt_err :: "err option"
  ss_ctx_cancelled :: bool
  ss_parent_err :: "err option"
  ss_ctx_done_open :: bool
  ss_now :: int
  ss_log :: "event list"

definition pool_size :: "sched_env \<Rightarrow> int" where
  "pool_size env = ro_concurrency (run_defaults (se_opts env))"

definition state_of :: "sched \<Rightarrow> string \<Rightarrow> node_state" where
  "state_of s i = (case fmlookup (ss_state s) i of Some st \<Rightarrow> st | None \<Rightarrow> StateUnset)"

definition output_of :: "sched \<Rightarrow> string \<Rightarrow> node_output" where
  "output_of s i = (case ss_output s i of Some out \<Rightarrow> out | None \<Rightarrow> zero_output)"

definition sched_emit ::
  "sched_env \<Rightarrow> event_type \<Rightarrow> string \<Rightarrow> payload \<Rightarrow> sched \<Rightarrow> sched" where
  "sched_emit env ty nid p s =
     s\<lparr>ss_log := ss_log s @
        [\<lparr>ev_type = ty, ev_time = ss_now s, ev_exec = ro_execution_id (se_opts env),
          ev_node = nid, ev_prev = '''', ev_payload = p\<rparr>]\<rparr>"

definition do_halt :: "err \<Rightarrow> sched \<Rightarrow> sched" where
  "do_halt e s =
     (if ss_halted s then s
      else s\<lparr>ss_halted := True, ss_halt_err := Some e, ss_ctx_cancelled := True\<rparr>)"

definition cancel_halt :: "sched_env \<Rightarrow> sched \<Rightarrow> sched" where
  "cancel_halt env s =
     (if ss_halted s then s
      else do_halt (case ss_parent_err s of Some e \<Rightarrow> e | None \<Rightarrow> ESentinel ErrCancelled)
             (sched_emit env Cancelled '''' [] s))"

definition settle_child :: "string \<Rightarrow> sched \<Rightarrow> sched" where
  "settle_child ch s =
     (let s = s\<lparr>ss_pending := (ss_pending s)(ch := ss_pending s ch - 1)\<rparr>
      in if ss_pending s ch = 0 then s\<lparr>ss_to_decide := ss_to_decide s @ [ch]\<rparr> else s)"

definition settle :: "sched_env \<Rightarrow> string \<Rightarrow> node_state \<Rightarrow> sched \<Rightarrow> sched" where
  "settle env i st s =
     fold settle_child (children (se_wf env) i) (s\<lparr>ss_state := fmupd i st (ss_state s)\<rparr>)"

section \<open>processDecisions\<close>

definition condition_failed :: "string \<Rightarrow> edge \<Rightarrow> err \<Rightarrow> err" where
  "condition_failed i e err =
     diag_wrap (errorf (''engine: edge '' @ edge_from e @ ''->'' @ edge_to e @ '': '') err '''')
       KindValidation ''edge_condition_invalid'' i ''edge.condition''
       ''conditional edge could not be evaluated''
       ''check the condition path and expected upstream artifact shape''"

definition input_of :: "sched \<Rightarrow> edge \<Rightarrow> node_input" where
  "input_of s e =
     (let po = output_of s (edge_from e) in
      \<lparr>ni_from = edge_from e, ni_content = out_content po, ni_type = out_type po,
       ni_hash = out_hash po\<rparr>)"

fun gather_inputs ::
  "sched_env \<Rightarrow> string \<Rightarrow> edge list \<Rightarrow> bool \<Rightarrow> node_input list \<Rightarrow> sched \<Rightarrow>
   bool \<times> node_input list \<times> sched" where
  "gather_inputs env i [] active inputs s = (active, inputs, s)"
| "gather_inputs env i (e # es) active inputs s =
     (if state_of s (edge_from e) \<noteq> StateSucceeded
      then gather_inputs env i es False inputs s
      else case eval_condition (se_unmarshal env) (edge_cond e)
                  (out_content (output_of s (edge_from e))) of
        Inl err \<Rightarrow> gather_inputs env i es False inputs (do_halt (condition_failed i e err) s)
      | Inr ok \<Rightarrow>
          if \<not> ok then gather_inputs env i es False inputs s
          else gather_inputs env i es active (inputs @ [input_of s e]) s)"

text \<open>The body of the loop, for a decided id that has left the queue.\<close>

definition decide_node :: "sched_env \<Rightarrow> string \<Rightarrow> sched \<Rightarrow> sched" where
  "decide_node env i s =
     (if state_of s i \<noteq> StatePending then s
      else case gather_inputs env i (parents (se_wf env) i) True [] s of
        (active, inputs, s) \<Rightarrow>
          if active then
            s\<lparr>ss_state := fmupd i StateRunning (ss_state s),
              ss_inputs_used := (ss_inputs_used s)(i \<mapsto> inputs),
              ss_ready := ss_ready s @
                [\<lparr>tk_node = node_at (se_wf env) i, tk_inputs = inputs, tk_attr = i\<rparr>]\<rparr>
          else settle env i StateSkipped
                 (s\<lparr>ss_outcomes := (ss_outcomes s)(i \<mapsto> outcome_of StateSkipped '''')\<rparr>))"

definition decide_head :: "sched_env \<Rightarrow> sched \<Rightarrow> sched" where
  "decide_head env s =
     (case ss_to_decide s of
        [] \<Rightarrow> s
      | i # rest \<Rightarrow> decide_node env i (s\<lparr>ss_to_decide := rest\<rparr>))"

definition pending_ids :: "sched \<Rightarrow> string set" where
  "pending_ids s = {i. fmlookup (ss_state s) i = Some StatePending}"

lemma finite_pending_ids [simp]: "finite (pending_ids s)"
proof -
  have "pending_ids s \<subseteq> fmdom' (ss_state s)" by (auto simp: pending_ids_def intro: fmdom'I)
  then show ?thesis using finite_fmdom' finite_subset by blast
qed

lemma do_halt_frame [simp]:
  "ss_state (do_halt e s) = ss_state s" "ss_output (do_halt e s) = ss_output s"
  "ss_outcomes (do_halt e s) = ss_outcomes s" "ss_inputs_used (do_halt e s) = ss_inputs_used s"
  "ss_fb_tried (do_halt e s) = ss_fb_tried s" "ss_pending (do_halt e s) = ss_pending s"
  "ss_budget (do_halt e s) = ss_budget s" "ss_ready (do_halt e s) = ss_ready s"
  "ss_to_decide (do_halt e s) = ss_to_decide s" "ss_in_flight (do_halt e s) = ss_in_flight s"
  "ss_running (do_halt e s) = ss_running s" "ss_parent_err (do_halt e s) = ss_parent_err s"
  "ss_ctx_done_open (do_halt e s) = ss_ctx_done_open s" "ss_now (do_halt e s) = ss_now s"
  "ss_log (do_halt e s) = ss_log s" "ss_halted (do_halt e s)"
  by (simp_all add: do_halt_def)

lemma settle_child_frame [simp]:
  "ss_state (settle_child c s) = ss_state s" "ss_output (settle_child c s) = ss_output s"
  "ss_outcomes (settle_child c s) = ss_outcomes s"
  "ss_inputs_used (settle_child c s) = ss_inputs_used s"
  "ss_fb_tried (settle_child c s) = ss_fb_tried s" "ss_budget (settle_child c s) = ss_budget s"
  "ss_ready (settle_child c s) = ss_ready s" "ss_in_flight (settle_child c s) = ss_in_flight s"
  "ss_running (settle_child c s) = ss_running s" "ss_halted (settle_child c s) = ss_halted s"
  "ss_halt_err (settle_child c s) = ss_halt_err s"
  "ss_ctx_cancelled (settle_child c s) = ss_ctx_cancelled s"
  "ss_parent_err (settle_child c s) = ss_parent_err s"
  "ss_ctx_done_open (settle_child c s) = ss_ctx_done_open s" "ss_now (settle_child c s) = ss_now s"
  "ss_log (settle_child c s) = ss_log s"
  by (simp_all add: settle_child_def Let_def)

lemma fold_settle_child_frame [simp]:
  "ss_state (fold settle_child cs s) = ss_state s"
  "ss_output (fold settle_child cs s) = ss_output s"
  "ss_outcomes (fold settle_child cs s) = ss_outcomes s"
  "ss_inputs_used (fold settle_child cs s) = ss_inputs_used s"
  "ss_fb_tried (fold settle_child cs s) = ss_fb_tried s"
  "ss_budget (fold settle_child cs s) = ss_budget s"
  "ss_ready (fold settle_child cs s) = ss_ready s"
  "ss_in_flight (fold settle_child cs s) = ss_in_flight s"
  "ss_running (fold settle_child cs s) = ss_running s"
  "ss_halted (fold settle_child cs s) = ss_halted s"
  "ss_halt_err (fold settle_child cs s) = ss_halt_err s"
  "ss_ctx_cancelled (fold settle_child cs s) = ss_ctx_cancelled s"
  "ss_parent_err (fold settle_child cs s) = ss_parent_err s"
  "ss_ctx_done_open (fold settle_child cs s) = ss_ctx_done_open s"
  "ss_now (fold settle_child cs s) = ss_now s" "ss_log (fold settle_child cs s) = ss_log s"
  by (induction cs arbitrary: s) simp_all

lemma settle_frame [simp]:
  "ss_state (settle env i st s) = fmupd i st (ss_state s)"
  "ss_output (settle env i st s) = ss_output s" "ss_outcomes (settle env i st s) = ss_outcomes s"
  "ss_inputs_used (settle env i st s) = ss_inputs_used s"
  "ss_fb_tried (settle env i st s) = ss_fb_tried s" "ss_budget (settle env i st s) = ss_budget s"
  "ss_ready (settle env i st s) = ss_ready s" "ss_in_flight (settle env i st s) = ss_in_flight s"
  "ss_running (settle env i st s) = ss_running s" "ss_halted (settle env i st s) = ss_halted s"
  "ss_halt_err (settle env i st s) = ss_halt_err s"
  "ss_ctx_cancelled (settle env i st s) = ss_ctx_cancelled s"
  "ss_parent_err (settle env i st s) = ss_parent_err s"
  "ss_ctx_done_open (settle env i st s) = ss_ctx_done_open s"
  "ss_now (settle env i st s) = ss_now s" "ss_log (settle env i st s) = ss_log s"
  by (simp_all add: settle_def)

text \<open>Evaluating the incoming edges changes nothing but the halt fields.\<close>

lemma do_halt_halted: "ss_halted s \<Longrightarrow> do_halt e s = s"
  by (simp add: do_halt_def)

lemma do_halt_twice [simp]: "do_halt e (do_halt e' s) = do_halt e' s"
  by (simp add: do_halt_halted)

lemma gather_inputs_frame:
  assumes "gather_inputs env i es act ins s = (act', ins', s')"
  shows "s' = s \<or> (\<exists>e. s' = do_halt e s)"
  using assms
proof (induction es arbitrary: act ins s)
  case (Cons e es)
  show ?case
  proof (cases "state_of s (edge_from e) \<noteq> StateSucceeded")
    case True
    with Cons.prems show ?thesis by (intro Cons.IH) simp
  next
    case ok: False
    show ?thesis
    proof (cases "eval_condition (se_unmarshal env) (edge_cond e)
        (out_content (output_of s (edge_from e)))")
      case (Inl err)
      with Cons.prems ok
      have "gather_inputs env i es False ins (do_halt (condition_failed i e err) s) =
          (act', ins', s')" by simp
      from Cons.IH [OF this] show ?thesis by auto
    next
      case (Inr b)
      with Cons.prems ok show ?thesis by (cases b) (simp, erule Cons.IH)+
    qed
  qed
qed simp

lemma gather_inputs_ss_state:
  "gather_inputs env i es act ins s = (act', ins', s') \<Longrightarrow> ss_state s' = ss_state s"
  by (drule gather_inputs_frame) auto

lemma decide_node_pending:
  assumes "state_of s i = StatePending"
  shows "pending_ids (decide_node env i s) = pending_ids s - {i}"
proof -
  obtain act ins s' where g: "gather_inputs env i (parents (se_wf env) i) True [] s = (act, ins, s')"
    by (metis prod_cases3)
  then have "ss_state s' = ss_state s" by (rule gather_inputs_ss_state)
  with assms g show ?thesis
    by (simp add: decide_node_def pending_ids_def) auto
qed

lemma state_of_pending: "state_of s i = StatePending \<longleftrightarrow> i \<in> pending_ids s"
  by (auto simp: state_of_def pending_ids_def split: option.splits)

function process_decisions :: "sched_env \<Rightarrow> sched \<Rightarrow> sched" where
  "process_decisions env s =
     (if ss_to_decide s = [] then s else process_decisions env (decide_head env s))"
  by pat_completeness auto
termination
proof (relation "inv_image (less_than <*lex*> less_than)
    (\<lambda>(env, s). (card (pending_ids s), length (ss_to_decide s)))", goal_cases)
  case (2 env s)
  then obtain i rest where q: "ss_to_decide s = i # rest"
    by (cases "ss_to_decide s") auto
  let ?s = "s\<lparr>ss_to_decide := rest\<rparr>"
  have same: "pending_ids ?s = pending_ids s" "state_of ?s i = state_of s i"
    by (simp_all add: pending_ids_def state_of_def)
  show ?case
  proof (cases "state_of s i = StatePending")
    case True
    then have "card (pending_ids s - {i}) < card (pending_ids s)"
      by (intro psubset_card_mono) (auto simp: state_of_pending)
    with True q same show ?thesis by (simp add: decide_head_def decide_node_pending)
  next
    case False
    with q same show ?thesis by (simp add: decide_head_def decide_node_def)
  qed
qed auto

declare process_decisions.simps [simp del]

section \<open>The start of a run\<close>

definition init_node ::
  "(string \<times> node_output) list \<Rightarrow> node \<Rightarrow> sched \<Rightarrow> sched" where
  "init_node pre n s =
     (case map_of pre (node_id n) of
        Some res \<Rightarrow>
          s\<lparr>ss_state := fmupd (node_id n) StateSucceeded (ss_state s),
            ss_output := (ss_output s)(node_id n \<mapsto> res),
            ss_outcomes := (ss_outcomes s)(node_id n \<mapsto>
              (outcome_of StateSucceeded '''')\<lparr>no_hash := out_hash res, no_type := out_type res\<rparr>)\<rparr>
      | None \<Rightarrow> s\<lparr>ss_state := fmupd (node_id n) StatePending (ss_state s)\<rparr>)"

text \<open>A precompleted node no longer counts as a pending parent of its children.\<close>

definition credit_children :: "workflow \<Rightarrow> string \<Rightarrow> (string \<Rightarrow> int) \<Rightarrow> string \<Rightarrow> int" where
  "credit_children w i pp = fold (\<lambda>ch pp. pp(ch := pp ch - 1)) (children w i) pp"

definition init_sched ::
  "sched_env \<Rightarrow> (string \<times> node_output) list \<Rightarrow> int \<Rightarrow> err option \<Rightarrow> sched" where
  "init_sched env pre now parent =
     fold (init_node pre) (wf_nodes (se_wf env))
       \<lparr>ss_state = fmempty, ss_output = Map.empty, ss_outcomes = Map.empty,
        ss_inputs_used = Map.empty, ss_fb_tried = (\<lambda>_. False),
        ss_pending = fold (credit_children (se_wf env)) (map fst pre) (count_parents (se_wf env)),
        ss_budget = new_budget_tracker (ro_budget (se_opts env)) now,
        ss_ready = [], ss_to_decide = [], ss_in_flight = 0, ss_running = [],
        ss_halted = False, ss_halt_err = None, ss_ctx_cancelled = False,
        ss_parent_err = parent, ss_ctx_done_open = True, ss_now = now, ss_log = []\<rparr>"

text \<open>The seed: every pending node with no pending parent, fallback targets excepted.\<close>

definition seed_roots :: "sched_env \<Rightarrow> sched \<Rightarrow> sched" where
  "seed_roots env s =
     s\<lparr>ss_to_decide := ss_to_decide s @
        map node_id (filter (\<lambda>n. state_of s (node_id n) = StatePending \<and>
          ss_pending s (node_id n) = 0 \<and> node_id n \<notin> set (fallback_targets (se_wf env)))
          (wf_nodes (se_wf env)))\<rparr>"

definition snapshot_of :: "sched_env \<Rightarrow> (string \<rightharpoonup> string) \<Rightarrow> snapshot" where
  "snapshot_of env wf_ins =
     (let opt = run_defaults (se_opts env) in
      \<lparr>sn_workflow = se_wf env, sn_budget = ro_budget opt, sn_concurrency = ro_concurrency opt,
       sn_definition_hashes = ro_definition_hashes opt, sn_workers = ro_workers opt,
       sn_inputs = wf_ins, sn_connections = ro_connections opt,
       sn_allow_mutations = ro_allow_mutations opt\<rparr>)"

definition failed_early :: "sched_env \<Rightarrow> sched \<Rightarrow> err \<Rightarrow> run_result \<times> err" where
  "failed_early env s e =
     (\<lparr>rr_execution_id = ro_execution_id (se_opts env), rr_state = ExecutionFailed,
       rr_nodes = ss_outcomes s, rr_spent_cost = 0, rr_spent_tokens = 0,
       rr_budget_exceeded = False\<rparr>, e)"

text \<open>\<open>run\<close> up to the coordinator loop: an early failure, or the state the loop starts in.
  \<open>write_snapshot\<close> is \<open>Log.WriteSnapshot\<close> of the log this run writes to.\<close>

definition run_begin ::
  "sched_env \<Rightarrow> (snapshot \<Rightarrow> err option) \<Rightarrow> (string \<times> node_output) list \<Rightarrow> bool \<Rightarrow> int \<Rightarrow>
   err option \<Rightarrow> (run_result \<times> err) + sched" where
  "run_begin env write_snapshot pre fresh now parent =
     (let s = init_sched env pre now parent in
      case resolve_workflow_inputs (wf_inputs (se_wf env)) (ro_inputs (se_opts env)) of
        Inl e \<Rightarrow>
          Inl (failed_early env s
            (diag_wrap e KindValidation ''workflow_input_missing'' '''' ''inputs.resolve''
               ''required workflow input is missing'' ''provide the input value or define a default''))
      | Inr wf_ins \<Rightarrow>
          (case (if fresh then write_snapshot (snapshot_of env wf_ins) else None) of
             Some e \<Rightarrow> Inl (failed_early env s (errorf ''engine: write snapshot: '' e ''''))
           | None \<Rightarrow>
               let s = (if fresh
                        then sched_emit env ExecutionStarted ''''
                               [(''workflow'', JStr (wf_id (se_wf env))),
                                (''version'', JStr (wf_version (se_wf env)))] s
                        else s)
               in Inr (process_decisions env (seed_roots env s))))"

section \<open>handleCompletion\<close>

definition budget_exceeded_error :: "string \<Rightarrow> err" where
  "budget_exceeded_error i =
     diag_wrap (ESentinel ErrBudgetExceeded) KindBudget ''budget_exceeded'' i ''budget.check''
       ''execution exceeded its configured budget''
       ''raise the budget or reduce workflow cost, tokens, or duration''"

definition node_failed_error :: "string \<Rightarrow> err \<Rightarrow> err" where
  "node_failed_error i e =
     errorf '''' (ESentinel ErrNodeFailed) ('': '' @ quote i @ '': '' @ err_msg e)"

definition set_outcome :: "string \<Rightarrow> node_outcome \<Rightarrow> sched \<Rightarrow> sched" where
  "set_outcome i out s = s\<lparr>ss_outcomes := (ss_outcomes s)(i \<mapsto> out)\<rparr>"

definition fail_node :: "sched_env \<Rightarrow> string \<Rightarrow> err \<Rightarrow> sched \<Rightarrow> sched" where
  "fail_node env i e s =
     settle env i StateFailed (set_outcome i (outcome_of StateFailed (err_msg e)) s)"

definition handle_error :: "sched_env \<Rightarrow> task \<Rightarrow> err \<Rightarrow> sched \<Rightarrow> sched" where
  "handle_error env t e s =
     (let i = tk_attr t in
      if is_err ErrApprovalRequired e then
        do_halt e ((set_outcome i (outcome_of StatePending (err_msg e)) s)
                     \<lparr>ss_state := fmupd i StatePending (ss_state s)\<rparr>)
      else if is_err ErrApprovalRejected e then
        do_halt e (fail_node env i e s)
      else if ss_halted s \<or> ss_parent_err s \<noteq> None \<or> is_err CtxCanceled e \<or>
              is_err CtxDeadlineExceeded e then
        (let s = fail_node env i e s
         in if ss_parent_err s \<noteq> None then cancel_halt env s else s)
      else
        (let pol = failure_policy_of (tk_node t) in
         case (if fp_mode pol = FailFallback \<and> \<not> ss_fb_tried s i
               then nodes_by_id (se_wf env) (fp_fallback pol) else None) of
           Some fb \<Rightarrow>
             s\<lparr>ss_fb_tried := (ss_fb_tried s)(i := True),
               ss_ready := ss_ready s @
                 [\<lparr>tk_node = fb,
                   tk_inputs = (case ss_inputs_used s i of Some ins \<Rightarrow> ins | None \<Rightarrow> []),
                   tk_attr = i\<rparr>]\<rparr>
         | None \<Rightarrow>
             let s = fail_node env i e s
             in if fp_mode pol \<noteq> FailContinue then do_halt (node_failed_error i e) s else s))"

definition record_success :: "sched_env \<Rightarrow> task \<Rightarrow> node_result \<Rightarrow> sched \<Rightarrow> sched" where
  "record_success env t res s =
     (let i = tk_attr t in
      settle env i StateSucceeded
        (set_outcome i
           \<lparr>no_state = StateSucceeded, no_hash = nr_hash res, no_type = nr_type res,
            no_cost = nr_cost res, no_tokens = nr_tokens res, no_err = ''''\<rparr>
           (s\<lparr>ss_output := (ss_output s)(i \<mapsto>
                \<lparr>out_hash = nr_hash res, out_content = nr_content res, out_type = nr_type res\<rparr>)\<rparr>)
           \<lparr>ss_budget := budget_add (nr_cost res) (nr_tokens res) (ss_budget s)\<rparr>))"

definition check_budget :: "sched_env \<Rightarrow> string \<Rightarrow> sched \<Rightarrow> sched" where
  "check_budget env i s =
     (if budget_exceeded (ss_budget s) (ss_now s) then
        (let e = budget_exceeded_error i in
         do_halt e
           (sched_emit env BudgetExceeded ''''
              (budget_status_payload (ss_budget s) (ss_now s) @
                 [(''diagnostic'', JObj (diag_payload e i))]) s))
      else case should_warn (ss_budget s) (ss_now s) of
        (b, warn) \<Rightarrow>
          let s = s\<lparr>ss_budget := b\<rparr>
          in if warn
             then sched_emit env BudgetWarning '''' (budget_status_payload b (ss_now s)) s
             else s)"

definition handle_success :: "sched_env \<Rightarrow> task \<Rightarrow> node_result \<Rightarrow> sched \<Rightarrow> sched" where
  "handle_success env t res s = check_budget env (tk_attr t) (record_success env t res s)"

definition handle_completion ::
  "sched_env \<Rightarrow> task \<Rightarrow> err + node_result \<Rightarrow> sched \<Rightarrow> sched" where
  "handle_completion env t r s =
     (let s = s\<lparr>ss_in_flight := ss_in_flight s - 1\<rparr>
      in case r of Inl e \<Rightarrow> handle_error env t e s | Inr res \<Rightarrow> handle_success env t res s)"

section \<open>The coordinator loop\<close>

definition loop_guard :: "sched \<Rightarrow> bool" where
  "loop_guard s \<longleftrightarrow> 0 < ss_in_flight s \<or> (ss_ready s \<noteq> [] \<and> \<not> ss_halted s)"

definition ctx_done :: "sched \<Rightarrow> bool" where
  "ctx_done s \<longleftrightarrow> ss_ctx_cancelled s \<or> ss_parent_err s \<noteq> None"

definition do_dispatch :: "sched \<Rightarrow> sched" where
  "do_dispatch s =
     (case ss_ready s of
        [] \<Rightarrow> s
      | t # ts \<Rightarrow> s\<lparr>ss_ready := ts, ss_in_flight := ss_in_flight s + 1,
                     ss_running := ss_running s @ [t]\<rparr>)"

definition do_complete ::
  "sched_env \<Rightarrow> task list \<Rightarrow> task \<Rightarrow> err + node_result \<Rightarrow> sched \<Rightarrow> sched" where
  "do_complete env rest t r s =
     process_decisions env (handle_completion env t r (s\<lparr>ss_running := rest\<rparr>))"

definition do_ctx_done :: "sched_env \<Rightarrow> sched \<Rightarrow> sched" where
  "do_ctx_done env s = cancel_halt env (s\<lparr>ss_ctx_done_open := False\<rparr>)"

text \<open>The event types a node run emits; \<open>NodeExec\<close> proves that it emits no other.\<close>

definition worker_event :: "event_type \<Rightarrow> bool" where
  "worker_event ty \<longleftrightarrow>
     ty \<notin> {ExecutionStarted, ExecutionFinished, BudgetWarning, BudgetExceeded, Cancelled}"

text \<open>
  The first three rules are the branches of \<open>select\<close>; the others are the environment: the
  caller cancels, time passes, a running node emits an event.
\<close>

inductive sched_step :: "sched_env \<Rightarrow> sched \<Rightarrow> sched \<Rightarrow> bool" for env where
  dispatch:
    "ss_ready s \<noteq> [] \<Longrightarrow> \<not> ss_halted s \<Longrightarrow> int (length (ss_running s)) < pool_size env \<Longrightarrow>
     sched_step env s (do_dispatch s)"
| complete:
    "loop_guard s \<Longrightarrow> ss_running s = pre @ t # post \<Longrightarrow>
     sched_step env s (do_complete env (pre @ post) t r s)"
| ctx_done:
    "loop_guard s \<Longrightarrow> ss_ctx_done_open s \<Longrightarrow> ctx_done s \<Longrightarrow>
     sched_step env s (do_ctx_done env s)"
| parent_cancel:
    "ss_parent_err s = None \<Longrightarrow> c \<in> {CtxCanceled, CtxDeadlineExceeded} \<Longrightarrow>
     sched_step env s (s\<lparr>ss_parent_err := Some (ESentinel c)\<rparr>)"
| tick:
    "ss_now s \<le> now \<Longrightarrow> sched_step env s (s\<lparr>ss_now := now\<rparr>)"
| worker_emit:
    "t \<in> set (ss_running s) \<Longrightarrow> worker_event ty \<Longrightarrow>
     sched_step env s (sched_emit env ty (tk_attr t) p s)"

inductive_cases sched_stepE: "sched_step env s s'"

abbreviation sched_reach :: "sched_env \<Rightarrow> sched \<Rightarrow> sched \<Rightarrow> bool" where
  "sched_reach env \<equiv> (sched_step env)\<^sup>*\<^sup>*"

text \<open>The same steps, one action at a time: \<open>ActComplete\<close> names the position of the task.\<close>

datatype action =
    ActDispatch
  | ActComplete nat "err + node_result"
  | ActCtxDone
  | ActParentCancel sentinel
  | ActTick int
  | ActEmit nat event_type payload

fun sched_do :: "sched_env \<Rightarrow> action \<Rightarrow> sched \<Rightarrow> sched option" where
  "sched_do env ActDispatch s =
     (if ss_ready s \<noteq> [] \<and> \<not> ss_halted s \<and> int (length (ss_running s)) < pool_size env
      then Some (do_dispatch s) else None)"
| "sched_do env (ActComplete k r) s =
     (if loop_guard s \<and> k < length (ss_running s)
      then Some (do_complete env (take k (ss_running s) @ drop (Suc k) (ss_running s))
                   (ss_running s ! k) r s)
      else None)"
| "sched_do env ActCtxDone s =
     (if loop_guard s \<and> ss_ctx_done_open s \<and> ctx_done s then Some (do_ctx_done env s) else None)"
| "sched_do env (ActParentCancel c) s =
     (if ss_parent_err s = None \<and> c \<in> {CtxCanceled, CtxDeadlineExceeded}
      then Some (s\<lparr>ss_parent_err := Some (ESentinel c)\<rparr>) else None)"
| "sched_do env (ActTick now) s = (if ss_now s \<le> now then Some (s\<lparr>ss_now := now\<rparr>) else None)"
| "sched_do env (ActEmit k ty p) s =
     (if k < length (ss_running s) \<and> worker_event ty
      then Some (sched_emit env ty (tk_attr (ss_running s ! k)) p s) else None)"

fun sched_run :: "sched_env \<Rightarrow> action list \<Rightarrow> sched \<Rightarrow> sched option" where
  "sched_run env [] s = Some s"
| "sched_run env (a # acts) s =
     (case sched_do env a s of None \<Rightarrow> None | Some s' \<Rightarrow> sched_run env acts s')"

section \<open>Finalization\<close>

definition skip_fallback :: "string \<Rightarrow> sched \<Rightarrow> sched" where
  "skip_fallback i s =
     (if state_of s i = StatePending
      then (set_outcome i (outcome_of StateSkipped '''') s)
             \<lparr>ss_state := fmupd i StateSkipped (ss_state s)\<rparr>
      else s)"

definition fill_outcome :: "node \<Rightarrow> sched \<Rightarrow> sched" where
  "fill_outcome n s =
     (if ss_outcomes s (node_id n) = None
      then set_outcome (node_id n) (outcome_of (state_of s (node_id n)) '''') s else s)"

definition incomplete_error :: "string \<Rightarrow> err" where
  "incomplete_error i =
     diag_wrap (errorf '''' (ESentinel ErrIncompleteGraph) ('': '' @ quote i)) KindEngine
       ''incomplete_graph'' i ''graph.resolve'' ''workflow graph did not fully resolve''
       ''check for cycles, unreachable nodes, or invalid conditional edges''"

text \<open>\<open>for id, st := range state\<close> of the default branch; \<open>order\<close> is the order Go picks.\<close>

fun scan_states ::
  "sched \<Rightarrow> string list \<Rightarrow> execution_state \<Rightarrow> err option \<Rightarrow> execution_state \<times> err option" where
  "scan_states s [] st e = (st, e)"
| "scan_states s (i # rest) st e =
     (if state_of s i = StatePending then scan_states s rest ExecutionFailed (Some (incomplete_error i))
      else if state_of s i = StateFailed then scan_states s rest ExecutionFailed e
      else scan_states s rest st e)"

definition final_state ::
  "sched \<Rightarrow> string list \<Rightarrow> execution_state \<times> bool \<times> err option" where
  "final_state s order =
     (case ss_halt_err s of
        Some e \<Rightarrow>
          if is_err ErrApprovalRequired e then (ExecutionPaused, False, Some e)
          else if is_err ErrBudgetExceeded e then (ExecutionFailed, True, Some e)
          else if is_err CtxCanceled e \<or> is_err CtxDeadlineExceeded e \<or> is_err ErrCancelled e
          then (ExecutionCancelled, False, Some e)
          else (ExecutionFailed, False, Some e)
      | None \<Rightarrow> (case scan_states s order ExecutionSucceeded None of (st, e) \<Rightarrow> (st, False, e)))"

definition finalize_nodes :: "sched_env \<Rightarrow> sched \<Rightarrow> sched" where
  "finalize_nodes env s =
     fold fill_outcome (wf_nodes (se_wf env)) (fold skip_fallback (fallback_targets (se_wf env)) s)"

definition run_finish ::
  "sched_env \<Rightarrow> string list \<Rightarrow> sched \<Rightarrow> sched \<times> run_result \<times> err option" where
  "run_finish env order s =
     (let s = finalize_nodes env s in
      case final_state s order of
        (st, over, e) \<Rightarrow>
          (sched_emit env ExecutionFinished '''' [(''state'', JStr (execution_state_str st))] s,
           \<lparr>rr_execution_id = ro_execution_id (se_opts env), rr_state = st,
            rr_nodes = ss_outcomes s, rr_spent_cost = bt_cost (ss_budget s),
            rr_spent_tokens = bt_tokens (ss_budget s), rr_budget_exceeded = over\<rparr>,
           e))"

section \<open>The two forms of the loop agree\<close>

lemma sched_do_step: "sched_do env a s = Some s' \<Longrightarrow> sched_step env s s'"
proof (cases a)
  case (ActComplete k r)
  assume "sched_do env a s = Some s'"
  with ActComplete have k: "k < length (ss_running s)" and g: "loop_guard s"
    and s': "s' = do_complete env (take k (ss_running s) @ drop (Suc k) (ss_running s))
                    (ss_running s ! k) r s"
    by (auto split: if_splits)
  from k have "ss_running s = take k (ss_running s) @ ss_running s ! k # drop (Suc k) (ss_running s)"
    by (rule id_take_nth_drop)
  from sched_step.complete [OF g this] show ?thesis unfolding s' .
qed (auto intro: sched_step.intros split: if_splits)

lemma sched_step_do: "sched_step env s s' \<Longrightarrow> \<exists>a. sched_do env a s = Some s'"
proof (induction rule: sched_step.cases)
  case (complete s pre t post r)
  then have "sched_do env (ActComplete (length pre) r) s =
      Some (do_complete env (pre @ post) t r s)"
    by (simp add: nth_append)
  with complete show ?case by blast
next
  case (dispatch s)
  then show ?case by (intro exI [of _ ActDispatch]) simp
next
  case (ctx_done s)
  then show ?case by (intro exI [of _ ActCtxDone]) simp
next
  case (parent_cancel s c)
  then show ?case by (intro exI [of _ "ActParentCancel c"]) simp
next
  case (tick s now)
  then show ?case by (intro exI [of _ "ActTick now"]) simp
next
  case (worker_emit t s ty p)
  then obtain k where "k < length (ss_running s)" "ss_running s ! k = t"
    by (auto simp: in_set_conv_nth)
  with worker_emit show ?case by (intro exI [of _ "ActEmit k ty p"]) simp
qed

lemma sched_run_reach: "sched_run env acts s = Some s' \<Longrightarrow> sched_reach env s s'"
proof (induction acts arbitrary: s)
  case (Cons a acts)
  then show ?case
    by (auto split: option.splits dest!: sched_do_step intro: converse_rtranclp_into_rtranclp)
qed simp

end
