(* ===== verification/SchedulerInv.thy ===== *)
theory SchedulerInv
  imports Scheduler
begin

text \<open>
  The coordinator's invariant. Every clause is a predicate on the fields it is about, so a
  step that leaves those fields alone preserves it by the frame rules of
  \<^theory_text>\<open>Scheduler\<close>: \<open>pend_ok\<close> says what \<open>pendingParents\<close> counts, \<open>queue_ok\<close> and
  \<open>queue_full\<close> what is in \<open>toDecide\<close>, \<open>tasks_ok\<close> that running nodes and held tasks
  correspond, \<open>used_ok\<close> and \<open>skip_ok\<close> why a node was started or skipped, \<open>halt_ok\<close> and
  \<open>log_ok\<close> the halt flag, its cause and the events that go with it.
\<close>

section \<open>Counting incoming edges\<close>

lemma fold_count_up:
  "fold (\<lambda>e pp. pp(edge_to e := pp (edge_to e) + 1)) es pp i =
     pp i + int (length (filter (\<lambda>e. edge_to e = i) es))"
  by (induction es arbitrary: pp) auto

lemma count_parents_eq: "count_parents w i = int (length (parents w i))"
  by (simp add: count_parents_def fold_count_up parents_def)

lemma fold_count_down:
  "fold (\<lambda>ch pp. pp(ch := pp ch - 1)) cs pp i = pp i - int (count_list cs i)"
  for pp :: "string \<Rightarrow> int"
  by (induction cs arbitrary: pp) auto

lemma count_children:
  "count_list (children w p) i = length (filter (\<lambda>e. edge_from e = p) (parents w i))"
proof -
  have "count_list (map edge_to (filter (\<lambda>e. edge_from e = p) es)) i =
      length (filter (\<lambda>e. edge_from e = p) (filter (\<lambda>e. edge_to e = i) es))" for es
    by (induction es) auto
  then show ?thesis by (simp add: children_def parents_def)
qed

lemma credit_children_eq:
  "credit_children w p pp i = pp i - int (length (filter (\<lambda>e. edge_from e = p) (parents w i)))"
  by (simp add: credit_children_def fold_count_down count_children)

lemma length_filter_split:
  "int (length (filter P xs)) =
     int (length (filter (\<lambda>x. P x \<and> Q x) xs)) + int (length (filter (\<lambda>x. P x \<and> \<not> Q x) xs))"
  by (induction xs) auto

lemma fold_credit:
  assumes "distinct ids"
  shows "fold (credit_children w) ids pp i =
    pp i - int (length (filter (\<lambda>e. edge_from e \<in> set ids) (parents w i)))"
  using assms
proof (induction ids arbitrary: pp)
  case (Cons p ids)
  have "int (length (filter (\<lambda>e. edge_from e \<in> set (p # ids)) (parents w i))) =
      int (length (filter (\<lambda>e. edge_from e \<in> set (p # ids) \<and> edge_from e = p) (parents w i))) +
      int (length (filter (\<lambda>e. edge_from e \<in> set (p # ids) \<and> edge_from e \<noteq> p) (parents w i)))"
    by (rule length_filter_split)
  moreover have "filter (\<lambda>e. edge_from e \<in> set (p # ids) \<and> edge_from e = p) (parents w i) =
      filter (\<lambda>e. edge_from e = p) (parents w i)" by (intro filter_cong) auto
  moreover have "filter (\<lambda>e. edge_from e \<in> set (p # ids) \<and> edge_from e \<noteq> p) (parents w i) =
      filter (\<lambda>e. edge_from e \<in> set ids) (parents w i)"
    using Cons.prems by (intro filter_cong) auto
  ultimately show ?case
    using Cons by (simp add: credit_children_eq)
qed simp

section \<open>The clauses\<close>

definition unsettled :: "workflow \<Rightarrow> (string \<Rightarrow> node_state) \<Rightarrow> string \<Rightarrow> int" where
  "unsettled w \<sigma> i = int (length (filter (\<lambda>e. \<not> terminal (\<sigma> (edge_from e))) (parents w i)))"

definition pend_ok :: "workflow \<Rightarrow> (string \<Rightarrow> node_state) \<Rightarrow> (string \<Rightarrow> int) \<Rightarrow> bool" where
  "pend_ok w \<sigma> pp \<longleftrightarrow> (\<forall>i. pp i = unsettled w \<sigma> i)"

definition queue_ok :: "(string \<Rightarrow> int) \<Rightarrow> string list \<Rightarrow> bool" where
  "queue_ok pp q \<longleftrightarrow> (\<forall>i\<in>set q. pp i = 0)"

definition queue_full ::
  "workflow \<Rightarrow> (string \<Rightarrow> node_state) \<Rightarrow> (string \<Rightarrow> int) \<Rightarrow> string list \<Rightarrow> bool" where
  "queue_full w \<sigma> pp q \<longleftrightarrow>
     (\<forall>i. \<sigma> i = StatePending \<longrightarrow> pp i = 0 \<longrightarrow> i \<notin> set (fallback_targets w) \<longrightarrow> i \<in> set q)"

definition tasks_ok :: "(string \<Rightarrow> node_state) \<Rightarrow> string list \<Rightarrow> bool" where
  "tasks_ok \<sigma> T \<longleftrightarrow> distinct T \<and> set T = {i. \<sigma> i = StateRunning}"

definition task_ok ::
  "workflow \<Rightarrow> (string \<rightharpoonup> node_input list) \<Rightarrow> (string \<Rightarrow> bool) \<Rightarrow> task \<Rightarrow> bool" where
  "task_ok w used tried t \<longleftrightarrow>
     used (tk_attr t) = Some (tk_inputs t) \<and>
     (if tried (tk_attr t)
      then nodes_by_id w (fp_fallback (failure_policy_of (node_at w (tk_attr t)))) = Some (tk_node t)
           \<and> fp_mode (failure_policy_of (node_at w (tk_attr t))) = FailFallback
      else tk_node t = node_at w (tk_attr t))"

definition edge_active ::
  "sched_env \<Rightarrow> (string \<Rightarrow> node_state) \<Rightarrow> (string \<Rightarrow> node_output) \<Rightarrow> edge \<Rightarrow> bool" where
  "edge_active env \<sigma> out e \<longleftrightarrow>
     \<sigma> (edge_from e) = StateSucceeded \<and>
     eval_condition (se_unmarshal env) (edge_cond e) (out_content (out (edge_from e))) = Inr True"

definition edge_input :: "(string \<Rightarrow> node_output) \<Rightarrow> edge \<Rightarrow> node_input" where
  "edge_input out e =
     \<lparr>ni_from = edge_from e, ni_content = out_content (out (edge_from e)),
      ni_type = out_type (out (edge_from e)), ni_hash = out_hash (out (edge_from e))\<rparr>"

definition admitted ::
  "sched_env \<Rightarrow> (string \<Rightarrow> node_state) \<Rightarrow> (string \<Rightarrow> node_output) \<Rightarrow> string \<Rightarrow> bool" where
  "admitted env \<sigma> out i \<longleftrightarrow> (\<forall>e\<in>set (parents (se_wf env) i). edge_active env \<sigma> out e)"

definition rejected ::
  "sched_env \<Rightarrow> (string \<Rightarrow> node_state) \<Rightarrow> (string \<Rightarrow> node_output) \<Rightarrow> string \<Rightarrow> bool" where
  "rejected env \<sigma> out i \<longleftrightarrow>
     (\<exists>e\<in>set (parents (se_wf env) i).
        terminal (\<sigma> (edge_from e)) \<and> \<not> edge_active env \<sigma> out e)"

definition used_ok ::
  "sched_env \<Rightarrow> (string \<Rightarrow> node_state) \<Rightarrow> (string \<Rightarrow> node_output) \<Rightarrow>
   (string \<rightharpoonup> node_input list) \<Rightarrow> bool" where
  "used_ok env \<sigma> out used \<longleftrightarrow>
     (\<forall>i ins. used i = Some ins \<longrightarrow>
        admitted env \<sigma> out i \<and> ins = map (edge_input out) (parents (se_wf env) i))"

definition ran_ok ::
  "string set \<Rightarrow> (string \<Rightarrow> node_state) \<Rightarrow> (string \<rightharpoonup> node_input list) \<Rightarrow> bool" where
  "ran_ok P \<sigma> used \<longleftrightarrow>
     (\<forall>i. \<sigma> i = StateRunning \<or> \<sigma> i = StateFailed \<or> (\<sigma> i = StateSucceeded \<and> i \<notin> P) \<longrightarrow>
          used i \<noteq> None)"

definition skip_ok ::
  "sched_env \<Rightarrow> (string \<Rightarrow> node_state) \<Rightarrow> (string \<Rightarrow> node_output) \<Rightarrow> bool" where
  "skip_ok env \<sigma> out \<longleftrightarrow> (\<forall>i. \<sigma> i = StateSkipped \<longrightarrow> rejected env \<sigma> out i)"

text \<open>\<open>P\<close> are the precompleted nodes of the workflow, \<open>res\<close> their recorded outputs.\<close>

definition pre_ok ::
  "string set \<Rightarrow> (string \<Rightarrow> node_output) \<Rightarrow> (string \<Rightarrow> node_state) \<Rightarrow>
   (string \<Rightarrow> node_output) \<Rightarrow> (string \<rightharpoonup> node_input list) \<Rightarrow> bool" where
  "pre_ok P res \<sigma> out used \<longleftrightarrow>
     (\<forall>i\<in>P. \<sigma> i = StateSucceeded \<and> out i = res i \<and> used i = None)"

text \<open>A recorded outcome agrees with the state, and a node without one has not ended.\<close>

definition outcome_ok ::
  "(string \<Rightarrow> node_state) \<Rightarrow> (string \<Rightarrow> node_output) \<Rightarrow> (string \<rightharpoonup> node_input list) \<Rightarrow>
   (string \<rightharpoonup> node_outcome) \<Rightarrow> bool" where
  "outcome_ok \<sigma> out used oc \<longleftrightarrow>
     (\<forall>i c. oc i = Some c \<longrightarrow>
        no_state c = \<sigma> i \<and> (terminal (\<sigma> i) \<or> used i \<noteq> None) \<and>
        (\<sigma> i = StateSucceeded \<longrightarrow> no_hash c = out_hash (out i) \<and> no_type c = out_type (out i))) \<and>
     (\<forall>i. terminal (\<sigma> i) \<longrightarrow> oc i \<noteq> None)"

text \<open>The queue has no duplicates and no node that was already started.\<close>

definition fresh_ok :: "(string \<rightharpoonup> node_input list) \<Rightarrow> string list \<Rightarrow> bool" where
  "fresh_ok used q \<longleftrightarrow> distinct q \<and> (\<forall>i\<in>set q. used i = None)"

definition cancelled_events :: "event list \<Rightarrow> nat" where
  "cancelled_events es = length (filter (\<lambda>ev. ev_type ev = Cancelled) es)"

definition halt_ok :: "sched \<Rightarrow> bool" where
  "halt_ok s \<longleftrightarrow>
     (ss_halted s \<longleftrightarrow> ss_halt_err s \<noteq> None) \<and> (ss_ctx_cancelled s \<longleftrightarrow> ss_halted s) \<and>
     cancelled_events (ss_log s) \<le> (if ss_halted s then 1 else 0) \<and>
     (\<forall>ev\<in>set (ss_log s). ev_type ev \<noteq> ExecutionFinished)"

definition flight_ok :: "sched_env \<Rightarrow> sched \<Rightarrow> bool" where
  "flight_ok env s \<longleftrightarrow>
     ss_in_flight s = int (length (ss_running s)) \<and> int (length (ss_running s)) \<le> pool_size env"

definition wf_ids :: "workflow \<Rightarrow> string set" where
  "wf_ids w = node_id ` set (wf_nodes w)"

definition states_ok :: "workflow \<Rightarrow> (string, node_state) fmap \<Rightarrow> bool" where
  "states_ok w m \<longleftrightarrow> fmdom' m = wf_ids w \<and> (\<forall>i. fmlookup m i \<noteq> Some StateUnset)"

definition held :: "sched \<Rightarrow> task list" where
  "held s = ss_ready s @ ss_running s"

section \<open>Generic facts\<close>

lemma state_of_fmupd:
  "state_of (s\<lparr>ss_state := fmupd i st m\<rparr>) j =
     (if j = i then st else state_of (s\<lparr>ss_state := m\<rparr>) j)"
  by (simp add: state_of_def)

lemma state_of_cong: "ss_state s = ss_state s' \<Longrightarrow> state_of s = state_of s'"
  by (simp add: state_of_def fun_eq_iff)

lemma output_of_cong: "ss_output s = ss_output s' \<Longrightarrow> output_of s = output_of s'"
  by (simp add: output_of_def fun_eq_iff)

lemma input_of_eq: "input_of s = edge_input (output_of s)"
  by (simp add: input_of_def edge_input_def Let_def fun_eq_iff)

lemma parents_from: "e \<in> set (parents w i) \<Longrightarrow> edge_to e = i \<and> e \<in> set (live_edges w)"
  by (simp add: parents_def)

lemma unsettled_nonneg: "0 \<le> unsettled w \<sigma> i"
  by (simp add: unsettled_def)

lemma unsettled_zero:
  "unsettled w \<sigma> i = 0 \<longleftrightarrow> (\<forall>e\<in>set (parents w i). terminal (\<sigma> (edge_from e)))"
  by (auto simp: unsettled_def filter_empty_conv)

lemma unsettled_same:
  "(\<And>j. terminal (\<sigma>' j) = terminal (\<sigma> j)) \<Longrightarrow> unsettled w \<sigma>' i = unsettled w \<sigma> i"
  by (simp add: unsettled_def)

text \<open>Settling one node lowers the count of a child by the edges that lead there.\<close>

lemma unsettled_settle:
  assumes "\<not> terminal (\<sigma> p)" and "terminal st"
  shows "unsettled w (\<sigma>(p := st)) i =
    unsettled w \<sigma> i - int (count_list (children w p) i)"
proof -
  have "int (length (filter (\<lambda>e. \<not> terminal (\<sigma> (edge_from e))) (parents w i))) =
    int (length (filter (\<lambda>e. \<not> terminal (\<sigma> (edge_from e)) \<and> edge_from e = p) (parents w i))) +
    int (length (filter (\<lambda>e. \<not> terminal (\<sigma> (edge_from e)) \<and> edge_from e \<noteq> p) (parents w i)))"
    by (rule length_filter_split)
  moreover have "filter (\<lambda>e. \<not> terminal (\<sigma> (edge_from e)) \<and> edge_from e = p) (parents w i) =
      filter (\<lambda>e. edge_from e = p) (parents w i)"
    using assms by (intro filter_cong) auto
  moreover have "filter (\<lambda>e. \<not> terminal (\<sigma> (edge_from e)) \<and> edge_from e \<noteq> p) (parents w i) =
      filter (\<lambda>e. \<not> terminal ((\<sigma>(p := st)) (edge_from e))) (parents w i)"
    using assms by (intro filter_cong) auto
  ultimately show ?thesis by (simp add: unsettled_def count_children)
qed

text \<open>The pending counts and the queue after the children were visited.\<close>

lemma fold_settle_pending:
  "ss_pending (fold settle_child cs s) i = ss_pending s i - int (count_list cs i)"
  by (induction cs arbitrary: s) (auto simp: settle_child_def Let_def)

lemma settle_child_queue:
  "set (ss_to_decide s) \<subseteq> set (ss_to_decide (settle_child c s))"
  by (auto simp: settle_child_def Let_def)

lemma fold_settle_queue_mono:
  "set (ss_to_decide s) \<subseteq> set (ss_to_decide (fold settle_child cs s))"
proof (induction cs arbitrary: s)
  case (Cons c cs)
  from settle_child_queue [of s c] Cons.IH [of "settle_child c s"] show ?case by simp
qed simp

lemma fold_settle_queue_hit:
  assumes "c \<in> set cs" and "ss_pending (fold settle_child cs s) c = 0"
  shows "c \<in> set (ss_to_decide (fold settle_child cs s))"
  using assms
proof (induction cs arbitrary: s)
  case (Cons d cs)
  show ?case
  proof (cases "c \<in> set cs")
    case True
    with Cons show ?thesis by simp
  next
    case False
    with Cons.prems have d: "c = d" and "ss_pending (settle_child d s) c = 0"
      by (auto simp: fold_settle_pending count_list_0_iff)
    then have "c \<in> set (ss_to_decide (settle_child d s))"
      by (auto simp: settle_child_def Let_def split: if_splits)
    with fold_settle_queue_mono [of "settle_child d s" cs] show ?thesis by auto
  qed
qed simp

lemma fold_settle_queue_only:
  "i \<in> set (ss_to_decide (fold settle_child cs s)) \<Longrightarrow> i \<in> set (ss_to_decide s) \<or> i \<in> set cs"
proof (induction cs arbitrary: s)
  case (Cons d cs)
  then have "i \<in> set (ss_to_decide (settle_child d s)) \<or> i \<in> set cs" by simp
  then show ?case by (auto simp: settle_child_def Let_def split: if_splits)
qed simp

lemma settle_pending:
  "ss_pending (settle env p st s) i = ss_pending s i - int (count_list (children (se_wf env) p) i)"
  by (simp add: settle_def fold_settle_pending)

lemma state_of_settle [simp]: "state_of (settle env p st s) = (state_of s)(p := st)"
  by (auto simp: state_of_def fun_eq_iff)

lemma output_of_settle [simp]: "output_of (settle env p st s) = output_of s"
  by (rule output_of_cong) simp

lemma settle_pend_ok:
  assumes "pend_ok (se_wf env) (state_of s) (ss_pending s)"
    and "\<not> terminal (state_of s p)" and "terminal st"
  shows "pend_ok (se_wf env) (state_of (settle env p st s)) (ss_pending (settle env p st s))"
  using assms by (simp add: pend_ok_def settle_pending unsettled_settle)

text \<open>An id enters the queue only when its count reaches zero, and stays at zero.\<close>

lemma fold_settle_queue_ok:
  assumes "queue_ok (ss_pending s) (ss_to_decide s)"
    and "\<And>i. 0 \<le> ss_pending (fold settle_child cs s) i"
  shows "queue_ok (ss_pending (fold settle_child cs s)) (ss_to_decide (fold settle_child cs s))"
  using assms
proof (induction cs arbitrary: s)
  case (Cons c cs)
  have ge: "0 \<le> ss_pending (settle_child c s) i" for i
    using Cons.prems(2) [of i] by (simp add: fold_settle_pending)
  have down: "ss_pending (settle_child c s) i \<le> ss_pending s i" for i
    by (simp add: settle_child_def Let_def)
  have "queue_ok (ss_pending (settle_child c s)) (ss_to_decide (settle_child c s))"
    unfolding queue_ok_def
  proof
    fix i assume "i \<in> set (ss_to_decide (settle_child c s))"
    then consider "i \<in> set (ss_to_decide s)" | "ss_pending (settle_child c s) i = 0"
      by (auto simp: settle_child_def Let_def split: if_splits)
    then show "ss_pending (settle_child c s) i = 0"
    proof cases
      case 1
      with Cons.prems(1) have "ss_pending s i = 0" by (simp add: queue_ok_def)
      with ge [of i] down [of i] show ?thesis by linarith
    qed
  qed
  with Cons show ?case by simp
qed simp

lemma settle_queue_ok:
  assumes "pend_ok (se_wf env) (state_of s) (ss_pending s)"
    and "queue_ok (ss_pending s) (ss_to_decide s)"
    and "\<not> terminal (state_of s p)" and "terminal st"
  shows "queue_ok (ss_pending (settle env p st s)) (ss_to_decide (settle env p st s))"
proof -
  have "0 \<le> ss_pending (settle env p st s) i" for i
    using settle_pend_ok [OF assms(1,3,4)] by (simp add: pend_ok_def unsettled_nonneg)
  with assms(2) show ?thesis
    unfolding settle_def by (intro fold_settle_queue_ok) auto
qed

lemma settle_queue_full:
  assumes "queue_full w (state_of s) (ss_pending s) (p # ss_to_decide s)"
    and "w = se_wf env" and "terminal st"
  shows "queue_full w (state_of (settle env p st s)) (ss_pending (settle env p st s))
           (ss_to_decide (settle env p st s))"
  unfolding queue_full_def
proof (intro allI impI)
  fix i
  assume pend: "state_of (settle env p st s) i = StatePending"
    and zero: "ss_pending (settle env p st s) i = 0"
    and nf: "i \<notin> set (fallback_targets w)"
  from pend assms(3) have ne: "i \<noteq> p" and st: "state_of s i = StatePending"
    by (auto split: if_splits)
  show "i \<in> set (ss_to_decide (settle env p st s))"
  proof (cases "i \<in> set (children (se_wf env) p)")
    case True
    with zero show ?thesis unfolding settle_def by (intro fold_settle_queue_hit) auto
  next
    case False
    with zero have "ss_pending s i = 0" by (simp add: settle_pending count_list_0_iff)
    with st nf ne assms(1) have "i \<in> set (ss_to_decide s)" by (auto simp: queue_full_def)
    with fold_settle_queue_mono [of "s\<lparr>ss_state := fmupd p st (ss_state s)\<rparr>" "children (se_wf env) p"]
    show ?thesis unfolding settle_def by auto
  qed
qed

text \<open>What settling appends to the queue: ids that still had a pending parent, once each.\<close>

lemma fold_settle_queue_new:
  assumes "\<And>i. 0 \<le> ss_pending (fold settle_child cs s) i"
  shows "\<exists>new. ss_to_decide (fold settle_child cs s) = ss_to_decide s @ new \<and> distinct new \<and>
           (\<forall>i\<in>set new. 0 < ss_pending s i)"
  using assms
proof (induction cs arbitrary: s)
  case (Cons c cs)
  let ?s = "settle_child c s"
  from Cons.prems have ge: "0 \<le> ss_pending (fold settle_child cs ?s) i" for i
    using Cons.prems [of i] by simp
  from Cons.IH [OF ge] obtain new where new:
    "ss_to_decide (fold settle_child cs ?s) = ss_to_decide ?s @ new" "distinct new"
    "\<forall>i\<in>set new. 0 < ss_pending ?s i" by blast
  have ge': "0 \<le> ss_pending ?s i" for i
    using ge [of i] by (simp add: fold_settle_pending)
  have pend: "ss_pending ?s i = ss_pending s i - (if i = c then 1 else 0)" for i
    by (simp add: settle_child_def Let_def)
  show ?case
  proof (cases "ss_pending ?s c = 0")
    case True
    then have "ss_to_decide ?s = ss_to_decide s @ [c]"
      by (simp add: settle_child_def Let_def split: if_splits)
    moreover have "c \<notin> set new" using True new(3) by force
    moreover have "\<forall>i\<in>set (c # new). 0 < ss_pending s i"
      using True new(3) pend by (auto split: if_splits)
    ultimately show ?thesis using new by (intro exI [of _ "c # new"]) simp
  next
    case False
    then have "ss_to_decide ?s = ss_to_decide s"
      by (simp add: settle_child_def Let_def split: if_splits)
    moreover have "\<forall>i\<in>set new. 0 < ss_pending s i"
      using new(3) pend by (auto split: if_splits)
    ultimately show ?thesis using new by (intro exI [of _ new]) simp
  qed
qed simp

lemma used_pending_zero:
  assumes "used_ok env \<sigma> out used" and "pend_ok (se_wf env) \<sigma> pp" and "used i = Some ins"
  shows "pp i = 0"
  using assms
  by (auto simp: used_ok_def pend_ok_def unsettled_zero admitted_def edge_active_def)

lemma settle_fresh_ok:
  assumes "pend_ok (se_wf env) (state_of s) (ss_pending s)"
    and "queue_ok (ss_pending s) (ss_to_decide s)"
    and "used_ok env (state_of s) out (ss_inputs_used s)"
    and "fresh_ok (ss_inputs_used s) (ss_to_decide s)"
    and "\<not> terminal (state_of s p)" and "terminal st"
  shows "fresh_ok (ss_inputs_used s) (ss_to_decide (settle env p st s))"
proof -
  let ?s = "s\<lparr>ss_state := fmupd p st (ss_state s)\<rparr>"
  have "0 \<le> ss_pending (settle env p st s) i" for i
    using settle_pend_ok [OF assms(1,5,6)] by (simp add: pend_ok_def unsettled_nonneg)
  then obtain new where new: "ss_to_decide (settle env p st s) = ss_to_decide s @ new"
    "distinct new" "\<forall>i\<in>set new. 0 < ss_pending s i"
    using fold_settle_queue_new [of "children (se_wf env) p" ?s] by (auto simp: settle_def)
  have "set (ss_to_decide s) \<inter> set new = {}"
    using new(3) assms(2) by (force simp: queue_ok_def)
  moreover have "ss_inputs_used s i = None" if "i \<in> set new" for i
    using used_pending_zero [OF assms(3,1)] new(3) that by (cases "ss_inputs_used s i") force+
  ultimately show ?thesis using assms(4) new by (auto simp: fresh_ok_def)
qed

section \<open>A node leaves a non-terminal state\<close>

lemma edge_active_stable:
  assumes "\<not> terminal (\<sigma> p)" and "terminal (\<sigma> (edge_from e))"
  shows "edge_active env (\<sigma>(p := st)) (out(p := x)) e \<longleftrightarrow> edge_active env \<sigma> out e"
proof -
  have "edge_from e \<noteq> p" using assms by auto
  then show ?thesis by (simp add: edge_active_def)
qed

lemma edge_active_terminal: "edge_active env \<sigma> out e \<Longrightarrow> terminal (\<sigma> (edge_from e))"
  by (simp add: edge_active_def)

lemma admitted_stable:
  assumes "\<not> terminal (\<sigma> p)" and "admitted env \<sigma> out i"
  shows "admitted env (\<sigma>(p := st)) (out(p := x)) i"
  using assms edge_active_stable [where out = out and \<sigma> = \<sigma>, OF assms(1)]
  by (auto simp: admitted_def edge_active_terminal)

lemma rejected_stable:
  assumes "\<not> terminal (\<sigma> p)" and "rejected env \<sigma> out i"
  shows "rejected env (\<sigma>(p := st)) (out(p := x)) i"
proof -
  from assms(2) obtain e where e: "e \<in> set (parents (se_wf env) i)"
    "terminal (\<sigma> (edge_from e))" "\<not> edge_active env \<sigma> out e"
    by (auto simp: rejected_def)
  with assms(1) have "edge_from e \<noteq> p" by auto
  with e edge_active_stable [where \<sigma> = \<sigma> and out = out, OF assms(1) e(2)]
  show ?thesis by (auto simp: rejected_def)
qed

lemma used_ok_stable:
  assumes "\<not> terminal (\<sigma> p)" and "used_ok env \<sigma> out used"
  shows "used_ok env (\<sigma>(p := st)) (out(p := x)) used"
  unfolding used_ok_def
proof (intro allI impI conjI)
  fix i ins assume u: "used i = Some ins"
  with assms(2) have adm: "admitted env \<sigma> out i"
    and ins: "ins = map (edge_input out) (parents (se_wf env) i)" by (auto simp: used_ok_def)
  from admitted_stable [where x = x, OF assms(1) adm] show "admitted env (\<sigma>(p := st)) (out(p := x)) i" by simp
  have "edge_input out e = edge_input (out(p := x)) e" if "e \<in> set (parents (se_wf env) i)" for e
  proof -
    from adm that have "edge_from e \<noteq> p"
      using assms(1) by (auto simp: admitted_def edge_active_def)
    then show ?thesis by (simp add: edge_input_def)
  qed
  with ins show "ins = map (edge_input (out(p := x))) (parents (se_wf env) i)" by simp
qed

lemma skip_ok_stable:
  assumes "\<not> terminal (\<sigma> p)" and "skip_ok env \<sigma> out"
    and "st = StateSkipped \<Longrightarrow> rejected env \<sigma> out p"
  shows "skip_ok env (\<sigma>(p := st)) (out(p := x))"
  using assms rejected_stable [where \<sigma> = \<sigma>, OF assms(1)] by (auto simp: skip_ok_def)

text \<open>What the loop over the incoming edges found out.\<close>

lemma gather_inputs_active:
  assumes "gather_inputs env i es act ins s = (act', ins', s')"
  shows "act' \<longleftrightarrow> act \<and> (\<forall>e\<in>set es. edge_active env (state_of s) (output_of s) e)"
  using assms
proof (induction es arbitrary: act ins s)
  case (Cons e es)
  let ?ev = "eval_condition (se_unmarshal env) (edge_cond e) (out_content (output_of s (edge_from e)))"
  have same: "state_of (do_halt x s) = state_of s" "output_of (do_halt x s) = output_of s" for x
    by (auto intro: state_of_cong output_of_cong)
  show ?case
  proof (cases "state_of s (edge_from e) = StateSucceeded")
    case True
    show ?thesis
    proof (cases ?ev)
      case (Inl err)
      from True Cons.prems Cons.IH [of False ins "do_halt (condition_failed i e err) s"]
      show ?thesis by (simp add: Inl edge_active_def same)
    next
      case (Inr b)
      from True Cons.prems Cons.IH [of False ins s] Cons.IH [of act "ins @ [input_of s e]" s]
      show ?thesis by (cases b) (simp_all add: Inr edge_active_def)
    qed
  next
    case False
    with Cons.prems Cons.IH [of False ins s] show ?thesis by (simp add: edge_active_def)
  qed
qed simp

lemma gather_inputs_True:
  assumes "gather_inputs env i es act ins s = (True, ins', s')"
  shows "s' = s \<and> ins' = ins @ map (edge_input (output_of s)) es"
  using assms
proof (induction es arbitrary: ins)
  case (Cons e es)
  have "edge_active env (state_of s) (output_of s) e"
    using gather_inputs_active [OF Cons.prems] by simp
  with Cons.prems Cons.IH [of "ins @ [input_of s e]"] show ?case
    by (simp add: edge_active_def input_of_eq)
qed simp

end
