(* ===== verification/SchedulerStep.thy ===== *)
theory SchedulerStep
  imports SchedulerInv
begin

text \<open>
  The invariant holds when the loop of \<open>run\<close> starts and every step of it keeps it. The
  work is one lemma per way a node changes state: it is started, skipped, failed,
  succeeded, replaced by its fallback, paused.
\<close>

text \<open>\<open>T\<close> are the tasks held, \<open>q\<close> the ids still to be decided, \<open>P\<close> and \<open>res\<close> the
  precompleted nodes; inside a handler \<open>T\<close> and \<open>q\<close> differ from the fields for a moment.\<close>

definition core_inv ::
  "sched_env \<Rightarrow> string set \<Rightarrow> (string \<Rightarrow> node_output) \<Rightarrow> task list \<Rightarrow> string list \<Rightarrow> sched \<Rightarrow> bool" where
  "core_inv env P res T q s \<longleftrightarrow>
     states_ok (se_wf env) (ss_state s) \<and>
     pend_ok (se_wf env) (state_of s) (ss_pending s) \<and>
     queue_ok (ss_pending s) (ss_to_decide s) \<and>
     (\<not> ss_halted s \<longrightarrow> queue_full (se_wf env) (state_of s) (ss_pending s) q) \<and>
     fresh_ok (ss_inputs_used s) (ss_to_decide s) \<and>
     tasks_ok (state_of s) (map tk_attr T) \<and>
     (\<forall>t\<in>set T. task_ok (se_wf env) (ss_inputs_used s) (ss_fb_tried s) t) \<and>
     used_ok env (state_of s) (output_of s) (ss_inputs_used s) \<and>
     ran_ok P (state_of s) (ss_inputs_used s) \<and>
     skip_ok env (state_of s) (output_of s) \<and>
     pre_ok P res (state_of s) (output_of s) (ss_inputs_used s) \<and>
     outcome_ok (state_of s) (output_of s) (ss_inputs_used s) (ss_outcomes s) \<and>
     (\<forall>i. ss_fb_tried s i \<longrightarrow> ss_inputs_used s i \<noteq> None) \<and>
     halt_ok s"

definition sched_inv ::
  "sched_env \<Rightarrow> string set \<Rightarrow> (string \<Rightarrow> node_output) \<Rightarrow> sched \<Rightarrow> bool" where
  "sched_inv env P res s \<longleftrightarrow>
     core_inv env P res (held s) (ss_to_decide s) s \<and> flight_ok env s"

lemma core_invI:
  assumes "states_ok (se_wf env) (ss_state s)"
    and "pend_ok (se_wf env) (state_of s) (ss_pending s)"
    and "queue_ok (ss_pending s) (ss_to_decide s)"
    and "\<not> ss_halted s \<Longrightarrow> queue_full (se_wf env) (state_of s) (ss_pending s) q"
    and "fresh_ok (ss_inputs_used s) (ss_to_decide s)"
    and "tasks_ok (state_of s) (map tk_attr T)"
    and "\<And>t. t \<in> set T \<Longrightarrow> task_ok (se_wf env) (ss_inputs_used s) (ss_fb_tried s) t"
    and "used_ok env (state_of s) (output_of s) (ss_inputs_used s)"
    and "ran_ok P (state_of s) (ss_inputs_used s)"
    and "skip_ok env (state_of s) (output_of s)"
    and "pre_ok P res (state_of s) (output_of s) (ss_inputs_used s)"
    and "outcome_ok (state_of s) (output_of s) (ss_inputs_used s) (ss_outcomes s)"
    and "\<And>i. ss_fb_tried s i \<Longrightarrow> ss_inputs_used s i \<noteq> None"
    and "halt_ok s"
  shows "core_inv env P res T q s"
  using assms by (simp add: core_inv_def)

lemma core_invD:
  assumes "core_inv env P res T q s"
  shows "states_ok (se_wf env) (ss_state s)"
    and "pend_ok (se_wf env) (state_of s) (ss_pending s)"
    and "queue_ok (ss_pending s) (ss_to_decide s)"
    and "\<not> ss_halted s \<Longrightarrow> queue_full (se_wf env) (state_of s) (ss_pending s) q"
    and "fresh_ok (ss_inputs_used s) (ss_to_decide s)"
    and "tasks_ok (state_of s) (map tk_attr T)"
    and "\<And>t. t \<in> set T \<Longrightarrow> task_ok (se_wf env) (ss_inputs_used s) (ss_fb_tried s) t"
    and "used_ok env (state_of s) (output_of s) (ss_inputs_used s)"
    and "ran_ok P (state_of s) (ss_inputs_used s)"
    and "skip_ok env (state_of s) (output_of s)"
    and "pre_ok P res (state_of s) (output_of s) (ss_inputs_used s)"
    and "outcome_ok (state_of s) (output_of s) (ss_inputs_used s) (ss_outcomes s)"
    and "\<And>i. ss_fb_tried s i \<Longrightarrow> ss_inputs_used s i \<noteq> None"
    and "halt_ok s"
  using assms by (simp_all add: core_inv_def)

section \<open>Field updates\<close>

text \<open>The functions \<open>state_of\<close> and \<open>output_of\<close> of an updated state.\<close>

lemma state_of_upd:
  "ss_state s' = fmupd i st (ss_state s) \<Longrightarrow> state_of s' = (state_of s)(i := st)"
  by (auto simp: state_of_def fun_eq_iff)

lemma output_of_upd:
  "ss_output s' = (ss_output s)(i \<mapsto> out) \<Longrightarrow> output_of s' = (output_of s)(i := out)"
  by (auto simp: output_of_def fun_eq_iff)

lemma state_of_frames [simp]:
  "state_of (do_halt e s) = state_of s" "state_of (set_outcome i c s) = state_of s"
  "state_of (sched_emit env ty nid p s) = state_of s"
  "state_of (cancel_halt env s) = state_of s"
  "output_of (do_halt e s) = output_of s" "output_of (set_outcome i c s) = output_of s"
  "output_of (sched_emit env ty nid p s) = output_of s"
  "output_of (cancel_halt env s) = output_of s"
  by (auto intro!: state_of_cong output_of_cong
      simp: set_outcome_def sched_emit_def cancel_halt_def)

lemma set_outcome_frame [simp]:
  "ss_state (set_outcome i c s) = ss_state s" "ss_output (set_outcome i c s) = ss_output s"
  "ss_outcomes (set_outcome i c s) = (ss_outcomes s)(i \<mapsto> c)"
  "ss_inputs_used (set_outcome i c s) = ss_inputs_used s"
  "ss_fb_tried (set_outcome i c s) = ss_fb_tried s" "ss_pending (set_outcome i c s) = ss_pending s"
  "ss_budget (set_outcome i c s) = ss_budget s" "ss_ready (set_outcome i c s) = ss_ready s"
  "ss_to_decide (set_outcome i c s) = ss_to_decide s"
  "ss_in_flight (set_outcome i c s) = ss_in_flight s"
  "ss_running (set_outcome i c s) = ss_running s" "ss_halted (set_outcome i c s) = ss_halted s"
  "ss_halt_err (set_outcome i c s) = ss_halt_err s"
  "ss_ctx_cancelled (set_outcome i c s) = ss_ctx_cancelled s"
  "ss_parent_err (set_outcome i c s) = ss_parent_err s"
  "ss_ctx_done_open (set_outcome i c s) = ss_ctx_done_open s"
  "ss_now (set_outcome i c s) = ss_now s" "ss_log (set_outcome i c s) = ss_log s"
  by (simp_all add: set_outcome_def)

lemma sched_emit_frame [simp]:
  "ss_state (sched_emit env ty n p s) = ss_state s"
  "ss_output (sched_emit env ty n p s) = ss_output s"
  "ss_outcomes (sched_emit env ty n p s) = ss_outcomes s"
  "ss_inputs_used (sched_emit env ty n p s) = ss_inputs_used s"
  "ss_fb_tried (sched_emit env ty n p s) = ss_fb_tried s"
  "ss_pending (sched_emit env ty n p s) = ss_pending s"
  "ss_budget (sched_emit env ty n p s) = ss_budget s"
  "ss_ready (sched_emit env ty n p s) = ss_ready s"
  "ss_to_decide (sched_emit env ty n p s) = ss_to_decide s"
  "ss_in_flight (sched_emit env ty n p s) = ss_in_flight s"
  "ss_running (sched_emit env ty n p s) = ss_running s"
  "ss_halted (sched_emit env ty n p s) = ss_halted s"
  "ss_halt_err (sched_emit env ty n p s) = ss_halt_err s"
  "ss_ctx_cancelled (sched_emit env ty n p s) = ss_ctx_cancelled s"
  "ss_parent_err (sched_emit env ty n p s) = ss_parent_err s"
  "ss_ctx_done_open (sched_emit env ty n p s) = ss_ctx_done_open s"
  "ss_now (sched_emit env ty n p s) = ss_now s"
  by (simp_all add: sched_emit_def)

lemma cancel_halt_frame [simp]:
  "ss_state (cancel_halt env s) = ss_state s" "ss_output (cancel_halt env s) = ss_output s"
  "ss_outcomes (cancel_halt env s) = ss_outcomes s"
  "ss_inputs_used (cancel_halt env s) = ss_inputs_used s"
  "ss_fb_tried (cancel_halt env s) = ss_fb_tried s"
  "ss_pending (cancel_halt env s) = ss_pending s" "ss_budget (cancel_halt env s) = ss_budget s"
  "ss_ready (cancel_halt env s) = ss_ready s"
  "ss_to_decide (cancel_halt env s) = ss_to_decide s"
  "ss_in_flight (cancel_halt env s) = ss_in_flight s"
  "ss_running (cancel_halt env s) = ss_running s" "ss_halted (cancel_halt env s)"
  "ss_parent_err (cancel_halt env s) = ss_parent_err s"
  "ss_ctx_done_open (cancel_halt env s) = ss_ctx_done_open s"
  by (auto simp: cancel_halt_def)

section \<open>Halting and the log\<close>

lemma halt_ok_do_halt: "halt_ok s \<Longrightarrow> halt_ok (do_halt e s)"
  by (auto simp: halt_ok_def do_halt_def split: if_splits)

lemma halt_ok_emit:
  assumes "halt_ok s" and "ty \<noteq> Cancelled" and "ty \<noteq> ExecutionFinished"
  shows "halt_ok (sched_emit env ty nid p s)"
  using assms by (auto simp: halt_ok_def sched_emit_def cancelled_events_def)

lemma halt_ok_cancel_halt: "halt_ok s \<Longrightarrow> halt_ok (cancel_halt env s)"
  by (auto simp: halt_ok_def cancel_halt_def do_halt_def sched_emit_def cancelled_events_def)

lemma halt_ok_cong:
  assumes "halt_ok s" and "ss_halted s' = ss_halted s" and "ss_halt_err s' = ss_halt_err s"
    and "ss_ctx_cancelled s' = ss_ctx_cancelled s" and "ss_log s' = ss_log s"
  shows "halt_ok s'"
  using assms(1) unfolding halt_ok_def assms(2-) .

lemma core_inv_do_halt:
  assumes "core_inv env P res T q s"
  shows "core_inv env P res T q' (do_halt e s)"
  using core_invD [OF assms] by (intro core_invI) (simp_all add: halt_ok_do_halt)

lemma core_inv_cancel_halt:
  assumes "core_inv env P res T q s"
  shows "core_inv env P res T q' (cancel_halt env s)"
  using core_invD [OF assms] by (intro core_invI) (simp_all add: halt_ok_cancel_halt)

lemma core_inv_emit:
  assumes "core_inv env P res T q s" and "ty \<noteq> Cancelled" and "ty \<noteq> ExecutionFinished"
  shows "core_inv env P res T q (sched_emit env ty nid p s)"
  using core_invD [OF assms(1)] assms(2,3) by (intro core_invI) (simp_all add: halt_ok_emit)

text \<open>Steps that only touch fields the invariant does not read.\<close>

lemma core_inv_cong:
  assumes "core_inv env P res T q s"
    and "ss_state s' = ss_state s" "ss_output s' = ss_output s" "ss_outcomes s' = ss_outcomes s"
    "ss_inputs_used s' = ss_inputs_used s" "ss_fb_tried s' = ss_fb_tried s"
    "ss_pending s' = ss_pending s" "ss_to_decide s' = ss_to_decide s"
    "ss_halted s' = ss_halted s" "ss_halt_err s' = ss_halt_err s"
    "ss_ctx_cancelled s' = ss_ctx_cancelled s" "ss_log s' = ss_log s"
  shows "core_inv env P res T q s'"
  using core_invD [OF assms(1)] assms(2-) state_of_cong [OF assms(2)] output_of_cong [OF assms(3)]
    halt_ok_cong [OF core_invD(14) [OF assms(1)]]
  by (intro core_invI) simp_all

section \<open>Settling a node\<close>

lemma tasks_ok_member: "tasks_ok \<sigma> T \<Longrightarrow> i \<in> set T \<longleftrightarrow> \<sigma> i = StateRunning"
  by (auto simp: tasks_ok_def)

lemma tasks_ok_attr: "tasks_ok \<sigma> (map tk_attr T) \<Longrightarrow> u \<in> set T \<Longrightarrow> \<sigma> (tk_attr u) = StateRunning"
  by (auto simp: tasks_ok_def)

lemma outcome_ok_fresh:
  assumes "outcome_ok \<sigma> out used oc" and "\<not> terminal (\<sigma> i)" and "used i = None"
  shows "oc i = None"
  using assms unfolding outcome_ok_def by (metis option.exhaust)

lemma states_ok_upd:
  "states_ok w m \<Longrightarrow> i \<in> wf_ids w \<Longrightarrow> st \<noteq> StateUnset \<Longrightarrow> states_ok w (fmupd i st m)"
  by (auto simp: states_ok_def)

text \<open>
  The common part of skip, fail and success: node \<open>i\<close> is not terminal, its outcome is
  recorded, it may have gained an output, and it is settled in a terminal state.
\<close>

lemma settle_core_inv:
  assumes s: "states_ok (se_wf env) (ss_state s)"
    "pend_ok (se_wf env) (state_of s) (ss_pending s)"
    "queue_ok (ss_pending s) (ss_to_decide s)"
    "\<not> ss_halted s \<Longrightarrow> queue_full (se_wf env) (state_of s) (ss_pending s) (i # ss_to_decide s)"
    "fresh_ok (ss_inputs_used s) (ss_to_decide s)"
    "\<And>t. t \<in> set T \<Longrightarrow> task_ok (se_wf env) (ss_inputs_used s) (ss_fb_tried s) t"
    "used_ok env (state_of s) out (ss_inputs_used s)"
    "ran_ok P (state_of s) (ss_inputs_used s)"
    "skip_ok env (state_of s) out"
    "pre_ok P res (state_of s) out (ss_inputs_used s)"
    "outcome_ok (state_of s) out (ss_inputs_used s) ((ss_outcomes s)(i := oc))"
    "\<And>i. ss_fb_tried s i \<Longrightarrow> ss_inputs_used s i \<noteq> None"
    "halt_ok s"
    and i: "i \<in> wf_ids (se_wf env)" "\<not> terminal (state_of s i)" "terminal st"
    and out: "output_of s = out(i := x)"
    and tasks: "tasks_ok ((state_of s)(i := st)) (map tk_attr T)"
    and ran: "st \<noteq> StateSkipped \<Longrightarrow> ss_inputs_used s i \<noteq> None"
    and rej: "st = StateSkipped \<Longrightarrow> rejected env (state_of s) out i"
    and oc: "ss_outcomes s i = Some c" "no_state c = st"
    "st = StateSucceeded \<Longrightarrow> no_hash c = out_hash x \<and> no_type c = out_type x"
  shows "core_inv env P res T (ss_to_decide (settle env i st s)) (settle env i st s)"
proof (rule core_invI)
  show "states_ok (se_wf env) (ss_state (settle env i st s))"
    using s(1) i by (auto intro: states_ok_upd)
  show "pend_ok (se_wf env) (state_of (settle env i st s)) (ss_pending (settle env i st s))"
    by (rule settle_pend_ok [OF s(2) i(2,3)])
  show "queue_ok (ss_pending (settle env i st s)) (ss_to_decide (settle env i st s))"
    by (rule settle_queue_ok [OF s(2,3) i(2,3)])
  show "queue_full (se_wf env) (state_of (settle env i st s)) (ss_pending (settle env i st s))
      (ss_to_decide (settle env i st s))" if "\<not> ss_halted (settle env i st s)"
    using settle_queue_full [OF s(4) refl i(3)] that by simp
  show "fresh_ok (ss_inputs_used (settle env i st s)) (ss_to_decide (settle env i st s))"
    using settle_fresh_ok [OF s(2,3,7,5) i(2,3)] by simp
  show "tasks_ok (state_of (settle env i st s)) (map tk_attr T)" using tasks by simp
  show "task_ok (se_wf env) (ss_inputs_used (settle env i st s)) (ss_fb_tried (settle env i st s)) t"
    if "t \<in> set T" for t using s(6) [OF that] by simp
  show "used_ok env (state_of (settle env i st s)) (output_of (settle env i st s))
      (ss_inputs_used (settle env i st s))"
    using used_ok_stable [OF i(2) s(7)] by (simp add: out)
  show "ran_ok P (state_of (settle env i st s)) (ss_inputs_used (settle env i st s))"
    using s(8) ran i by (auto simp: ran_ok_def)
  show "skip_ok env (state_of (settle env i st s)) (output_of (settle env i st s))"
    using skip_ok_stable [OF i(2) s(9) rej] by (simp add: out)
  show "pre_ok P res (state_of (settle env i st s)) (output_of (settle env i st s))
      (ss_inputs_used (settle env i st s))"
    using s(10) i by (auto simp: pre_ok_def out)
  show "outcome_ok (state_of (settle env i st s)) (output_of (settle env i st s))
      (ss_inputs_used (settle env i st s)) (ss_outcomes (settle env i st s))"
    using s(11) oc i by (auto simp: outcome_ok_def out)
  show "ss_inputs_used (settle env i st s) j \<noteq> None" if "ss_fb_tried (settle env i st s) j" for j
    using s(12) that by simp
  show "halt_ok (settle env i st s)" by (rule halt_ok_cong [OF s(13)]) simp_all
qed

section \<open>processDecisions\<close>

lemma decide_active_inv:
  assumes inv: "core_inv env P res T (i # ss_to_decide s) s"
    and i: "state_of s i = StatePending" "ss_inputs_used s i = None" "i \<notin> set (ss_to_decide s)"
    and adm: "admitted env (state_of s) (output_of s) i"
    and s': "s' = s\<lparr>ss_state := fmupd i StateRunning (ss_state s),
              ss_inputs_used := (ss_inputs_used s)(i \<mapsto>
                 map (edge_input (output_of s)) (parents (se_wf env) i)),
              ss_ready := ss_ready s @ [t]\<rparr>"
    and t: "t = \<lparr>tk_node = node_at (se_wf env) i,
              tk_inputs = map (edge_input (output_of s)) (parents (se_wf env) i), tk_attr = i\<rparr>"
    and T: "set T' = insert t (set T)" "distinct (map tk_attr T')"
  shows "core_inv env P res T' (ss_to_decide s') s'"
proof -
  note c = core_invD [OF inv]
  have \<sigma>: "state_of s' = (state_of s)(i := StateRunning)" by (rule state_of_upd) (simp add: s')
  have out: "output_of s' = output_of s" by (rule output_of_cong) (simp add: s')
  have used: "ss_inputs_used s' =
      (ss_inputs_used s)(i \<mapsto> map (edge_input (output_of s)) (parents (se_wf env) i))"
    and oc: "ss_outcomes s' = ss_outcomes s"
    by (simp_all add: s')
  have nt: "\<not> terminal (state_of s i)" using i by simp
  have untried: "\<not> ss_fb_tried s i" using c(13) [of i] i(2) by auto
  show ?thesis
  proof (rule core_invI)
    have "fmlookup (ss_state s) i \<noteq> None"
      using i(1) by (auto simp: state_of_def split: option.splits)
    then have "i \<in> fmdom' (ss_state s)" by (simp add: fmlookup_dom'_iff)
    then have "i \<in> wf_ids (se_wf env)" using c(1) by (simp add: states_ok_def)
    with c(1) show "states_ok (se_wf env) (ss_state s')" by (simp add: s' states_ok_upd)
    show "pend_ok (se_wf env) (state_of s') (ss_pending s')"
      using c(2) nt unsettled_same [of "state_of s'" "state_of s" "se_wf env"] \<sigma>
      by (simp add: s' pend_ok_def)
    show "queue_ok (ss_pending s') (ss_to_decide s')" using c(3) by (simp add: s')
    show "queue_full (se_wf env) (state_of s') (ss_pending s') (ss_to_decide s')"
      if "\<not> ss_halted s'"
      using c(4) that \<sigma> by (auto simp: s' queue_full_def split: if_splits)
    show "fresh_ok (ss_inputs_used s') (ss_to_decide s')"
      using c(5) i(3) by (auto simp: s' fresh_ok_def)
    show "tasks_ok (state_of s') (map tk_attr T')"
      using c(6) T by (auto simp: \<sigma> tasks_ok_def t)
    show "task_ok (se_wf env) (ss_inputs_used s') (ss_fb_tried s') u" if "u \<in> set T'" for u
    proof (cases "u = t")
      case True
      with untried show ?thesis by (simp add: task_ok_def s' t)
    next
      case False
      with that T(1) have u: "u \<in> set T" by simp
      then have "tk_attr u \<noteq> i" using tasks_ok_attr [OF c(6) u] i(1) by auto
      with c(7) [OF u] show ?thesis by (simp add: task_ok_def s')
    qed
    show "used_ok env (state_of s') (output_of s') (ss_inputs_used s')"
    proof -
      have "used_ok env (state_of s') (output_of s') (ss_inputs_used s)"
        using used_ok_stable [OF nt c(8), of StateRunning "output_of s i"] by (simp add: \<sigma> out)
      moreover have "admitted env (state_of s') (output_of s') i"
        using admitted_stable [OF nt adm, of StateRunning "output_of s i"] by (simp add: \<sigma> out)
      ultimately show ?thesis by (simp add: used_ok_def used out)
    qed
    show "ran_ok P (state_of s') (ss_inputs_used s')"
      using c(9) by (auto simp: ran_ok_def \<sigma> used)
    show "skip_ok env (state_of s') (output_of s')"
      using skip_ok_stable [OF nt c(10), of StateRunning "output_of s i"] by (simp add: \<sigma> out)
    show "pre_ok P res (state_of s') (output_of s') (ss_inputs_used s')"
      using c(11) i(1) by (auto simp: pre_ok_def \<sigma> out used)
    show "outcome_ok (state_of s') (output_of s') (ss_inputs_used s') (ss_outcomes s')"
      using c(12) outcome_ok_fresh [OF c(12) nt i(2)]
      by (auto simp: outcome_ok_def \<sigma> out used oc split: if_splits)
    show "ss_inputs_used s' j \<noteq> None" if "ss_fb_tried s' j" for j
      using c(13) [of j] that by (simp add: s')
    show "halt_ok s'" by (rule halt_ok_cong [OF c(14)]) (simp_all add: s')
  qed
qed

lemma core_inv_queue_weaken:
  assumes "core_inv env P res T (i # q) s" and "state_of s i \<noteq> StatePending"
  shows "core_inv env P res T q s"
  using core_invD [OF assms(1)] assms(2)
  by (intro core_invI) (auto simp: queue_full_def)

lemma pending_wf_id:
  assumes "states_ok w (ss_state s)" and "state_of s i \<noteq> StateUnset"
  shows "i \<in> wf_ids w"
proof -
  from assms(2) have "fmlookup (ss_state s) i \<noteq> None"
    by (auto simp: state_of_def split: option.splits)
  then have "i \<in> fmdom' (ss_state s)" by (simp add: fmlookup_dom'_iff)
  with assms(1) show ?thesis by (simp add: states_ok_def)
qed

lemma decide_node_inv:
  assumes inv: "core_inv env P res (held s) (i # ss_to_decide s) s"
    and zero: "ss_pending s i = 0" and i: "ss_inputs_used s i = None" "i \<notin> set (ss_to_decide s)"
  shows "core_inv env P res (held (decide_node env i s)) (ss_to_decide (decide_node env i s))
           (decide_node env i s)"
proof (cases "state_of s i = StatePending")
  case False
  with core_inv_queue_weaken [OF inv False] show ?thesis by (simp add: decide_node_def)
next
  case True
  note c = core_invD [OF inv]
  obtain act ins s1 where g:
    "gather_inputs env i (parents (se_wf env) i) True [] s = (act, ins, s1)"
    by (metis prod_cases3)
  have act: "act \<longleftrightarrow> admitted env (state_of s) (output_of s) i"
    using gather_inputs_active [OF g] by (simp add: admitted_def)
  show ?thesis
  proof (cases act)
    case True
    with g have g': "gather_inputs env i (parents (se_wf env) i) True [] s = (True, ins, s1)" by simp
    note r = gather_inputs_True [OF g']
    let ?t = "\<lparr>tk_node = node_at (se_wf env) i,
       tk_inputs = map (edge_input (output_of s)) (parents (se_wf env) i), tk_attr = i\<rparr>"
    let ?s = "s\<lparr>ss_state := fmupd i StateRunning (ss_state s),
       ss_inputs_used := (ss_inputs_used s)(i \<mapsto>
         map (edge_input (output_of s)) (parents (se_wf env) i)),
       ss_ready := ss_ready s @ [?t]\<rparr>"
    have eq: "decide_node env i s = ?s"
      using \<open>state_of s i = StatePending\<close> g r True by (simp add: decide_node_def)
    have "i \<notin> tk_attr ` set (held s)"
      using tasks_ok_attr [OF c(6)] \<open>state_of s i = StatePending\<close> by fastforce
    then have "distinct (map tk_attr (held ?s))"
      using c(6) by (auto simp: tasks_ok_def held_def)
    then show ?thesis
      unfolding eq using decide_active_inv [OF inv \<open>state_of s i = StatePending\<close> i _ refl refl] act True
      by (auto simp: held_def)
  next
    case False
    let ?s = "set_outcome i (outcome_of StateSkipped '''') s1"
    have eq: "decide_node env i s = settle env i StateSkipped ?s"
      using \<open>state_of s i = StatePending\<close> g False by (simp add: decide_node_def set_outcome_def)
    have inv1: "core_inv env P res (held s1) (i # ss_to_decide s1) s1"
      and same: "state_of s1 = state_of s" "output_of s1 = output_of s"
      "ss_inputs_used s1 = ss_inputs_used s" "ss_pending s1 = ss_pending s"
      using gather_inputs_frame [OF g] inv core_inv_do_halt [OF inv] by (auto simp: held_def)
    note c1 = core_invD [OF inv1]
    have "\<forall>e\<in>set (parents (se_wf env) i). terminal (state_of s (edge_from e))"
      using zero c(2) unsettled_zero by (auto simp: pend_ok_def)
    with act False have rej: "rejected env (state_of s1) (output_of s1) i"
      by (auto simp: rejected_def admitted_def same)
    have noc: "ss_outcomes s1 i = None"
      using outcome_ok_fresh [OF c1(12)] \<open>state_of s i = StatePending\<close> i same by simp
    have wfi: "i \<in> wf_ids (se_wf env)"
      using pending_wf_id [OF c(1)] \<open>state_of s i = StatePending\<close> by simp
    have upd: "(ss_outcomes ?s)(i := None) = ss_outcomes s1" using noc by auto
    have "core_inv env P res (held s1) (ss_to_decide (settle env i StateSkipped ?s))
        (settle env i StateSkipped ?s)"
    proof (rule settle_core_inv [where out = "output_of s1" and oc = None
          and x = "output_of s1 i" and c = "outcome_of StateSkipped ''''"])
      show "tasks_ok ((state_of ?s)(i := StateSkipped)) (map tk_attr (held s1))"
        using c1(6) \<open>state_of s i = StatePending\<close> by (auto simp: tasks_ok_def same)
      show "outcome_ok (state_of ?s) (output_of s1) (ss_inputs_used ?s) ((ss_outcomes ?s)(i := None))"
        unfolding upd using c1(12) by simp
    qed (use c1 rej wfi \<open>state_of s i = StatePending\<close> same in
          \<open>simp_all add: halt_ok_cong [OF c1(14)]\<close>)
    then show ?thesis by (simp add: eq held_def)
  qed
qed

lemma process_decisions_inv:
  assumes "core_inv env P res (held s) (ss_to_decide s) s"
  shows "core_inv env P res (held (process_decisions env s)) [] (process_decisions env s) \<and>
         ss_to_decide (process_decisions env s) = []"
  using assms
proof (induction env s rule: process_decisions.induct)
  case (1 env s)
  show ?case
  proof (cases "ss_to_decide s")
    case Nil
    with 1 show ?thesis by (subst (1 2 3) process_decisions.simps) simp
  next
    case (Cons i rest)
    let ?s = "s\<lparr>ss_to_decide := rest\<rparr>"
    note c = core_invD [OF "1.prems"]
    have "core_inv env P res (held ?s) (i # rest) ?s"
      using c Cons state_of_cong [of ?s s] output_of_cong [of ?s s] halt_ok_cong [OF c(14), of ?s]
      by (intro core_invI) (auto simp: held_def queue_ok_def fresh_ok_def)
    then have "core_inv env P res (held (decide_head env s)) (ss_to_decide (decide_head env s))
        (decide_head env s)"
      using decide_node_inv [of env P res ?s i] c(3,5) Cons
      by (simp add: decide_head_def queue_ok_def fresh_ok_def)
    with "1.IH" Cons show ?thesis by (subst (1 2 3) process_decisions.simps) simp
  qed
qed

section \<open>handleCompletion\<close>

text \<open>\<open>T'\<close> is what is held without the completed task \<open>t\<close>.\<close>

definition drops :: "task \<Rightarrow> task list \<Rightarrow> task list \<Rightarrow> bool" where
  "drops t T T' \<longleftrightarrow> t \<in> set T \<and> distinct (map tk_attr T') \<and> set T' = set T - {t}"

lemma drops_facts:
  assumes "core_inv env P res T q s" and "drops t T T'"
  shows "state_of s (tk_attr t) = StateRunning" "tk_attr t \<in> wf_ids (se_wf env)"
    "ss_inputs_used s (tk_attr t) = Some (tk_inputs t)"
    "task_ok (se_wf env) (ss_inputs_used s) (ss_fb_tried s) t"
    "st \<noteq> StateRunning \<Longrightarrow> tasks_ok ((state_of s)(tk_attr t := st)) (map tk_attr T')"
    "tk_attr t \<notin> tk_attr ` set T'"
proof -
  note c = core_invD [OF assms(1)]
  from assms(2) have t: "t \<in> set T" and T': "distinct (map tk_attr T')" "set T' = set T - {t}"
    by (simp_all add: drops_def)
  show run: "state_of s (tk_attr t) = StateRunning" by (rule tasks_ok_attr [OF c(6) t])
  then show "tk_attr t \<in> wf_ids (se_wf env)" using pending_wf_id [OF c(1)] by simp
  show task: "task_ok (se_wf env) (ss_inputs_used s) (ss_fb_tried s) t" by (rule c(7) [OF t])
  then show "ss_inputs_used s (tk_attr t) = Some (tk_inputs t)" by (simp add: task_ok_def)
  have inj: "inj_on tk_attr (set T)" using c(6) by (simp add: tasks_ok_def distinct_map)
  then have "tk_attr ` (set T - {t}) = tk_attr ` set T - {tk_attr t}"
    using t by (auto dest: inj_onD)
  with T' c(6) show "tk_attr t \<notin> tk_attr ` set T'"
    and "st \<noteq> StateRunning \<Longrightarrow> tasks_ok ((state_of s)(tk_attr t := st)) (map tk_attr T')"
    by (auto simp: tasks_ok_def)
qed

lemma outcome_ok_upd:
  assumes "outcome_ok \<sigma> out used oc" and "\<not> terminal (\<sigma> i)"
  shows "outcome_ok \<sigma> out used (oc(i := None))"
  using assms by (auto simp: outcome_ok_def)

lemma fail_node_inv:
  assumes inv: "core_inv env P res T (ss_to_decide s) s" and d: "drops t T T'"
  shows "core_inv env P res T' (ss_to_decide (fail_node env (tk_attr t) e s))
           (fail_node env (tk_attr t) e s)"
proof -
  note c = core_invD [OF inv]
  note f = drops_facts [OF inv d]
  let ?i = "tk_attr t"
  let ?s = "set_outcome ?i (outcome_of StateFailed (err_msg e)) s"
  have upd: "(ss_outcomes ?s)(?i := None) = (ss_outcomes s)(?i := None)" by simp
  show ?thesis
    unfolding fail_node_def
  proof (rule settle_core_inv [where out = "output_of s" and oc = None
        and x = "output_of s ?i" and c = "outcome_of StateFailed (err_msg e)"])
    show "queue_full (se_wf env) (state_of ?s) (ss_pending ?s) (?i # ss_to_decide ?s)"
      if "\<not> ss_halted ?s"
      using c(4) that by (auto simp: queue_full_def)
    show "task_ok (se_wf env) (ss_inputs_used ?s) (ss_fb_tried ?s) u" if "u \<in> set T'" for u
      using c(7) [of u] that d by (simp add: drops_def)
    show "outcome_ok (state_of ?s) (output_of s) (ss_inputs_used ?s) ((ss_outcomes ?s)(?i := None))"
      unfolding upd using outcome_ok_upd [OF c(12), of ?i] f(1) by simp
  qed (use c f in \<open>simp_all add: halt_ok_cong [OF c(14)]\<close>)
qed

lemma fallback_inv:
  assumes inv: "core_inv env P res T (ss_to_decide s) s" and d: "drops t T T'"
    and fb: "fp_mode (failure_policy_of (tk_node t)) = FailFallback" "\<not> ss_fb_tried s (tk_attr t)"
      "nodes_by_id (se_wf env) (fp_fallback (failure_policy_of (tk_node t))) = Some n"
    and s': "s' = s\<lparr>ss_fb_tried := (ss_fb_tried s)(tk_attr t := True), ss_ready := r\<rparr>"
    and t': "t' = \<lparr>tk_node = n, tk_inputs = tk_inputs t, tk_attr = tk_attr t\<rparr>"
    and T'': "set T'' = insert t' (set T')" "distinct (map tk_attr T'')"
  shows "core_inv env P res T'' (ss_to_decide s') s'"
proof -
  note c = core_invD [OF inv]
  note f = drops_facts [OF inv d]
  have same: "state_of s' = state_of s" "output_of s' = output_of s"
    by (auto intro!: state_of_cong output_of_cong simp: s')
  have node: "tk_node t = node_at (se_wf env) (tk_attr t)"
    using f(4) fb(2) by (simp add: task_ok_def)
  show ?thesis
  proof (rule core_invI)
    show "task_ok (se_wf env) (ss_inputs_used s') (ss_fb_tried s') u" if "u \<in> set T''" for u
    proof (cases "u = t'")
      case True
      with fb f(3) node show ?thesis by (simp add: task_ok_def s' t')
    next
      case False
      with that T''(1) have u: "u \<in> set T'" by simp
      then have "tk_attr u \<noteq> tk_attr t" using f(6) by (metis imageI)
      with c(7) [of u] u d show ?thesis by (simp add: task_ok_def s' drops_def)
    qed
    have "tasks_ok ((state_of s)(tk_attr t := StateFailed)) (map tk_attr T')" by (rule f(5)) simp
    then have "tk_attr ` set T' = {j. state_of s j = StateRunning} - {tk_attr t}"
      by (auto simp: tasks_ok_def split: if_splits)
    then show "tasks_ok (state_of s') (map tk_attr T'')"
      using f(1) T'' by (auto simp: tasks_ok_def same t')
    show "ss_inputs_used s' i \<noteq> None" if "ss_fb_tried s' i" for i
      using c(13) [of i] f(3) that by (auto simp: s' split: if_splits)
    show "halt_ok s'" by (rule halt_ok_cong [OF c(14)]) (simp_all add: s')
    show "queue_full (se_wf env) (state_of s') (ss_pending s') (ss_to_decide s')"
      if "\<not> ss_halted s'"
    proof -
      have "ss_halted s' = ss_halted s" "ss_pending s' = ss_pending s"
        "ss_to_decide s' = ss_to_decide s" by (simp_all add: s')
      with c(4) that same show ?thesis by simp
    qed
  qed (use c same in \<open>simp_all add: s'\<close>)
qed

lemma pause_inv:
  assumes inv: "core_inv env P res T (ss_to_decide s) s" and d: "drops t T T'"
    and s': "s' = do_halt e ((set_outcome (tk_attr t) (outcome_of StatePending m) s)
                     \<lparr>ss_state := fmupd (tk_attr t) StatePending (ss_state s)\<rparr>)"
  shows "core_inv env P res T' (ss_to_decide s') s'"
proof -
  note c = core_invD [OF inv]
  note f = drops_facts [OF inv d]
  have \<sigma>: "state_of s' = (state_of s)(tk_attr t := StatePending)"
    by (rule state_of_upd) (simp add: s')
  have out: "output_of s' = output_of s" by (rule output_of_cong) (simp add: s')
  have nt: "\<not> terminal (state_of s (tk_attr t))" using f(1) by simp
  have oc: "ss_outcomes s' = (ss_outcomes s)(tk_attr t \<mapsto> outcome_of StatePending m)"
    and rest: "ss_inputs_used s' = ss_inputs_used s" "ss_fb_tried s' = ss_fb_tried s"
    "ss_pending s' = ss_pending s" "ss_to_decide s' = ss_to_decide s" "ss_halted s'"
    by (simp_all add: s')
  have triv: "(output_of s)(tk_attr t := output_of s (tk_attr t)) = output_of s" by simp
  show ?thesis
  proof (rule core_invI)
    show "states_ok (se_wf env) (ss_state s')"
      using states_ok_upd [OF c(1) f(2)] by (simp add: s')
    show "pend_ok (se_wf env) (state_of s') (ss_pending s')"
      using c(2) nt unsettled_same [of "state_of s'" "state_of s" "se_wf env"]
      by (simp add: \<sigma> rest pend_ok_def)
    show "tasks_ok (state_of s') (map tk_attr T')" unfolding \<sigma> by (rule f(5)) simp
    show "task_ok (se_wf env) (ss_inputs_used s') (ss_fb_tried s') u" if "u \<in> set T'" for u
      using c(7) [of u] that d by (simp add: drops_def rest)
    show "used_ok env (state_of s') (output_of s') (ss_inputs_used s')"
      using used_ok_stable [OF nt c(8), of StatePending "output_of s (tk_attr t)"]
      unfolding \<sigma> out rest triv .
    show "ran_ok P (state_of s') (ss_inputs_used s')"
      using c(9) by (auto simp: ran_ok_def \<sigma> rest)
    show "skip_ok env (state_of s') (output_of s')"
      using skip_ok_stable [OF nt c(10), of StatePending "output_of s (tk_attr t)"]
      unfolding \<sigma> out triv by simp
    show "pre_ok P res (state_of s') (output_of s') (ss_inputs_used s')"
      using c(11) f(1) by (auto simp: pre_ok_def \<sigma> out rest)
    show "outcome_ok (state_of s') (output_of s') (ss_inputs_used s') (ss_outcomes s')"
      using c(12) f(3) by (auto simp: outcome_ok_def \<sigma> out rest oc)
    have "halt_ok ((set_outcome (tk_attr t) (outcome_of StatePending m) s)
        \<lparr>ss_state := fmupd (tk_attr t) StatePending (ss_state s)\<rparr>)"
      by (rule halt_ok_cong [OF c(14)]) simp_all
    then show "halt_ok s'" unfolding s' by (rule halt_ok_do_halt)
  qed (use c rest in simp_all)
qed

lemma success_settle_inv:
  assumes inv: "core_inv env P res T (ss_to_decide s) s" and d: "drops t T T'"
    and s1: "s1 = set_outcome (tk_attr t) c (s\<lparr>ss_output := (ss_output s)(tk_attr t \<mapsto> x)\<rparr>)\<lparr>ss_budget := b\<rparr>"
    and oc: "no_state c = StateSucceeded" "no_hash c = out_hash x" "no_type c = out_type x"
  shows "core_inv env P res T' (ss_to_decide (settle env (tk_attr t) StateSucceeded s1))
           (settle env (tk_attr t) StateSucceeded s1)"
proof -
  note f = drops_facts [OF inv d]
  note c = core_invD [OF inv]
  let ?i = "tk_attr t"
  have same: "state_of s1 = state_of s" "ss_inputs_used s1 = ss_inputs_used s"
    "ss_fb_tried s1 = ss_fb_tried s" "ss_pending s1 = ss_pending s"
    "ss_to_decide s1 = ss_to_decide s" "ss_halted s1 = ss_halted s" "ss_state s1 = ss_state s"
    "halt_ok s1"
    by (auto intro!: state_of_cong halt_ok_cong [OF c(14)] simp: s1)
  have out: "output_of s1 = (output_of s)(?i := x)" by (rule output_of_upd) (simp add: s1)
  have upd: "(ss_outcomes s1)(?i := None) = (ss_outcomes s)(?i := None)" by (simp add: s1)
  show ?thesis
  proof (rule settle_core_inv [where out = "output_of s" and oc = None and x = x and c = c])
    show "queue_full (se_wf env) (state_of s1) (ss_pending s1) (?i # ss_to_decide s1)"
      if "\<not> ss_halted s1"
      using c(4) that same by (auto simp: queue_full_def)
    show "task_ok (se_wf env) (ss_inputs_used s1) (ss_fb_tried s1) u" if "u \<in> set T'" for u
      using c(7) [of u] that d same by (simp add: drops_def)
    show "outcome_ok (state_of s1) (output_of s) (ss_inputs_used s1) ((ss_outcomes s1)(?i := None))"
      unfolding upd same using outcome_ok_upd [OF c(12), of ?i] f(1) by simp
    show "ss_outcomes s1 ?i = Some c" by (simp add: s1)
  qed (use c f same out oc in simp_all)
qed

lemma nodes_by_id_lookup:
  assumes "core_inv env P res T q s" and "i \<in> wf_ids (se_wf env)"
  shows "state_of s i \<noteq> StateUnset"
proof -
  note c = core_invD(1) [OF assms(1)]
  with assms(2) have "i \<in> fmdom' (ss_state s)" by (simp add: states_ok_def)
  with c show ?thesis by (auto simp: state_of_def states_ok_def fmlookup_dom'_iff split: option.splits)
qed

lemma fail_node_frame [simp]:
  "ss_ready (fail_node env i e s) = ss_ready s" "ss_running (fail_node env i e s) = ss_running s"
  "ss_in_flight (fail_node env i e s) = ss_in_flight s"
  "ss_halted (fail_node env i e s) = ss_halted s"
  "ss_parent_err (fail_node env i e s) = ss_parent_err s"
  "ss_fb_tried (fail_node env i e s) = ss_fb_tried s"
  "ss_ctx_done_open (fail_node env i e s) = ss_ctx_done_open s"
  "ss_now (fail_node env i e s) = ss_now s" "ss_log (fail_node env i e s) = ss_log s"
  "ss_output (fail_node env i e s) = ss_output s"
  "ss_state (fail_node env i e s) = fmupd i StateFailed (ss_state s)"
  by (simp_all add: fail_node_def)

text \<open>The branches of the error path, one by one.\<close>

definition collateral :: "sched \<Rightarrow> err \<Rightarrow> bool" where
  "collateral s e \<longleftrightarrow>
     ss_halted s \<or> ss_parent_err s \<noteq> None \<or> is_err CtxCanceled e \<or> is_err CtxDeadlineExceeded e"

lemma handle_error_required:
  assumes "is_err ErrApprovalRequired e"
  shows "handle_error env t e s =
    do_halt e ((set_outcome (tk_attr t) (outcome_of StatePending (err_msg e)) s)
                 \<lparr>ss_state := fmupd (tk_attr t) StatePending (ss_state s)\<rparr>)"
  unfolding handle_error_def Let_def if_P [OF assms] ..

lemma handle_error_rejected:
  assumes "\<not> is_err ErrApprovalRequired e" and "is_err ErrApprovalRejected e"
  shows "handle_error env t e s = do_halt e (fail_node env (tk_attr t) e s)"
  unfolding handle_error_def Let_def if_not_P [OF assms(1)] if_P [OF assms(2)] ..

lemma handle_error_collateral:
  assumes "\<not> is_err ErrApprovalRequired e" and "\<not> is_err ErrApprovalRejected e"
    and "collateral s e"
  shows "handle_error env t e s =
    (if ss_parent_err s \<noteq> None then cancel_halt env (fail_node env (tk_attr t) e s)
     else fail_node env (tk_attr t) e s)"
  unfolding handle_error_def Let_def if_not_P [OF assms(1)] if_not_P [OF assms(2)]
    if_P [OF assms(3) [unfolded collateral_def]] fail_node_frame ..

lemma handle_error_fallback:
  assumes "\<not> is_err ErrApprovalRequired e" and "\<not> is_err ErrApprovalRejected e"
    and "\<not> collateral s e"
    and "fp_mode (failure_policy_of (tk_node t)) = FailFallback" "\<not> ss_fb_tried s (tk_attr t)"
    and "nodes_by_id (se_wf env) (fp_fallback (failure_policy_of (tk_node t))) = Some n"
    and "ss_inputs_used s (tk_attr t) = Some ins"
  shows "handle_error env t e s =
    s\<lparr>ss_fb_tried := (ss_fb_tried s)(tk_attr t := True),
      ss_ready := ss_ready s @ [\<lparr>tk_node = n, tk_inputs = ins, tk_attr = tk_attr t\<rparr>]\<rparr>"
  unfolding handle_error_def Let_def if_not_P [OF assms(1)] if_not_P [OF assms(2)]
    if_not_P [OF assms(3) [unfolded collateral_def]]
  by (simp add: assms)

lemma handle_error_policy:
  assumes "\<not> is_err ErrApprovalRequired e" and "\<not> is_err ErrApprovalRejected e"
    and "\<not> collateral s e"
    and "\<not> (fp_mode (failure_policy_of (tk_node t)) = FailFallback \<and> \<not> ss_fb_tried s (tk_attr t) \<and>
          nodes_by_id (se_wf env) (fp_fallback (failure_policy_of (tk_node t))) \<noteq> None)"
  shows "handle_error env t e s =
    (if fp_mode (failure_policy_of (tk_node t)) \<noteq> FailContinue
     then do_halt (node_failed_error (tk_attr t) e) (fail_node env (tk_attr t) e s)
     else fail_node env (tk_attr t) e s)"
proof -
  have "(if fp_mode (failure_policy_of (tk_node t)) = FailFallback \<and> \<not> ss_fb_tried s (tk_attr t)
      then nodes_by_id (se_wf env) (fp_fallback (failure_policy_of (tk_node t))) else None) = None"
    using assms(4) by auto
  then show ?thesis
    unfolding handle_error_def Let_def if_not_P [OF assms(1)] if_not_P [OF assms(2)]
      if_not_P [OF assms(3) [unfolded collateral_def]]
    by simp
qed

text \<open>The completed task is gone from \<open>T\<close>; the handler restores the invariant for what is
  held afterwards.\<close>

lemma handle_error_inv:
  assumes inv: "core_inv env P res T (ss_to_decide s) s" and d: "drops t T (held s)"
  shows "core_inv env P res (held (handle_error env t e s)) (ss_to_decide (handle_error env t e s))
           (handle_error env t e s)"
proof -
  let ?i = "tk_attr t"
  note f = drops_facts [OF inv d]
  note fail = fail_node_inv [OF inv d]
  have held_fail: "held (fail_node env ?i e s) = held s" for e
    by (simp add: held_def fail_node_def)
  have held_halt: "held (do_halt x s') = held s'" "held (cancel_halt env s') = held s'" for x s'
    by (simp_all add: held_def)
  consider (req) "is_err ErrApprovalRequired e"
    | (rej) "\<not> is_err ErrApprovalRequired e" "is_err ErrApprovalRejected e"
    | (coll) "\<not> is_err ErrApprovalRequired e" "\<not> is_err ErrApprovalRejected e" "collateral s e"
    | (pol) "\<not> is_err ErrApprovalRequired e" "\<not> is_err ErrApprovalRejected e" "\<not> collateral s e"
    by blast
  then show ?thesis
  proof cases
    case req
    let ?s = "do_halt e ((set_outcome ?i (outcome_of StatePending (err_msg e)) s)
                     \<lparr>ss_state := fmupd ?i StatePending (ss_state s)\<rparr>)"
    have "core_inv env P res (held s) (ss_to_decide ?s) ?s"
      by (rule pause_inv [OF inv d refl])
    then show ?thesis unfolding handle_error_required [OF req] by (simp add: held_def)
  next
    case rej
    show ?thesis
      unfolding handle_error_rejected [OF rej] held_halt held_fail by (rule core_inv_do_halt [OF fail])
  next
    case coll
    show ?thesis
      unfolding handle_error_collateral [OF coll]
      using fail [of e] core_inv_cancel_halt [OF fail [of e]] by (simp add: held_halt held_fail)
  next
    case pol
    let ?pol = "failure_policy_of (tk_node t)"
    show ?thesis
    proof (cases "fp_mode ?pol = FailFallback \<and> \<not> ss_fb_tried s ?i \<and>
        nodes_by_id (se_wf env) (fp_fallback ?pol) \<noteq> None")
      case True
      then obtain n where n: "nodes_by_id (se_wf env) (fp_fallback ?pol) = Some n" by blast
      let ?t = "\<lparr>tk_node = n, tk_inputs = tk_inputs t, tk_attr = ?i\<rparr>"
      let ?s = "s\<lparr>ss_fb_tried := (ss_fb_tried s)(?i := True), ss_ready := ss_ready s @ [?t]\<rparr>"
      have "distinct (map tk_attr (held s))" using d by (simp add: drops_def)
      then have "distinct (map tk_attr (held ?s))" using f(6) by (auto simp: held_def)
      then show ?thesis
        unfolding handle_error_fallback [OF pol conjunct1 [OF True]
            conjunct1 [OF conjunct2 [OF True]] n f(3)]
        using fallback_inv [OF inv d _ _ n refl refl, where T'' = "held ?s" and r = "ss_ready s @ [?t]"] True
        by (auto simp: held_def)
    next
      case False
      show ?thesis
        unfolding handle_error_policy [OF pol False]
        using fail [of e] core_inv_do_halt [OF fail [of e]] by (simp add: held_halt held_fail)
    qed
  qed
qed

lemma record_success_frame [simp]:
  "ss_state (record_success env t r s) = fmupd (tk_attr t) StateSucceeded (ss_state s)"
  "ss_output (record_success env t r s) = (ss_output s)(tk_attr t \<mapsto>
     \<lparr>out_hash = nr_hash r, out_content = nr_content r, out_type = nr_type r\<rparr>)"
  "ss_inputs_used (record_success env t r s) = ss_inputs_used s"
  "ss_fb_tried (record_success env t r s) = ss_fb_tried s"
  "ss_ready (record_success env t r s) = ss_ready s"
  "ss_running (record_success env t r s) = ss_running s"
  "ss_in_flight (record_success env t r s) = ss_in_flight s"
  "ss_halted (record_success env t r s) = ss_halted s"
  "ss_halt_err (record_success env t r s) = ss_halt_err s"
  "ss_ctx_cancelled (record_success env t r s) = ss_ctx_cancelled s"
  "ss_parent_err (record_success env t r s) = ss_parent_err s"
  "ss_ctx_done_open (record_success env t r s) = ss_ctx_done_open s"
  "ss_now (record_success env t r s) = ss_now s" "ss_log (record_success env t r s) = ss_log s"
  "ss_budget (record_success env t r s) = budget_add (nr_cost r) (nr_tokens r) (ss_budget s)"
  by (simp_all add: record_success_def Let_def)

lemma check_budget_frame [simp]:
  "ss_state (check_budget env i s) = ss_state s" "ss_output (check_budget env i s) = ss_output s"
  "ss_outcomes (check_budget env i s) = ss_outcomes s"
  "ss_inputs_used (check_budget env i s) = ss_inputs_used s"
  "ss_fb_tried (check_budget env i s) = ss_fb_tried s"
  "ss_pending (check_budget env i s) = ss_pending s" "ss_ready (check_budget env i s) = ss_ready s"
  "ss_to_decide (check_budget env i s) = ss_to_decide s"
  "ss_running (check_budget env i s) = ss_running s"
  "ss_in_flight (check_budget env i s) = ss_in_flight s"
  "ss_parent_err (check_budget env i s) = ss_parent_err s"
  "ss_ctx_done_open (check_budget env i s) = ss_ctx_done_open s"
  "ss_now (check_budget env i s) = ss_now s"
  by (simp_all add: check_budget_def Let_def split: prod.splits)

text \<open>What the budget check comes to: a logged halt, a logged warning, or nothing.\<close>

lemma check_budget_cases:
  obtains (over) p where "budget_exceeded (ss_budget s) (ss_now s)"
      "check_budget env i s = do_halt (budget_exceeded_error i) (sched_emit env BudgetExceeded '''' p s)"
    | (warn) p b where "\<not> budget_exceeded (ss_budget s) (ss_now s)"
      "should_warn (ss_budget s) (ss_now s) = (b, True)"
      "check_budget env i s = sched_emit env BudgetWarning '''' p (s\<lparr>ss_budget := b\<rparr>)"
    | (quiet) b where "\<not> budget_exceeded (ss_budget s) (ss_now s)"
      "should_warn (ss_budget s) (ss_now s) = (b, False)" "check_budget env i s = s\<lparr>ss_budget := b\<rparr>"
proof -
  obtain b w where w: "should_warn (ss_budget s) (ss_now s) = (b, w)" by fastforce
  show thesis
  proof (cases "budget_exceeded (ss_budget s) (ss_now s)")
    case True
    have "check_budget env i s = do_halt (budget_exceeded_error i)
        (sched_emit env BudgetExceeded []
           (budget_status_payload (ss_budget s) (ss_now s) @
              [(''diagnostic'', JObj (diag_payload (budget_exceeded_error i) i))]) s)"
      using True by (simp add: check_budget_def Let_def)
    then show ?thesis by (rule over [OF True])
  next
    case False
    with w show ?thesis
      by (cases w) (auto intro: warn quiet simp: check_budget_def Let_def)
  qed
qed

lemma check_budget_inv:
  assumes inv: "core_inv env P res T q s"
  shows "core_inv env P res T q (check_budget env i s)"
proof -
  have b: "core_inv env P res T q (s\<lparr>ss_budget := b\<rparr>)" for b
    by (rule core_inv_cong [OF inv]) simp_all
  show ?thesis
    by (rule check_budget_cases [of s env i])
      (auto simp: b inv core_inv_emit intro!: core_inv_do_halt [where q = q])
qed

lemma handle_success_inv:
  assumes inv: "core_inv env P res T (ss_to_decide s) s" and d: "drops t T (held s)"
  shows "core_inv env P res (held (handle_success env t r s)) (ss_to_decide (handle_success env t r s))
           (handle_success env t r s)"
proof -
  let ?s = "record_success env t r s"
  have "core_inv env P res (held s) (ss_to_decide ?s) ?s"
    unfolding record_success_def Let_def by (rule success_settle_inv [OF inv d refl]) simp_all
  from check_budget_inv [OF this, of "tk_attr t"] show ?thesis
    by (simp add: handle_success_def held_def)
qed

section \<open>Flight bookkeeping\<close>

lemma handle_error_flight:
  "ss_running (handle_error env t e s) = ss_running s"
  "ss_in_flight (handle_error env t e s) = ss_in_flight s"
  by (auto simp: handle_error_def Let_def split: option.splits)

lemma handle_success_flight:
  "ss_running (handle_success env t r s) = ss_running s"
  "ss_in_flight (handle_success env t r s) = ss_in_flight s"
  by (simp_all add: handle_success_def)

lemma decide_node_flight:
  "ss_running (decide_node env i s) = ss_running s"
  "ss_in_flight (decide_node env i s) = ss_in_flight s"
proof -
  obtain act ins s1 where g: "gather_inputs env i (parents (se_wf env) i) True [] s = (act, ins, s1)"
    by (metis prod_cases3)
  then have "ss_running s1 = ss_running s \<and> ss_in_flight s1 = ss_in_flight s"
    using gather_inputs_frame [OF g] by auto
  with g show "ss_running (decide_node env i s) = ss_running s"
    "ss_in_flight (decide_node env i s) = ss_in_flight s"
    by (auto simp: decide_node_def)
qed

lemma process_decisions_flight:
  "ss_running (process_decisions env s) = ss_running s \<and>
   ss_in_flight (process_decisions env s) = ss_in_flight s"
proof (induction env s rule: process_decisions.induct)
  case (1 env s)
  show ?case
  proof (cases "ss_to_decide s")
    case Nil
    then show ?thesis by (subst (1 2) process_decisions.simps) simp
  next
    case (Cons i rest)
    with 1 show ?thesis
      by (subst (1 2) process_decisions.simps) (simp add: decide_head_def decide_node_flight)
  qed
qed

section \<open>Every step keeps the invariant\<close>

lemma dispatch_inv:
  assumes "sched_inv env P res s" and "ss_ready s \<noteq> []"
    and "int (length (ss_running s)) < pool_size env"
  shows "sched_inv env P res (do_dispatch s)"
proof -
  from assms(2) obtain t ts where r: "ss_ready s = t # ts" by (cases "ss_ready s") auto
  let ?s = "s\<lparr>ss_ready := ts, ss_in_flight := ss_in_flight s + 1, ss_running := ss_running s @ [t]\<rparr>"
  have eq: "do_dispatch s = ?s" by (simp add: do_dispatch_def r)
  have inv: "core_inv env P res (held s) (ss_to_decide s) s" and fl: "flight_ok env s"
    using assms(1) by (simp_all add: sched_inv_def)
  have core: "core_inv env P res (held s) (ss_to_decide s) ?s"
    by (rule core_inv_cong [OF inv]) simp_all
  note c = core_invD [OF core]
  have sets: "set (held ?s) = set (held s)" "tasks_ok \<sigma> (map tk_attr (held ?s)) \<longleftrightarrow>
      tasks_ok \<sigma> (map tk_attr (held s))" for \<sigma>
    by (auto simp: held_def r tasks_ok_def)
  have "core_inv env P res (held ?s) (ss_to_decide ?s) ?s"
    using c by (intro core_invI) (simp_all add: sets)
  moreover have "flight_ok env ?s" using fl assms(3) by (simp add: flight_ok_def)
  ultimately show ?thesis unfolding eq sched_inv_def by simp
qed

lemma complete_inv:
  assumes "sched_inv env P res s" and run: "ss_running s = pre @ t # post"
  shows "sched_inv env P res (do_complete env (pre @ post) t r s)"
proof -
  let ?s = "s\<lparr>ss_running := pre @ post, ss_in_flight := ss_in_flight s - 1\<rparr>"
  have inv: "core_inv env P res (held s) (ss_to_decide s) s" and fl: "flight_ok env s"
    using assms(1) by (simp_all add: sched_inv_def)
  have core: "core_inv env P res (held s) (ss_to_decide ?s) ?s"
    using core_inv_cong [OF inv, of ?s] by simp
  have "distinct (map tk_attr (held s))" using core_invD(6) [OF core] by (simp add: tasks_ok_def)
  then have d: "drops t (held s) (held ?s)"
    by (auto simp: drops_def held_def run)
  let ?h = "handle_completion env t r (s\<lparr>ss_running := pre @ post\<rparr>)"
  have h: "core_inv env P res (held ?h) (ss_to_decide ?h) ?h"
    using handle_error_inv [OF core d] handle_success_inv [OF core d]
    by (cases r) (simp_all add: handle_completion_def)
  have hf: "ss_running ?h = pre @ post" "ss_in_flight ?h = ss_in_flight s - 1"
    by (cases r; simp add: handle_completion_def handle_error_flight handle_success_flight)+
  note p = process_decisions_inv [OF h] process_decisions_flight [of env ?h]
  have "flight_ok env (process_decisions env ?h)"
    using fl p hf run by (simp add: flight_ok_def)
  with p show ?thesis by (simp add: do_complete_def sched_inv_def)
qed

lemma sched_inv_frame:
  assumes "sched_inv env P res s"
    and "core_inv env P res (held s) (ss_to_decide s) s \<Longrightarrow>
      core_inv env P res (held s) (ss_to_decide s) s'"
    and "ss_ready s' = ss_ready s" "ss_running s' = ss_running s"
    "ss_to_decide s' = ss_to_decide s" "ss_in_flight s' = ss_in_flight s"
  shows "sched_inv env P res s'"
  using assms by (simp add: sched_inv_def held_def flight_ok_def)

lemma sched_step_inv:
  assumes "sched_step env s s'" and "sched_inv env P res s"
  shows "sched_inv env P res s'"
  using assms
proof (induction rule: sched_step.cases)
  case (ctx_done s)
  show ?case unfolding ctx_done(2)
  proof (rule sched_inv_frame [OF ctx_done(6)[unfolded ctx_done(1)]])
    assume inv: "core_inv env P res (held s) (ss_to_decide s) s"
    have "core_inv env P res (held s) (ss_to_decide s) (s\<lparr>ss_ctx_done_open := False\<rparr>)"
      by (rule core_inv_cong [OF inv]) simp_all
    then show "core_inv env P res (held s) (ss_to_decide s) (do_ctx_done env s)"
      unfolding do_ctx_done_def by (rule core_inv_cancel_halt)
  qed (simp_all add: do_ctx_done_def)
next
  case (parent_cancel s c)
  show ?case unfolding parent_cancel(2)
    by (rule sched_inv_frame [OF parent_cancel(5)[unfolded parent_cancel(1)]])
       (erule core_inv_cong, simp_all)
next
  case (tick s now)
  show ?case unfolding tick(2)
    by (rule sched_inv_frame [OF tick(4)[unfolded tick(1)]]) (erule core_inv_cong, simp_all)
next
  case (worker_emit t s ty p)
  show ?case unfolding worker_emit(2)
    by (rule sched_inv_frame [OF worker_emit(5)[unfolded worker_emit(1)]])
       (erule core_inv_emit, use worker_emit in \<open>auto simp: worker_event_def\<close>)
qed (auto intro: dispatch_inv complete_inv)

lemma sched_reach_inv:
  "sched_reach env s s' \<Longrightarrow> sched_inv env P res s \<Longrightarrow> sched_inv env P res s'"
  by (induction rule: rtranclp_induct) (auto intro: sched_step_inv)

end
