(* ===== verification/SchedulerStart.thy ===== *)
theory SchedulerStart
  imports SchedulerStep
begin

text \<open>
  The state the coordinator loop starts in satisfies the invariant: the construction
  loops of \<open>run\<close>, the precompleted nodes of a resumed run and the seed.
\<close>

lemma nodes_by_id_dom: "nodes_by_id w i \<noteq> None \<longleftrightarrow> i \<in> wf_ids w"
proof -
  have "fold (\<lambda>n m. m(node_id n \<mapsto> n)) ns m i \<noteq> None \<longleftrightarrow> i \<in> node_id ` set ns \<or> m i \<noteq> None"
    for ns m by (induction ns arbitrary: m) auto
  from this [of "wf_nodes w" Map.empty] show ?thesis by (simp add: nodes_by_id_def wf_ids_def)
qed

lemma live_edge_ids:
  "e \<in> set (live_edges w) \<Longrightarrow> edge_from e \<in> wf_ids w \<and> edge_to e \<in> wf_ids w"
  by (simp add: live_edges_def nodes_by_id_dom [symmetric])

text \<open>The precompleted nodes that the workflow has, and their recorded outputs.\<close>

definition pre_ids :: "workflow \<Rightarrow> (string \<times> node_output) list \<Rightarrow> string set" where
  "pre_ids w pre = {i \<in> wf_ids w. map_of pre i \<noteq> None}"

definition pre_output :: "(string \<times> node_output) list \<Rightarrow> string \<Rightarrow> node_output" where
  "pre_output pre i = (case map_of pre i of Some x \<Rightarrow> x | None \<Rightarrow> zero_output)"

section \<open>The initialisation loop\<close>

lemma init_node_frame:
  "ss_inputs_used (init_node pre n s) = ss_inputs_used s"
  "ss_fb_tried (init_node pre n s) = ss_fb_tried s" "ss_pending (init_node pre n s) = ss_pending s"
  "ss_ready (init_node pre n s) = ss_ready s" "ss_to_decide (init_node pre n s) = ss_to_decide s"
  "ss_in_flight (init_node pre n s) = ss_in_flight s"
  "ss_running (init_node pre n s) = ss_running s" "ss_halted (init_node pre n s) = ss_halted s"
  "ss_halt_err (init_node pre n s) = ss_halt_err s"
  "ss_ctx_cancelled (init_node pre n s) = ss_ctx_cancelled s" "ss_log (init_node pre n s) = ss_log s"
  "ss_parent_err (init_node pre n s) = ss_parent_err s"
  "ss_ctx_done_open (init_node pre n s) = ss_ctx_done_open s"
  by (simp_all add: init_node_def split: option.splits)

lemma fold_init_frame:
  "ss_inputs_used (fold (init_node pre) ns s) = ss_inputs_used s"
  "ss_fb_tried (fold (init_node pre) ns s) = ss_fb_tried s"
  "ss_pending (fold (init_node pre) ns s) = ss_pending s"
  "ss_ready (fold (init_node pre) ns s) = ss_ready s"
  "ss_to_decide (fold (init_node pre) ns s) = ss_to_decide s"
  "ss_in_flight (fold (init_node pre) ns s) = ss_in_flight s"
  "ss_running (fold (init_node pre) ns s) = ss_running s"
  "ss_halted (fold (init_node pre) ns s) = ss_halted s"
  "ss_halt_err (fold (init_node pre) ns s) = ss_halt_err s"
  "ss_ctx_cancelled (fold (init_node pre) ns s) = ss_ctx_cancelled s"
  "ss_log (fold (init_node pre) ns s) = ss_log s"
  "ss_parent_err (fold (init_node pre) ns s) = ss_parent_err s"
  "ss_ctx_done_open (fold (init_node pre) ns s) = ss_ctx_done_open s"
  by (induction ns arbitrary: s) (simp_all add: init_node_frame)

definition init_state :: "(string \<times> node_output) list \<Rightarrow> string \<Rightarrow> node_state" where
  "init_state pre i = (if map_of pre i = None then StatePending else StateSucceeded)"

lemma fold_init_state:
  "fmlookup (ss_state (fold (init_node pre) ns s)) i =
     (if i \<in> node_id ` set ns then Some (init_state pre i) else fmlookup (ss_state s) i)"
proof (induction ns arbitrary: s)
  case (Cons n ns)
  have "fmlookup (ss_state (init_node pre n s)) i =
      (if i = node_id n then Some (init_state pre i) else fmlookup (ss_state s) i)"
    by (auto simp: init_node_def init_state_def split: option.splits)
  with Cons.IH [of "init_node pre n s"] show ?case by auto
qed simp

lemma fold_init_output:
  "ss_output (fold (init_node pre) ns s) i =
     (if i \<in> node_id ` set ns \<and> map_of pre i \<noteq> None then map_of pre i else ss_output s i)"
proof (induction ns arbitrary: s)
  case (Cons n ns)
  have "ss_output (init_node pre n s) i =
      (if i = node_id n \<and> map_of pre i \<noteq> None then map_of pre i else ss_output s i)"
    by (auto simp: init_node_def split: option.splits)
  with Cons.IH [of "init_node pre n s"] show ?case by auto
qed simp

lemma fold_init_outcomes:
  "ss_outcomes (fold (init_node pre) ns s) i =
     (if i \<in> node_id ` set ns \<and> map_of pre i \<noteq> None
      then Some ((outcome_of StateSucceeded '''')
                   \<lparr>no_hash := out_hash (pre_output pre i), no_type := out_type (pre_output pre i)\<rparr>)
      else ss_outcomes s i)"
proof (induction ns arbitrary: s)
  case (Cons n ns)
  have "ss_outcomes (init_node pre n s) i =
      (if i = node_id n \<and> map_of pre i \<noteq> None
       then Some ((outcome_of StateSucceeded '''')
              \<lparr>no_hash := out_hash (pre_output pre i), no_type := out_type (pre_output pre i)\<rparr>)
       else ss_outcomes s i)"
    by (auto simp: init_node_def pre_output_def split: option.splits)
  with Cons.IH [of "init_node pre n s"] show ?case by auto
qed simp

section \<open>The invariant at the start\<close>

lemma init_sched_fields:
  "ss_inputs_used (init_sched env pre now parent) = Map.empty"
  "ss_fb_tried (init_sched env pre now parent) = (\<lambda>_. False)"
  "ss_ready (init_sched env pre now parent) = []" "ss_running (init_sched env pre now parent) = []"
  "ss_to_decide (init_sched env pre now parent) = []"
  "ss_in_flight (init_sched env pre now parent) = 0"
  "\<not> ss_halted (init_sched env pre now parent)" "ss_halt_err (init_sched env pre now parent) = None"
  "\<not> ss_ctx_cancelled (init_sched env pre now parent)" "ss_log (init_sched env pre now parent) = []"
  "ss_parent_err (init_sched env pre now parent) = parent"
  "ss_ctx_done_open (init_sched env pre now parent)"
  by (simp_all add: init_sched_def fold_init_frame)

lemma init_sched_lookup:
  "fmlookup (ss_state (init_sched env pre now parent)) i =
     (if i \<in> wf_ids (se_wf env) then Some (init_state pre i) else None)"
  by (simp add: init_sched_def fold_init_state wf_ids_def)

lemma init_sched_state:
  "state_of (init_sched env pre now parent) i =
     (if i \<in> wf_ids (se_wf env) then init_state pre i else StateUnset)"
  by (simp add: state_of_def init_sched_lookup)

lemma init_sched_output:
  "i \<in> pre_ids (se_wf env) pre \<Longrightarrow> output_of (init_sched env pre now parent) i = pre_output pre i"
  by (auto simp: output_of_def init_sched_def fold_init_output pre_ids_def wf_ids_def pre_output_def)

lemma init_terminal:
  "i \<in> wf_ids (se_wf env) \<Longrightarrow>
     terminal (state_of (init_sched env pre now parent) i) \<longleftrightarrow> i \<in> set (map fst pre)"
  by (auto simp: init_sched_state init_state_def map_of_eq_None_iff)

lemma init_pend_ok:
  assumes "distinct (map fst pre)"
  shows "pend_ok (se_wf env) (state_of (init_sched env pre now parent))
           (ss_pending (init_sched env pre now parent))"
  unfolding pend_ok_def
proof
  fix i
  let ?s = "init_sched env pre now parent" and ?ps = "parents (se_wf env) i"
  have "ss_pending ?s i = int (length ?ps) -
      int (length (filter (\<lambda>e. edge_from e \<in> set (map fst pre)) ?ps))"
    by (simp add: init_sched_def fold_init_frame fold_credit [OF assms] count_parents_eq)
  also have "filter (\<lambda>e. edge_from e \<in> set (map fst pre)) ?ps =
      filter (\<lambda>e. terminal (state_of ?s (edge_from e))) ?ps"
    using live_edge_ids by (intro filter_cong) (auto simp: parents_def init_terminal)
  also have "int (length ?ps) - int (length (filter (\<lambda>e. terminal (state_of ?s (edge_from e))) ?ps)) =
      unsettled (se_wf env) (state_of ?s) i"
    using sum_length_filter_compl [of "\<lambda>e. terminal (state_of ?s (edge_from e))" ?ps]
    by (simp add: unsettled_def)
  finally show "ss_pending ?s i = unsettled (se_wf env) (state_of ?s) i" .
qed

lemma init_outcome_ok:
  "outcome_ok (state_of (init_sched env pre now parent)) (output_of (init_sched env pre now parent))
     used (ss_outcomes (init_sched env pre now parent))"
proof -
  let ?s = "init_sched env pre now parent"
  have oc: "ss_outcomes ?s i =
      (if i \<in> pre_ids (se_wf env) pre
       then Some ((outcome_of StateSucceeded '''')
              \<lparr>no_hash := out_hash (pre_output pre i), no_type := out_type (pre_output pre i)\<rparr>)
       else None)" for i
    by (simp add: init_sched_def fold_init_outcomes pre_ids_def wf_ids_def)
  have st: "state_of ?s i = StateSucceeded" if "i \<in> pre_ids (se_wf env) pre" for i
    using that by (simp add: init_sched_state init_state_def pre_ids_def)
  have nt: "i \<in> pre_ids (se_wf env) pre" if "terminal (state_of ?s i)" for i
    using that by (simp add: init_sched_state init_state_def pre_ids_def split: if_splits)
  show ?thesis
    unfolding outcome_ok_def
  proof (intro conjI allI impI)
    fix i c assume "ss_outcomes ?s i = Some c"
    then have i: "i \<in> pre_ids (se_wf env) pre" and
      c: "c = (outcome_of StateSucceeded '''')
              \<lparr>no_hash := out_hash (pre_output pre i), no_type := out_type (pre_output pre i)\<rparr>"
      by (simp_all add: oc split: if_splits)
    show "no_state c = state_of ?s i" using st [OF i] by (simp add: c outcome_of_def)
    show "terminal (state_of ?s i) \<or> used i \<noteq> None" using st [OF i] by simp
    show "no_hash c = out_hash (output_of ?s i)" "no_type c = out_type (output_of ?s i)"
      using init_sched_output [OF i] by (simp_all add: c)
  next
    fix i assume "terminal (state_of ?s i)"
    then show "ss_outcomes ?s i \<noteq> None" using nt by (simp add: oc)
  qed
qed

definition start_ok :: "sched_env \<Rightarrow> (string \<times> node_output) list \<Rightarrow> bool" where
  "start_ok env pre \<longleftrightarrow>
     distinct (map node_id (wf_nodes (se_wf env))) \<and> distinct (map fst pre)"

lemma init_core_inv:
  assumes "start_ok env pre" and s: "s = init_sched env pre now parent"
    and q: "set q = {i \<in> wf_ids (se_wf env). state_of s i = StatePending \<and> ss_pending s i = 0 \<and>
              i \<notin> set (fallback_targets (se_wf env))}" "distinct q"
  shows "core_inv env (pre_ids (se_wf env) pre) (pre_output pre) [] q (s\<lparr>ss_to_decide := q\<rparr>)"
proof (rule core_invI)
  let ?s = "s\<lparr>ss_to_decide := q\<rparr>"
  have same: "state_of ?s = state_of s" "output_of ?s = output_of s"
    by (auto intro: state_of_cong output_of_cong)
  note f = init_sched_fields [of env pre now parent, folded s]
  have st: "state_of s i = (if i \<in> wf_ids (se_wf env) then init_state pre i else StateUnset)" for i
    unfolding s by (rule init_sched_state)
  have ist: "init_state pre i \<noteq> StateRunning" "init_state pre i \<noteq> StateFailed"
    "init_state pre i \<noteq> StateSkipped" "init_state pre i \<noteq> StateUnset" for i
    by (simp_all add: init_state_def)
  have lk: "fmlookup (ss_state s) i = (if i \<in> wf_ids (se_wf env) then Some (init_state pre i) else None)"
    for i by (simp add: s init_sched_lookup)
  show "states_ok (se_wf env) (ss_state ?s)"
    using ist by (auto simp: states_ok_def fmlookup_dom'_iff lk split: if_splits)
  show "pend_ok (se_wf env) (state_of ?s) (ss_pending ?s)"
    unfolding same using init_pend_ok [of pre env now parent] assms(1) by (simp add: s start_ok_def)
  show "queue_ok (ss_pending ?s) (ss_to_decide ?s)" using q(1) by (simp add: queue_ok_def)
  show "queue_full (se_wf env) (state_of ?s) (ss_pending ?s) q"
    unfolding same queue_full_def
  proof (intro allI impI)
    fix i assume i: "state_of s i = StatePending" "ss_pending ?s i = 0" "i \<notin> set (fallback_targets (se_wf env))"
    then have "i \<in> wf_ids (se_wf env)" by (simp add: st split: if_splits)
    with i q(1) show "i \<in> set q" by simp
  qed
  show "fresh_ok (ss_inputs_used ?s) (ss_to_decide ?s)" using f(1) q(2) by (simp add: fresh_ok_def)
  show "tasks_ok (state_of ?s) (map tk_attr [])"
    unfolding same tasks_ok_def using ist by (simp add: st)
  show "used_ok env (state_of ?s) (output_of ?s) (ss_inputs_used ?s)" using f(1) by (simp add: used_ok_def)
  show "ran_ok (pre_ids (se_wf env) pre) (state_of ?s) (ss_inputs_used ?s)"
    unfolding same ran_ok_def using ist by (auto simp: st init_state_def pre_ids_def split: if_splits)
  show "skip_ok env (state_of ?s) (output_of ?s)"
    unfolding same skip_ok_def using ist by (simp add: st)
  show "pre_ok (pre_ids (se_wf env) pre) (pre_output pre) (state_of ?s) (output_of ?s) (ss_inputs_used ?s)"
    unfolding same pre_ok_def
  proof (intro ballI conjI)
    fix i assume i: "i \<in> pre_ids (se_wf env) pre"
    then show "state_of s i = StateSucceeded"
      by (simp add: s init_sched_state init_state_def pre_ids_def)
    show "output_of s i = pre_output pre i" unfolding s by (rule init_sched_output [OF i])
    show "ss_inputs_used ?s i = None" using f(1) by simp
  qed
  show "outcome_ok (state_of ?s) (output_of ?s) (ss_inputs_used ?s) (ss_outcomes ?s)"
    unfolding same using init_outcome_ok [of env pre now parent] by (simp add: s)
  show "halt_ok ?s" using f by (simp add: halt_ok_def cancelled_events_def)
  show "ss_inputs_used ?s j \<noteq> None" if "ss_fb_tried ?s j" for j using that f(2) by simp
  show "task_ok (se_wf env) (ss_inputs_used ?s) (ss_fb_tried ?s) t" if "t \<in> set []" for t
    using that by simp
qed

lemma seed_roots_inv:
  assumes "start_ok env pre" and "s1 = init_sched env pre now parent \<or>
    s1 = sched_emit env ExecutionStarted '''' p (init_sched env pre now parent)"
  shows "core_inv env (pre_ids (se_wf env) pre) (pre_output pre) (held (seed_roots env s1))
           (ss_to_decide (seed_roots env s1)) (seed_roots env s1)"
proof -
  let ?s = "init_sched env pre now parent"
  let ?q = "map node_id (filter (\<lambda>n. state_of ?s (node_id n) = StatePending \<and>
          ss_pending ?s (node_id n) = 0 \<and> node_id n \<notin> set (fallback_targets (se_wf env)))
          (wf_nodes (se_wf env)))"
  have d: "distinct ?q" using assms(1) by (simp add: start_ok_def distinct_map_filter)
  have qs: "set ?q = {i \<in> wf_ids (se_wf env). state_of ?s i = StatePending \<and> ss_pending ?s i = 0 \<and>
              i \<notin> set (fallback_targets (se_wf env))}"
    by (auto simp: wf_ids_def)
  have core: "core_inv env (pre_ids (se_wf env) pre) (pre_output pre) [] ?q (?s\<lparr>ss_to_decide := ?q\<rparr>)"
    by (rule init_core_inv [OF assms(1) refl qs d])
  from assms(2) show ?thesis
  proof
    assume "s1 = ?s"
    then show ?thesis using core by (simp add: seed_roots_def held_def init_sched_fields)
  next
    assume s1: "s1 = sched_emit env ExecutionStarted '''' p ?s"
    have "seed_roots env s1 = sched_emit env ExecutionStarted '''' p (?s\<lparr>ss_to_decide := ?q\<rparr>)"
      by (simp add: s1 seed_roots_def init_sched_fields sched_emit_def state_of_def)
    with core_inv_emit [OF core, of ExecutionStarted "''''" p] show ?thesis
      by (simp add: held_def init_sched_fields)
  qed
qed

lemma run_begin_Inr:
  assumes "run_begin env ws pre fresh now parent = Inr s"
  obtains s1 wf_ins p where "s = process_decisions env (seed_roots env s1)"
    "resolve_workflow_inputs (wf_inputs (se_wf env)) (ro_inputs (se_opts env)) = Inr wf_ins"
    "s1 = (if fresh then sched_emit env ExecutionStarted '''' p (init_sched env pre now parent)
           else init_sched env pre now parent)"
    "fresh \<Longrightarrow> ws (snapshot_of env wf_ins) = None"
  using assms by (auto simp: run_begin_def Let_def split: sum.splits option.splits if_splits)

lemma seed_roots_frame:
  "ss_running (seed_roots env s) = ss_running s" "ss_in_flight (seed_roots env s) = ss_in_flight s"
  by (simp_all add: seed_roots_def)

lemma run_begin_inv:
  assumes "run_begin env ws pre fresh now parent = Inr s" and "start_ok env pre"
  shows "sched_inv env (pre_ids (se_wf env) pre) (pre_output pre) s \<and> ss_running s = []"
proof -
  obtain s1 p where s: "s = process_decisions env (seed_roots env s1)"
    and s1: "s1 = init_sched env pre now parent \<or>
      s1 = sched_emit env ExecutionStarted '''' p (init_sched env pre now parent)"
    using run_begin_Inr [OF assms(1)] by metis
  have "ss_running s1 = []" "ss_in_flight s1 = 0" using s1 by (auto simp: init_sched_fields)
  moreover have "0 < pool_size env" by (simp add: pool_size_def run_defaults_concurrency)
  ultimately have "flight_ok env s" "ss_running s = []"
    using process_decisions_flight [of env "seed_roots env s1"]
    by (simp_all add: s flight_ok_def seed_roots_frame)
  with process_decisions_inv [OF seed_roots_inv [OF assms(2) s1]] show ?thesis
    by (simp add: sched_inv_def s)
qed

end
