(* ===== verification/SchedulerProps.thy ===== *)
theory SchedulerProps
  imports SchedulerStart
begin

text \<open>
  What follows from the invariant: settled nodes stay settled, the loop ends after a
  bounded number of coordinator steps and never blocks on itself, a graph without
  cycles is resolved completely, the result of a run tells the truth about its nodes,
  and a run logs \<open>Cancelled\<close> exactly when it ends cancelled.
\<close>

section \<open>Settled nodes stay settled\<close>

definition keeps :: "sched \<Rightarrow> sched \<Rightarrow> bool" where
  "keeps s s' \<longleftrightarrow>
     (\<forall>i. terminal (state_of s i) \<longrightarrow> state_of s' i = state_of s i \<and> output_of s' i = output_of s i) \<and>
     (\<forall>i. ss_inputs_used s i \<noteq> None \<longrightarrow> ss_inputs_used s' i \<noteq> None) \<and>
     (ss_halted s \<longrightarrow> ss_halted s' \<and> ss_halt_err s' = ss_halt_err s)"

lemma keeps_refl [simp]: "keeps s s"
  by (simp add: keeps_def)

lemma keeps_trans: "keeps a b \<Longrightarrow> keeps b c \<Longrightarrow> keeps a c"
  unfolding keeps_def by metis

lemma keeps_same:
  assumes "ss_state s' = ss_state s" and "ss_output s' = ss_output s"
    and "ss_inputs_used s' = ss_inputs_used s"
    and "ss_halted s \<Longrightarrow> ss_halted s' \<and> ss_halt_err s' = ss_halt_err s"
  shows "keeps s s'"
  using assms state_of_cong [OF assms(1)] output_of_cong [OF assms(2)] by (simp add: keeps_def)

lemma keeps_do_halt [simp]: "keeps s (do_halt e s)"
  by (rule keeps_same) (auto simp: do_halt_def)

lemma keeps_cancel_halt [simp]: "keeps s (cancel_halt env s)"
  by (rule keeps_same) (auto simp: cancel_halt_def)

lemma keeps_emit [simp]: "keeps s (sched_emit env ty n p s)"
  by (rule keeps_same) simp_all

lemma keeps_upd:
  assumes "\<not> terminal (state_of s i)" and "state_of s' = (state_of s)(i := st)"
    and "output_of s' = output_of s \<or> (\<exists>x. output_of s' = (output_of s)(i := x))"
    and "\<And>i. ss_inputs_used s i \<noteq> None \<Longrightarrow> ss_inputs_used s' i \<noteq> None"
    and "ss_halted s' = ss_halted s" "ss_halt_err s' = ss_halt_err s"
  shows "keeps s s'"
  using assms by (auto simp: keeps_def)

lemma keeps_decide_node: "keeps s (decide_node env i s)"
proof (cases "state_of s i = StatePending")
  case True
  obtain act ins s1 where g: "gather_inputs env i (parents (se_wf env) i) True [] s = (act, ins, s1)"
    by (metis prod_cases3)
  have k: "keeps s s1" and same: "state_of s1 i = StatePending"
    using gather_inputs_frame [OF g] True by auto
  have "keeps s1 (decide_node env i s)"
  proof (cases act)
    case act: True
    with True g have eq: "decide_node env i s =
        s1\<lparr>ss_state := fmupd i StateRunning (ss_state s1),
          ss_inputs_used := (ss_inputs_used s1)(i \<mapsto> ins),
          ss_ready := ss_ready s1 @
            [\<lparr>tk_node = node_at (se_wf env) i, tk_inputs = ins, tk_attr = i\<rparr>]\<rparr>" (is "_ = ?s")
      by (simp add: decide_node_def)
    have st: "state_of ?s = (state_of s1)(i := StateRunning)" by (rule state_of_upd) simp
    have out: "output_of ?s = output_of s1" by (rule output_of_cong) simp
    show ?thesis unfolding eq
      by (rule keeps_upd [of _ i _ StateRunning]) (use same st out in simp_all)
  next
    case False
    with True g have eq: "decide_node env i s =
        settle env i StateSkipped (set_outcome i (outcome_of StateSkipped '''') s1)"
      by (simp add: decide_node_def set_outcome_def)
    show ?thesis unfolding eq
      by (rule keeps_upd [of _ i _ StateSkipped]) (use same in simp_all)
  qed
  with k show ?thesis by (rule keeps_trans)
qed (simp add: decide_node_def)

lemma keeps_process_decisions: "keeps s (process_decisions env s)"
proof (induction env s rule: process_decisions.induct)
  case (1 env s)
  show ?case
  proof (cases "ss_to_decide s")
    case Nil
    then show ?thesis by (subst process_decisions.simps) simp
  next
    case (Cons i rest)
    have "keeps s (s\<lparr>ss_to_decide := rest\<rparr>)" by (rule keeps_same) simp_all
    then have "keeps s (decide_head env s)"
      using keeps_trans keeps_decide_node Cons by (fastforce simp: decide_head_def)
    with 1 Cons show ?thesis by (subst process_decisions.simps) (auto intro: keeps_trans)
  qed
qed

lemma keeps_fail_node: "\<not> terminal (state_of s i) \<Longrightarrow> keeps s (fail_node env i e s)"
  unfolding fail_node_def by (rule keeps_upd [of _ i _ StateFailed]) simp_all

lemma keeps_handle_error:
  assumes "\<not> terminal (state_of s (tk_attr t))"
  shows "keeps s (handle_error env t e s)"
proof -
  let ?i = "tk_attr t"
  note fn = keeps_fail_node [OF assms, of env e]
  consider (req) "is_err ErrApprovalRequired e"
    | (rej) "\<not> is_err ErrApprovalRequired e" "is_err ErrApprovalRejected e"
    | (coll) "\<not> is_err ErrApprovalRequired e" "\<not> is_err ErrApprovalRejected e" "collateral s e"
    | (pol) "\<not> is_err ErrApprovalRequired e" "\<not> is_err ErrApprovalRejected e" "\<not> collateral s e"
    by blast
  then show ?thesis
  proof cases
    case req
    let ?s = "(set_outcome ?i (outcome_of StatePending (err_msg e)) s)
                     \<lparr>ss_state := fmupd ?i StatePending (ss_state s)\<rparr>"
    have st: "state_of ?s = (state_of s)(?i := StatePending)" by (rule state_of_upd) simp
    have out: "output_of ?s = output_of s" by (rule output_of_cong) simp
    have "keeps s ?s"
      by (rule keeps_upd [of _ ?i _ StatePending]) (use assms st out in simp_all)
    then show ?thesis unfolding handle_error_required [OF req] by (rule keeps_trans) simp
  next
    case rej
    show ?thesis unfolding handle_error_rejected [OF rej] by (rule keeps_trans [OF fn]) simp
  next
    case coll
    show ?thesis unfolding handle_error_collateral [OF coll]
      using fn keeps_trans [OF fn keeps_cancel_halt] by simp
  next
    case pol
    let ?pol = "failure_policy_of (tk_node t)"
    have *: "keeps s (if fp_mode ?pol \<noteq> FailContinue
        then do_halt (node_failed_error ?i e) (fail_node env ?i e s) else fail_node env ?i e s)"
      using fn keeps_trans [OF fn keeps_do_halt] by simp
    show ?thesis
    proof (cases "fp_mode ?pol = FailFallback \<and> \<not> ss_fb_tried s ?i \<and>
        nodes_by_id (se_wf env) (fp_fallback ?pol) \<noteq> None")
      case True
      then obtain n where n: "nodes_by_id (se_wf env) (fp_fallback ?pol) = Some n" by blast
      have "handle_error env t e s = s\<lparr>ss_fb_tried := (ss_fb_tried s)(?i := True),
          ss_ready := ss_ready s @ [\<lparr>tk_node = n,
            tk_inputs = (case ss_inputs_used s ?i of Some ins \<Rightarrow> ins | None \<Rightarrow> []), tk_attr = ?i\<rparr>]\<rparr>"
        unfolding handle_error_def Let_def if_not_P [OF pol(1)] if_not_P [OF pol(2)]
          if_not_P [OF pol(3) [unfolded collateral_def]]
        using True n by simp
      then show ?thesis by (simp add: keeps_same)
    next
      case False
      with * show ?thesis unfolding handle_error_policy [OF pol False] by simp
    qed
  qed
qed

lemma keeps_check_budget: "keeps s (check_budget env i s)"
proof (rule keeps_same)
  show "ss_halted (check_budget env i s) \<and> ss_halt_err (check_budget env i s) = ss_halt_err s"
    if "ss_halted s"
    by (rule check_budget_cases [of s env i]) (use that in \<open>simp_all add: do_halt_halted sched_emit_def\<close>)
qed simp_all

lemma keeps_handle_success:
  assumes "\<not> terminal (state_of s (tk_attr t))"
  shows "keeps s (handle_success env t r s)"
proof -
  let ?s = "record_success env t r s"
  have st: "state_of ?s = (state_of s)(tk_attr t := StateSucceeded)" by (rule state_of_upd) simp
  have out: "output_of ?s = (output_of s)(tk_attr t :=
      \<lparr>out_hash = nr_hash r, out_content = nr_content r, out_type = nr_type r\<rparr>)"
    by (rule output_of_upd) simp
  have "keeps s ?s"
    by (rule keeps_upd [of _ "tk_attr t" _ StateSucceeded]) (use assms st out in auto)
  then show ?thesis unfolding handle_success_def by (rule keeps_trans [OF _ keeps_check_budget])
qed

lemma running_task_state:
  assumes "sched_inv env P res s" and "t \<in> set (held s)"
  shows "state_of s (tk_attr t) = StateRunning"
  using assms tasks_ok_attr core_invD(6) unfolding sched_inv_def by blast

lemma keeps_complete:
  assumes "sched_inv env P res s" and "ss_running s = pre @ t # post"
  shows "keeps s (do_complete env (pre @ post) t r s)"
proof -
  let ?s = "s\<lparr>ss_running := pre @ post, ss_in_flight := ss_in_flight s - 1\<rparr>"
  have "state_of s (tk_attr t) = StateRunning"
    using running_task_state [OF assms(1), of t] assms(2) by (simp add: held_def)
  moreover have same: "state_of ?s = state_of s" by (rule state_of_cong) simp
  ultimately have nt: "\<not> terminal (state_of ?s (tk_attr t))" by simp
  have "keeps s ?s" by (rule keeps_same) simp_all
  moreover have "keeps ?s (handle_completion env t r (s\<lparr>ss_running := pre @ post\<rparr>))"
    using keeps_handle_error [OF nt] keeps_handle_success [OF nt]
    by (cases r) (simp_all add: handle_completion_def)
  ultimately show ?thesis
    unfolding do_complete_def using keeps_process_decisions keeps_trans by blast
qed

lemma sched_step_keeps:
  assumes "sched_step env s s'" and "sched_inv env P res s"
  shows "keeps s s'"
  using assms
proof (induction rule: sched_step.cases)
  case (dispatch s)
  then show ?case by (auto simp: do_dispatch_def intro: keeps_same split: list.splits)
next
  case (complete s pre t post r)
  then show ?case using keeps_complete by blast
next
  case (ctx_done s)
  have "keeps s (s\<lparr>ss_ctx_done_open := False\<rparr>)" by (rule keeps_same) simp_all
  with ctx_done show ?case by (simp add: do_ctx_done_def keeps_trans [OF _ keeps_cancel_halt])
qed (auto intro: keeps_same)

lemma sched_reach_keeps:
  assumes "sched_reach env s s'" and "sched_inv env P res s"
  shows "keeps s s'"
  using assms(1)
proof (induction rule: rtranclp_induct)
  case (step y z)
  from sched_step_keeps [OF step(2) sched_reach_inv [OF step(1) assms(2)]] step(3)
  show ?case by (rule keeps_trans [rotated])
qed simp

section \<open>The loop ends\<close>

definition untried :: "sched_env \<Rightarrow> sched \<Rightarrow> string set" where
  "untried env s = {i \<in> wf_ids (se_wf env). \<not> ss_fb_tried s i}"

lemma finite_untried [simp]: "finite (untried env s)"
  by (simp add: untried_def wf_ids_def)

definition work :: "sched_env \<Rightarrow> sched \<Rightarrow> nat" where
  "work env s = 4 * card (pending_ids s) + 2 * length (ss_ready s) + 2 * card (untried env s)"

text \<open>The ranking function: undecided nodes, ready tasks, unused fallbacks, running tasks and
  the cancellation branch. A halted run has only its running tasks and that branch left.\<close>

definition rank :: "sched_env \<Rightarrow> sched \<Rightarrow> nat" where
  "rank env s =
     (if ss_halted s then 0 else Suc (work env s)) + length (ss_running s) +
     (if ss_ctx_done_open s then 1 else 0)"

lemma work_decide_node: "work env (decide_node env i s) \<le> work env s"
proof (cases "state_of s i = StatePending")
  case True
  obtain act ins s1 where g: "gather_inputs env i (parents (se_wf env) i) True [] s = (act, ins, s1)"
    by (metis prod_cases3)
  have same: "ss_ready s1 = ss_ready s" "ss_fb_tried s1 = ss_fb_tried s"
    using gather_inputs_frame [OF g] by auto
  have r: "length (ss_ready (decide_node env i s)) \<le> Suc (length (ss_ready s))"
    using True g same by (simp add: decide_node_def)
  have "i \<in> pending_ids s" using True by (simp add: state_of_pending)
  then have c: "card (pending_ids s) = Suc (card (pending_ids s - {i}))"
    by (intro card.remove) simp_all
  have f: "untried env (decide_node env i s) = untried env s"
    using True g same by (simp add: decide_node_def untried_def)
  show ?thesis
    using r c f by (simp add: work_def decide_node_pending [OF True])
qed (simp add: decide_node_def)

lemma decide_node_open: "ss_ctx_done_open (decide_node env i s) = ss_ctx_done_open s"
proof -
  obtain act ins s1 where g: "gather_inputs env i (parents (se_wf env) i) True [] s = (act, ins, s1)"
    by (metis prod_cases3)
  then have "ss_ctx_done_open s1 = ss_ctx_done_open s" using gather_inputs_frame [OF g] by auto
  with g show ?thesis by (auto simp: decide_node_def)
qed

lemma work_queue [simp]: "work env (s\<lparr>ss_to_decide := q\<rparr>) = work env s"
  by (simp add: work_def pending_ids_def untried_def)

lemma work_process_decisions:
  "work env (process_decisions env s) \<le> work env s \<and>
   ss_ctx_done_open (process_decisions env s) = ss_ctx_done_open s"
proof (induction env s rule: process_decisions.induct)
  case (1 env s)
  show ?case
  proof (cases "ss_to_decide s")
    case Nil
    then show ?thesis by (subst (1 2) process_decisions.simps) simp
  next
    case (Cons i rest)
    then have "work env (decide_head env s) \<le> work env s"
      using work_decide_node [of env i "s\<lparr>ss_to_decide := rest\<rparr>"] by (simp add: decide_head_def)
    with 1 Cons show ?thesis
      by (subst (1 2) process_decisions.simps) (auto simp: decide_head_def decide_node_open)
  qed
qed

lemma pending_ids_fail: "pending_ids (fail_node env i e s) \<subseteq> pending_ids s"
  by (auto simp: pending_ids_def split: if_splits)

lemma work_fail_node: "work env (fail_node env i e s) \<le> work env s"
proof -
  have "card (pending_ids (fail_node env i e s)) \<le> card (pending_ids s)"
    by (intro card_mono pending_ids_fail) simp
  then show ?thesis by (simp add: work_def untried_def)
qed

lemma handle_error_work:
  assumes "tk_attr t \<in> wf_ids (se_wf env)"
  shows "(ss_halted (handle_error env t e s) \<or> work env (handle_error env t e s) \<le> work env s) \<and>
    ss_ctx_done_open (handle_error env t e s) = ss_ctx_done_open s"
proof -
  let ?i = "tk_attr t"
  consider (req) "is_err ErrApprovalRequired e"
    | (rej) "\<not> is_err ErrApprovalRequired e" "is_err ErrApprovalRejected e"
    | (coll) "\<not> is_err ErrApprovalRequired e" "\<not> is_err ErrApprovalRejected e" "collateral s e"
    | (pol) "\<not> is_err ErrApprovalRequired e" "\<not> is_err ErrApprovalRejected e" "\<not> collateral s e"
    by blast
  then show ?thesis
  proof cases
    case pol
    let ?pol = "failure_policy_of (tk_node t)"
    show ?thesis
    proof (cases "fp_mode ?pol = FailFallback \<and> \<not> ss_fb_tried s ?i \<and>
        nodes_by_id (se_wf env) (fp_fallback ?pol) \<noteq> None")
      case True
      then obtain n where n: "nodes_by_id (se_wf env) (fp_fallback ?pol) = Some n" by blast
      have eq: "handle_error env t e s = s\<lparr>ss_fb_tried := (ss_fb_tried s)(?i := True),
          ss_ready := ss_ready s @ [\<lparr>tk_node = n,
            tk_inputs = (case ss_inputs_used s ?i of Some ins \<Rightarrow> ins | None \<Rightarrow> []), tk_attr = ?i\<rparr>]\<rparr>"
        unfolding handle_error_def Let_def if_not_P [OF pol(1)] if_not_P [OF pol(2)]
          if_not_P [OF pol(3) [unfolded collateral_def]]
        using True n by simp
      have "untried env (handle_error env t e s) = untried env s - {?i}"
        by (auto simp: eq untried_def)
      moreover have "?i \<in> untried env s" using True assms by (simp add: untried_def)
      ultimately have "card (untried env s) = Suc (card (untried env (handle_error env t e s)))"
        using card.remove [of "untried env s" ?i] by simp
      then show ?thesis by (simp add: work_def pending_ids_def eq)
    next
      case False
      then show ?thesis
        unfolding handle_error_policy [OF pol False] using work_fail_node [of env ?i e s] by simp
    qed
  qed (simp_all add: handle_error_required handle_error_rejected handle_error_collateral
      work_fail_node)
qed

lemma handle_success_work:
  "(ss_halted (handle_success env t r s) \<or> work env (handle_success env t r s) \<le> work env s) \<and>
   ss_ctx_done_open (handle_success env t r s) = ss_ctx_done_open s"
proof -
  have "pending_ids (handle_success env t r s) \<subseteq> pending_ids s"
    by (auto simp: pending_ids_def handle_success_def split: if_splits)
  then have "card (pending_ids (handle_success env t r s)) \<le> card (pending_ids s)"
    by (intro card_mono) simp_all
  moreover have "ss_ready (handle_success env t r s) = ss_ready s"
    "ss_fb_tried (handle_success env t r s) = ss_fb_tried s"
    "ss_ctx_done_open (handle_success env t r s) = ss_ctx_done_open s"
    by (simp_all add: handle_success_def)
  ultimately show ?thesis by (simp add: work_def untried_def)
qed

fun coordinator_action :: "action \<Rightarrow> bool" where
  "coordinator_action ActDispatch = True"
| "coordinator_action (ActComplete k r) = True"
| "coordinator_action ActCtxDone = True"
| "coordinator_action _ = False"

lemma rank_complete:
  assumes "sched_inv env P res s" and run: "ss_running s = pre @ t # post"
  shows "rank env (do_complete env (pre @ post) t r s) < rank env s"
proof -
  let ?s = "s\<lparr>ss_running := pre @ post, ss_in_flight := ss_in_flight s - 1\<rparr>"
  let ?h = "handle_completion env t r (s\<lparr>ss_running := pre @ post\<rparr>)"
  let ?d = "do_complete env (pre @ post) t r s"
  have "state_of s (tk_attr t) = StateRunning"
    using running_task_state [OF assms(1), of t] run by (simp add: held_def)
  then have i: "tk_attr t \<in> wf_ids (se_wf env)"
    using pending_wf_id [OF core_invD(1)] assms(1) by (fastforce simp: sched_inv_def)
  have same: "work env ?s = work env s" by (simp add: work_def pending_ids_def untried_def)
  have h: "(ss_halted ?h \<or> work env ?h \<le> work env s) \<and> ss_ctx_done_open ?h = ss_ctx_done_open s"
    using handle_error_work [OF i, of _ ?s] handle_success_work [of env t _ ?s] same
    by (cases r) (simp_all add: handle_completion_def)
  have hf: "ss_running ?h = pre @ post"
    by (cases r) (simp_all add: handle_completion_def handle_error_flight handle_success_flight)
  have keep: "ss_halted ?h \<longrightarrow> ss_halted ?d" "ss_halted s \<longrightarrow> ss_halted ?d"
    using keeps_process_decisions [of ?h env] keeps_complete [OF assms] by (auto simp: keeps_def do_complete_def)
  have d: "work env ?d \<le> work env ?h" "ss_ctx_done_open ?d = ss_ctx_done_open ?h"
    "ss_running ?d = pre @ post"
    using work_process_decisions [of env ?h] process_decisions_flight [of env ?h] hf
    by (simp_all add: do_complete_def)
  show ?thesis
    using h keep d run unfolding rank_def by auto
qed

lemma sched_do_rank:
  assumes "sched_do env a s = Some s'" and "sched_inv env P res s"
  shows "if coordinator_action a then rank env s' < rank env s else rank env s' = rank env s"
proof (cases a)
  case ActDispatch
  with assms(1) show ?thesis
    by (cases "ss_ready s")
      (auto simp: do_dispatch_def rank_def work_def pending_ids_def untried_def split: if_splits)
next
  case (ActComplete k r)
  with assms(1) have k: "k < length (ss_running s)"
    and s': "s' = do_complete env (take k (ss_running s) @ drop (Suc k) (ss_running s))
                    (ss_running s ! k) r s"
    by (auto split: if_splits)
  from k have "ss_running s = take k (ss_running s) @ ss_running s ! k # drop (Suc k) (ss_running s)"
    by (rule id_take_nth_drop)
  from rank_complete [OF assms(2) this] ActComplete s' show ?thesis by simp
next
  case ActCtxDone
  with assms(1) have "ss_ctx_done_open s" "s' = do_ctx_done env s" by (auto split: if_splits)
  with ActCtxDone show ?thesis by (simp add: rank_def do_ctx_done_def)
qed (use assms(1) in \<open>auto simp: rank_def work_def pending_ids_def untried_def split: if_splits\<close>)

lemma sched_run_rank:
  assumes "sched_run env acts s = Some s'" and "sched_inv env P res s"
  shows "length (filter coordinator_action acts) + rank env s' \<le> rank env s"
  using assms
proof (induction acts arbitrary: s)
  case (Cons a acts)
  then obtain s1 where s1: "sched_do env a s = Some s1" "sched_run env acts s1 = Some s'"
    by (auto split: option.splits)
  have "sched_inv env P res s1" using sched_step_inv [OF sched_do_step [OF s1(1)] Cons.prems(2)] .
  from Cons.IH [OF s1(2) this] sched_do_rank [OF s1(1) Cons.prems(2)] show ?case
    by (auto split: if_splits)
qed simp

text \<open>While the loop guard holds some branch can be taken: a ready task meets an idle worker,
  or a running one is about to complete.\<close>

lemma loop_progress:
  assumes "sched_inv env P res s" and "loop_guard s"
  shows "sched_do env ActDispatch s \<noteq> None \<or> (\<forall>r. sched_do env (ActComplete 0 r) s \<noteq> None)"
proof -
  have fl: "flight_ok env s" using assms(1) by (simp add: sched_inv_def)
  have pool: "0 < pool_size env" by (simp add: pool_size_def run_defaults_concurrency)
  show ?thesis
  proof (cases "ss_running s")
    case Nil
    with assms(2) fl pool show ?thesis by (simp add: flight_ok_def loop_guard_def)
  next
    case (Cons t ts)
    with assms(2) show ?thesis by simp
  qed
qed

lemma rank_start:
  assumes "run_begin env ws pre fresh now parent = Inr s"
  shows "rank env s \<le> 6 * length (wf_nodes (se_wf env)) + 2"
proof -
  obtain s1 p wf_ins where s: "s = process_decisions env (seed_roots env s1)"
    and s1: "s1 = (if fresh then sched_emit env ExecutionStarted '''' p (init_sched env pre now parent)
           else init_sched env pre now parent)"
    using run_begin_Inr [OF assms] by metis
  let ?s = "seed_roots env s1"
  have f: "ss_running ?s = []" "ss_ready ?s = []" "ss_state ?s = ss_state (init_sched env pre now parent)"
    by (simp_all add: s1 seed_roots_def init_sched_fields)
  have "finite (wf_ids (se_wf env))" by (simp add: wf_ids_def)
  moreover have "pending_ids ?s \<subseteq> wf_ids (se_wf env)"
    by (auto simp: pending_ids_def f init_sched_lookup split: if_splits)
  moreover have "untried env ?s \<subseteq> wf_ids (se_wf env)" by (auto simp: untried_def)
  moreover have "card (wf_ids (se_wf env)) \<le> length (wf_nodes (se_wf env))"
    unfolding wf_ids_def by (metis card_length length_map list.set_map)
  ultimately have "card (pending_ids ?s) \<le> length (wf_nodes (se_wf env))"
    "card (untried env ?s) \<le> length (wf_nodes (se_wf env))"
    using card_mono le_trans by blast+
  then have "work env ?s \<le> 6 * length (wf_nodes (se_wf env))" using f by (simp add: work_def)
  then show ?thesis
    using work_process_decisions [of env ?s] process_decisions_flight [of env ?s] f
    by (simp add: rank_def s)
qed

end
