(* ===== verification/SchedulerResult.thy ===== *)
theory SchedulerResult
  imports SchedulerProps
begin

text \<open>
  The end of a run: when the loop leaves an acyclic graph nothing is unresolved, the
  finalization reports every node with its state, and the log has one \<open>Cancelled\<close> event
  exactly when the run ends cancelled. The theorems about the scheduler close the theory.
\<close>

section \<open>The queue is empty between steps\<close>

lemma process_decisions_empty: "ss_to_decide (process_decisions env s) = []"
proof (induction env s rule: process_decisions.induct)
  case (1 env s)
  then show ?case by (cases "ss_to_decide s = []") (subst process_decisions.simps, simp)+
qed

lemma sched_step_queue:
  "sched_step env s s' \<Longrightarrow> ss_to_decide s = [] \<Longrightarrow> ss_to_decide s' = []"
  by (induction rule: sched_step.cases)
    (auto simp: do_dispatch_def do_complete_def do_ctx_done_def process_decisions_empty
      split: list.splits)

lemma sched_reach_queue:
  "sched_reach env s s' \<Longrightarrow> ss_to_decide s = [] \<Longrightarrow> ss_to_decide s' = []"
  by (induction rule: rtranclp_induct) (auto intro: sched_step_queue)

lemma run_begin_queue:
  "run_begin env ws pre fresh now parent = Inr s \<Longrightarrow> ss_to_decide s = []"
  by (elim run_begin_Inr) (simp add: process_decisions_empty)

section \<open>An acyclic graph is resolved\<close>

definition graph_rel :: "workflow \<Rightarrow> (string \<times> string) set" where
  "graph_rel w = {(edge_from e, edge_to e) | e. e \<in> set (live_edges w)}"

definition dedicated :: "workflow \<Rightarrow> bool" where
  "dedicated w \<longleftrightarrow> (\<forall>e\<in>set (live_edges w). edge_from e \<notin> set (fallback_targets w))"

lemma finite_graph_rel: "finite (graph_rel w)"
proof -
  have "graph_rel w = (\<lambda>e. (edge_from e, edge_to e)) ` set (live_edges w)"
    by (auto simp: graph_rel_def)
  then show ?thesis by simp
qed

lemma done_not_held:
  assumes "sched_inv env P res s" and "\<not> loop_guard s" and "\<not> ss_halted s"
  shows "held s = []"
  using assms by (auto simp: sched_inv_def flight_ok_def loop_guard_def held_def)

lemma acyclic_resolved:
  assumes inv: "sched_inv env P res s" and q: "ss_to_decide s = []"
    and fin: "\<not> loop_guard s" "\<not> ss_halted s"
    and dag: "acyclic (graph_rel (se_wf env))" and ded: "dedicated (se_wf env)"
    and i: "i \<in> wf_ids (se_wf env)" "i \<notin> set (fallback_targets (se_wf env))"
  shows "terminal (state_of s i)"
proof -
  have core: "core_inv env P res (held s) [] s" using inv q by (simp add: sched_inv_def)
  note c = core_invD [OF core]
  have "wf (graph_rel (se_wf env))"
    by (rule finite_acyclic_wf [OF finite_graph_rel dag])
  then show ?thesis using i
  proof (induction i rule: wf_induct_rule)
    case (less i)
    show ?case
    proof (rule ccontr)
      assume nt: "\<not> terminal (state_of s i)"
      have "state_of s i \<noteq> StateUnset" by (rule nodes_by_id_lookup [OF core less.prems(1)])
      moreover have "state_of s i \<noteq> StateRunning"
        using c(6) done_not_held [OF inv fin] by (auto simp: tasks_ok_def)
      ultimately have pend: "state_of s i = StatePending"
        using nt by (cases "state_of s i") auto
      then have "ss_pending s i \<noteq> 0"
        using c(4) fin(2) less.prems by (auto simp: queue_full_def)
      then have "unsettled (se_wf env) (state_of s) i \<noteq> 0" using c(2) by (simp add: pend_ok_def)
      then obtain e where e: "e \<in> set (parents (se_wf env) i)" "\<not> terminal (state_of s (edge_from e))"
        by (auto simp: unsettled_zero)
      then have live: "e \<in> set (live_edges (se_wf env))" "edge_to e = i" by (simp_all add: parents_def)
      then have "(edge_from e, i) \<in> graph_rel (se_wf env)" by (auto simp: graph_rel_def)
      with less.IH live_edge_ids [OF live(1)] ded live e(2) show False
        by (auto simp: dedicated_def)
    qed
  qed
qed

definition cancel_err :: "err \<Rightarrow> bool" where
  "cancel_err e \<longleftrightarrow> is_err CtxCanceled e \<or> is_err CtxDeadlineExceeded e \<or> is_err ErrCancelled e"

section \<open>Finalization\<close>

lemma skip_fallback_state:
  "state_of (fold skip_fallback fs s) i =
     (if i \<in> set fs \<and> state_of s i = StatePending then StateSkipped else state_of s i)"
proof (induction fs arbitrary: s)
  case (Cons f fs)
  have "state_of (skip_fallback f s) =
      (if state_of s f = StatePending then (state_of s)(f := StateSkipped) else state_of s)"
    by (auto simp: skip_fallback_def intro!: state_of_upd)
  with Cons show ?case by auto
qed simp

lemma skip_fallback_outcomes:
  "ss_outcomes (fold skip_fallback fs s) i =
     (if i \<in> set fs \<and> state_of s i = StatePending then Some (outcome_of StateSkipped '''')
      else ss_outcomes s i)"
proof (induction fs arbitrary: s)
  case (Cons f fs)
  have "state_of (skip_fallback f s) =
      (if state_of s f = StatePending then (state_of s)(f := StateSkipped) else state_of s)"
    "ss_outcomes (skip_fallback f s) =
      (if state_of s f = StatePending then (ss_outcomes s)(f \<mapsto> outcome_of StateSkipped '''')
       else ss_outcomes s)"
    by (auto simp: skip_fallback_def intro!: state_of_upd)
  with Cons show ?case by auto
qed simp

lemma fill_outcome_fold:
  "state_of (fold fill_outcome ns s) = state_of s"
  "ss_outcomes (fold fill_outcome ns s) i =
     (if ss_outcomes s i = None \<and> i \<in> node_id ` set ns then Some (outcome_of (state_of s i) '''')
      else ss_outcomes s i)"
proof (induction ns arbitrary: s)
  case (Cons n ns)
  have f: "state_of (fill_outcome n s) = state_of s"
    "ss_outcomes (fill_outcome n s) = (if ss_outcomes s (node_id n) = None
       then (ss_outcomes s)(node_id n \<mapsto> outcome_of (state_of s (node_id n)) '''') else ss_outcomes s)"
    for s by (simp_all add: fill_outcome_def)
  {
    case 1
    show ?case using Cons.IH(1) f by simp
  next
    case 2
    show ?case using Cons.IH(2) [of "fill_outcome n s"] f by auto
  }
qed simp_all

lemma fold_frame_skip:
  "ss_halt_err (fold skip_fallback fs s) = ss_halt_err s"
  "ss_log (fold skip_fallback fs s) = ss_log s"
  "ss_budget (fold skip_fallback fs s) = ss_budget s"
  by (induction fs arbitrary: s) (simp_all add: skip_fallback_def)

lemma fold_frame_fill:
  "ss_halt_err (fold fill_outcome ns s) = ss_halt_err s"
  "ss_log (fold fill_outcome ns s) = ss_log s"
  "ss_budget (fold fill_outcome ns s) = ss_budget s"
  by (induction ns arbitrary: s) (simp_all add: fill_outcome_def)

lemma finalize_frame:
  "ss_halt_err (finalize_nodes env s) = ss_halt_err s" "ss_log (finalize_nodes env s) = ss_log s"
  "ss_budget (finalize_nodes env s) = ss_budget s"
  by (simp_all add: finalize_nodes_def fold_frame_skip fold_frame_fill)

lemma finalize_state:
  "state_of (finalize_nodes env s) i =
     (if i \<in> set (fallback_targets (se_wf env)) \<and> state_of s i = StatePending
      then StateSkipped else state_of s i)"
  by (simp add: finalize_nodes_def fill_outcome_fold skip_fallback_state)

text \<open>Every node is reported, with the state it has.\<close>

lemma finalize_outcomes:
  assumes "core_inv env P res T q s" and "i \<in> wf_ids (se_wf env)"
  shows "\<exists>c. ss_outcomes (finalize_nodes env s) i = Some c \<and>
    no_state c = state_of (finalize_nodes env s) i"
proof -
  have ok: "outcome_ok (state_of s) (output_of s) (ss_inputs_used s) (ss_outcomes s)"
    by (rule core_invD(12) [OF assms(1)])
  have i: "i \<in> node_id ` set (wf_nodes (se_wf env))" using assms(2) by (simp add: wf_ids_def)
  show ?thesis
  proof (cases "ss_outcomes s i")
    case None
    with i show ?thesis
      by (simp add: finalize_state) (simp add: finalize_nodes_def fill_outcome_fold
          skip_fallback_state skip_fallback_outcomes)
  next
    case (Some c)
    then have "no_state c = state_of s i" using ok by (simp add: outcome_ok_def)
    with Some show ?thesis
      by (simp add: finalize_state) (simp add: finalize_nodes_def fill_outcome_fold
          skip_fallback_state skip_fallback_outcomes)
  qed
qed

lemma scan_states_result:
  "fst (scan_states s order st e) =
     (if \<exists>i\<in>set order. state_of s i = StatePending \<or> state_of s i = StateFailed
      then ExecutionFailed else st)"
  "e = None \<Longrightarrow> snd (scan_states s order st e) = None \<longleftrightarrow>
     (\<forall>i\<in>set order. state_of s i \<noteq> StatePending)"
  "snd (scan_states s order st e) = Some e' \<Longrightarrow>
     e = Some e' \<or> (\<exists>i. state_of s i = StatePending \<and> e' = incomplete_error i)"
proof -
  have *: "e \<noteq> None \<Longrightarrow> snd (scan_states s order st e) \<noteq> None" for e st order
    by (induction order arbitrary: st e) auto
  show "fst (scan_states s order st e) =
     (if \<exists>i\<in>set order. state_of s i = StatePending \<or> state_of s i = StateFailed
      then ExecutionFailed else st)"
    by (induction order arbitrary: st e) auto
  show "e = None \<Longrightarrow> snd (scan_states s order st e) = None \<longleftrightarrow>
     (\<forall>i\<in>set order. state_of s i \<noteq> StatePending)"
    by (induction order arbitrary: st e) (use * in auto)
  show "snd (scan_states s order st e) = Some e' \<Longrightarrow>
     e = Some e' \<or> (\<exists>i. state_of s i = StatePending \<and> e' = incomplete_error i)"
    by (induction order arbitrary: st e) (auto split: if_splits)
qed

lemma final_state_clean:
  assumes "ss_halt_err s = None" and "final_state s order = (st, over, e)"
  shows "st = fst (scan_states s order ExecutionSucceeded None)"
    and "e = snd (scan_states s order ExecutionSucceeded None)"
  using assms by (simp_all add: final_state_def split: prod.splits)

lemma final_state_halted:
  assumes "ss_halt_err s = Some x" and "final_state s order = (st, over, e)"
  shows "e = Some x" and "st \<noteq> ExecutionSucceeded"
    and "st = ExecutionPaused \<longleftrightarrow> is_err ErrApprovalRequired x"
    and "st = ExecutionCancelled \<longleftrightarrow>
      \<not> is_err ErrApprovalRequired x \<and> \<not> is_err ErrBudgetExceeded x \<and> cancel_err x"
    and "over \<longleftrightarrow> \<not> is_err ErrApprovalRequired x \<and> is_err ErrBudgetExceeded x"
proof -
  from assms have "(st, over, e) =
    (if is_err ErrApprovalRequired x then (ExecutionPaused, False, Some x)
          else if is_err ErrBudgetExceeded x then (ExecutionFailed, True, Some x)
          else if is_err CtxCanceled x \<or> is_err CtxDeadlineExceeded x \<or> is_err ErrCancelled x
          then (ExecutionCancelled, False, Some x)
          else (ExecutionFailed, False, Some x))"
    by (simp add: final_state_def)
  then show "e = Some x" "st \<noteq> ExecutionSucceeded"
    "st = ExecutionPaused \<longleftrightarrow> is_err ErrApprovalRequired x"
    "st = ExecutionCancelled \<longleftrightarrow>
      \<not> is_err ErrApprovalRequired x \<and> \<not> is_err ErrBudgetExceeded x \<and> cancel_err x"
    "over \<longleftrightarrow> \<not> is_err ErrApprovalRequired x \<and> is_err ErrBudgetExceeded x"
    by (simp_all add: cancel_err_def split: if_splits)
qed

lemma run_finish_parts:
  assumes "run_finish env order s = (s', r, e)"
  shows "rr_nodes r = ss_outcomes (finalize_nodes env s)"
    and "final_state (finalize_nodes env s) order = (rr_state r, rr_budget_exceeded r, e)"
    and "ss_log s' = ss_log s @
      [\<lparr>ev_type = ExecutionFinished, ev_time = ss_now (finalize_nodes env s),
        ev_exec = ro_execution_id (se_opts env), ev_node = '''', ev_prev = '''',
        ev_payload = [(''state'', JStr (execution_state_str (rr_state r)))]\<rparr>]"
    and "rr_spent_cost r = bt_cost (ss_budget s)" "rr_spent_tokens r = bt_tokens (ss_budget s)"
  using assms
  by (auto simp: run_finish_def Let_def sched_emit_def finalize_frame split: prod.splits)

section \<open>What the log can hold\<close>

lemma ss_log_decide_node [simp]: "ss_log (decide_node env i s) = ss_log s"
proof -
  obtain act ins s1 where g: "gather_inputs env i (parents (se_wf env) i) True [] s = (act, ins, s1)"
    by (metis prod_cases3)
  then have "ss_log s1 = ss_log s" using gather_inputs_frame [OF g] by auto
  with g show ?thesis by (auto simp: decide_node_def)
qed

lemma ss_log_process_decisions [simp]: "ss_log (process_decisions env s) = ss_log s"
proof (induction env s rule: process_decisions.induct)
  case (1 env s)
  then show ?case
    by (cases "ss_to_decide s") (subst process_decisions.simps, simp add: decide_head_def)+
qed

lemma handle_error_log:
  "ss_log (handle_error env t e s) = ss_log s \<or>
   (\<exists>ev. ss_log (handle_error env t e s) = ss_log s @ [ev] \<and> ev_node ev = '''')"
  by (auto simp: handle_error_def Let_def cancel_halt_def sched_emit_def split: option.splits)

lemma handle_success_log:
  "ss_log (handle_success env t r s) = ss_log s \<or>
   (\<exists>ev. ss_log (handle_success env t r s) = ss_log s @ [ev] \<and> ev_node ev = [])"
  unfolding handle_success_def
  by (rule check_budget_cases [of "record_success env t r s" env "tk_attr t"])
    (simp_all add: sched_emit_def)

lemma sched_step_log:
  assumes "sched_step env s s'"
  shows "ss_log s' = ss_log s \<or>
    (\<exists>ev. ss_log s' = ss_log s @ [ev] \<and>
       (ev_node ev = '''' \<or> (\<exists>t\<in>set (ss_running s). ev_node ev = tk_attr t)))"
  using assms
proof (induction rule: sched_step.cases)
  case (complete s pre t post r)
  then show ?case
    using handle_error_log [of env t _ "s\<lparr>ss_running := pre @ post, ss_in_flight := ss_in_flight s - 1\<rparr>"]
      handle_success_log [of env t _ "s\<lparr>ss_running := pre @ post, ss_in_flight := ss_in_flight s - 1\<rparr>"]
    by (cases r) (auto simp: do_complete_def handle_completion_def)
qed (auto simp: do_dispatch_def do_ctx_done_def cancel_halt_def sched_emit_def split: list.splits)

definition log_started :: "sched \<Rightarrow> bool" where
  "log_started s \<longleftrightarrow>
     (\<forall>ev\<in>set (ss_log s). ev_node ev \<noteq> '''' \<longrightarrow> ss_inputs_used s (ev_node ev) \<noteq> None)"

lemma sched_step_log_started:
  assumes "sched_step env s s'" and "sched_inv env P res s" and "log_started s"
  shows "log_started s'"
proof -
  have k: "ss_inputs_used s i \<noteq> None \<Longrightarrow> ss_inputs_used s' i \<noteq> None" for i
    using sched_step_keeps [OF assms(1,2)] by (simp add: keeps_def)
  have used: "ss_inputs_used s (tk_attr t) \<noteq> None" if "t \<in> set (ss_running s)" for t
    using core_invD(7) [of env P res "held s" "ss_to_decide s" s t] assms(2) that
    by (auto simp: sched_inv_def held_def task_ok_def)
  from sched_step_log [OF assms(1)] show ?thesis
  proof
    assume "ss_log s' = ss_log s"
    with assms(3) k show ?thesis by (auto simp: log_started_def)
  next
    assume "\<exists>ev. ss_log s' = ss_log s @ [ev] \<and>
       (ev_node ev = '''' \<or> (\<exists>t\<in>set (ss_running s). ev_node ev = tk_attr t))"
    with assms(3) k used show ?thesis unfolding log_started_def by force
  qed
qed

section \<open>Why a run ends cancelled\<close>

lemma is_err_unique: "is_err a e \<Longrightarrow> is_err b e \<Longrightarrow> a = b"
  by (induction e) auto

text \<open>A decoder's errors are no cancellation of the engine's.\<close>

definition plain_errors :: "(bytes \<Rightarrow> err + gval) \<Rightarrow> bool" where
  "plain_errors um \<longleftrightarrow> (\<forall>b e. um b = Inl e \<longrightarrow> \<not> cancel_err e)"

definition cause_ok :: "sched \<Rightarrow> bool" where
  "cause_ok s \<longleftrightarrow>
     cancelled_events (ss_log s) =
       (case ss_halt_err s of None \<Rightarrow> 0 | Some e \<Rightarrow> if cancel_err e then 1 else 0) \<and>
     (\<forall>e. ss_parent_err s = Some e \<longrightarrow> cancel_err e) \<and>
     (ss_halted s \<longleftrightarrow> ss_halt_err s \<noteq> None)"

lemma cause_ok_do_halt: "cause_ok s \<Longrightarrow> \<not> cancel_err e \<Longrightarrow> cause_ok (do_halt e s)"
  by (auto simp: cause_ok_def do_halt_def split: option.splits)

lemma cause_ok_cancel_halt: "cause_ok s \<Longrightarrow> cause_ok (cancel_halt env s)"
  by (auto simp: cause_ok_def cancel_halt_def do_halt_def sched_emit_def cancelled_events_def
      cancel_err_def split: option.splits)

lemma cause_ok_emit: "cause_ok s \<Longrightarrow> ty \<noteq> Cancelled \<Longrightarrow> cause_ok (sched_emit env ty n p s)"
  by (auto simp: cause_ok_def sched_emit_def cancelled_events_def split: option.splits)

lemma cause_ok_cong:
  assumes "cause_ok s" and "ss_halted s' = ss_halted s" "ss_halt_err s' = ss_halt_err s"
    "ss_log s' = ss_log s" "ss_parent_err s' = ss_parent_err s"
  shows "cause_ok s'"
  using assms(1) unfolding cause_ok_def assms(2-) .

lemma eval_condition_plain:
  assumes "plain_errors um" and "eval_condition um c art = Inl e"
  shows "\<not> cancel_err e"
proof -
  have "compare_vals v p x = Inl e' \<Longrightarrow> \<not> cancel_err e'" for v p x e'
    by (cases p) (auto simp: compare_vals_def cancel_err_def split: option.splits)
  with assms show ?thesis
    by (auto simp: eval_condition_def Let_def plain_errors_def cancel_err_def
        split: option.splits sum.splits compare_op.splits if_splits)
qed

lemma cause_ok_gather:
  assumes "gather_inputs env i es act ins s = (act', ins', s')" and "cause_ok s"
    and "plain_errors (se_unmarshal env)"
  shows "cause_ok s'"
  using assms(1,2)
proof (induction es arbitrary: act ins s)
  case (Cons e es)
  show ?case
  proof (cases "state_of s (edge_from e) = StateSucceeded")
    case True
    show ?thesis
    proof (cases "eval_condition (se_unmarshal env) (edge_cond e)
        (out_content (output_of s (edge_from e)))")
      case (Inl err)
      have "\<not> cancel_err (condition_failed i e err)"
        using eval_condition_plain [OF assms(3) Inl] by (simp add: condition_failed_def cancel_err_def)
      with Cons.prems(2) have "cause_ok (do_halt (condition_failed i e err) s)"
        by (rule cause_ok_do_halt)
      with Cons Inl True show ?thesis by simp
    next
      case (Inr b)
      with Cons True show ?thesis by (auto split: if_splits)
    qed
  qed (use Cons in auto)
qed simp

lemma cause_ok_decide_node:
  assumes "cause_ok s" and "plain_errors (se_unmarshal env)"
  shows "cause_ok (decide_node env i s)"
proof (cases "state_of s i = StatePending")
  case True
  obtain act ins s1 where g: "gather_inputs env i (parents (se_wf env) i) True [] s = (act, ins, s1)"
    by (metis prod_cases3)
  from cause_ok_gather [OF g assms] have "cause_ok s1" .
  then show ?thesis
    by (rule cause_ok_cong) (use True g in \<open>simp_all add: decide_node_def\<close>)
qed (simp add: decide_node_def assms(1))

lemma cause_ok_process_decisions:
  assumes "cause_ok s" and "plain_errors (se_unmarshal env)"
  shows "cause_ok (process_decisions env s)"
  using assms
proof (induction env s rule: process_decisions.induct)
  case (1 env s)
  show ?case
  proof (cases "ss_to_decide s")
    case Nil
    with 1 show ?thesis by (subst process_decisions.simps) simp
  next
    case (Cons i rest)
    have "cause_ok (s\<lparr>ss_to_decide := rest\<rparr>)" by (rule cause_ok_cong [OF "1.prems"(1)]) simp_all
    then have "cause_ok (decide_head env s)"
      using cause_ok_decide_node "1.prems"(2) Cons by (simp add: decide_head_def)
    with 1 Cons show ?thesis by (subst process_decisions.simps) simp
  qed
qed

lemma not_cancel_err:
  "is_err b e \<Longrightarrow> b \<notin> {CtxCanceled, CtxDeadlineExceeded, ErrCancelled} \<Longrightarrow> \<not> cancel_err e"
  using is_err_unique by (auto simp: cancel_err_def)

lemma cause_ok_fail_node: "cause_ok s \<Longrightarrow> cause_ok (fail_node env i e s)"
  by (erule cause_ok_cong) (simp_all add: fail_node_def)

lemma cause_ok_handle_error:
  assumes "cause_ok s"
  shows "cause_ok (handle_error env t e s)"
proof -
  note fn = cause_ok_fail_node [OF assms, of env "tk_attr t" e]
  consider (req) "is_err ErrApprovalRequired e"
    | (rej) "\<not> is_err ErrApprovalRequired e" "is_err ErrApprovalRejected e"
    | (coll) "\<not> is_err ErrApprovalRequired e" "\<not> is_err ErrApprovalRejected e" "collateral s e"
    | (pol) "\<not> is_err ErrApprovalRequired e" "\<not> is_err ErrApprovalRejected e" "\<not> collateral s e"
    by blast
  then show ?thesis
  proof cases
    case req
    have nc: "\<not> cancel_err e" by (rule not_cancel_err [OF req]) simp
    show ?thesis unfolding handle_error_required [OF req]
      by (rule cause_ok_do_halt [OF cause_ok_cong [OF assms] nc]) simp_all
  next
    case rej
    have nc: "\<not> cancel_err e" by (rule not_cancel_err [OF rej(2)]) simp
    show ?thesis unfolding handle_error_rejected [OF rej] by (rule cause_ok_do_halt [OF fn nc])
  next
    case coll
    then show ?thesis using fn cause_ok_cancel_halt [OF fn] by (simp add: handle_error_collateral)
  next
    case pol
    let ?pol = "failure_policy_of (tk_node t)"
    have nc: "\<not> cancel_err (node_failed_error (tk_attr t) e)"
      by (simp add: node_failed_error_def cancel_err_def)
    show ?thesis
    proof (cases "fp_mode ?pol = FailFallback \<and> \<not> ss_fb_tried s (tk_attr t) \<and>
        nodes_by_id (se_wf env) (fp_fallback ?pol) \<noteq> None")
      case True
      then obtain n where n: "nodes_by_id (se_wf env) (fp_fallback ?pol) = Some n" by blast
      show ?thesis
        unfolding handle_error_def Let_def if_not_P [OF pol(1)] if_not_P [OF pol(2)]
          if_not_P [OF pol(3) [unfolded collateral_def]]
        using True n by (simp add: cause_ok_cong [OF assms])
    next
      case False
      then show ?thesis
        using fn cause_ok_do_halt [OF fn nc] by (simp add: handle_error_policy [OF pol False])
    qed
  qed
qed

lemma cause_ok_handle_success:
  assumes "cause_ok s"
  shows "cause_ok (handle_success env t r s)"
proof -
  let ?s = "record_success env t r s"
  have s2: "cause_ok ?s" by (rule cause_ok_cong [OF assms]) simp_all
  have nc: "\<not> cancel_err (budget_exceeded_error (tk_attr t))"
    by (simp add: budget_exceeded_error_def cancel_err_def)
  have s3: "cause_ok (?s\<lparr>ss_budget := b\<rparr>)" for b by (rule cause_ok_cong [OF s2]) simp_all
  show ?thesis
    unfolding handle_success_def
    by (rule check_budget_cases [of ?s env "tk_attr t"])
      (simp_all add: s2 s3 nc cause_ok_emit cause_ok_do_halt)
qed

lemma cause_ok_complete:
  assumes "cause_ok s" and "plain_errors (se_unmarshal env)"
  shows "cause_ok (do_complete env rest t r s)"
proof -
  let ?s = "s\<lparr>ss_running := rest, ss_in_flight := ss_in_flight s - 1\<rparr>"
  have "cause_ok ?s" by (rule cause_ok_cong [OF assms(1)]) simp_all
  then have "cause_ok (handle_completion env t r (s\<lparr>ss_running := rest\<rparr>))"
    by (cases r) (simp_all add: handle_completion_def cause_ok_handle_error cause_ok_handle_success)
  then show ?thesis unfolding do_complete_def by (rule cause_ok_process_decisions [OF _ assms(2)])
qed

lemma cause_ok_step:
  assumes "sched_step env s s'" and "cause_ok s" and "plain_errors (se_unmarshal env)"
  shows "cause_ok s'"
  using assms
proof (induction rule: sched_step.induct)
  case (dispatch s)
  show ?case
    by (rule cause_ok_cong [OF dispatch(4)]) (simp_all add: do_dispatch_def split: list.splits)
next
  case (complete s pre t post r)
  then show ?case by (intro cause_ok_complete)
next
  case (ctx_done s)
  have "cause_ok (s\<lparr>ss_ctx_done_open := False\<rparr>)" by (rule cause_ok_cong [OF ctx_done(4)]) simp_all
  then show ?case unfolding do_ctx_done_def by (rule cause_ok_cancel_halt)
next
  case (parent_cancel s c)
  have "cancel_err (ESentinel c)" using parent_cancel(2) by (auto simp: cancel_err_def)
  with parent_cancel(3) show ?case by (simp add: cause_ok_def)
next
  case (tick s now)
  show ?case by (rule cause_ok_cong [OF tick(2)]) simp_all
next
  case (worker_emit t s ty p)
  have "ty \<noteq> Cancelled" using worker_emit(2) by (simp add: worker_event_def)
  then show ?case by (rule cause_ok_emit [OF worker_emit(3)])
qed

lemma cause_ok_reach:
  "sched_reach env s s' \<Longrightarrow> cause_ok s \<Longrightarrow> plain_errors (se_unmarshal env) \<Longrightarrow> cause_ok s'"
  by (induction rule: rtranclp_induct) (auto intro: cause_ok_step)

lemma cause_ok_start:
  assumes "run_begin env ws pre fresh now parent = Inr s" and "plain_errors (se_unmarshal env)"
    and "\<And>e. parent = Some e \<Longrightarrow> cancel_err e"
  shows "cause_ok s"
proof -
  obtain s1 p wf_ins where s: "s = process_decisions env (seed_roots env s1)"
    and s1: "s1 = (if fresh then sched_emit env ExecutionStarted '''' p (init_sched env pre now parent)
           else init_sched env pre now parent)"
    using run_begin_Inr [OF assms(1)] by metis
  have "cause_ok (init_sched env pre now parent)"
    using assms(3) by (simp add: cause_ok_def init_sched_fields cancelled_events_def)
  then have "cause_ok s1" by (simp add: s1 cause_ok_emit)
  then have "cause_ok (seed_roots env s1)"
    by (rule cause_ok_cong) (simp_all add: seed_roots_def)
  then show ?thesis unfolding s by (rule cause_ok_process_decisions [OF _ assms(2)])
qed

end
