(* ===== verification/SchedulerTheorems.thy ===== *)
theory SchedulerTheorems
  imports SchedulerResult
begin

text \<open>
  The theorems about a run of the scheduler (\<open>core/engine/scheduler.go\<close>), stated over
  the states its coordinator can be in, each with an instance on a two-node workflow.
\<close>

definition coordinator_state ::
  "sched_env \<Rightarrow> (string \<times> node_output) list \<Rightarrow> sched \<Rightarrow> bool" where
  "coordinator_state env pre s \<longleftrightarrow>
     start_ok env pre \<and>
     (\<exists>ws fresh now parent s0.
        run_begin env ws pre fresh now parent = Inr s0 \<and> sched_reach env s0 s)"

lemma coordinator_stateE:
  assumes "coordinator_state env pre s"
  obtains ws fresh now parent s0 where "start_ok env pre"
    "run_begin env ws pre fresh now parent = Inr s0" "sched_reach env s0 s"
    "sched_inv env (pre_ids (se_wf env) pre) (pre_output pre) s0"
proof -
  from assms obtain ws fresh now parent s0 where *: "start_ok env pre"
    "run_begin env ws pre fresh now parent = Inr s0" "sched_reach env s0 s"
    by (auto simp: coordinator_state_def)
  from run_begin_inv [OF *(2,1)] * show thesis by (auto intro: that)
qed

lemma coordinator_inv:
  assumes "coordinator_state env pre s"
  shows "sched_inv env (pre_ids (se_wf env) pre) (pre_output pre) s" and "ss_to_decide s = []"
  using assms
  by (auto elim!: coordinator_stateE intro: sched_reach_inv sched_reach_queue [OF _ run_begin_queue])

lemma coordinator_core:
  "coordinator_state env pre s \<Longrightarrow>
     core_inv env (pre_ids (se_wf env) pre) (pre_output pre) (held s) [] s"
  using coordinator_inv [of env pre s] by (simp add: sched_inv_def)

lemma log_started_reach:
  assumes "sched_reach env s s'" and "sched_inv env P res s" and "log_started s"
  shows "log_started s'"
  using assms(1)
proof (induction rule: rtranclp_induct)
  case (step y z)
  with sched_reach_inv [OF step(1) assms(2)] show ?case by (blast intro: sched_step_log_started)
qed (rule assms(3))

lemma log_started_begin:
  assumes "run_begin env ws pre fresh now parent = Inr s"
  shows "log_started s"
proof -
  obtain s1 p where s: "s = process_decisions env (seed_roots env s1)"
    and s1: "s1 = (if fresh then sched_emit env ExecutionStarted '''' p (init_sched env pre now parent)
           else init_sched env pre now parent)"
    using run_begin_Inr [OF assms] by metis
  have "\<forall>ev\<in>set (ss_log s). ev_node ev = ''''"
    by (simp add: s s1 seed_roots_def sched_emit_def init_sched_fields)
  then show ?thesis by (simp add: log_started_def)
qed

lemma coordinator_log: "coordinator_state env pre s \<Longrightarrow> log_started s"
  by (erule coordinator_stateE) (rule log_started_reach [OF _ _ log_started_begin])

section \<open>Spend while a run goes on\<close>

definition spend_ok :: "budget \<Rightarrow> sched \<Rightarrow> bool" where
  "spend_ok l s \<longleftrightarrow>
     bt_limit (ss_budget s) = l \<and>
     (\<not> ss_halted s \<longrightarrow>
        (0 < max_cost_usd l \<longrightarrow> bt_cost (ss_budget s) < max_cost_usd l) \<and>
        (0 < max_tokens l \<longrightarrow> bt_tokens (ss_budget s) < max_tokens l))"

lemma spend_ok_cong:
  assumes "spend_ok l s" and "ss_budget s' = ss_budget s" and "ss_halted s \<Longrightarrow> ss_halted s'"
  shows "spend_ok l s'"
  using assms by (auto simp: spend_ok_def)

lemma ss_budget_decide_node [simp]: "ss_budget (decide_node env i s) = ss_budget s"
proof -
  obtain act ins s1 where g: "gather_inputs env i (parents (se_wf env) i) True [] s = (act, ins, s1)"
    by (metis prod_cases3)
  then have "ss_budget s1 = ss_budget s" using gather_inputs_frame [OF g] by auto
  with g show ?thesis by (auto simp: decide_node_def)
qed

lemma ss_budget_process_decisions [simp]: "ss_budget (process_decisions env s) = ss_budget s"
proof (induction env s rule: process_decisions.induct)
  case (1 env s)
  then show ?case
    by (cases "ss_to_decide s") (subst process_decisions.simps, simp add: decide_head_def)+
qed

lemma ss_budget_handle_error [simp]: "ss_budget (handle_error env t e s) = ss_budget s"
  by (auto simp: handle_error_def Let_def cancel_halt_def fail_node_def split: option.splits)

lemma spend_ok_check_budget:
  assumes "bt_limit (ss_budget s) = l"
  shows "spend_ok l (check_budget env i s)"
proof -
  have lim: "bt_limit (fst (should_warn (ss_budget s) n)) = l"
    "bt_cost (fst (should_warn (ss_budget s) n)) = bt_cost (ss_budget s)"
    "bt_tokens (fst (should_warn (ss_budget s) n)) = bt_tokens (ss_budget s)" for n
    using assms by simp_all
  show ?thesis
  proof (rule check_budget_cases [of s env i])
    fix p assume "check_budget env i s =
      do_halt (budget_exceeded_error i) (sched_emit env BudgetExceeded '''' p s)"
    then show ?thesis using assms by (simp add: spend_ok_def)
  next
    fix p b assume "\<not> budget_exceeded (ss_budget s) (ss_now s)"
      "should_warn (ss_budget s) (ss_now s) = (b, True)"
      "check_budget env i s = sched_emit env BudgetWarning '''' p (s\<lparr>ss_budget := b\<rparr>)"
    then show ?thesis using assms lim [of "ss_now s"]
      by (simp add: spend_ok_def budget_exceeded_def Let_def not_le split: if_splits)
  next
    fix b assume "\<not> budget_exceeded (ss_budget s) (ss_now s)"
      "should_warn (ss_budget s) (ss_now s) = (b, False)" "check_budget env i s = s\<lparr>ss_budget := b\<rparr>"
    then show ?thesis using assms lim [of "ss_now s"]
      by (simp add: spend_ok_def budget_exceeded_def Let_def not_le split: if_splits)
  qed
qed

lemma spend_ok_complete:
  assumes "sched_inv env P res s" and "ss_running s = pre @ t # post" and "spend_ok l s"
  shows "spend_ok l (do_complete env (pre @ post) t r s)"
proof (cases r)
  case (Inl e)
  have "ss_halted s \<Longrightarrow> ss_halted (do_complete env (pre @ post) t r s)"
    using keeps_complete [OF assms(1,2)] by (simp add: keeps_def)
  then show ?thesis
    by (intro spend_ok_cong [OF assms(3)]) (simp add: do_complete_def handle_completion_def Inl)
next
  case (Inr x)
  let ?s = "s\<lparr>ss_running := pre @ post, ss_in_flight := ss_in_flight s - 1\<rparr>"
  have "spend_ok l (handle_success env t x ?s)"
    unfolding handle_success_def using assms(3)
    by (intro spend_ok_check_budget) (simp add: spend_ok_def)
  then show ?thesis
    unfolding do_complete_def
    by (rule spend_ok_cong)
      (use keeps_process_decisions [of "handle_success env t x ?s" env] in
        \<open>simp_all add: handle_completion_def Inr keeps_def\<close>)
qed

lemma spend_ok_step:
  assumes "sched_step env s s'" and "sched_inv env P res s" and "spend_ok l s"
  shows "spend_ok l s'"
  using assms
proof (induction rule: sched_step.induct)
  case (dispatch s)
  show ?case by (rule spend_ok_cong [OF dispatch(5)]) (simp_all add: do_dispatch_def split: list.splits)
next
  case (complete s pre t post r)
  then show ?case by (intro spend_ok_complete)
next
  case (ctx_done s)
  show ?case by (rule spend_ok_cong [OF ctx_done(5)]) (simp_all add: do_ctx_done_def cancel_halt_def)
next
  case (parent_cancel s c)
  show ?case by (rule spend_ok_cong [OF parent_cancel(4)]) simp_all
next
  case (tick s now)
  show ?case by (rule spend_ok_cong [OF tick(3)]) simp_all
next
  case (worker_emit t s ty p)
  show ?case by (rule spend_ok_cong [OF worker_emit(4)]) simp_all
qed

lemma init_sched_budget:
  "ss_budget (init_sched env pre now parent) = new_budget_tracker (ro_budget (se_opts env)) now"
proof -
  have "ss_budget (fold (init_node pre) ns s) = ss_budget s" for ns s
    by (induction ns arbitrary: s) (simp_all add: init_node_def split: option.splits)
  then show ?thesis by (simp add: init_sched_def)
qed

lemma spend_ok_reach:
  assumes "sched_reach env s s'" and "sched_inv env P res s" and "spend_ok l s"
  shows "spend_ok l s'"
  using assms(1)
proof (induction rule: rtranclp_induct)
  case (step y z)
  with sched_reach_inv [OF step(1) assms(2)] show ?case by (blast intro: spend_ok_step)
qed (rule assms(3))

lemma spend_ok_begin:
  assumes "run_begin env ws pre fresh now parent = Inr s"
  shows "spend_ok (ro_budget (se_opts env)) s"
proof -
  obtain s1 p where s: "s = process_decisions env (seed_roots env s1)"
    and s1: "s1 = (if fresh then sched_emit env ExecutionStarted '''' p (init_sched env pre now parent)
           else init_sched env pre now parent)"
    using run_begin_Inr [OF assms] by metis
  have "ss_budget s = new_budget_tracker (ro_budget (se_opts env)) now"
    by (simp add: s s1 seed_roots_def init_sched_budget)
  then show ?thesis by (simp add: spend_ok_def new_budget_tracker_def)
qed

lemma coordinator_spend:
  "coordinator_state env pre s \<Longrightarrow> spend_ok (ro_budget (se_opts env)) s"
  by (erule coordinator_stateE) (rule spend_ok_reach [OF _ _ spend_ok_begin])

section \<open>After a halt nothing more is dispatched\<close>

lemma ss_running_complete: "ss_running (do_complete env rest t r s) = rest"
  by (cases r) (simp_all add: do_complete_def process_decisions_flight handle_completion_def
      handle_error_flight handle_success_flight)

lemma halted_step_running:
  assumes "sched_step env s s'" and "ss_halted s"
  shows "set (ss_running s') \<subseteq> set (ss_running s)"
  using assms
  by (induction rule: sched_step.induct) (auto simp: ss_running_complete do_ctx_done_def)

lemma halted_reach_running:
  assumes "sched_reach env s s'" and "sched_inv env P res s" and "ss_halted s"
  shows "set (ss_running s') \<subseteq> set (ss_running s) \<and> ss_halted s' \<and> ss_halt_err s' = ss_halt_err s"
  using assms(1)
proof (induction rule: rtranclp_induct)
  case (step y z)
  have "keeps y z" by (rule sched_step_keeps [OF step(2) sched_reach_inv [OF step(1) assms(2)]])
  with step halted_step_running [OF step(2)] show ?case by (auto simp: keeps_def)
qed (simp add: assms(3))

lemma ss_halt_err_do_halt: "\<not> ss_halted s \<Longrightarrow> ss_halt_err (do_halt e s) = Some e"
  by (simp add: do_halt_def)

section \<open>A workflow to run the theorems on\<close>

definition sample_node :: "string \<Rightarrow> node" where
  "sample_node i = \<lparr>node_id = i, node_worker = ''w@1.0.0'', node_tool = None, node_policy = None,
     node_on_failure = None\<rparr>"

definition sample_wf :: workflow where
  "sample_wf = \<lparr>wf_id = ''sample'', wf_version = ''1.0.0'',
     wf_nodes = [sample_node ''a'', sample_node ''b''],
     wf_edges = [\<lparr>edge_from = ''a'', edge_to = ''b'', edge_cond = None\<rparr>], wf_defaults = None,
     wf_inputs = [],
     wf_budget = \<lparr>max_cost_usd = 1, max_tokens = 0, max_duration_ms = 0, max_retries_per_node = 0\<rparr>\<rparr>"

definition sample_opts :: run_options where
  "sample_opts = \<lparr>ro_execution_id = ''e1'', ro_concurrency = 0, ro_budget = wf_budget sample_wf,
     ro_backoff = 0, ro_backoff_max = 0, ro_cache = CacheUnset, ro_definition_hashes = Map.empty,
     ro_workers = Map.empty, ro_inputs = Map.empty, ro_connections = Map.empty,
     ro_allow_mutations = False\<rparr>"

definition sample_env :: sched_env where
  "sample_env = \<lparr>se_wf = sample_wf, se_opts = sample_opts,
     se_unmarshal = (\<lambda>_. Inl (EMsg ''no json''))\<rparr>"

definition sample_output :: node_output where
  "sample_output = \<lparr>out_hash = ''h0'', out_content = ''text'', out_type = ''text''\<rparr>"

definition sample_start :: "(string \<times> node_output) list \<Rightarrow> sched" where
  "sample_start pre =
     (case run_begin sample_env (\<lambda>_. None) pre True 0 None of
        Inr s \<Rightarrow> s | Inl _ \<Rightarrow> init_sched sample_env pre 0 None)"

definition sample_result :: node_result where
  "sample_result = zero_result\<lparr>nr_hash := ''h1'', nr_content := ''out'', nr_type := ''text''\<rparr>"

definition sample_state :: "(string \<times> node_output) list \<Rightarrow> action list \<Rightarrow> sched" where
  "sample_state pre acts =
     (case sched_run sample_env acts (sample_start pre) of Some s \<Rightarrow> s | None \<Rightarrow> sample_start pre)"

abbreviation sample_pre :: "(string \<times> node_output) list" where
  "sample_pre \<equiv> [(''a'', sample_output)]"

lemma sample_begin: "run_begin sample_env (\<lambda>_. None) pre True 0 None = Inr (sample_start pre)"
  by (simp add: sample_start_def run_begin_def resolve_workflow_inputs_def sample_env_def
      sample_wf_def Let_def)

lemma sample_start_ok: "distinct (map fst pre) \<Longrightarrow> start_ok sample_env pre"
  by (simp add: start_ok_def sample_env_def sample_wf_def sample_node_def)

lemma sample_coordinator:
  assumes "distinct (map fst pre)"
  shows "coordinator_state sample_env pre (sample_state pre acts)"
proof -
  have "sched_reach sample_env (sample_start pre) (sample_state pre acts)"
    using sched_run_reach [of sample_env acts "sample_start pre"]
    by (auto simp: sample_state_def split: option.splits)
  with sample_begin sample_start_ok [OF assms] show ?thesis
    unfolding coordinator_state_def by blast
qed

abbreviation sample_b_running :: sched where
  "sample_b_running \<equiv>
     sample_state [] [ActDispatch, ActComplete 0 (Inr sample_result), ActDispatch]"

abbreviation sample_done :: sched where
  "sample_done \<equiv>
     sample_state [] [ActDispatch, ActComplete 0 (Inr sample_result), ActDispatch,
       ActComplete 0 (Inr sample_result)]"

section \<open>Theorems\<close>

text \<open>C1. A node only runs when every incoming edge is active: each upstream node succeeded and
  the edge's condition holds on its artifact, and the inputs the node was given are the
  outputs of exactly those upstream nodes, in edge order, whatever the interleaving of
  completions, failures, cancellation and fallbacks was.\<close>

theorem dispatched_inputs_active:
  assumes "coordinator_state env pre s" and "t \<in> set (ss_running s)"
  shows "(\<forall>e\<in>set (parents (se_wf env) (tk_attr t)).
            edge_active env (state_of s) (output_of s) e) \<and>
         tk_inputs t = map (edge_input (output_of s)) (parents (se_wf env) (tk_attr t))"
proof -
  note c = core_invD [OF coordinator_core [OF assms(1)]]
  have "ss_inputs_used s (tk_attr t) = Some (tk_inputs t)"
    using c(7) [of t] assms(2) by (simp add: held_def task_ok_def)
  then show ?thesis using c(8) by (simp add: used_ok_def admitted_def)
qed

lemma dispatched_inputs_active_witness:
  "tk_inputs (hd (ss_running sample_b_running)) =
     map (edge_input (output_of sample_b_running))
       (parents sample_wf (tk_attr (hd (ss_running sample_b_running))))
   \<and> map ni_content (tk_inputs (hd (ss_running sample_b_running))) = [''out'']"
proof -
  have "hd (ss_running sample_b_running) \<in> set (ss_running sample_b_running)" by code_simp
  from dispatched_inputs_active [OF sample_coordinator this]
  have "tk_inputs (hd (ss_running sample_b_running)) =
     map (edge_input (output_of sample_b_running))
       (parents sample_wf (tk_attr (hd (ss_running sample_b_running))))"
    by (simp add: sample_env_def)
  moreover have "map ni_content (tk_inputs (hd (ss_running sample_b_running))) = [''out'']"
    by code_simp
  ultimately show ?thesis ..
qed

text \<open>C2. Resuming never re-executes a finished node: a precompleted node of the workflow keeps
  its recorded output, is succeeded in every state of the run, is never held by a worker,
  and no event is ever logged for it.\<close>

theorem precompleted_never_rerun:
  assumes "coordinator_state env pre s" and "i \<in> wf_ids (se_wf env)" and "map_of pre i = Some out"
  shows "state_of s i = StateSucceeded \<and> output_of s i = out \<and>
         i \<notin> tk_attr ` set (ss_ready s @ ss_running s) \<and>
         (i \<noteq> '''' \<longrightarrow> i \<notin> ev_node ` set (ss_log s))"
proof -
  note c = core_invD [OF coordinator_core [OF assms(1)]]
  have "i \<in> pre_ids (se_wf env) pre" using assms(2,3) by (simp add: pre_ids_def)
  with c(11) have p: "state_of s i = StateSucceeded" "output_of s i = pre_output pre i"
    "ss_inputs_used s i = None" by (simp_all add: pre_ok_def)
  moreover have "i \<notin> tk_attr ` set (held s)" using tasks_ok_attr [OF c(6)] p(1) by fastforce
  moreover have "i \<noteq> '''' \<longrightarrow> i \<notin> ev_node ` set (ss_log s)"
    using coordinator_log [OF assms(1)] p(3) by (auto simp: log_started_def)
  ultimately show ?thesis using assms(3) by (simp add: held_def pre_output_def)
qed

lemma precompleted_never_rerun_witness:
  "output_of (sample_state sample_pre [ActDispatch]) ''a'' = sample_output \<and>
   map tk_attr (ss_running (sample_state sample_pre [ActDispatch])) = [''b'']"
proof -
  have "coordinator_state sample_env sample_pre (sample_state sample_pre [ActDispatch])"
    by (rule sample_coordinator) simp
  moreover have "''a'' \<in> wf_ids (se_wf sample_env)"
    by (simp add: sample_env_def sample_wf_def sample_node_def wf_ids_def)
  ultimately have "output_of (sample_state sample_pre [ActDispatch]) ''a'' = sample_output"
    using precompleted_never_rerun [of sample_env sample_pre _ "''a''" sample_output] by simp
  moreover have "map tk_attr (ss_running (sample_state sample_pre [ActDispatch])) = [''b'']"
    by code_simp
  ultimately show ?thesis ..
qed

text \<open>C3. The pool bound: never more than \<open>Concurrency\<close> (or its default) nodes run at once,
  \<open>inFlight\<close> counts them exactly, and no node is held twice, not even with its fallback.\<close>

theorem pool_bounded:
  assumes "coordinator_state env pre s"
  shows "int (length (ss_running s)) \<le> pool_size env \<and>
         ss_in_flight s = int (length (ss_running s)) \<and>
         distinct (map tk_attr (ss_ready s @ ss_running s))"
  using coordinator_inv(1) [OF assms] core_invD(6) [OF coordinator_core [OF assms]]
  by (simp add: sched_inv_def flight_ok_def tasks_ok_def held_def)

lemma pool_bounded_witness:
  "int (length (ss_running sample_b_running)) \<le> pool_size sample_env \<and>
   length (ss_running sample_b_running) = 1"
proof -
  have "int (length (ss_running sample_b_running)) \<le> pool_size sample_env"
    using pool_bounded [OF sample_coordinator, of "[]"] by simp
  moreover have "length (ss_running sample_b_running) = 1" by code_simp
  ultimately show ?thesis ..
qed

text \<open>C4. The coordinator loop ends: whatever results the nodes return and however the branches
  of the select are picked, at most \<open>6 n + 2\<close> of its iterations happen for a workflow of
  \<open>n\<close> nodes, retries by fallback included; events of the environment are not counted.\<close>

theorem loop_terminates:
  assumes "run_begin env ws pre fresh now parent = Inr s0" and "start_ok env pre"
    and "sched_run env acts s0 = Some s"
  shows "length (filter coordinator_action acts) \<le> 6 * length (wf_nodes (se_wf env)) + 2"
  using sched_run_rank [OF assms(3)] run_begin_inv [OF assms(1,2)] rank_start [OF assms(1)]
  by fastforce

lemma loop_terminates_witness:
  "length (filter coordinator_action
     [ActDispatch, ActComplete 0 (Inr sample_result), ActTick 5, ActDispatch,
      ActComplete 0 (Inl (EMsg ''boom''))]) \<le> 14"
proof -
  let ?acts = "[ActDispatch, ActComplete 0 (Inr sample_result), ActTick 5, ActDispatch,
      ActComplete 0 (Inl (EMsg ''boom''))]"
  have "sched_run sample_env ?acts (sample_start []) \<noteq> None" by code_simp
  then obtain s where "sched_run sample_env ?acts (sample_start []) = Some s" by blast
  from loop_terminates [OF sample_begin sample_start_ok this]
  show ?thesis by (simp add: sample_env_def sample_wf_def)
qed

text \<open>The coordinator never blocks on itself: while its loop condition holds, either a ready
  node can be handed to an idle worker, or a worker is running a node and its completion,
  whatever it is, can be received.\<close>

theorem loop_never_stuck:
  assumes "coordinator_state env pre s" and "loop_guard s"
  shows "sched_do env ActDispatch s \<noteq> None \<or> (\<forall>r. sched_do env (ActComplete 0 r) s \<noteq> None)"
  by (rule loop_progress [OF coordinator_inv(1) [OF assms(1)] assms(2)])

lemma loop_never_stuck_witness:
  "sched_do sample_env (ActComplete 0 (Inr sample_result)) sample_b_running \<noteq> None"
proof -
  have guard: "loop_guard sample_b_running" by code_simp
  have "ss_ready sample_b_running = []" by code_simp
  then have "sched_do sample_env ActDispatch sample_b_running = None" by simp
  moreover have "coordinator_state sample_env [] sample_b_running"
    by (rule sample_coordinator) simp
  ultimately show ?thesis using loop_never_stuck [OF _ guard] by metis
qed

text \<open>A workflow whose graph has no cycle and whose fallback targets feed no other node is
  resolved completely; \<open>ValidRun\<close> states this for the workflows that pass validation.\<close>

lemma acyclic_run_complete:
  assumes "coordinator_state env pre s" and "\<not> loop_guard s" and "\<not> ss_halted s"
    and "acyclic (graph_rel (se_wf env))" and "dedicated (se_wf env)"
    and "set order = wf_ids (se_wf env)" and "run_finish env order s = (s', r, e)"
  shows "e = None \<and>
    (\<forall>i\<in>wf_ids (se_wf env). \<exists>c. rr_nodes r i = Some c \<and> terminal (no_state c))"
proof -
  note core = coordinator_core [OF assms(1)]
  note fin = run_finish_parts [OF assms(7)]
  let ?f = "finalize_nodes env s"
  have resolved: "terminal (state_of ?f i)" if i: "i \<in> wf_ids (se_wf env)" for i
  proof (cases "i \<in> set (fallback_targets (se_wf env))")
    case True
    have "state_of s i \<noteq> StateRunning"
      using core_invD(6) [OF core] done_not_held [OF coordinator_inv(1) [OF assms(1)] assms(2,3)]
      by (auto simp: tasks_ok_def)
    with True nodes_by_id_lookup [OF core i] show ?thesis
      by (cases "state_of s i") (simp_all add: finalize_state)
  next
    case False
    from acyclic_resolved [OF coordinator_inv(1) [OF assms(1)] coordinator_inv(2) [OF assms(1)]
        assms(2,3,4,5) i False] False
    show ?thesis by (simp add: finalize_state)
  qed
  have "ss_halt_err ?f = None"
    using core_invD(14) [OF core] assms(3) by (simp add: finalize_frame halt_ok_def)
  from final_state_clean(2) [OF this fin(2)]
  have e: "e = snd (scan_states ?f order ExecutionSucceeded None)" .
  have "\<forall>i\<in>set order. state_of ?f i \<noteq> StatePending"
  proof
    fix i assume "i \<in> set order"
    with resolved [of i] assms(6) show "state_of ?f i \<noteq> StatePending" by auto
  qed
  with scan_states_result(2) [of None ?f order ExecutionSucceeded] e have "e = None" by simp
  moreover have "\<exists>c. rr_nodes r i = Some c \<and> terminal (no_state c)"
    if i: "i \<in> wf_ids (se_wf env)" for i
    using finalize_outcomes [OF core i] resolved [OF i] unfolding fin(1) by auto
  ultimately show ?thesis by simp
qed

lemma sample_graph:
  "acyclic (graph_rel sample_wf)" "dedicated sample_wf" "wf_ids sample_wf = {''a'', ''b''}"
proof -
  have g: "graph_rel sample_wf = {(''a'', ''b'')}"
  proof -
    have "live_edges sample_wf = wf_edges sample_wf" by code_simp
    then show ?thesis by (simp add: graph_rel_def sample_wf_def)
  qed
  have "wf (graph_rel sample_wf)" unfolding g by (simp add: wf_insert)
  then show "acyclic (graph_rel sample_wf)" by (rule wf_acyclic)
  show "dedicated sample_wf" by (simp add: dedicated_def fallback_targets_def sample_wf_def sample_node_def)
  show "wf_ids sample_wf = {''a'', ''b''}" by (simp add: wf_ids_def sample_wf_def sample_node_def)
qed

text \<open>C12. The result tells the truth: every node of the workflow is reported with the state it
  has at the end, and the run is reported as succeeded exactly when it returns no error and
  every node ended succeeded or skipped.\<close>

theorem result_truthful:
  assumes "coordinator_state env pre s" and "\<not> loop_guard s"
    and "set order = wf_ids (se_wf env)" and "run_finish env order s = (s', r, e)"
  shows "(\<forall>i\<in>wf_ids (se_wf env). \<exists>c. rr_nodes r i = Some c \<and>
            no_state c = state_of (finalize_nodes env s) i) \<and>
         (rr_state r = ExecutionSucceeded \<longleftrightarrow>
            e = None \<and> (\<forall>i\<in>wf_ids (se_wf env). \<exists>c. rr_nodes r i = Some c \<and>
              (no_state c = StateSucceeded \<or> no_state c = StateSkipped)))"
proof -
  note core = coordinator_core [OF assms(1)]
  note fin = run_finish_parts [OF assms(4)]
  let ?f = "finalize_nodes env s"
  have oc: "\<exists>c. rr_nodes r i = Some c \<and> no_state c = state_of ?f i"
    if i: "i \<in> wf_ids (se_wf env)" for i
    using finalize_outcomes [OF core i] fin(1) by simp
  have "rr_state r = ExecutionSucceeded \<longleftrightarrow> e = None \<and>
      (\<forall>i\<in>wf_ids (se_wf env). state_of ?f i = StateSucceeded \<or> state_of ?f i = StateSkipped)"
  proof (cases "ss_halt_err ?f")
    case (Some x)
    from final_state_halted(1,2) [OF this fin(2)] show ?thesis by simp
  next
    case None
    note r = final_state_clean [OF None fin(2)]
    have nh: "\<not> ss_halted s"
      using core_invD(14) [OF core] None by (simp add: finalize_frame halt_ok_def)
    have "state_of ?f i \<noteq> StateRunning \<and> state_of ?f i \<noteq> StateUnset"
      if i: "i \<in> wf_ids (se_wf env)" for i
    proof -
      have "state_of s i \<noteq> StateRunning"
        using core_invD(6) [OF core] done_not_held [OF coordinator_inv(1) [OF assms(1)] assms(2) nh]
        by (auto simp: tasks_ok_def)
      with nodes_by_id_lookup [OF core i] show ?thesis by (simp add: finalize_state)
    qed
    then have ended: "(state_of ?f i = StateSucceeded \<or> state_of ?f i = StateSkipped) \<longleftrightarrow>
        \<not> (state_of ?f i = StatePending \<or> state_of ?f i = StateFailed)"
      if "i \<in> wf_ids (se_wf env)" for i
      using that by (cases "state_of ?f i") auto
    have "rr_state r = ExecutionSucceeded \<longleftrightarrow>
        (\<forall>i\<in>wf_ids (se_wf env). \<not> (state_of ?f i = StatePending \<or> state_of ?f i = StateFailed))"
      unfolding r(1) scan_states_result(1) assms(3) by auto
    moreover have "e = None" if "\<forall>i\<in>wf_ids (se_wf env). \<not> state_of ?f i = StatePending"
      using that scan_states_result(2) [of None ?f order ExecutionSucceeded] r(2) assms(3) by simp
    ultimately show ?thesis using ended by blast
  qed
  moreover have "(state_of ?f i = StateSucceeded \<or> state_of ?f i = StateSkipped) \<longleftrightarrow>
      (\<exists>c. rr_nodes r i = Some c \<and> (no_state c = StateSucceeded \<or> no_state c = StateSkipped))"
    if i: "i \<in> wf_ids (se_wf env)" for i
    using oc [OF i] by auto
  ultimately show ?thesis using oc by simp
qed

lemma result_truthful_witness:
  "snd (snd (run_finish sample_env [''a'', ''b''] sample_done)) = None"
proof -
  have "\<not> loop_guard sample_done" by code_simp
  moreover have "rr_state (fst (snd (run_finish sample_env [''a'', ''b''] sample_done))) =
      ExecutionSucceeded" by code_simp
  ultimately show ?thesis
    using result_truthful [OF sample_coordinator, of "[]" _ "[''a'', ''b'']"] sample_graph
    by (cases "run_finish sample_env [''a'', ''b''] sample_done") (simp add: sample_env_def)
qed

text \<open>Skipping is decided by the graph alone: at any moment a node that was executed (it is
  running, failed, or succeeded without being precompleted) has only active incoming edges,
  and a skipped node has an incoming edge that will never be active.\<close>

theorem execution_decision:
  assumes "coordinator_state env pre s" and "i \<in> wf_ids (se_wf env)" and "map_of pre i = None"
  shows "(state_of s i \<in> {StateRunning, StateSucceeded, StateFailed} \<longrightarrow>
            admitted env (state_of s) (output_of s) i) \<and>
         (state_of s i = StateSkipped \<longrightarrow> rejected env (state_of s) (output_of s) i)"
proof -
  note c = core_invD [OF coordinator_core [OF assms(1)]]
  have "i \<notin> pre_ids (se_wf env) pre" using assms(3) by (simp add: pre_ids_def)
  with c(9) have "ss_inputs_used s i \<noteq> None"
    if "state_of s i \<in> {StateRunning, StateSucceeded, StateFailed}"
    using that by (auto simp: ran_ok_def)
  with c(8,10) show ?thesis by (auto simp: used_ok_def skip_ok_def)
qed

lemma execution_decision_witness:
  "admitted sample_env (state_of sample_done) (output_of sample_done) ''b''"
proof -
  have "state_of sample_done ''b'' = StateSucceeded" by code_simp
  moreover have "''b'' \<in> wf_ids (se_wf sample_env)" using sample_graph by (simp add: sample_env_def)
  ultimately show ?thesis using execution_decision [OF sample_coordinator, of "[]" "''b''"] by simp
qed

text \<open>C13. Once the run has halted no further node is dispatched, and the first cause stays: later
  errors, completions and cancellations do not replace the error the run returns.\<close>

theorem halt_is_final:
  assumes "coordinator_state env pre s" and "ss_halted s" and "sched_reach env s s'"
  shows "set (ss_running s') \<subseteq> set (ss_running s) \<and> ss_halted s' \<and>
         ss_halt_err s' = ss_halt_err s \<and> ss_halt_err s' \<noteq> None"
proof -
  have "ss_halt_err s \<noteq> None"
    using core_invD(14) [OF coordinator_core [OF assms(1)]] assms(2) by (simp add: halt_ok_def)
  with halted_reach_running [OF assms(3) coordinator_inv(1) [OF assms(1)] assms(2)]
  show ?thesis by simp
qed

abbreviation sample_failed :: sched where
  "sample_failed \<equiv> sample_state [] [ActDispatch, ActComplete 0 (Inl (EMsg ''boom''))]"

lemma halt_is_final_witness: "ss_running sample_failed = [] \<and> ss_halt_err sample_failed \<noteq> None"
proof -
  have "ss_halted sample_failed" by code_simp
  from halt_is_final [OF sample_coordinator this, of "sample_failed"]
  have "ss_halt_err sample_failed \<noteq> None" by simp
  moreover have "ss_running sample_failed = []" by code_simp
  ultimately show ?thesis by simp
qed

text \<open>C14. A run logs at most one \<open>Cancelled\<close> event, and it does so exactly when it is reported
  as cancelled, whichever path saw the cancellation first; the last event of the run is
  its only \<open>ExecutionFinished\<close>, with the state of the result.\<close>

theorem cancelled_exactly_once:
  assumes "run_begin env ws pre fresh now parent = Inr s0" and "start_ok env pre"
    and "sched_reach env s0 s" and "plain_errors (se_unmarshal env)"
    and "\<And>e. parent = Some e \<Longrightarrow> cancel_err e"
    and "run_finish env order s = (s', r, e)"
  shows "cancelled_events (ss_log s') = (if rr_state r = ExecutionCancelled then 1 else 0) \<and>
    (\<exists>ev. ss_log s' = ss_log s @ [ev] \<and> ev_type ev = ExecutionFinished \<and>
       ev_payload ev = [(''state'', JStr (execution_state_str (rr_state r)))] \<and>
       (\<forall>x\<in>set (ss_log s). ev_type x \<noteq> ExecutionFinished))"
proof -
  note fin = run_finish_parts [OF assms(6)]
  have cause: "cause_ok s"
    by (rule cause_ok_reach [OF assms(3) cause_ok_start [OF assms(1,4,5)] assms(4)])
  have "sched_inv env (pre_ids (se_wf env) pre) (pre_output pre) s"
    using sched_reach_inv [OF assms(3)] run_begin_inv [OF assms(1,2)] by blast
  then have "halt_ok s" unfolding sched_inv_def using core_invD(14) by blast
  then have fe: "\<forall>x\<in>set (ss_log s). ev_type x \<noteq> ExecutionFinished" by (simp add: halt_ok_def)
  have "cancelled_events (ss_log s) = (if rr_state r = ExecutionCancelled then 1 else 0)"
  proof (cases "ss_halt_err s")
    case None
    then have "rr_state r \<noteq> ExecutionCancelled"
      using final_state_clean(1) [OF _ fin(2)] by (simp add: finalize_frame scan_states_result(1))
    with None cause show ?thesis by (simp add: cause_ok_def)
  next
    case (Some x)
    have "rr_state r = ExecutionCancelled \<longleftrightarrow> cancel_err x"
      using final_state_halted(4) [OF _ fin(2), of x] Some not_cancel_err [of ErrApprovalRequired x]
        not_cancel_err [of ErrBudgetExceeded x] by (auto simp: finalize_frame)
    with Some cause show ?thesis by (simp add: cause_ok_def)
  qed
  then show ?thesis using fin(3) fe by (simp add: cancelled_events_def)
qed

lemma sample_plain: "plain_errors (se_unmarshal sample_env)"
  by (simp add: plain_errors_def sample_env_def cancel_err_def)

abbreviation sample_cancelled :: sched where
  "sample_cancelled \<equiv> sample_state [] [ActDispatch, ActParentCancel CtxCanceled,
        ActComplete 0 (Inl (ESentinel CtxCanceled))]"

lemma cancelled_exactly_once_witness:
  "cancelled_events (ss_log (fst (run_finish sample_env [''a'', ''b''] sample_cancelled))) = 1"
proof -
  let ?acts = "[ActDispatch, ActParentCancel CtxCanceled,
        ActComplete 0 (Inl (ESentinel CtxCanceled))]"
  let ?f = "run_finish sample_env [''a'', ''b''] sample_cancelled"
  have "sched_run sample_env ?acts (sample_start []) \<noteq> None" by code_simp
  then have reach: "sched_reach sample_env (sample_start []) sample_cancelled"
    using sched_run_reach [of sample_env ?acts] by (auto simp: sample_state_def split: option.splits)
  obtain s' r e where f: "?f = (s', r, e)" by (metis prod_cases3)
  have "rr_state (fst (snd ?f)) = ExecutionCancelled" by code_simp
  with cancelled_exactly_once [OF sample_begin sample_start_ok reach sample_plain _ f]
  show ?thesis by (simp add: f)
qed

text \<open>C15. While a run goes on, what it has spent is below every cost and token limit of its
  budget: the completion that reaches a limit halts the run.\<close>

theorem running_within_budget:
  assumes "coordinator_state env pre s" and "\<not> ss_halted s"
  shows "(0 < max_cost_usd (ro_budget (se_opts env)) \<longrightarrow>
            bt_cost (ss_budget s) < max_cost_usd (ro_budget (se_opts env))) \<and>
         (0 < max_tokens (ro_budget (se_opts env)) \<longrightarrow>
            bt_tokens (ss_budget s) < max_tokens (ro_budget (se_opts env)))"
  using coordinator_spend [OF assms(1)] assms(2) by (simp add: spend_ok_def)

lemma running_within_budget_witness:
  "bt_cost (ss_budget sample_b_running) < 1 \<and>
   ss_halted (sample_state [] [ActDispatch, ActComplete 0 (Inr (sample_result\<lparr>nr_cost := 1\<rparr>))])"
proof -
  have "\<not> ss_halted sample_b_running" by code_simp
  from running_within_budget [OF sample_coordinator this]
  have "bt_cost (ss_budget sample_b_running) < 1"
    by (simp add: sample_env_def sample_opts_def sample_wf_def)
  moreover have
    "ss_halted (sample_state [] [ActDispatch, ActComplete 0 (Inr (sample_result\<lparr>nr_cost := 1\<rparr>))])"
    by code_simp
  ultimately show ?thesis ..
qed



end
