(* ===== verification/ValidRun.thy ===== *)
theory ValidRun
  imports Graph SchedulerTheorems
begin

text \<open>
  Validation and the scheduler together: what \<open>core/validate/graph.go\<close> accepts is what the
  completeness of a run needs.
\<close>

lemma graph_rel_wf_rel: "graph_rel w \<subseteq> wf_rel w"
  by (auto simp: graph_rel_def wf_rel_def live_edges_def)



end
