(* ===== verification/RetryLoop.thy ===== *)
theory RetryLoop
  imports GoErr
begin

text \<open>
  \<open>core/engine/retry.go\<close>: the classification of executor errors, the exponential
  backoff and the retry loop with its two independent counters. The loop is a
  \<^theory_text>\<open>partial_function (option)\<close> over the state of whatever it calls: \<open>None\<close>
  is a loop that does not return, and \<open>with_retry_returns\<close> shows when it does.
\<close>

section \<open>Classification\<close>

datatype error_class = ClassFatal | ClassTransient | ClassContractViolation

fun as_contract :: "err \<Rightarrow> (string \<times> int) option" where
  "as_contract (EContract e f n) = Some (f, n)"
| "as_contract _ = None"

fun as_transient :: "err \<Rightarrow> err option" where
  "as_transient (ETransient e) = Some e"
| "as_transient _ = None"

definition classify :: "err \<Rightarrow> error_class" where
  "classify e =
     (case as_err as_contract e of
        Some _ \<Rightarrow> ClassContractViolation
      | None \<Rightarrow> (case as_err as_transient e of Some _ \<Rightarrow> ClassTransient | None \<Rightarrow> ClassFatal))"

definition is_contract_violation :: "err \<Rightarrow> bool" where
  "is_contract_violation e \<longleftrightarrow> as_err as_contract e \<noteq> None"

text \<open>\<open>retryAfterOf\<close>: the first error of the chain that has a \<open>RetryAfterHint\<close> supplies it.\<close>

fun as_retry_hint :: "err \<Rightarrow> (int \<times> bool) option" where
  "as_retry_hint (EProvTransient e d h) = Some (d, h)"
| "as_retry_hint _ = None"

definition retry_after_of :: "err \<Rightarrow> int \<times> bool" where
  "retry_after_of e = (case as_err as_retry_hint e of Some r \<Rightarrow> r | None \<Rightarrow> (0, False))"

section \<open>Backoff\<close>

fun backoff_loop :: "nat \<Rightarrow> int \<Rightarrow> int \<Rightarrow> int" where
  "backoff_loop 0 d mx = d"
| "backoff_loop (Suc k) d mx =
     (let d' = wrap64 (d * 2) in if mx \<le> d' then mx else backoff_loop k d' mx)"

definition exponential_backoff :: "int \<Rightarrow> int \<Rightarrow> int \<Rightarrow> int" where
  "exponential_backoff base mx attempt =
     (if base \<le> 0 then 0 else backoff_loop (nat (attempt - 1)) base mx)"

section \<open>The loop\<close>

text \<open>
  What the loop is given: the transient bound, the backoff, one attempt, the retry
  callback, the interruptible sleep and \<open>ctx.Err()\<close>, over a state \<^typ>\<open>'s\<close>.
\<close>

record 's retry_env =
  re_max_transient :: int
  re_backoff :: "int \<Rightarrow> int"
  re_attempt :: "'s \<Rightarrow> 's \<times> err option"
  re_on_retry :: "int \<Rightarrow> err \<Rightarrow> 's \<Rightarrow> 's"
  re_sleep :: "int \<Rightarrow> 's \<Rightarrow> 's \<times> bool"
  re_ctx_err :: "'s \<Rightarrow> err option"

text \<open>The class-specific bound: \<open>None\<close> gives the error up, \<open>Some\<close> are the new counters.\<close>

definition retry_decide :: "int \<Rightarrow> int \<Rightarrow> int \<Rightarrow> err \<Rightarrow> (int \<times> int) option" where
  "retry_decide max_transient tn cn e =
     (case classify e of
        ClassFatal \<Rightarrow> None
      | ClassTransient \<Rightarrow> if max_transient \<le> tn then None else Some (tn + 1, cn)
      | ClassContractViolation \<Rightarrow>
          (case as_err as_contract e of
             Some (_, mr) \<Rightarrow> if mr \<le> cn then None else Some (tn, cn + 1)
           | None \<Rightarrow> None))"

text \<open>Between two attempts: the callback, the sleep, the context check. \<open>Some r\<close> means the
  loop returns \<open>r\<close> here.\<close>

definition retry_pause ::
  "'s retry_env \<Rightarrow> int \<Rightarrow> err \<Rightarrow> 's \<Rightarrow> 's \<times> err option option" where
  "retry_pause env attempt e s =
     (let s1 = re_on_retry env attempt e s;
          d = re_backoff env attempt;
          d = (case retry_after_of e of (hint, ok) \<Rightarrow> if ok \<and> d < hint then hint else d);
          (s2, slept) = (if 0 < d then re_sleep env d s1 else (s1, True))
      in if \<not> slept then (s2, Some (re_ctx_err env s2))
         else if re_ctx_err env s2 \<noteq> None then (s2, Some (re_ctx_err env s2))
         else (s2, None))"

partial_function (option) with_retry ::
  "'s retry_env \<Rightarrow> int \<Rightarrow> int \<Rightarrow> 's \<Rightarrow> ('s \<times> err option) option" where
  "with_retry env tn cn s =
     (case re_attempt env s of
        (s1, None) \<Rightarrow> Some (s1, None)
      | (s1, Some e) \<Rightarrow>
          (case retry_decide (re_max_transient env) tn cn e of
             None \<Rightarrow> Some (s1, Some e)
           | Some (tn', cn') \<Rightarrow>
               (case retry_pause env (tn' + cn') e s1 of
                  (s2, Some r) \<Rightarrow> Some (s2, r)
                | (s2, None) \<Rightarrow> with_retry env tn' cn' s2)))"

section \<open>Lemmas: classification and backoff\<close>

lemma classify_wrappers [simp]:
  "classify (EFatal e) = classify e"
  "classify (EDiag d e) = classify e"
  "classify (EWrap m e) = classify e"
  "classify (EContract e f n) = ClassContractViolation"
  "classify (EMsg m) = ClassFatal"
  "classify (ESentinel s) = ClassFatal"
  "classify (EApprovalRequired c i t mu) = ClassFatal"
  "classify (EApprovalRejected c i t) = ClassFatal"
  by (auto simp: classify_def split: option.splits)

lemma classify_transient [simp]:
  "classify (ETransient e) =
     (if as_err as_contract e = None then ClassTransient else ClassContractViolation)"
  by (auto simp: classify_def split: option.splits)

lemma classify_contract_iff: "classify e = ClassContractViolation \<longleftrightarrow> is_contract_violation e"
  by (auto simp: classify_def is_contract_violation_def split: option.splits)

lemma backoff_loop_closed:
  assumes "0 < d" and "d \<le> mx" and "mx < 2 ^ 62"
  shows "backoff_loop k d mx = min mx (d * 2 ^ k)"
  using assms
proof (induction k arbitrary: d)
  case (Suc k)
  have w: "wrap64 (d * 2) = d * 2"
    using Suc.prems by (intro wrap64_id) (simp add: int64_range_def)
  show ?case
  proof (cases "mx \<le> d * 2")
    case True
    have "d * 2 * 1 \<le> d * 2 * 2 ^ k"
      using Suc.prems(1) by (intro mult_left_mono) auto
    with True w show ?thesis by (simp add: Let_def min_def)
  next
    case False
    with w have "backoff_loop (Suc k) d mx = backoff_loop k (d * 2) mx"
      by (simp add: Let_def)
    also have "\<dots> = min mx (d * 2 * 2 ^ k)"
      using Suc.prems False by (intro Suc.IH) auto
    finally show ?thesis by (simp add: mult.assoc)
  qed
qed simp

section \<open>Lemmas: the loop\<close>

text \<open>A Hoare rule: an invariant for the states an attempt starts in, a property of the
  states a failed attempt leaves.\<close>

lemma with_retry_rule:
  assumes ret: "with_retry env tn cn s = Some (s', r)"
    and start: "I s"
    and ok: "\<And>s s1. I s \<Longrightarrow> re_attempt env s = (s1, None) \<Longrightarrow> Q s1 None"
    and bad: "\<And>s s1 e. I s \<Longrightarrow> re_attempt env s = (s1, Some e) \<Longrightarrow> A s1 e"
    and give_up: "\<And>s e. A s e \<Longrightarrow> Q s (Some e)"
    and pause: "\<And>s e n s2. A s e \<Longrightarrow> retry_pause env n e s = (s2, None) \<Longrightarrow> I s2"
    and stop: "\<And>s e n s2 r. A s e \<Longrightarrow> retry_pause env n e s = (s2, Some r) \<Longrightarrow> Q s2 r"
  shows "Q s' r"
proof -
  have "\<forall>s' r. res = (s', r) \<longrightarrow> env' = env \<longrightarrow> I s \<longrightarrow> Q s' r"
    if "with_retry env' tn cn s = Some res" for env' res tn cn s
  proof (rule with_retry.raw_induct
      [where P = "\<lambda>env' tn cn s res. \<forall>s' r. res = (s', r) \<longrightarrow> env' = env \<longrightarrow> I s \<longrightarrow> Q s' r",
       OF _ that])
    fix f env' tn cn s res
    assume IH: "\<And>env' tn cn s res. f env' tn cn s = Some res \<Longrightarrow>
        \<forall>s' r. res = (s', r) \<longrightarrow> env' = env \<longrightarrow> I s \<longrightarrow> Q s' r"
      and eq: "(case re_attempt env' s of
        (s1, None) \<Rightarrow> Some (s1, None)
      | (s1, Some e) \<Rightarrow>
          (case retry_decide (re_max_transient env') tn cn e of
             None \<Rightarrow> Some (s1, Some e)
           | Some (tn', cn') \<Rightarrow>
               (case retry_pause env' (tn' + cn') e s1 of
                  (s2, Some r) \<Rightarrow> Some (s2, r)
                | (s2, None) \<Rightarrow> f env' tn' cn' s2))) = Some res"
    show "\<forall>s' r. res = (s', r) \<longrightarrow> env' = env \<longrightarrow> I s \<longrightarrow> Q s' r"
    proof (intro allI impI)
      fix s' r
      assume res: "res = (s', r)" and env: "env' = env" and inv: "I s"
      obtain s1 ro where at: "re_attempt env s = (s1, ro)" by fastforce
      show "Q s' r"
      proof (cases ro)
        case None
        with eq at env res inv show ?thesis by (auto intro: ok)
      next
        case (Some e)
        with at inv have A: "A s1 e" by (auto intro: bad)
        show ?thesis
        proof (cases "retry_decide (re_max_transient env) tn cn e")
          case None
          with eq at env res Some A show ?thesis by (auto intro: give_up)
        next
          case d: (Some p)
          obtain s2 r2 where pz: "retry_pause env (fst p + snd p) e s1 = (s2, r2)" by fastforce
          show ?thesis
          proof (cases r2)
            case None
            with pz A have "I s2" by (auto intro: pause)
            moreover from eq at env Some d pz None have "f env' (fst p) (snd p) s2 = Some res"
              by (auto split: prod.splits)
            ultimately show ?thesis using IH env res by blast
          next
            case r3: (Some r3)
            with eq at env Some d pz res have "s' = s2" "r = r3" by (auto split: prod.splits)
            with pz r3 A show ?thesis by (auto intro: stop)
          qed
        qed
      qed
    qed
  qed
  with ret start show ?thesis by blast
qed

text \<open>The loop returns when the contract bound the executor reports is bounded, and makes at
  most one attempt more than the two budgets have left.\<close>

lemma retry_decide_Some:
  assumes "retry_decide mt tn cn e = Some (tn', cn')"
  shows "(tn' = tn + 1 \<and> cn' = cn \<and> tn < mt) \<or>
         (tn' = tn \<and> cn' = cn + 1 \<and> (\<exists>f mr. as_err as_contract e = Some (f, mr) \<and> cn < mr))"
  using assms by (auto simp: retry_decide_def split: error_class.splits option.splits if_splits)

lemma with_retry_bounded:
  assumes mr: "\<And>s s1 e f n. re_attempt env s = (s1, Some e) \<Longrightarrow>
      as_err as_contract e = Some (f, n) \<Longrightarrow> n \<le> M"
    and tick: "\<And>s s1 r. re_attempt env s = (s1, r) \<Longrightarrow> cnt s1 = Suc (cnt s)"
    and quiet: "\<And>n e s s2 r. retry_pause env n e s = (s2, r) \<Longrightarrow> cnt s2 = cnt s"
  shows "\<exists>s' r. with_retry env tn cn s = Some (s', r) \<and>
     cnt s < cnt s' \<and>
     cnt s' \<le> cnt s + 1 + nat (re_max_transient env - tn) + nat (M - cn)"
proof (induction "nat (re_max_transient env - tn) + nat (M - cn)" arbitrary: tn cn s
    rule: less_induct)
  case less
  obtain s1 r where at: "re_attempt env s = (s1, r)" by fastforce
  have c1: "cnt s1 = Suc (cnt s)" by (rule tick [OF at])
  show ?case
  proof (cases r)
    case None
    with at c1 show ?thesis by (subst with_retry.simps) simp
  next
    case (Some e)
    show ?thesis
    proof (cases "retry_decide (re_max_transient env) tn cn e")
      case None
      with at Some c1 show ?thesis by (subst with_retry.simps) simp
    next
      case d: (Some p)
      obtain tn' cn' where p: "p = (tn', cn')" by (cases p)
      obtain s2 r2 where pz: "retry_pause env (tn' + cn') e s1 = (s2, r2)" by fastforce
      have c2: "cnt s2 = Suc (cnt s)" using quiet [OF pz] c1 by simp
      have dec: "nat (re_max_transient env - tn') + nat (M - cn') + 1
          \<le> nat (re_max_transient env - tn) + nat (M - cn)"
        using retry_decide_Some [OF d [unfolded p]] mr [OF at [unfolded Some]] by fastforce
      show ?thesis
      proof (cases r2)
        case None
        from dec have "nat (re_max_transient env - tn') + nat (M - cn')
            < nat (re_max_transient env - tn) + nat (M - cn)" by simp
        from less [OF this, of s2] obtain s' r' where
          "with_retry env tn' cn' s2 = Some (s', r')" "cnt s2 < cnt s'"
          "cnt s' \<le> cnt s2 + 1 + nat (re_max_transient env - tn') + nat (M - cn')"
          by blast
        with at Some d p pz None c2 dec show ?thesis
          by (subst with_retry.simps) simp
      next
        case (Some r3)
        with at \<open>r = Some e\<close> d p pz c2 show ?thesis
          by (subst with_retry.simps) simp
      qed
    qed
  qed
qed

end
