(* ===== verification/ContextPolicy.thy ===== *)
theory ContextPolicy
  imports GoErr
begin

text \<open>
  \<open>core/policy/resolver.go\<close>: the slice of upstream artifacts a Worker may see.
\<close>

record item =
  it_from :: string
  it_type :: artifact_type
  it_hash :: string
  it_content :: bytes

definition resolve_policy :: "context_policy \<Rightarrow> item list \<Rightarrow> err + item list" where
  "resolve_policy p available =
     (case cp_mode p of
        ContextUnset \<Rightarrow> Inr available
      | ContextParentOnly \<Rightarrow> Inr available
      | ContextFull \<Rightarrow> Inr available
      | ContextNone \<Rightarrow> Inr []
      | ContextDiffOnly \<Rightarrow> Inr (filter (\<lambda>it. it_type it = ArtifactDiff) available)
      | ContextArtifacts \<Rightarrow>
          (let allowed = (case cp_params p of None \<Rightarrow> [] | Some ids \<Rightarrow> ids)
           in Inr (filter (\<lambda>it. it_from it \<in> set allowed) available))
      | ContextSummary \<Rightarrow>
          Inl (EMsg (''policy: context mode '' @ quote (context_mode_str (cp_mode p)) @
                 '' is not yet supported''))
      | ContextOther s \<Rightarrow>
          Inl (EMsg (''policy: unknown context mode '' @ quote s)))"

definition item_hashes :: "item list \<Rightarrow> string list" where
  "item_hashes items = map it_hash items"

lemma resolve_policy_subseq: "resolve_policy p av = Inr adm \<Longrightarrow> subseq adm av"
  by (auto simp: resolve_policy_def Let_def split: context_mode.splits)

lemma resolve_policy_subset: "resolve_policy p av = Inr adm \<Longrightarrow> set adm \<subseteq> set av"
  by (auto simp: resolve_policy_def Let_def split: context_mode.splits)

lemma resolve_policy_error_iff:
  "(\<exists>e. resolve_policy p av = Inl e) \<longleftrightarrow>
     cp_mode p = ContextSummary \<or> (\<exists>s. cp_mode p = ContextOther s)"
  by (auto simp: resolve_policy_def Let_def split: context_mode.splits)

lemma resolve_policy_admits:
  assumes "resolve_policy p av = Inr adm" and "it \<in> set av"
  shows "it \<in> set adm \<longleftrightarrow>
     (case cp_mode p of
        ContextNone \<Rightarrow> False
      | ContextDiffOnly \<Rightarrow> it_type it = ArtifactDiff
      | ContextArtifacts \<Rightarrow>
          (case cp_params p of None \<Rightarrow> False | Some ids \<Rightarrow> it_from it \<in> set ids)
      | _ \<Rightarrow> True)"
  using assms by (auto simp: resolve_policy_def Let_def split: context_mode.splits option.splits)

end
