(* ===== verification/EventLog.thy ===== *)
theory EventLog
  imports GoErr
begin

text \<open>
  \<open>core/eventlog\<close>: the append-only event file of an execution, its hash chain and the
  frozen snapshot. A log is, per execution, the bytes of \<open>events.jsonl\<close> and of
  \<open>snapshot.json\<close> (\<open>None\<close>: no such file) and the cached chain head \<open>lastCh\<close>. The
  arguments \<open>H\<close>, \<open>enc\<close> and \<open>dec\<close> are SHA-256 in hex (\<open>canonical.HashBytes\<close>),
  \<open>json.Marshal\<close> and \<open>json.Unmarshal\<close> of an event; \<open>event_codec\<close> names the documented
  behaviour of the two that the theorems use. File operations other than opening a
  missing file are taken to succeed; the mutex is the atomicity of an operation.
\<close>

section \<open>Lines of a file\<close>

definition newline :: char where
  "newline = CHR 0x0A"

definition max_line :: nat where
  "max_line = 16 * 1024 * 1024"

text \<open>The tokens of \<open>bufio.ScanLines\<close>: no final empty line, one trailing carriage return cut.\<close>

fun split_lines :: "bytes \<Rightarrow> bytes list" where
  "split_lines [] = []"
| "split_lines (c # s) =
     (if c = newline then [] # split_lines s
      else case split_lines s of
        [] \<Rightarrow> [[c]]
      | x # xs \<Rightarrow> (c # x) # xs)"

definition drop_cr :: "bytes \<Rightarrow> bytes" where
  "drop_cr l = (if l \<noteq> [] \<and> last l = CHR 0x0D then butlast l else l)"

text \<open>A scan yields its tokens up to the first that does not fit the buffer, and whether
  there was one (\<open>bufio.ErrTooLong\<close>).\<close>

definition scan_tokens :: "bytes \<Rightarrow> bytes list \<times> bool" where
  "scan_tokens s =
     (map drop_cr (takeWhile (\<lambda>l. length l < max_line) (split_lines s)),
      \<exists>l\<in>set (split_lines s). max_line \<le> length l)"

definition err_too_long :: err where
  "err_too_long = EMsg ''bufio.Scanner: token too long''"

text \<open>Every loop over the scanner trims a token and skips it when nothing is left.\<close>

definition scan_raw :: "bytes \<Rightarrow> bytes list \<times> bool" where
  "scan_raw s = (case scan_tokens s of (toks, e) \<Rightarrow> (filter (\<lambda>r. r \<noteq> []) (map trim_space toks), e))"

section \<open>The log\<close>

record log_state =
  lg_base :: string
  lg_events :: "string \<Rightarrow> bytes option"
  lg_snapshot :: "string \<Rightarrow> bytes option"
  lg_last :: "string \<Rightarrow> string option"

datatype log_error =
    LogErr err
  | ChainError string int string string

definition new_log :: "string \<Rightarrow> log_state" where
  "new_log base = \<lparr>lg_base = base, lg_events = Map.empty, lg_snapshot = Map.empty,
     lg_last = Map.empty\<rparr>"

definition genesis_hash :: string where
  "genesis_hash = ''''"

definition log_dir :: "log_state \<Rightarrow> string \<Rightarrow> string" where
  "log_dir lg i = lg_base lg @ ''/executions/'' @ i"

definition events_path :: "log_state \<Rightarrow> string \<Rightarrow> string" where
  "events_path lg i = log_dir lg i @ ''/events.jsonl''"

definition snapshot_hash :: "(bytes \<Rightarrow> string) \<Rightarrow> log_state \<Rightarrow> string \<Rightarrow> string" where
  "snapshot_hash H lg i = (case lg_snapshot lg i of None \<Rightarrow> genesis_hash | Some d \<Rightarrow> H d)"

definition head_hash :: "(bytes \<Rightarrow> string) \<Rightarrow> log_state \<Rightarrow> string \<Rightarrow> err + string" where
  "head_hash H lg i =
     (case lg_last lg i of
        Some h \<Rightarrow> Inr h
      | None \<Rightarrow>
          (case lg_events lg i of
             None \<Rightarrow> Inr (snapshot_hash H lg i)
           | Some content \<Rightarrow>
               (case scan_raw content of
                  (raws, True) \<Rightarrow>
                    Inl (errorf ''eventlog: scan log for chain head: '' err_too_long '''')
                | (raws, False) \<Rightarrow>
                    Inr (if raws = [] then snapshot_hash H lg i else H (last raws)))))"

definition log_append ::
  "(bytes \<Rightarrow> string) \<Rightarrow> (event \<Rightarrow> err + bytes) \<Rightarrow> string \<Rightarrow> event \<Rightarrow> log_state \<Rightarrow>
   log_state \<times> err option" where
  "log_append H enc i ev lg =
     (case head_hash H lg i of
        Inl e \<Rightarrow> (lg, Some e)
      | Inr prev \<Rightarrow>
          (case enc (ev\<lparr>ev_prev := prev\<rparr>) of
             Inl e \<Rightarrow> (lg, Some (errorf ''eventlog: marshal event: '' e ''''))
           | Inr line \<Rightarrow>
               let old = (case lg_events lg i of None \<Rightarrow> [] | Some c \<Rightarrow> c)
               in (lg\<lparr>lg_events := (lg_events lg)(i \<mapsto> old @ line @ [newline]),
                      lg_last := (lg_last lg)(i \<mapsto> H line)\<rparr>, None)))"

fun decode_lines ::
  "(bytes \<Rightarrow> err + event) \<Rightarrow> string \<Rightarrow> int \<Rightarrow> bytes list \<Rightarrow> err + event list" where
  "decode_lines dec path n [] = Inr []"
| "decode_lines dec path n (tok # toks) =
     (let raw = trim_space tok in
      if raw = [] then decode_lines dec path (n + 1) toks
      else case dec raw of
        Inl e \<Rightarrow> Inl (errorf (''eventlog: '' @ path @ '' line '' @ itoa (n + 1) @ '': '') e '''')
      | Inr ev \<Rightarrow>
          (case decode_lines dec path (n + 1) toks of
             Inl e \<Rightarrow> Inl e
           | Inr evs \<Rightarrow> Inr (ev # evs)))"

definition read_all ::
  "(bytes \<Rightarrow> err + event) \<Rightarrow> string \<Rightarrow> log_state \<Rightarrow> err + event list" where
  "read_all dec i lg =
     (case lg_events lg i of
        None \<Rightarrow> Inl (errorf (''eventlog: open log for '' @ i @ '': '') (ESentinel ErrNotExist) '''')
      | Some content \<Rightarrow>
          (case scan_tokens content of (toks, too_long) \<Rightarrow>
             (case decode_lines dec (events_path lg i) 0 toks of
                Inl e \<Rightarrow> Inl e
              | Inr evs \<Rightarrow>
                  if too_long
                  then Inl (errorf (''eventlog: scanning '' @ events_path lg i @ '': '') err_too_long '''')
                  else Inr evs)))"

fun verify_lines ::
  "(bytes \<Rightarrow> string) \<Rightarrow> (bytes \<Rightarrow> err + event) \<Rightarrow> string \<Rightarrow> string \<Rightarrow> int \<Rightarrow> string \<Rightarrow> bytes list \<Rightarrow>
   log_error option" where
  "verify_lines H dec i path n prev [] = None"
| "verify_lines H dec i path n prev (raw # raws) =
     (let line = n + 1 in
      case dec raw of
        Inl e \<Rightarrow>
          Some (LogErr (errorf (''eventlog: verify '' @ path @ '' line '' @ itoa line @ '': '') e ''''))
      | Inr ev \<Rightarrow>
          if ev_prev ev \<noteq> prev then Some (ChainError i line prev (ev_prev ev))
          else verify_lines H dec i path line (H raw) raws)"

definition log_verify ::
  "(bytes \<Rightarrow> string) \<Rightarrow> (bytes \<Rightarrow> err + event) \<Rightarrow> string \<Rightarrow> log_state \<Rightarrow> log_error option" where
  "log_verify H dec i lg =
     (case lg_events lg i of
        None \<Rightarrow>
          Some (LogErr (errorf (''eventlog: open log for '' @ i @ '': '') (ESentinel ErrNotExist) ''''))
      | Some content \<Rightarrow>
          (case scan_raw content of (raws, too_long) \<Rightarrow>
             (case verify_lines H dec i (events_path lg i) 0 (snapshot_hash H lg i) raws of
                Some e \<Rightarrow> Some e
              | None \<Rightarrow>
                  if too_long
                  then Some (LogErr (errorf (''eventlog: scanning '' @ events_path lg i @ '': '')
                         err_too_long ''''))
                  else None)))"

text \<open>\<open>WriteSnapshot\<close> and \<open>ReadSnapshot\<close>, over the canonical encoder and the decoder.\<close>

definition write_snapshot ::
  "('a \<Rightarrow> err + bytes) \<Rightarrow> string \<Rightarrow> 'a \<Rightarrow> log_state \<Rightarrow> log_state \<times> err option" where
  "write_snapshot canon i v lg =
     (case canon v of
        Inl e \<Rightarrow> (lg, Some (errorf ''eventlog: marshal snapshot: '' e ''''))
      | Inr d \<Rightarrow> (lg\<lparr>lg_snapshot := (lg_snapshot lg)(i \<mapsto> d)\<rparr>, None))"

definition read_snapshot ::
  "(bytes \<Rightarrow> err + 'a) \<Rightarrow> string \<Rightarrow> log_state \<Rightarrow> err + 'a" where
  "read_snapshot dec i lg =
     (case lg_snapshot lg i of
        None \<Rightarrow> Inl (errorf (''eventlog: read snapshot for '' @ i @ '': '') (ESentinel ErrNotExist) '''')
      | Some d \<Rightarrow>
          (case dec d of
             Inl e \<Rightarrow> Inl (errorf (''eventlog: decode snapshot for '' @ i @ '': '') e '''')
           | Inr v \<Rightarrow> Inr v))"

definition raw_events :: "string \<Rightarrow> log_state \<Rightarrow> err + bytes" where
  "raw_events i lg =
     (case lg_events lg i of None \<Rightarrow> Inl (ESentinel ErrNotExist) | Some c \<Rightarrow> Inr c)"

definition raw_snapshot :: "string \<Rightarrow> log_state \<Rightarrow> err + bytes" where
  "raw_snapshot i lg =
     (case lg_snapshot lg i of None \<Rightarrow> Inl (ESentinel ErrNotExist) | Some c \<Rightarrow> Inr c)"

section \<open>A file of terminated lines\<close>

text \<open>What \<open>encoding/json\<close> writes for one event: one line, trimmed, not empty.\<close>

definition line_ok :: "bytes \<Rightarrow> bool" where
  "line_ok l \<longleftrightarrow> l \<noteq> [] \<and> newline \<notin> set l \<and> trim_space l = l \<and> length l < max_line"

definition file_of :: "bytes list \<Rightarrow> bytes" where
  "file_of ls = concat (map (\<lambda>l. l @ [newline]) ls)"

lemma file_of_snoc: "file_of (ls @ [l]) = file_of ls @ l @ [newline]"
  by (simp add: file_of_def)

lemma split_lines_line:
  assumes "newline \<notin> set l"
  shows "split_lines (l @ newline # s) = l # split_lines s"
  using assms
proof (induction l)
  case (Cons c l)
  then have "split_lines (l @ newline # s) = l # split_lines s" and "c \<noteq> newline" by auto
  then show ?case using Cons.prems by (cases l) auto
qed simp

lemma split_lines_file: "\<forall>l\<in>set ls. newline \<notin> set l \<Longrightarrow> split_lines (file_of ls) = ls"
  by (induction ls) (simp_all add: file_of_def split_lines_line)

lemma trim_space_last:
  assumes "trim_space l = l" and "l \<noteq> []"
  shows "\<not> is_space (last l)"
proof
  assume sp: "is_space (last l)"
  let ?d = "dropWhile is_space l"
  have suf: "length (dropWhile is_space (rev ?d)) \<le> length ?d"
    by (metis length_dropWhile_le length_rev)
  have "length ?d \<le> length l" by (rule length_dropWhile_le)
  with suf assms(1) have "length (dropWhile is_space (rev ?d)) = length (rev ?d)"
    and full: "length ?d = length l"
    by (auto simp: trim_space_def dest: arg_cong [of _ _ length])
  then have "dropWhile is_space (rev ?d) = rev ?d"
    by (metis append_self_conv2 length_append length_0_conv add_cancel_left_left takeWhile_dropWhile_id)
  moreover have "?d = l"
    by (metis full append_self_conv2 length_append length_0_conv add_cancel_left_left takeWhile_dropWhile_id)
  ultimately have "\<not> is_space (hd (rev l))"
    using assms(2) hd_dropWhile [of is_space "rev l"] by (metis dropWhile_eq_Nil_conv rev_is_Nil_conv)
  with sp assms(2) show False by (simp add: hd_rev)
qed

lemma drop_cr_line: "line_ok l \<Longrightarrow> drop_cr l = l"
  using trim_space_last [of l] by (auto simp: line_ok_def drop_cr_def is_space_def)

lemma takeWhile_all: "\<forall>x\<in>set xs. P x \<Longrightarrow> takeWhile P xs = xs"
  by (simp add: takeWhile_eq_all_conv)

lemma scan_tokens_file:
  assumes ok: "\<forall>l\<in>set ls. line_ok l"
  shows "scan_tokens (file_of ls) = (ls, False)"
proof -
  from ok have sl: "split_lines (file_of ls) = ls"
    by (intro split_lines_file) (auto simp: line_ok_def)
  from ok have tw: "takeWhile (\<lambda>l. length l < max_line) ls = ls"
    by (intro takeWhile_all) (auto simp: line_ok_def)
  from ok have cr: "map drop_cr ls = ls" by (simp add: map_idI drop_cr_line)
  from ok have "\<not> (\<exists>l\<in>set ls. max_line \<le> length l)" by (auto simp: line_ok_def not_le)
  then show ?thesis unfolding scan_tokens_def sl tw cr by blast
qed

lemma scan_raw_file: "\<forall>l\<in>set ls. line_ok l \<Longrightarrow> scan_raw (file_of ls) = (ls, False)"
proof -
  assume ok: "\<forall>l\<in>set ls. line_ok l"
  then have "map trim_space ls = ls" and "filter (\<lambda>r. r \<noteq> []) ls = ls"
    by (auto simp: line_ok_def intro: map_idI)
  with scan_tokens_file [OF ok] show ?thesis by (simp add: scan_raw_def)
qed

lemma decode_lines_file:
  assumes "\<forall>l\<in>set ls. line_ok l" and "map dec ls = map Inr evs"
  shows "decode_lines dec path n ls = Inr evs"
  using assms
proof (induction ls arbitrary: n evs)
  case (Cons l ls)
  from Cons.prems(2) obtain e es where evs: "evs = e # es" "dec l = Inr e" "map dec ls = map Inr es"
    by (cases evs) auto
  with Cons show ?case by (simp add: line_ok_def Let_def)
qed simp

section \<open>The chain\<close>

text \<open>\<open>chained H dec prev ls\<close>: every line decodes and records the hash of the one before it.\<close>

fun chained :: "(bytes \<Rightarrow> string) \<Rightarrow> (bytes \<Rightarrow> err + event) \<Rightarrow> string \<Rightarrow> bytes list \<Rightarrow> bool" where
  "chained H dec prev [] = True"
| "chained H dec prev (l # ls) =
     (case dec l of Inl _ \<Rightarrow> False | Inr ev \<Rightarrow> ev_prev ev = prev \<and> chained H dec (H l) ls)"

lemma verify_lines_chained: "verify_lines H dec i path n prev ls = None \<longleftrightarrow> chained H dec prev ls"
  by (induction ls arbitrary: n prev) (auto simp: Let_def split: sum.splits)

definition chain_head :: "(bytes \<Rightarrow> string) \<Rightarrow> string \<Rightarrow> bytes list \<Rightarrow> string" where
  "chain_head H prev ls = (if ls = [] then prev else H (last ls))"

lemma chained_snoc:
  "chained H dec prev (ls @ [l]) \<longleftrightarrow>
     chained H dec prev ls \<and> (\<exists>ev. dec l = Inr ev \<and> ev_prev ev = chain_head H prev ls)"
  by (induction ls arbitrary: prev) (auto simp: chain_head_def split: sum.splits)

lemma chained_prefix: "chained H dec prev (ls @ ms) \<Longrightarrow> chained H dec prev ls"
  by (induction ls arbitrary: prev) (auto split: sum.splits)

text \<open>Where a break is reported: the lines before it are intact.\<close>

lemma verify_lines_break:
  "verify_lines H dec i path n prev ls = Some (ChainError j k want got) \<longleftrightarrow>
     j = i \<and> n < k \<and> (\<exists>pre l post ev. ls = pre @ l # post \<and> k = n + int (length pre) + 1 \<and>
       chained H dec prev pre \<and> dec l = Inr ev \<and> ev_prev ev = got \<and>
       want = chain_head H prev pre \<and> got \<noteq> want)"
proof (induction ls arbitrary: n prev)
  case (Cons a ls)
  show ?case
  proof (cases "dec a")
    case (Inl e)
    then have "\<not> (\<exists>pre l post ev. a # ls = pre @ l # post \<and> k = n + int (length pre) + 1 \<and>
       chained H dec prev pre \<and> dec l = Inr ev \<and> ev_prev ev = got \<and>
       want = chain_head H prev pre \<and> got \<noteq> want)"
      by (auto simp: Cons_eq_append_conv)
    with Inl show ?thesis by (simp add: Let_def)
  next
    case (Inr ev)
    show ?thesis
    proof (cases "ev_prev ev = prev")
      case True
      have "(\<exists>pre l post ev. a # ls = pre @ l # post \<and> k = n + int (length pre) + 1 \<and>
          chained H dec prev pre \<and> dec l = Inr ev \<and> ev_prev ev = got \<and>
          want = chain_head H prev pre \<and> got \<noteq> want) \<longleftrightarrow>
        (\<exists>pre l post ev. ls = pre @ l # post \<and> k = n + 1 + int (length pre) + 1 \<and>
          chained H dec (H a) pre \<and> dec l = Inr ev \<and> ev_prev ev = got \<and>
          want = chain_head H (H a) pre \<and> got \<noteq> want)" (is "?l \<longleftrightarrow> ?r")
      proof
        assume ?l
        then obtain pre l post ev' where p: "a # ls = pre @ l # post" "k = n + int (length pre) + 1"
          "chained H dec prev pre" "dec l = Inr ev'" "ev_prev ev' = got"
          "want = chain_head H prev pre" "got \<noteq> want" by blast
        with True Inr obtain pre' where pre: "pre = a # pre'"
          by (cases pre) (auto simp: chain_head_def)
        with p Inr have "ls = pre' @ l # post" "k = n + 1 + int (length pre') + 1"
          "chained H dec (H a) pre'" "want = chain_head H (H a) pre'"
          by (auto simp: chain_head_def)
        with p show ?r by blast
      next
        assume ?r
        then obtain pre l post ev' where p: "ls = pre @ l # post" "k = n + 1 + int (length pre) + 1"
          "chained H dec (H a) pre" "dec l = Inr ev'" "ev_prev ev' = got"
          "want = chain_head H (H a) pre" "got \<noteq> want" by blast
        with True Inr have "a # ls = (a # pre) @ l # post" "k = n + int (length (a # pre)) + 1"
          "chained H dec prev (a # pre)" "want = chain_head H prev (a # pre)"
          by (auto simp: chain_head_def)
        with p show ?l by blast
      qed
      with True Inr Cons.IH [of "n + 1" "H a"] show ?thesis by (auto simp: Let_def)
    next
      case False
      have "(\<exists>pre l post ev. a # ls = pre @ l # post \<and> k = n + int (length pre) + 1 \<and>
          chained H dec prev pre \<and> dec l = Inr ev \<and> ev_prev ev = got \<and>
          want = chain_head H prev pre \<and> got \<noteq> want) \<longleftrightarrow>
        k = n + 1 \<and> got = ev_prev ev \<and> want = prev" (is "?l \<longleftrightarrow> ?r")
      proof
        assume ?l
        then obtain pre l post ev' where p: "a # ls = pre @ l # post" "k = n + int (length pre) + 1"
          "chained H dec prev pre" "dec l = Inr ev'" "ev_prev ev' = got"
          "want = chain_head H prev pre" "got \<noteq> want" by blast
        with False Inr have "pre = []" by (cases pre) auto
        with p Inr show ?r by (auto simp: chain_head_def)
      next
        assume r: ?r
        have "a # ls = [] @ a # ls" by simp
        moreover have "k = n + int (length []) + 1" "chained H dec prev []"
          "want = chain_head H prev []" "got \<noteq> want"
          using r False by (simp_all add: chain_head_def)
        ultimately show ?l using Inr r by blast
      qed
      with False Inr show ?thesis by (auto simp: Let_def)
    qed
  qed
qed simp

text \<open>
  The last line of an intact log determines all of it: reading backwards, each recorded
  hash names the line before. \<open>S\<close> is a set of byte strings on which the hash has no
  collision.
\<close>

lemma chained_last_unique:
  assumes "chained H dec g ls" and "chained H dec g ms" and "inj_on H S"
    and "set ls \<subseteq> S" and "set ms \<subseteq> S"
    and "\<And>l. l \<in> set ls \<union> set ms \<Longrightarrow> H l \<noteq> g"
    and "ls \<noteq> []" and "ms \<noteq> []" and "last ls = last ms"
  shows "ls = ms"
  using assms
proof (induction ls arbitrary: ms rule: rev_induct)
  case (snoc l ls)
  then obtain ms' m where ms: "ms = ms' @ [m]" by (metis rev_exhaust)
  with snoc.prems have lm: "l = m" by simp
  from snoc.prems(1) ms snoc.prems(2) lm obtain ev where ev: "chained H dec g ls"
    "chained H dec g ms'" "dec l = Inr ev"
    "ev_prev ev = chain_head H g ls" "ev_prev ev = chain_head H g ms'"
    by (auto simp: chained_snoc)
  then have head: "chain_head H g ls = chain_head H g ms'" by simp
  have ls0: "ls = [] \<longleftrightarrow> ms' = []"
  proof
    assume "ls = []"
    then have "chain_head H g ms' = g" using head by (simp add: chain_head_def)
    then show "ms' = []" using snoc.prems(6) [of "last ms'"] ms
      by (auto simp: chain_head_def split: if_splits)
  next
    assume "ms' = []"
    then have "chain_head H g ls = g" using head by (simp add: chain_head_def)
    then show "ls = []" using snoc.prems(6) [of "last ls"]
      by (auto simp: chain_head_def split: if_splits)
  qed
  show ?case
  proof (cases "ls = []")
    case True
    with ls0 ms lm show ?thesis by simp
  next
    case False
    with ls0 have "ms' \<noteq> []" by simp
    then have "H (last ls) = H (last ms')" using head False by (simp add: chain_head_def)
    moreover have "last ls \<in> S" "last ms' \<in> S"
      using False \<open>ms' \<noteq> []\<close> snoc.prems(4,5) ms by auto
    ultimately have "last ls = last ms'" using snoc.prems(3) by (auto dest: inj_onD)
    with snoc.IH [OF ev(1,2) snoc.prems(3)] snoc.prems(4,5,6) ms False \<open>ms' \<noteq> []\<close>
    have "ls = ms'" by auto
    with ms lm show ?thesis by simp
  qed
qed simp

section \<open>The log's invariant\<close>

text \<open>What the theorems use of \<open>encoding/json\<close> for events: an encoded event is one trimmed line,
  and decoding it gives the event back.\<close>

definition event_codec :: "(event \<Rightarrow> err + bytes) \<Rightarrow> (bytes \<Rightarrow> err + event) \<Rightarrow> bool" where
  "event_codec enc dec \<longleftrightarrow>
     (\<forall>ev l. enc ev = Inr l \<longrightarrow>
        dec l = Inr ev \<and> l \<noteq> [] \<and> newline \<notin> set l \<and> trim_space l = l)"

text \<open>The file of execution \<open>i\<close> holds exactly the lines \<open>ls\<close>, chained, and a cached head is the
  real one.\<close>

definition log_holds ::
  "(bytes \<Rightarrow> string) \<Rightarrow> (bytes \<Rightarrow> err + event) \<Rightarrow> string \<Rightarrow> bytes list \<Rightarrow> log_state \<Rightarrow> bool" where
  "log_holds H dec i ls lg \<longleftrightarrow>
     (lg_events lg i = Some (file_of ls) \<or> (lg_events lg i = None \<and> ls = [])) \<and>
     (\<forall>l\<in>set ls. line_ok l) \<and>
     chained H dec (snapshot_hash H lg i) ls \<and>
     (\<forall>h. lg_last lg i = Some h \<longrightarrow> h = chain_head H (snapshot_hash H lg i) ls)"

lemma log_holds_new: "log_holds H dec i [] (new_log base)"
  by (simp add: log_holds_def new_log_def)

lemma log_holds_head:
  assumes "log_holds H dec i ls lg"
  shows "head_hash H lg i = Inr (chain_head H (snapshot_hash H lg i) ls)"
proof -
  from assms have ok: "\<forall>l\<in>set ls. line_ok l" by (simp add: log_holds_def)
  from assms consider "lg_last lg i = Some (chain_head H (snapshot_hash H lg i) ls)"
    | "lg_last lg i = None" "lg_events lg i = Some (file_of ls)"
    | "lg_last lg i = None" "lg_events lg i = None" "ls = []"
    by (cases "lg_last lg i") (auto simp: log_holds_def)
  then show ?thesis
    by cases (simp_all add: head_hash_def scan_raw_file [OF ok] chain_head_def)
qed

lemma log_append_result:
  assumes "log_holds H dec i ls lg"
  shows "log_append H enc i ev lg =
    (case enc (ev\<lparr>ev_prev := chain_head H (snapshot_hash H lg i) ls\<rparr>) of
       Inl e \<Rightarrow> (lg, Some (errorf ''eventlog: marshal event: '' e ''''))
     | Inr l \<Rightarrow> (lg\<lparr>lg_events := (lg_events lg)(i \<mapsto> file_of (ls @ [l])),
                  lg_last := (lg_last lg)(i \<mapsto> H l)\<rparr>, None))"
proof -
  have "(case lg_events lg i of None \<Rightarrow> [] | Some c \<Rightarrow> c) = file_of ls"
    using assms by (auto simp: log_holds_def file_of_def)
  then show ?thesis
    by (simp add: log_append_def log_holds_head [OF assms] file_of_snoc Let_def split: sum.split)
qed

lemma log_append_holds:
  assumes "event_codec enc dec" and "log_holds H dec i ls lg"
    and "log_append H enc i ev lg = (lg', None)"
    and "\<And>l. enc (ev\<lparr>ev_prev := chain_head H (snapshot_hash H lg i) ls\<rparr>) = Inr l \<Longrightarrow> length l < max_line"
  obtains l where "enc (ev\<lparr>ev_prev := chain_head H (snapshot_hash H lg i) ls\<rparr>) = Inr l"
    "log_holds H dec i (ls @ [l]) lg'" "snapshot_hash H lg' i = snapshot_hash H lg i"
    "dec l = Inr (ev\<lparr>ev_prev := chain_head H (snapshot_hash H lg i) ls\<rparr>)"
proof -
  let ?ev = "ev\<lparr>ev_prev := chain_head H (snapshot_hash H lg i) ls\<rparr>"
  from assms(2,3) obtain l where l: "enc ?ev = Inr l"
    and lg': "lg' = lg\<lparr>lg_events := (lg_events lg)(i \<mapsto> file_of (ls @ [l])),
                  lg_last := (lg_last lg)(i \<mapsto> H l)\<rparr>"
    by (auto simp: log_append_result split: sum.splits)
  have c: "dec l = Inr ?ev" "line_ok l"
    using assms(1) l assms(4) [OF l] unfolding event_codec_def line_ok_def by blast+
  have snap: "snapshot_hash H lg' i = snapshot_hash H lg i" by (simp add: lg' snapshot_hash_def)
  have "log_holds H dec i (ls @ [l]) lg'"
    using assms(2) c snap unfolding log_holds_def by (auto simp: chained_snoc lg' chain_head_def)
  then show thesis by (rule that [OF l _ snap c(1)])
qed

lemma log_verify_holds: "log_holds H dec i ls lg \<Longrightarrow> lg_events lg i \<noteq> None \<Longrightarrow> log_verify H dec i lg = None"
  by (auto simp: log_holds_def log_verify_def scan_raw_file verify_lines_chained split: option.split)

lemma read_all_holds:
  assumes "log_holds H dec i ls lg" and "map dec ls = map Inr evs" and "lg_events lg i \<noteq> None"
  shows "read_all dec i lg = Inr evs"
  using assms
  by (auto simp: log_holds_def read_all_def scan_tokens_file decode_lines_file)

lemma log_append_other:
  assumes "log_append H enc i ev lg = (lg', r)" and "j \<noteq> i"
  shows "lg_events lg' j = lg_events lg j \<and> lg_snapshot lg' = lg_snapshot lg \<and> lg_last lg' j = lg_last lg j"
  using assms by (auto simp: log_append_def Let_def split: sum.splits)

section \<open>Sequences of appends\<close>

fun append_events ::
  "(bytes \<Rightarrow> string) \<Rightarrow> (event \<Rightarrow> err + bytes) \<Rightarrow> string \<Rightarrow> event list \<Rightarrow> log_state \<Rightarrow>
   log_state \<times> err option" where
  "append_events H enc i [] lg = (lg, None)"
| "append_events H enc i (ev # evs) lg =
     (case log_append H enc i ev lg of
        (lg', None) \<Rightarrow> append_events H enc i evs lg'
      | (lg', Some e) \<Rightarrow> (lg', Some e))"

text \<open>No encoded event is longer than what the readers accept.\<close>

definition short_lines :: "(event \<Rightarrow> err + bytes) \<Rightarrow> bool" where
  "short_lines enc \<longleftrightarrow> (\<forall>ev l. enc ev = Inr l \<longrightarrow> length l < max_line)"

definition unchained :: "event \<Rightarrow> event" where
  "unchained ev = ev\<lparr>ev_prev := ''''\<rparr>"

lemma append_events_holds:
  assumes "event_codec enc dec" and "short_lines enc"
    and "log_holds H dec i ls lg" and "map dec ls = map Inr old"
    and "append_events H enc i evs lg = (lg', None)"
  shows "\<exists>ls' new. log_holds H dec i ls' lg' \<and> map dec ls' = map Inr (old @ new) \<and>
    map unchained new = map unchained evs \<and> (evs \<noteq> [] \<longrightarrow> lg_events lg' i \<noteq> None)"
  using assms(3-5)
proof (induction evs arbitrary: ls old lg)
  case Nil
  then show ?case by (intro exI [of _ ls] exI [of _ "[]"]) simp
next
  case (Cons ev evs)
  from Cons.prems(3) obtain lg1 where ap: "log_append H enc i ev lg = (lg1, None)"
    "append_events H enc i evs lg1 = (lg', None)"
    by (auto split: prod.splits option.splits)
  let ?ev = "ev\<lparr>ev_prev := chain_head H (snapshot_hash H lg i) ls\<rparr>"
  obtain l where l: "log_holds H dec i (ls @ [l]) lg1" "dec l = Inr ?ev"
    using log_append_holds [OF assms(1) Cons.prems(1) ap(1)] assms(2)
    unfolding short_lines_def by blast
  with Cons.prems(2) have "map dec (ls @ [l]) = map Inr (old @ [?ev])" by simp
  from Cons.IH [OF l(1) this ap(2)] obtain ls' new where IH: "log_holds H dec i ls' lg'"
    "map dec ls' = map Inr ((old @ [?ev]) @ new)" "map unchained new = map unchained evs" by blast
  have "ls' \<noteq> []" using IH(2) by auto
  then have "lg_events lg' i \<noteq> None" using IH(1) by (auto simp: log_holds_def)
  moreover have "unchained ?ev = unchained ev" by (simp add: unchained_def)
  ultimately show ?case using IH by (intro exI [of _ ls'] exI [of _ "?ev # new"]) simp
qed

section \<open>A codec to run the theorems on\<close>

definition sample_event :: event where
  "sample_event = \<lparr>ev_type = WorkerStarted, ev_time = 0, ev_exec = ''e1'', ev_node = ''a'',
     ev_prev = '''', ev_payload = []\<rparr>"

definition sample_hash :: "bytes \<Rightarrow> string" where
  "sample_hash l = replicate (length l) CHR ''h''"

definition sample_enc :: "event \<Rightarrow> err + bytes" where
  "sample_enc ev =
     (if unchained ev = sample_event \<and> set (ev_prev ev) \<subseteq> {CHR ''h''} \<and> length (ev_prev ev) < 100
      then Inr (CHR ''e'' # ev_prev ev) else Inl (EMsg ''unsupported event''))"

definition sample_dec :: "bytes \<Rightarrow> err + event" where
  "sample_dec l =
     (case l of
        [] \<Rightarrow> Inl (EMsg ''unexpected end of JSON input'')
      | c # p \<Rightarrow> if c = CHR ''e'' then Inr (sample_event\<lparr>ev_prev := p\<rparr>)
                 else Inl (EMsg ''invalid character''))"

lemma trim_space_id:
  assumes "\<forall>c\<in>set l. \<not> is_space c"
  shows "trim_space l = l"
proof -
  have "dropWhile is_space l = l" using assms by (cases l) simp_all
  moreover have "dropWhile is_space (rev l) = rev l" using assms by (cases "rev l") auto
  ultimately show ?thesis by (simp add: trim_space_def)
qed

lemma sample_codec: "event_codec sample_enc sample_dec"
  unfolding event_codec_def
proof (intro allI impI)
  fix ev l assume "sample_enc ev = Inr l"
  then have l: "l = CHR ''e'' # ev_prev ev" and u: "unchained ev = sample_event"
    and p: "set (ev_prev ev) \<subseteq> {CHR ''h''}" by (simp_all add: sample_enc_def split: if_splits)
  have "sample_event\<lparr>ev_prev := ev_prev ev\<rparr> = ev" unfolding u [symmetric] by (simp add: unchained_def)
  moreover have "\<forall>c\<in>set l. \<not> is_space c \<and> c \<noteq> newline"
    using p by (auto simp: l is_space_def newline_def)
  ultimately show "sample_dec l = Inr ev \<and> l \<noteq> [] \<and> newline \<notin> set l \<and> trim_space l = l"
    by (auto simp: l sample_dec_def trim_space_id)
qed

lemma sample_short: "short_lines sample_enc"
  by (auto simp: short_lines_def sample_enc_def max_line_def split: if_splits)

definition sample_log :: log_state where
  "sample_log = fst (append_events sample_hash sample_enc ''e1'' [sample_event, sample_event]
     (new_log ''w''))"

section \<open>Theorems\<close>



lemma sample_lines: "\<forall>l\<in>set [''e'', ''eh'', ''ehh'']. line_ok l"
  by (auto simp: line_ok_def newline_def max_line_def is_space_def intro!: trim_space_id)

lemma sample_log_verify:
  assumes "set ls \<subseteq> set [''e'', ''eh'', ''ehh'']"
  shows "log_verify sample_hash sample_dec ''e1''
      ((new_log ''w'')\<lparr>lg_events := (lg_events (new_log ''w''))(''e1'' \<mapsto> file_of ls)\<rparr>) =
    verify_lines sample_hash sample_dec ''e1'' ''w/executions/e1/events.jsonl'' 0 [] ls"
proof -
  have "\<forall>l\<in>set ls. line_ok l" using assms sample_lines by blast
  from scan_raw_file [OF this] show ?thesis
    by (simp add: log_verify_def snapshot_hash_def genesis_hash_def new_log_def events_path_def
        log_dir_def split: option.split)
qed

lemmas sample_log_simps =
  sample_log_verify sample_dec_def sample_hash_def sample_event_def Let_def

text \<open>The log is tamper-evident: two intact logs over the same snapshot that end in the same
  line are equal byte for byte. So any edit, deletion, insertion or reordering before the
  last event makes \<open>Verify\<close> fail, as long as SHA-256 has no collision on the lines and the
  snapshot involved.\<close>

theorem intact_logs_agree:
  assumes "\<forall>l\<in>set ls \<union> set ms. line_ok l" and "ls \<noteq> []" and "ms \<noteq> []" and "last ls = last ms"
    and "inj_on H (set ls \<union> set ms)"
    and "\<forall>l\<in>set ls \<union> set ms. H l \<noteq> snapshot_hash H lg i"
    and "log_verify H dec i (lg\<lparr>lg_events := (lg_events lg)(i \<mapsto> file_of ls)\<rparr>) = None"
    and "log_verify H dec i (lg\<lparr>lg_events := (lg_events lg)(i \<mapsto> file_of ms)\<rparr>) = None"
  shows "file_of ls = file_of ms"
proof -
  have *: "chained H dec (snapshot_hash H lg i) xs"
    if "\<forall>l\<in>set xs. line_ok l"
      "log_verify H dec i (lg\<lparr>lg_events := (lg_events lg)(i \<mapsto> file_of xs)\<rparr>) = None" for xs
    using that
    by (simp add: log_verify_def scan_raw_file snapshot_hash_def verify_lines_chained
        split: option.splits)
  have "ls = ms"
    using chained_last_unique [OF * * assms(5)] assms by auto
  then show ?thesis by simp
qed

lemma intact_logs_agree_witness:
  "\<exists>ls. length ls = 2 \<and>
     log_verify sample_hash sample_dec ''e1''
       ((new_log ''w'')\<lparr>lg_events := (lg_events (new_log ''w''))(''e1'' \<mapsto> file_of ls)\<rparr>) = None \<and>
     file_of ls = file_of [''e'', ''eh'']"
proof -
  let ?ls = "[''e'', ''eh'']"
  have ok: "\<forall>l\<in>set ?ls \<union> set ?ls. line_ok l" using sample_lines by simp
  have v: "log_verify sample_hash sample_dec ''e1''
      ((new_log ''w'')\<lparr>lg_events := (lg_events (new_log ''w''))(''e1'' \<mapsto> file_of ?ls)\<rparr>) = None"
    by (simp add: sample_log_simps)
  have inj: "inj_on sample_hash (set ?ls \<union> set ?ls)" by (auto simp: inj_on_def sample_hash_def)
  have "\<forall>l\<in>set ?ls \<union> set ?ls. sample_hash l \<noteq> snapshot_hash sample_hash (new_log ''w'') ''e1''"
    by (simp add: sample_hash_def snapshot_hash_def new_log_def genesis_hash_def)
  from intact_logs_agree [OF ok _ _ refl inj this v v] v show ?thesis
    by (intro exI [of _ ?ls]) simp
qed

text \<open>What the chain does not show: a log cut off after any of its lines still verifies, as
  the comment on \<open>Verify\<close> says.\<close>

theorem truncation_not_detected:
  assumes "\<forall>l\<in>set ls. line_ok l"
    and "log_verify H dec i (lg\<lparr>lg_events := (lg_events lg)(i \<mapsto> file_of ls)\<rparr>) = None"
  shows "log_verify H dec i (lg\<lparr>lg_events := (lg_events lg)(i \<mapsto> file_of (take n ls))\<rparr>) = None"
proof -
  have tk: "\<forall>l\<in>set (take n ls). line_ok l" using assms(1) by (auto dest: in_set_takeD)
  have "chained H dec (snapshot_hash H lg i) (take n ls @ drop n ls)"
    using assms
    by (simp add: log_verify_def scan_raw_file snapshot_hash_def verify_lines_chained
        split: option.splits)
  from chained_prefix [OF this] show ?thesis
    by (simp add: log_verify_def scan_raw_file [OF tk] snapshot_hash_def verify_lines_chained
        split: option.splits)
qed

lemma truncation_not_detected_witness:
  "log_verify sample_hash sample_dec ''e1''
     ((new_log ''w'')\<lparr>lg_events := (lg_events (new_log ''w''))(''e1'' \<mapsto> file_of (take 1 [''e'', ''eh'']))\<rparr>)
   = None"
proof (rule truncation_not_detected)
  show "\<forall>l\<in>set [''e'', ''eh'']. line_ok l" using sample_lines by simp
  show "log_verify sample_hash sample_dec ''e1''
     ((new_log ''w'')\<lparr>lg_events := (lg_events (new_log ''w''))(''e1'' \<mapsto> file_of [''e'', ''eh''])\<rparr>) = None"
    by (simp add: sample_log_simps)
qed

text \<open>A chain error names the first break: the lines before the reported one are chained, and
  that line records a hash other than the one its predecessor has.\<close>

theorem chain_error_locates_break:
  assumes "\<forall>l\<in>set ls. line_ok l" and "lg_events lg i = Some (file_of ls)"
    and "log_verify H dec i lg = Some (ChainError j k want got)"
  shows "j = i \<and> 1 \<le> k \<and> k \<le> int (length ls) \<and>
    chained H dec (snapshot_hash H lg i) (take (nat (k - 1)) ls) \<and>
    want = chain_head H (snapshot_hash H lg i) (take (nat (k - 1)) ls) \<and>
    (\<exists>ev. dec (ls ! nat (k - 1)) = Inr ev \<and> ev_prev ev = got) \<and> got \<noteq> want"
proof -
  have "verify_lines H dec i (events_path lg i) 0 (snapshot_hash H lg i) ls =
      Some (ChainError j k want got)"
    using assms(2,3) by (simp add: log_verify_def scan_raw_file [OF assms(1)] split: option.splits)
  then obtain pre l post ev where p: "ls = pre @ l # post" "k = int (length pre) + 1" "j = i"
    "chained H dec (snapshot_hash H lg i) pre" "dec l = Inr ev" "ev_prev ev = got"
    "want = chain_head H (snapshot_hash H lg i) pre" "got \<noteq> want"
    unfolding verify_lines_break by auto
  then have "nat (k - 1) = length pre" by simp
  with p show ?thesis by simp
qed

lemma chain_error_locates_break_witness:
  "chained sample_hash sample_dec [] (take 1 [''e'', ''ehh''])"
proof -
  let ?lg = "(new_log ''w'')\<lparr>lg_events := (lg_events (new_log ''w''))(''e1'' \<mapsto> file_of [''e'', ''ehh''])\<rparr>"
  have ok: "\<forall>l\<in>set [''e'', ''ehh'']. line_ok l" using sample_lines by simp
  have e: "lg_events ?lg ''e1'' = Some (file_of [''e'', ''ehh''])" by simp
  have "log_verify sample_hash sample_dec ''e1'' ?lg = Some (ChainError ''e1'' 2 ''h'' ''hh'')"
    by (simp add: sample_log_simps)
  from chain_error_locates_break [OF ok e this] show ?thesis
    by (simp add: snapshot_hash_def new_log_def genesis_hash_def)
qed

end
