(* ===== verification/Canonical.thy ===== *)
theory Canonical
  imports GoErr "HOL-Library.Multiset"
begin

text \<open>
  \<open>core/canonical\<close>: the one JSON encoding every hash of the project is computed over.
  \<open>Marshal\<close> decodes what \<open>encoding/json\<close> printed with \<open>UseNumber\<close>, so its input here is a
  tree whose numbers are their literal text, and prints it again: objects are Go maps by
  then, so their keys are distinct (the last duplicate wins) and printed in byte order.
  The encoding is shown to be injective up to that normal form. SHA-256 is the argument
  \<open>sum256\<close>; its value is printed in hex.
\<close>

type_synonym cjson = "string json"

section \<open>Strings\<close>

definition json_escape :: "char \<Rightarrow> string" where
  "json_escape c =
     (let n = (of_char c :: nat) in
      if n = 34 \<or> n = 92 then [CHR 0x5C, c]
      else if n = 8 then [CHR 0x5C, CHR ''b'']
      else if n = 12 then [CHR 0x5C, CHR ''f'']
      else if n = 10 then [CHR 0x5C, CHR ''n'']
      else if n = 13 then [CHR 0x5C, CHR ''r'']
      else if n = 9 then [CHR 0x5C, CHR ''t'']
      else if n < 32
      then [CHR 0x5C, CHR ''u'', CHR ''0'', CHR ''0'', hex_digit (n div 16), hex_digit (n mod 16)]
      else [c])"

text \<open>
  \<open>encoding/json\<close> also escapes U+2028 and U+2029, three bytes each. The other bytes of a
  string are copied: what is printed here was decoded before, so it is valid UTF-8.
\<close>

definition line_sep :: string where
  "line_sep = [CHR 0xE2, CHR 0x80, CHR 0xA8]"

definition para_sep :: string where
  "para_sep = [CHR 0xE2, CHR 0x80, CHR 0xA9]"

function string_units :: "string \<Rightarrow> string list" where
  "string_units [] = []"
| "string_units (c # s) =
     (if take 3 (c # s) = line_sep \<or> take 3 (c # s) = para_sep
      then take 3 (c # s) # string_units (drop 3 (c # s))
      else [c] # string_units s)"
  by pat_completeness auto
termination by (relation "measure length") auto

definition escape_unit :: "string \<Rightarrow> string" where
  "escape_unit u =
     (if u = line_sep then CHR 0x5C # ''u2028'' else if u = para_sep then CHR 0x5C # ''u2029''
      else json_escape (hd u))"

definition json_string :: "string \<Rightarrow> string" where
  "json_string s = CHR 0x22 # concat (map escape_unit (string_units s)) @ [CHR 0x22]"

section \<open>Printing a tree\<close>

primrec render :: "cjson \<Rightarrow> string" where
  "render JNull = ''null''"
| "render (JBool b) = (if b then ''true'' else ''false'')"
| "render (JNum l) = l"
| "render (JStr s) = json_string s"
| "render (JArr vs) = ''['' @ join '','' (map render vs) @ '']''"
| "render (JObj kvs) =
     ''{'' @ join '','' (map (\<lambda>p. json_string (fst p) @ '':'' @ snd p)
                        (map (map_prod id render) kvs)) @ ''}''"

text \<open>An object as the map it was decoded into, its keys in the order they are printed.\<close>

definition norm_object :: "(string \<times> 'a) list \<Rightarrow> (string \<times> 'a) list" where
  "norm_object kvs =
     map (\<lambda>k. (k, the (map_of (rev kvs) k))) (sort (remdups (map fst kvs)))"

primrec norm :: "cjson \<Rightarrow> cjson" where
  "norm JNull = JNull"
| "norm (JBool b) = JBool b"
| "norm (JNum l) = JNum l"
| "norm (JStr s) = JStr s"
| "norm (JArr vs) = JArr (map norm vs)"
| "norm (JObj kvs) = JObj (norm_object (map (map_prod id norm) kvs))"

definition canonical_marshal :: "cjson \<Rightarrow> string" where
  "canonical_marshal v = render (norm v)"

definition hex_encode :: "bytes \<Rightarrow> string" where
  "hex_encode b =
     concat (map (\<lambda>c. [hex_digit (of_char c div 16), hex_digit (of_char c mod 16)]) b)"

definition hash_bytes :: "(bytes \<Rightarrow> bytes) \<Rightarrow> bytes \<Rightarrow> string" where
  "hash_bytes sum256 b = hex_encode (sum256 b)"

definition canonical_hash :: "(bytes \<Rightarrow> bytes) \<Rightarrow> cjson \<Rightarrow> string" where
  "canonical_hash sum256 v = hash_bytes sum256 (canonical_marshal v)"

section \<open>Hex\<close>

definition hex_val :: "char \<Rightarrow> nat" where
  "hex_val c = (let n = (of_char c :: nat) in if n < 58 then n - 48 else n - 87)"

lemma hex_val_digit [simp]: "n < 16 \<Longrightarrow> hex_val (hex_digit n) = n"
  by (auto simp: hex_val_def hex_digit_def Let_def)

lemma of_char_less [simp]: "(of_char c :: nat) < 256"
  by (metis nat_of_char_less_256)

lemma hex_digit_inject: "m < 16 \<Longrightarrow> n < 16 \<Longrightarrow> hex_digit m = hex_digit n \<longleftrightarrow> m = n"
  by (metis hex_val_digit)

lemma hex_byte_inject:
  fixes c d :: char
  assumes "hex_digit (of_char c div 16) = hex_digit (of_char d div 16)"
    and "hex_digit (of_char c mod 16) = hex_digit (of_char d mod 16)"
  shows "c = d"
proof -
  have lt: "(of_char x :: nat) div 16 < 16" for x :: char
    using of_char_less [of x] by (simp add: less_mult_imp_div_less)
  have "(of_char c :: nat) div 16 = of_char d div 16" "(of_char c :: nat) mod 16 = of_char d mod 16"
    using assms lt by (simp_all add: hex_digit_inject)
  then have "(of_char c :: nat) = of_char d" by (metis div_mult_mod_eq)
  then show ?thesis by simp
qed

lemma hex_encode_inject [simp]: "hex_encode a = hex_encode b \<longleftrightarrow> a = b"
proof
  assume "hex_encode a = hex_encode b"
  then show "a = b"
  proof (induction a arbitrary: b)
    case Nil
    then show ?case by (cases b) (simp_all add: hex_encode_def)
  next
    case (Cons c a)
    then show ?case by (cases b) (auto simp: hex_encode_def dest: hex_byte_inject)
  qed
qed simp

text \<open>A hash is made of hex digits: it is no temporary file's name.\<close>

lemma hex_digit_chars: "n < 16 \<Longrightarrow> hex_digit n \<in> set ''0123456789abcdef''"
proof -
  assume "n < 16"
  then have "n \<in> set [0..<16]" by simp
  moreover have "\<forall>k\<in>set [0..<16]. hex_digit k \<in> set ''0123456789abcdef''" by code_simp
  ultimately show ?thesis by blast
qed

lemma hash_bytes_chars:
  assumes "c \<in> set (hash_bytes sum256 b)"
  shows "c \<in> set ''0123456789abcdef''"
proof -
  have "(of_char x :: nat) div 16 < 16" for x :: char
    using of_char_less [of x] by (simp add: less_mult_imp_div_less)
  then have "hex_digit (of_char x div 16) \<in> set ''0123456789abcdef''"
    "hex_digit (of_char x mod 16) \<in> set ''0123456789abcdef''" for x :: char
    using hex_digit_chars by simp_all
  with assms show ?thesis unfolding hash_bytes_def hex_encode_def by fastforce
qed

section \<open>Reading a printed string back\<close>

definition unescape :: "string \<Rightarrow> string \<times> string" where
  "unescape s =
     (if s ! 0 \<noteq> CHR 0x5C then ([s ! 0], drop 1 s)
      else if s ! 1 = CHR ''u''
      then (if s ! 2 = CHR ''0'' then [char_of (16 * hex_val (s ! 4) + hex_val (s ! 5))]
            else if s ! 5 = CHR ''8'' then line_sep else para_sep, drop 6 s)
      else ([if s ! 1 = CHR ''b'' then CHR 0x08 else if s ! 1 = CHR ''f'' then CHR 0x0C
            else if s ! 1 = CHR ''n'' then CHR 0x0A else if s ! 1 = CHR ''r'' then CHR 0x0D
            else if s ! 1 = CHR ''t'' then CHR 0x09 else s ! 1], drop 2 s))"

lemma char_eq_of_nat: "(of_char c :: nat) = n \<Longrightarrow> c = char_of n"
  by auto

lemma unescape_escape: "unescape (json_escape c @ x) = ([c], x)"
proof -
  let ?n = "of_char c :: nat"
  have ch: "char_of (92 :: nat) = CHR 0x5C" "char_of (34 :: nat) = CHR 0x22"
    "char_of (8 :: nat) = CHR 0x08" "char_of (12 :: nat) = CHR 0x0C" "char_of (10 :: nat) = CHR 0x0A"
    "char_of (13 :: nat) = CHR 0x0D" "char_of (9 :: nat) = CHR 0x09"
    by code_simp+
  consider "?n = 34" | "?n = 92" | "?n = 8" | "?n = 12" | "?n = 10" | "?n = 13" | "?n = 9"
    | "?n < 32" "?n \<notin> {8, 12, 10, 13, 9}" | "32 \<le> ?n" "?n \<noteq> 34" "?n \<noteq> 92"
    by force
  then show ?thesis
  proof cases
    case 8
    then have "char_of (16 * (?n div 16) + ?n mod 16) = c" by simp
    moreover have "?n div 16 < 16" using 8 by simp
    ultimately show ?thesis using 8 by (simp add: json_escape_def unescape_def Let_def)
  next
    case 9
    then have "c \<noteq> CHR 0x5C" by auto
    with 9 show ?thesis by (simp add: json_escape_def unescape_def Let_def)
  qed (drule char_eq_of_nat, simp only: ch, simp add: json_escape_def unescape_def Let_def)+
qed

definition unit_ok :: "string \<Rightarrow> bool" where
  "unit_ok u \<longleftrightarrow> u = line_sep \<or> u = para_sep \<or> length u = 1"

lemma string_units_ok: "u \<in> set (string_units s) \<Longrightarrow> unit_ok u"
  by (induction s rule: string_units.induct) (auto simp: unit_ok_def split: if_splits)

lemma concat_string_units: "concat (string_units s) = s"
proof (induction s rule: string_units.induct)
  case (2 c s)
  then show ?case by (cases "take 3 (c # s) = line_sep \<or> take 3 (c # s) = para_sep")
      (simp_all del: take_Suc_Cons drop_Suc_Cons)
qed simp

lemma unescape_unit: "unit_ok u \<Longrightarrow> unescape (escape_unit u @ x) = (u, x)"
proof -
  assume u: "unit_ok u"
  consider "u = line_sep" | "u = para_sep" | "u \<noteq> line_sep" "u \<noteq> para_sep" "u = [hd u]"
    using u by (cases u) (auto simp: unit_ok_def line_sep_def para_sep_def)
  then show ?thesis
  proof cases
    case 3
    then have "escape_unit u = json_escape (hd u)" by (simp add: escape_unit_def)
    with unescape_escape [of "hd u" x] 3(3) show ?thesis by simp
  qed (simp_all add: escape_unit_def unescape_def line_sep_def para_sep_def)
qed

lemma escape_inject:
  "unit_ok u \<Longrightarrow> unit_ok v \<Longrightarrow> escape_unit u @ x = escape_unit v @ y \<Longrightarrow> u = v \<and> x = y"
  by (metis unescape_unit Pair_inject)

lemma escape_not_quote: "json_escape c = d # ds \<Longrightarrow> d \<noteq> CHR 0x22"
  by (auto simp: json_escape_def Let_def split: if_splits)

lemma escape_nonempty: "json_escape c \<noteq> []"
  by (simp add: json_escape_def Let_def)

lemma escape_Cons: "\<exists>d ds. escape_unit u = d # ds \<and> d \<noteq> CHR 0x22"
  using escape_nonempty [of "hd u"] escape_not_quote [of "hd u"]
  by (cases "json_escape (hd u)") (auto simp: escape_unit_def)

lemma escapes_inject:
  assumes "\<forall>u\<in>set us. unit_ok u" and "\<forall>v\<in>set vs. unit_ok v"
    and "concat (map escape_unit us) @ CHR 0x22 # x = concat (map escape_unit vs) @ CHR 0x22 # y"
  shows "us = vs \<and> x = y"
  using assms
proof (induction us arbitrary: vs)
  case Nil
  show ?case
  proof (cases vs)
    case (Cons d t')
    obtain e es where "escape_unit d = e # es" "e \<noteq> CHR 0x22" using escape_Cons by blast
    with Nil Cons show ?thesis by simp
  qed (use Nil in simp)
next
  case (Cons c s)
  show ?case
  proof (cases vs)
    case Nil
    obtain e es where "escape_unit c = e # es" "e \<noteq> CHR 0x22" using escape_Cons by blast
    with Cons.prems Nil show ?thesis by simp
  next
    case t: (Cons d t')
    with Cons.prems
    have "escape_unit c @ (concat (map escape_unit s) @ CHR 0x22 # x) =
        escape_unit d @ (concat (map escape_unit t') @ CHR 0x22 # y)" by simp
    from escape_inject [OF _ _ this] Cons.IH [of t'] Cons.prems t show ?thesis by simp
  qed
qed

lemma json_string_inject: "json_string s @ x = json_string t @ y \<Longrightarrow> s = t \<and> x = y"
  using escapes_inject [of "string_units s" "string_units t" x y]
  by (simp add: json_string_def string_units_ok) (metis concat_string_units)

section \<open>The encoding is injective\<close>

definition num_char :: "char \<Rightarrow> bool" where
  "num_char c \<longleftrightarrow> c \<in> set ''0123456789+-.eE''"

definition num_literal :: "string \<Rightarrow> bool" where
  "num_literal l \<longleftrightarrow> l \<noteq> [] \<and> (\<forall>c\<in>set l. num_char c)"

primrec numbers_ok :: "cjson \<Rightarrow> bool" where
  "numbers_ok JNull = True"
| "numbers_ok (JBool b) = True"
| "numbers_ok (JNum l) = num_literal l"
| "numbers_ok (JStr s) = True"
| "numbers_ok (JArr vs) = list_all numbers_ok vs"
| "numbers_ok (JObj kvs) = list_all (\<lambda>p. snd p) (map (map_prod id numbers_ok) kvs)"

text \<open>What can follow a value inside a document.\<close>

definition delim :: "string \<Rightarrow> bool" where
  "delim r \<longleftrightarrow> r = [] \<or> hd r \<in> set '',]}''"

definition first_char :: "cjson \<Rightarrow> char" where
  "first_char v = hd (render v)"

lemma render_nonempty: "numbers_ok v \<Longrightarrow> render v \<noteq> []"
  by (cases v) (auto simp: json_string_def num_literal_def)

lemma first_char_cases:
  assumes "numbers_ok v"
  shows "v = JNull \<and> first_char v = CHR ''n'' \<or> v = JBool True \<and> first_char v = CHR ''t'' \<or>
    v = JBool False \<and> first_char v = CHR ''f'' \<or> (\<exists>l. v = JNum l) \<and> num_char (first_char v) \<or>
    (\<exists>s. v = JStr s) \<and> first_char v = CHR 0x22 \<or> (\<exists>vs. v = JArr vs) \<and> first_char v = CHR ''['' \<or>
    (\<exists>kvs. v = JObj kvs) \<and> first_char v = CHR ''{''"
  using assms by (cases v) (auto simp: first_char_def json_string_def num_literal_def)

lemma num_char_not [simp]:
  "\<not> num_char CHR ''n''" "\<not> num_char CHR ''t''" "\<not> num_char CHR ''f''" "\<not> num_char CHR 0x22"
  "\<not> num_char CHR ''[''" "\<not> num_char CHR ''{''" "\<not> num_char CHR '']''" "\<not> num_char CHR '',''"
  "\<not> num_char CHR ''}''"
  by (simp_all add: num_char_def)

lemma first_char_eq:
  assumes "numbers_ok v" and "numbers_ok w" and "render v @ x = render w @ y"
  shows "first_char v = first_char w"
  using assms render_nonempty [OF assms(1)] render_nonempty [OF assms(2)]
  by (metis first_char_def hd_append2)

lemma num_literal_inject:
  assumes "num_literal l" and "num_literal m" and "delim x" and "delim y" and "l @ x = m @ y"
  shows "l = m \<and> x = y"
proof -
  have stop: "takeWhile num_char (k @ z) = k" if "num_literal k" "delim z" for k z
    using that
    by (cases z) (auto simp: num_literal_def delim_def takeWhile_append)
  from stop [OF assms(1,3)] stop [OF assms(2,4)] assms(5) show ?thesis by simp
qed

lemma join_Cons: "join sep (x # xs) = x @ concat (map (\<lambda>y. sep @ y) xs)"
  by (induction xs arbitrary: x) simp_all

text \<open>\<open>unambiguous v\<close>: from a document that starts with \<open>v\<close> exactly \<open>v\<close> can be read.\<close>

definition unambiguous :: "cjson \<Rightarrow> bool" where
  "unambiguous v \<longleftrightarrow>
     (\<forall>w x y. numbers_ok w \<longrightarrow> delim x \<longrightarrow> delim y \<longrightarrow> render v @ x = render w @ y \<longrightarrow> v = w \<and> x = y)"

lemma unambiguousD:
  "unambiguous v \<Longrightarrow> numbers_ok w \<Longrightarrow> delim x \<Longrightarrow> delim y \<Longrightarrow> render v @ x = render w @ y \<Longrightarrow>
     v = w \<and> x = y"
  by (simp add: unambiguous_def)

text \<open>Sequences of items, each read by \<open>p\<close> without ambiguity, between a comma and a closer.\<close>

lemma items_inject:
  fixes p :: "'a \<Rightarrow> string"
  assumes item: "\<And>a b x y. a \<in> set as \<Longrightarrow> b \<in> set bs \<Longrightarrow> delim x \<Longrightarrow> delim y \<Longrightarrow>
      p a @ x = p b @ y \<Longrightarrow> a = b \<and> x = y"
    and close: "close \<in> set '']}''"
    and eq: "concat (map (\<lambda>a. '','' @ p a) as) @ close # x =
      concat (map (\<lambda>b. '','' @ p b) bs) @ close # y"
  shows "as = bs \<and> x = y"
  using item eq
proof (induction as arbitrary: bs)
  case Nil
  with close show ?case by (cases bs) auto
next
  case (Cons a as)
  show ?case
  proof (cases bs)
    case Nil
    with Cons.prems(2) close show ?thesis by auto
  next
    case bs: (Cons b bs')
    have d: "delim (concat (map (\<lambda>a. '','' @ p a) cs) @ close # z)" for cs z
      using close by (cases cs) (auto simp: delim_def)
    from Cons.prems(2) bs
    have "p a @ (concat (map (\<lambda>a. '','' @ p a) as) @ close # x) =
        p b @ (concat (map (\<lambda>b. '','' @ p b) bs') @ close # y)" by simp
    with Cons.prems(1) [of a b] bs d have "a = b" and rest:
      "concat (map (\<lambda>a. '','' @ p a) as) @ close # x =
        concat (map (\<lambda>b. '','' @ p b) bs') @ close # y" by auto
    moreover have "as = bs' \<and> x = y"
      by (rule Cons.IH [OF Cons.prems(1)]) (use bs rest in auto)
    ultimately show ?thesis using bs by simp
  qed
qed

lemma list_inject:
  fixes p :: "'a \<Rightarrow> string"
  assumes item: "\<And>a b x y. a \<in> set as \<Longrightarrow> b \<in> set bs \<Longrightarrow> delim x \<Longrightarrow> delim y \<Longrightarrow>
      p a @ x = p b @ y \<Longrightarrow> a = b \<and> x = y"
    and close: "close \<in> set '']}''"
    and start: "\<And>a. a \<in> set as \<union> set bs \<Longrightarrow> p a \<noteq> [] \<and> hd (p a) \<notin> set '']}''"
    and eq: "join '','' (map p as) @ close # x = join '','' (map p bs) @ close # y"
  shows "as = bs \<and> x = y"
proof -
  have ne: "p b @ z \<noteq> close # y'" if "b \<in> set as \<union> set bs" for b z y'
    using start [OF that] close by (cases "p b") auto
  show ?thesis
  proof (cases as)
    case Nil
    show ?thesis
    proof (cases bs)
      case (Cons b bs')
      with eq Nil ne [of b] show ?thesis by (metis append_assoc join.simps(1) join_Cons list.map(1,2)
            list.set_intros(1) Un_iff append_Nil)
    qed (use eq Nil in simp)
  next
    case as: (Cons a as')
    show ?thesis
    proof (cases bs)
      case Nil
      with eq as ne [of a] show ?thesis by (metis append_assoc join.simps(1) join_Cons list.map(1,2)
            list.set_intros(1) Un_iff append_Nil)
    next
      case bs: (Cons b bs')
      have d: "delim (concat (map (\<lambda>a. '','' @ p a) cs) @ close # z)" for cs z
        using close by (cases cs) (auto simp: delim_def)
      from eq as bs have "p a @ (concat (map (\<lambda>a. '','' @ p a) as') @ close # x) =
          p b @ (concat (map (\<lambda>b. '','' @ p b) bs') @ close # y)"
        by (simp add: join_Cons comp_def)
      with item [of a b] as bs d have ab: "a = b"
        "concat (map (\<lambda>a. '','' @ p a) as') @ close # x =
          concat (map (\<lambda>b. '','' @ p b) bs') @ close # y" by auto
      have "as' = bs' \<and> x = y"
        by (rule items_inject [OF _ close ab(2)]) (use item as bs in auto)
      with as bs ab(1) show ?thesis by simp
    qed
  qed
qed

lemma first_char_open:
  assumes "numbers_ok v"
  shows "render v \<noteq> [] \<and> hd (render v) \<notin> set '']}''"
  using first_char_cases [OF assms] render_nonempty [OF assms] by (auto simp: first_char_def)

definition render_pair :: "string \<times> cjson \<Rightarrow> string" where
  "render_pair p = json_string (fst p) @ '':'' @ render (snd p)"

lemma render_object: "render (JObj kvs) = ''{'' @ join '','' (map render_pair kvs) @ ''}''"
proof -
  have "render_pair = (\<lambda>p. json_string (fst p) @ '':'' @ render (snd p))"
    by (simp add: fun_eq_iff render_pair_def)
  then show ?thesis by (simp add: comp_def)
qed

lemma numbers_ok_object: "numbers_ok (JObj kvs) \<longleftrightarrow> (\<forall>p\<in>set kvs. numbers_ok (snd p))"
  by (auto simp: list_all_iff)

lemma render_unambiguous: "numbers_ok v \<Longrightarrow> unambiguous v"
proof (induction v)
  case (JNum l)
  show ?case
    unfolding unambiguous_def
  proof (intro allI impI)
    fix w x y
    assume w: "numbers_ok w" and d: "delim x" "delim y" and eq: "render (JNum l) @ x = render w @ y"
    from first_char_eq [OF JNum.prems w eq] first_char_cases [OF w] first_char_cases [OF JNum.prems]
    obtain m where "w = JNum m" by auto
    with num_literal_inject [of l m x y] JNum.prems w d eq show "JNum l = w \<and> x = y" by simp
  qed
next
  case (JStr s)
  show ?case
    unfolding unambiguous_def
  proof (intro allI impI)
    fix w x y
    assume w: "numbers_ok w" and eq: "render (JStr s) @ x = render w @ y"
    from first_char_eq [OF JStr.prems w eq] first_char_cases [OF w] first_char_cases [OF JStr.prems]
    obtain t where "w = JStr t" by auto
    with json_string_inject [of s x t y] eq show "JStr s = w \<and> x = y" by simp
  qed
next
  case (JArr vs)
  show ?case
    unfolding unambiguous_def
  proof (intro allI impI)
    fix w x y
    assume w: "numbers_ok w" and eq: "render (JArr vs) @ x = render w @ y"
    from first_char_eq [OF JArr.prems w eq] first_char_cases [OF w] first_char_cases [OF JArr.prems]
    obtain ws where ws: "w = JArr ws" by auto
    have vok: "\<forall>v\<in>set vs. numbers_ok v" and wok: "\<forall>v\<in>set ws. numbers_ok v"
      using JArr.prems w ws by (auto simp: list_all_iff)
    have "vs = ws \<and> x = y"
    proof (rule list_inject [where p = render and close = "CHR '']''"])
      fix a b x y
      assume "a \<in> set vs" "b \<in> set ws" "delim x" "delim y" "render a @ x = render b @ y"
      with JArr.IH [of a] vok wok show "a = b \<and> x = y" by (auto dest: unambiguousD)
    next
      fix a assume "a \<in> set vs \<union> set ws"
      with vok wok show "render a \<noteq> [] \<and> hd (render a) \<notin> set '']}''" using first_char_open by blast
    next
      show "join '','' (map render vs) @ CHR '']'' # x = join '','' (map render ws) @ CHR '']'' # y"
        using eq ws by simp
    qed simp
    with ws show "JArr vs = w \<and> x = y" by simp
  qed
next
  case (JObj kvs)
  show ?case
    unfolding unambiguous_def
  proof (intro allI impI)
    fix w x y
    assume w: "numbers_ok w" and eq: "render (JObj kvs) @ x = render w @ y"
    from first_char_eq [OF JObj.prems w eq] first_char_cases [OF w] first_char_cases [OF JObj.prems]
    obtain lws where ws: "w = JObj lws" by auto
    have vok: "\<forall>p\<in>set kvs. numbers_ok (snd p)" and wok: "\<forall>p\<in>set lws. numbers_ok (snd p)"
      using JObj.prems w ws by (simp_all only: numbers_ok_object)
    have "kvs = lws \<and> x = y"
    proof (rule list_inject [where p = render_pair and close = "CHR ''}''"])
      fix a b x y
      assume ab: "a \<in> set kvs" "b \<in> set lws" "delim x" "delim y" "render_pair a @ x = render_pair b @ y"
      then have "json_string (fst a) @ ('':'' @ render (snd a) @ x) =
          json_string (fst b) @ ('':'' @ render (snd b) @ y)" by (simp add: render_pair_def)
      from json_string_inject [OF this] have fe: "fst a = fst b"
        "render (snd a) @ x = render (snd b) @ y" by simp_all
      have "unambiguous (snd a)"
        using JObj.IH [of a "snd a"] ab(1) vok by (cases a) auto
      from unambiguousD [OF this _ ab(3,4) fe(2)] wok ab(2) fe(1) show "a = b \<and> x = y"
        by (simp add: prod_eq_iff)
    next
      fix a assume "a \<in> set kvs \<union> set lws"
      show "render_pair a \<noteq> [] \<and> hd (render_pair a) \<notin> set '']}''"
        by (simp add: render_pair_def json_string_def)
    next
      show "join '','' (map render_pair kvs) @ CHR ''}'' # x =
          join '','' (map render_pair lws) @ CHR ''}'' # y"
        using eq ws by (simp add: render_object del: render.simps)
    qed simp
    with ws show "JObj kvs = w \<and> x = y" by simp
  qed
next
  case JNull
  show ?case
    unfolding unambiguous_def
  proof (intro allI impI)
    fix w x y assume w: "numbers_ok w" and eq: "render JNull @ x = render w @ y"
    have "first_char w = CHR ''n''"
      using first_char_eq [OF JNull w eq] by (simp add: first_char_def)
    with first_char_cases [OF w] have "w = JNull" by auto
    with eq show "JNull = w \<and> x = y" by simp
  qed
next
  case (JBool b)
  show ?case
    unfolding unambiguous_def
  proof (intro allI impI)
    fix w x y assume w: "numbers_ok w" and eq: "render (JBool b) @ x = render w @ y"
    have "first_char w = (if b then CHR ''t'' else CHR ''f'')"
      using first_char_eq [OF JBool w eq] by (simp add: first_char_def split: if_splits)
    with first_char_cases [OF w] have "w = JBool b" by (cases b) auto
    with eq show "JBool b = w \<and> x = y" by simp
  qed
qed

lemma render_inject: "numbers_ok v \<Longrightarrow> numbers_ok w \<Longrightarrow> render v = render w \<longleftrightarrow> v = w"
  using unambiguousD [OF render_unambiguous, of v w "[]" "[]"] by (auto simp: delim_def)

section \<open>Normal form\<close>

lemma norm_object_keys: "map fst (norm_object kvs) = sort (remdups (map fst kvs))"
  by (simp add: norm_object_def comp_def)

lemma norm_object_map: "map_of (norm_object kvs) = map_of (rev kvs)"
proof
  fix k :: string
  have *: "map_of (map (\<lambda>k. (k, f k)) ks) k = (if k \<in> set ks then Some (f k) else None)"
    for f :: "string \<Rightarrow> 'a" and ks :: "string list"
    by (induction ks) auto
  show "map_of (norm_object kvs) k = map_of (rev kvs) k"
  proof (cases "map_of (rev kvs) k")
    case None
    then have "k \<notin> fst ` set kvs" by (simp add: map_of_eq_None_iff)
    with None show ?thesis by (simp add: norm_object_def *)
  next
    case (Some v)
    then have "k \<in> fst ` set kvs" by (metis map_of_eq_None_iff option.distinct(1) set_rev)
    with Some show ?thesis by (simp add: norm_object_def *)
  qed
qed

text \<open>Two objects that are the same map have the same normal form.\<close>

lemma norm_object_cong:
  assumes "map_of (rev kvs) = map_of (rev lws)"
  shows "norm_object kvs = norm_object lws"
proof -
  have "fst ` set kvs = dom (map_of (rev kvs))" "fst ` set lws = dom (map_of (rev lws))"
    by (simp_all add: dom_map_of_conv_image_fst)
  then have "set (remdups (map fst kvs)) = set (remdups (map fst lws))" using assms by simp
  then have "mset (remdups (map fst kvs)) = mset (remdups (map fst lws))"
    by (metis distinct_remdups set_eq_iff_mset_eq_distinct)
  then have "sort (remdups (map fst kvs)) = sort (remdups (map fst lws))"
    by (metis properties_for_sort mset_sort sorted_sort)
  with assms show ?thesis by (simp add: norm_object_def)
qed

lemma norm_object_eq_iff: "norm_object kvs = norm_object lws \<longleftrightarrow> map_of (rev kvs) = map_of (rev lws)"
  using norm_object_cong norm_object_map by metis

lemma norm_object_in: "p \<in> set (norm_object kvs) \<Longrightarrow> p \<in> set kvs"
proof -
  assume p: "p \<in> set (norm_object kvs)"
  have "fst p \<in> set (map fst (norm_object kvs))" using p by simp
  then have k: "fst p \<in> fst ` set kvs" by (simp only: norm_object_keys set_sort set_remdups set_map)
  from p have v: "snd p = the (map_of (rev kvs) (fst p))" by (auto simp: norm_object_def)
  from k obtain x where "map_of (rev kvs) (fst p) = Some x"
    by (metis map_of_eq_None_iff option.exhaust set_rev)
  with v have "(fst p, snd p) \<in> set (rev kvs)" by (metis map_of_SomeD option.sel)
  then show ?thesis by simp
qed

lemma numbers_ok_norm: "numbers_ok v \<Longrightarrow> numbers_ok (norm v)"
proof (induction v)
  case (JObj kvs)
  have "numbers_ok (snd p)" if "p \<in> set (norm_object (map (map_prod id norm) kvs))" for p
  proof -
    from norm_object_in [OF that] obtain q where q: "q \<in> set kvs" "p = map_prod id norm q" by auto
    with JObj.prems have "numbers_ok (snd q)" by (simp only: numbers_ok_object)
    moreover have "snd q \<in> Basic_BNFs.snds q" by (cases q) simp
    ultimately have "numbers_ok (norm (snd q))" using JObj.IH [OF q(1)] by blast
    with q(2) show ?thesis by (cases q) simp
  qed
  then show ?case unfolding norm.simps numbers_ok_object by blast
next
  case (JArr vs)
  then show ?case by (simp add: list_all_iff)
qed simp_all

text \<open>The canonical encoding identifies exactly the trees with the same normal form.\<close>

lemma canonical_marshal_inject:
  "numbers_ok v \<Longrightarrow> numbers_ok w \<Longrightarrow> canonical_marshal v = canonical_marshal w \<longleftrightarrow> norm v = norm w"
  by (simp add: canonical_marshal_def render_inject numbers_ok_norm)

lemma canonical_hash_inject:
  assumes "inj_on sum256 {canonical_marshal v, canonical_marshal w}"
    and "numbers_ok v" and "numbers_ok w"
  shows "canonical_hash sum256 v = canonical_hash sum256 w \<longleftrightarrow> norm v = norm w"
proof -
  have "sum256 (canonical_marshal v) = sum256 (canonical_marshal w) \<longleftrightarrow>
      canonical_marshal v = canonical_marshal w"
    using assms(1) by (rule inj_on_eq_iff) simp_all
  then show ?thesis
    by (simp add: canonical_hash_def hash_bytes_def canonical_marshal_inject assms(2,3))
qed

section \<open>What a document denotes\<close>

text \<open>
  The specification: a document is a tree whose objects are finite maps. Two documents that
  denote the same tree differ in key order and in overwritten duplicates only.
\<close>

datatype tree =
  TNull | TBool bool | TNum string | TStr string | TArr "tree list"
| TObj "string \<Rightarrow> tree option"

primrec denote :: "cjson \<Rightarrow> tree" where
  "denote JNull = TNull"
| "denote (JBool b) = TBool b"
| "denote (JNum l) = TNum l"
| "denote (JStr s) = TStr s"
| "denote (JArr vs) = TArr (map denote vs)"
| "denote (JObj kvs) = TObj (map_of (rev (map (map_prod id denote) kvs)))"

lemma map_of_rev_map:
  "map_of (rev (map (map_prod id f) kvs)) k = map_option f (map_of (rev kvs) k)"
proof -
  have "map_of (map (map_prod id f) l) k = map_option f (map_of l k)" for l
    by (induction l) auto
  then show ?thesis by (simp add: rev_map)
qed

lemma norm_denote: "denote v = denote w \<Longrightarrow> norm v = norm w"
proof (induction v arbitrary: w)
  case (JArr vs)
  then obtain ws where w: "w = JArr ws" and eq: "map denote vs = map denote ws" by (cases w) auto
  have len: "length vs = length ws" using eq by (metis length_map)
  have "map norm vs = map norm ws"
  proof (rule nth_equalityI)
    fix i assume "i < length (map norm vs)"
    then have i: "i < length vs" by simp
    then have "denote (vs ! i) = denote (ws ! i)" using eq len by (metis nth_map)
    with JArr.IH [of "vs ! i" "ws ! i"] i len show "map norm vs ! i = map norm ws ! i" by simp
  qed (simp add: len)
  with w show ?case by simp
next
  case (JObj kvs)
  then obtain lws where w: "w = JObj lws" by (cases w) auto
  with JObj.prems have eq: "map_option denote (map_of (rev kvs) k) = map_option denote (map_of (rev lws) k)"
    for k by (simp add: map_of_rev_map [symmetric])
  have "map_of (rev (map (map_prod id norm) kvs)) k = map_of (rev (map (map_prod id norm) lws)) k" for k
  proof (cases "map_of (rev kvs) k")
    case None
    with eq [of k] show ?thesis by (simp add: map_of_rev_map)
  next
    case (Some a)
    with eq [of k] obtain b where b: "map_of (rev lws) k = Some b" and ab: "denote a = denote b"
      by (cases "map_of (rev lws) k") auto
    have "(k, a) \<in> set kvs" using map_of_SomeD [OF Some] by simp
    moreover have "a \<in> Basic_BNFs.snds (k, a)" by simp
    ultimately have "norm a = norm b" using JObj.IH ab by blast
    with Some b show ?thesis by (simp add: map_of_rev_map)
  qed
  then have "norm_object (map (map_prod id norm) kvs) = norm_object (map (map_prod id norm) lws)"
    by (intro norm_object_cong ext)
  with w show ?case by simp
next
  case (JBool b) then show ?case by (cases w) auto
next
  case (JNum l) then show ?case by (cases w) auto
next
  case (JStr s) then show ?case by (cases w) auto
next
  case JNull then show ?case by (cases w) auto
qed

lemma denote_norm: "denote (norm v) = denote v"
proof (induction v)
  case (JObj kvs)
  have norm_pairs: "map_of (rev (map (map_prod id denote) (norm_object l))) =
      map_of (rev (map (map_prod id denote) l))" for l
  proof
    fix k
    have "distinct (map fst (norm_object l))" by (simp add: norm_object_keys)
    then have "map_of (rev (norm_object l)) = map_of (norm_object l)"
      by (subst map_of_inject_set) (simp_all add: rev_map [symmetric])
    then show "map_of (rev (map (map_prod id denote) (norm_object l))) k =
        map_of (rev (map (map_prod id denote) l)) k"
      by (simp add: map_of_rev_map norm_object_map)
  qed
  have same: "map (map_prod id denote) (map (map_prod id norm) kvs) = map (map_prod id denote) kvs"
    unfolding map_map comp_def map_eq_conv
  proof
    fix z assume "z \<in> set kvs"
    moreover have "snd z \<in> Basic_BNFs.snds z" by (cases z) simp
    ultimately have "denote (norm (snd z)) = denote (snd z)" using JObj.IH by blast
    then show "map_prod id denote (map_prod id norm z) = map_prod id denote z" by (cases z) simp
  qed
  show ?case
    unfolding norm.simps denote.simps norm_pairs same ..
next
  case (JArr vs)
  then show ?case by simp
qed simp_all

text \<open>C18. The canonical encoding is exactly as fine as the meaning of a document: two documents
  are printed the same if and only if they denote the same tree. So neither key order nor
  field order changes a hash, and no two different values share an encoding.\<close>

theorem canonical_marshal_exact:
  assumes "numbers_ok v" and "numbers_ok w"
  shows "canonical_marshal v = canonical_marshal w \<longleftrightarrow> denote v = denote w"
  using canonical_marshal_inject [OF assms] norm_denote [of v w] denote_norm [of v] denote_norm [of w]
  by metis

definition sample_doc :: "string list \<Rightarrow> cjson" where
  "sample_doc ks = JObj (map (\<lambda>k. (k, JNum ''0.01'')) ks)"

theorem canonical_marshal_exact_witness:
  "canonical_marshal (sample_doc [''b'', ''a'']) = canonical_marshal (sample_doc [''a'', ''b'']) \<and>
   canonical_marshal (sample_doc [''b'', ''a'']) = CHR ''{'' # CHR 0x22 # ''a'' @ CHR 0x22 # '':0.01,'' @
     CHR 0x22 # ''b'' @ CHR 0x22 # '':0.01}'' \<and>
   denote (sample_doc [''b'', ''a'']) = denote (sample_doc [''a'', ''b''])"
proof -
  have ok: "numbers_ok (sample_doc [''b'', ''a''])" "numbers_ok (sample_doc [''a'', ''b''])"
    by code_simp+
  have "canonical_marshal (sample_doc [''b'', ''a'']) = CHR ''{'' # CHR 0x22 # ''a'' @ CHR 0x22 # '':0.01,'' @
     CHR 0x22 # ''b'' @ CHR 0x22 # '':0.01}''"
    "canonical_marshal (sample_doc [''b'', ''a'']) = canonical_marshal (sample_doc [''a'', ''b''])"
    by code_simp+
  with canonical_marshal_exact [OF ok] show ?thesis by simp
qed

end
