(* ===== verification/ContentStore.thy ===== *)
theory ContentStore
  imports Prelude
begin

text \<open>
  The two interfaces the engine stores node results through, and what follows from their
  laws alone: a store of contents under names derived from them, and an index of entries by
  key. \<open>ArtifactStore\<close> and \<open>CacheStore\<close> show that the code's models obey the laws. A write
  happens on an occasion \<open>w\<close> (the faults of its system calls, the clock, ...) and may fail.
\<close>

section \<open>Contents under their own names\<close>

locale content_store =
  fixes put :: "'w \<Rightarrow> 'c \<Rightarrow> 's \<Rightarrow> 'k option \<times> 's"
    and get :: "'k \<Rightarrow> 's \<Rightarrow> 'c option"
    and name_of :: "'c \<Rightarrow> 'k"
    and inv :: "'s \<Rightarrow> bool"
  assumes put_name: "inv s \<Longrightarrow> put w c s = (Some k, s') \<Longrightarrow> k = name_of c \<and> get k s' \<noteq> None"
    and put_keeps: "inv s \<Longrightarrow> get k s = Some b \<Longrightarrow> get k (snd (put w c s)) = Some b"
    and put_adds: "inv s \<Longrightarrow> get k (snd (put w c s)) = Some b \<Longrightarrow>
      get k s = Some b \<or> k = name_of c \<and> b = c \<and> fst (put w c s) = Some k"
    and inv_put: "inv s \<Longrightarrow> inv (snd (put w c s))"
    and get_name: "inv s \<Longrightarrow> get k s = Some b \<Longrightarrow> k = name_of b"
begin

primrec puts :: "('w \<times> 'c) list \<Rightarrow> 's \<Rightarrow> 's" where
  "puts [] s = s"
| "puts (p # ps) s = puts ps (snd (put (fst p) (snd p) s))"

lemma inv_puts: "inv s \<Longrightarrow> inv (puts ps s)"
  by (induction ps arbitrary: s) (simp_all add: inv_put)

lemma puts_keep: "inv s \<Longrightarrow> get k s = Some b \<Longrightarrow> get k (puts ps s) = Some b"
  by (induction ps arbitrary: s) (simp_all add: inv_put put_keeps)

text \<open>A content that no other content shares its name with is what its name retrieves, from
  the moment it was stored and after any further writes.\<close>

lemma put_get:
  assumes "inv s" and "put w c s = (Some k, s')" and "\<And>b. name_of b = name_of c \<Longrightarrow> b = c"
  shows "get k s' = Some c"
proof -
  from put_name [OF assms(1,2)] obtain b where k: "k = name_of c" and b: "get k s' = Some b" by auto
  have "inv s'" using inv_put [OF assms(1), of w c] assms(2) by simp
  from get_name [OF this b] k assms(3) have "b = c" by simp
  with b show ?thesis by simp
qed

lemma put_get_later:
  assumes "inv s" and "put w c s = (Some k, s')" and "\<And>b. name_of b = name_of c \<Longrightarrow> b = c"
  shows "get k (puts ps s') = Some c"
proof -
  have "inv s'" using inv_put [OF assms(1), of w c] assms(2) by simp
  then show ?thesis using puts_keep put_get [OF assms] by blast
qed

text \<open>Storing what is stored already changes nothing that can be read.\<close>

lemma put_idem:
  assumes "inv s" and "get (name_of c) s = Some c"
  shows "get k (snd (put w c s)) = get k s"
proof (cases "get k s")
  case (Some b)
  with put_keeps [OF assms(1)] show ?thesis by simp
next
  case None
  show ?thesis
  proof (cases "get k (snd (put w c s))")
    case (Some b)
    with put_adds [OF assms(1) Some] None assms(2) show ?thesis by auto
  qed (simp add: None)
qed

end

section \<open>An index of entries\<close>

locale key_index =
  fixes lookup :: "'q \<Rightarrow> 'i \<Rightarrow> 'e option"
    and insert :: "'e \<Rightarrow> 'i \<Rightarrow> 'i"
    and delete :: "'q list \<Rightarrow> 'i \<Rightarrow> 'i"
    and key_of :: "'e \<Rightarrow> 'q"
    and ok :: "'i \<Rightarrow> bool"
  assumes lookup_insert: "ok i \<Longrightarrow> lookup q (insert e i) = (if q = key_of e then Some e else lookup q i)"
    and lookup_delete: "ok i \<Longrightarrow> lookup q (delete qs i) = (if q \<in> set qs then None else lookup q i)"
    and ok_insert: "ok i \<Longrightarrow> ok (insert e i)"
    and ok_delete: "ok i \<Longrightarrow> ok (delete qs i)"
begin

lemma insert_twice:
  "ok i \<Longrightarrow> key_of e = key_of e' \<Longrightarrow> lookup q (insert e (insert e' i)) = lookup q (insert e i)"
  by (simp add: lookup_insert ok_insert)

lemma insert_commute:
  "ok i \<Longrightarrow> key_of e \<noteq> key_of e' \<Longrightarrow>
   lookup q (insert e (insert e' i)) = lookup q (insert e' (insert e i))"
  by (auto simp: lookup_insert ok_insert)

lemma delete_insert:
  "ok i \<Longrightarrow> key_of e \<in> set qs \<Longrightarrow> lookup q (delete qs (insert e i)) = lookup q (delete qs i)"
  by (simp add: lookup_insert lookup_delete ok_insert)

end

section \<open>A cache: an index into a store\<close>

locale node_cache = content_store put get name_of inv + key_index lookup insert delete key_of ok
  for put :: "'w \<Rightarrow> 'c \<Rightarrow> 's \<Rightarrow> 'k option \<times> 's" and get name_of inv
    and lookup :: "'q \<Rightarrow> 'i \<Rightarrow> 'e option" and insert delete key_of ok +
  fixes entry_name :: "'e \<Rightarrow> 'k"
begin

definition serve :: "'q \<Rightarrow> 's \<Rightarrow> 'i \<Rightarrow> 'c option" where
  "serve q s i = (case lookup q i of None \<Rightarrow> None | Some e \<Rightarrow> get (entry_name e) s)"

text \<open>Once a content is stored and its entry recorded, the key is served with that content,
  whatever else is stored and recorded under other keys.\<close>

lemma serve_recorded:
  assumes "inv s" and "put w c s = (Some k, s')" and "\<And>b. name_of b = name_of c \<Longrightarrow> b = c"
    and "entry_name e = k" and "ok i" and "lookup (key_of e) i' = lookup (key_of e) (insert e i)"
  shows "serve (key_of e) (puts ps s') i' = Some c"
  using put_get_later [OF assms(1-3)] assms(4-6) by (simp add: serve_def lookup_insert)

lemma serve_deleted: "ok i \<Longrightarrow> q \<in> set qs \<Longrightarrow> serve q s (delete qs i) = None"
  by (simp add: serve_def lookup_delete)

text \<open>A served content always has the name its entry records.\<close>

lemma serve_name:
  "inv s \<Longrightarrow> lookup q i = Some e \<Longrightarrow> serve q s i = Some c \<Longrightarrow> entry_name e = name_of c"
  using get_name by (fastforce simp: serve_def)

end

end
