(* ===== verification/ArtifactStore.thy ===== *)
theory ArtifactStore
  imports Canonical ContentStore "HOL-Library.AList"
begin

text \<open>
  \<open>core/store\<close>: the content-addressed artifact store. Its directory is a list of files;
  names starting with \<open>tmp-\<close> are writes in progress, every other name is the hash of the
  content. Each system call can fail: \<open>fault\<close> tells which of the calls of one operation do,
  so every error path of the source is a branch of the model. A reader is the list of its
  \<open>Read\<close> results. Sizes are exact integers (an \<open>int64\<close> of bytes on disk does not wrap).
\<close>

section \<open>The directory\<close>

record stored_file =
  sf_content :: bytes
  sf_mtime :: int

record art_store =
  as_max_artifact :: int
  as_max_total :: int
  as_files :: "(string \<times> stored_file) list"

definition default_max_artifact :: int where
  "default_max_artifact = 33554432"

definition default_max_total :: int where
  "default_max_total = 1073741824"

definition limit_preview_bytes :: nat where
  "limit_preview_bytes = 1024"

datatype store_option = WithMaxArtifactBytes int | WithMaxTotalBytes int

fun apply_store_option :: "store_option \<Rightarrow> art_store \<Rightarrow> art_store" where
  "apply_store_option (WithMaxArtifactBytes n) s = s\<lparr>as_max_artifact := n\<rparr>"
| "apply_store_option (WithMaxTotalBytes n) s = s\<lparr>as_max_total := n\<rparr>"

definition new_store :: "store_option list \<Rightarrow> (string \<times> stored_file) list \<Rightarrow> art_store" where
  "new_store opts files =
     fold apply_store_option opts
       \<lparr>as_max_artifact = default_max_artifact, as_max_total = default_max_total, as_files = files\<rparr>"

datatype fs_op =
  OpMkdir | OpCreateTemp | OpWrite nat | OpStat | OpReadDir | OpInfo string | OpClose
| OpRename | OpRead | OpRemove string

type_synonym faults = "fs_op \<Rightarrow> err option"

definition tmp_prefix :: string where
  "tmp_prefix = ''tmp-''"

definition is_tmp :: "string \<Rightarrow> bool" where
  "is_tmp name = has_prefix name tmp_prefix"

definition lookup_file :: "string \<Rightarrow> art_store \<Rightarrow> stored_file option" where
  "lookup_file name s = map_of (as_files s) name"

definition write_file :: "string \<Rightarrow> stored_file \<Rightarrow> art_store \<Rightarrow> art_store" where
  "write_file name f s = s\<lparr>as_files := AList.update name f (as_files s)\<rparr>"

definition remove_file :: "string \<Rightarrow> art_store \<Rightarrow> art_store" where
  "remove_file name s = s\<lparr>as_files := AList.delete name (as_files s)\<rparr>"

definition rename_file :: "string \<Rightarrow> string \<Rightarrow> art_store \<Rightarrow> art_store" where
  "rename_file old new s =
     (case lookup_file old s of
        None \<Rightarrow> s
      | Some f \<Rightarrow> write_file new f (remove_file old s))"

definition stat_file :: "faults \<Rightarrow> string \<Rightarrow> art_store \<Rightarrow> err + stored_file" where
  "stat_file fault name s =
     (case fault OpStat of
        Some e \<Rightarrow> Inl e
      | None \<Rightarrow>
          (case lookup_file name s of None \<Rightarrow> Inl (ESentinel ErrNotExist) | Some f \<Rightarrow> Inr f))"

text \<open>\<open>os.ReadDir\<close>: the entries in the order of their names.\<close>

definition read_dir :: "faults \<Rightarrow> art_store \<Rightarrow> err + (string \<times> stored_file) list" where
  "read_dir fault s =
     (case fault OpReadDir of
        Some e \<Rightarrow> Inl e
      | None \<Rightarrow> Inr (sort_key fst (as_files s)))"

section \<open>Streaming\<close>

text \<open>What one \<open>Read\<close> returned beside its bytes: nil, \<open>io.EOF\<close> or another error.\<close>

datatype read_end = ReadMore | ReadEOF | ReadErr err

type_synonym reader = "(bytes \<times> read_end) list"

definition read_buf :: nat where
  "read_buf = 32768"

function bytes_reader :: "bytes \<Rightarrow> reader" where
  "bytes_reader [] = [([], ReadEOF)]"
| "bytes_reader (c # b) = (take read_buf (c # b), ReadMore) # bytes_reader (drop read_buf (c # b))"
  by pat_completeness auto
termination by (relation "measure length") (auto simp: read_buf_def)

text \<open>The hasher has seen \<open>hashed\<close>; \<open>tmp\<close> is the temporary file; \<open>i\<close> counts the writes.\<close>

record stream_state =
  ss_hashed :: bytes
  ss_total :: int
  ss_preview :: bytes
  ss_tmp :: bytes

definition stream_init :: stream_state where
  "stream_init = \<lparr>ss_hashed = [], ss_total = 0, ss_preview = [], ss_tmp = []\<rparr>"

definition stream_hash_chunk :: "bytes \<Rightarrow> stream_state \<Rightarrow> stream_state" where
  "stream_hash_chunk chunk st =
     st\<lparr>ss_hashed := ss_hashed st @ chunk, ss_total := ss_total st + int (length chunk),
        ss_preview :=
          (if length (ss_preview st) < limit_preview_bytes
           then ss_preview st @ take (limit_preview_bytes - length (ss_preview st)) chunk
           else ss_preview st)\<rparr>"

fun stream_to_temp ::
  "faults \<Rightarrow> int \<Rightarrow> nat \<Rightarrow> reader \<Rightarrow> stream_state \<Rightarrow> (err option \<times> stream_state)" where
  "stream_to_temp fault limit i [] st = (None, st)"
| "stream_to_temp fault limit i ((chunk, ending) # rest) st =
     (let continue = (\<lambda>st'. case ending of
                ReadEOF \<Rightarrow> (None, st')
              | ReadErr e \<Rightarrow> (Some (errorf ''store: read artifact stream: '' e []), st')
              | ReadMore \<Rightarrow> stream_to_temp fault limit (Suc i) rest st')
      in if chunk = [] then continue st
         else let st1 = stream_hash_chunk chunk st in
           if limit \<le> 0 \<or> ss_total st1 \<le> limit
           then (case fault (OpWrite i) of
                   Some e \<Rightarrow> (Some (errorf ''store: write: '' e []), st1)
                 | None \<Rightarrow> continue (st1\<lparr>ss_tmp := ss_tmp st1 @ chunk\<rparr>))
           else (None, st1))"

definition preview :: "bytes \<Rightarrow> nat \<Rightarrow> string" where
  "preview content n =
     (if content = [] then []
      else let s = trim_space (take n content) in
        if s = [] then ''<binary or whitespace>''
        else if 300 < length s then take 300 s @ ''...'' else s)"

section \<open>Operations\<close>

fun sum_sizes :: "faults \<Rightarrow> (string \<times> stored_file) list \<Rightarrow> int \<Rightarrow> err + int" where
  "sum_sizes fault [] used = Inr used"
| "sum_sizes fault ((name, f) # rest) used =
     (if is_tmp name then sum_sizes fault rest used
      else case fault (OpInfo name) of
        Some e \<Rightarrow> Inl (errorf (''store: quota stat '' @ name @ '': '') e [])
      | None \<Rightarrow> sum_sizes fault rest (used + int (length (sf_content f))))"

definition total_bytes :: "faults \<Rightarrow> art_store \<Rightarrow> err + int" where
  "total_bytes fault s =
     (case read_dir fault s of
        Inl e \<Rightarrow> if is_err ErrNotExist e then Inr 0 else Inl (errorf ''store: quota read dir: '' e [])
      | Inr entries \<Rightarrow> sum_sizes fault entries 0)"

definition check_total_quota :: "faults \<Rightarrow> string \<Rightarrow> int \<Rightarrow> art_store \<Rightarrow> err option" where
  "check_total_quota fault incoming_hash incoming s =
     (if as_max_total s \<le> 0 then None
      else case total_bytes fault s of
        Inl e \<Rightarrow> Some e
      | Inr used \<Rightarrow>
          if used + incoming \<le> as_max_total s then None
          else Some (ELimit ''artifact_quota_exceeded'' (as_max_total s) (used + incoming)
                 (''incoming artifact '' @ incoming_hash @ '' would add '' @ itoa incoming @
                  '' bytes to '' @ itoa used @ '' bytes already stored'')))"

text \<open>
  The commit half of \<open>PutReader\<close>: \<open>hash\<close> and \<open>n\<close> of the streamed content, which is in the
  temporary file \<open>tmp\<close>.
\<close>

definition commit_temp ::
  "faults \<Rightarrow> string \<Rightarrow> string \<Rightarrow> int \<Rightarrow> art_store \<Rightarrow> (err + string) \<times> art_store" where
  "commit_temp fault tmp hash n s =
     (let commit =
        (case check_total_quota fault hash n s of
           Some e \<Rightarrow> (Inl e, s)
         | None \<Rightarrow>
             (case fault OpClose of
                Some e \<Rightarrow> (Inl (errorf ''store: close: '' e []), s)
              | None \<Rightarrow>
                  (case fault OpRename of
                     Some e \<Rightarrow> (Inl (errorf (''store: commit '' @ hash @ '': '') e []), s)
                   | None \<Rightarrow> (Inr hash, rename_file tmp hash s))))
      in case stat_file fault hash s of
           Inr f \<Rightarrow> (Inr hash, s)
         | Inl e \<Rightarrow>
             if is_err ErrNotExist e then commit
             else (Inl (errorf (''store: stat '' @ hash @ '': '') e []), s))"

text \<open>The deferred \<open>os.Remove\<close>; its error is ignored.\<close>

definition remove_temp :: "faults \<Rightarrow> string \<Rightarrow> art_store \<Rightarrow> art_store" where
  "remove_temp fault tmp s = (case fault (OpRemove tmp) of None \<Rightarrow> remove_file tmp s | Some e \<Rightarrow> s)"

definition put_reader ::
  "(bytes \<Rightarrow> bytes) \<Rightarrow> faults \<Rightarrow> string \<Rightarrow> int \<Rightarrow> reader \<Rightarrow> art_store \<Rightarrow> (err + string) \<times> art_store" where
  "put_reader sum256 fault sfx now r s =
     (case fault OpMkdir of
        Some e \<Rightarrow> (Inl (errorf ''store: create dir: '' e []), s)
      | None \<Rightarrow>
          (case fault OpCreateTemp of
             Some e \<Rightarrow> (Inl (errorf ''store: temp file: '' e []), s)
           | None \<Rightarrow>
               let tmp = tmp_prefix @ sfx;
                   (failed, st) = stream_to_temp fault (as_max_artifact s) 0 r stream_init;
                   s1 = write_file tmp \<lparr>sf_content = ss_tmp st, sf_mtime = now\<rparr> s;
                   (res, s2) =
                     (case failed of
                        Some e \<Rightarrow> (Inl e, s1)
                      | None \<Rightarrow>
                          if 0 < as_max_artifact s \<and> as_max_artifact s < ss_total st
                          then (Inl (ELimit ''artifact_too_large'' (as_max_artifact s) (ss_total st)
                                  (preview (ss_preview st) limit_preview_bytes)), s1)
                          else commit_temp fault tmp (hash_bytes sum256 (ss_hashed st)) (ss_total st) s1)
               in (res, remove_temp fault tmp s2)))"

definition put ::
  "(bytes \<Rightarrow> bytes) \<Rightarrow> faults \<Rightarrow> string \<Rightarrow> int \<Rightarrow> bytes \<Rightarrow> art_store \<Rightarrow> (err + string) \<times> art_store" where
  "put sum256 fault sfx now content s = put_reader sum256 fault sfx now (bytes_reader content) s"

definition get_artifact :: "faults \<Rightarrow> string \<Rightarrow> art_store \<Rightarrow> err + bytes" where
  "get_artifact fault hash s =
     (case fault OpRead of
        Some e \<Rightarrow>
          Inl (if is_err ErrNotExist e then EMsg (''store: artifact '' @ hash @ '' not found'')
               else errorf (''store: read '' @ hash @ '': '') e [])
      | None \<Rightarrow>
          (case lookup_file hash s of
             None \<Rightarrow> Inl (EMsg (''store: artifact '' @ hash @ '' not found''))
           | Some f \<Rightarrow> Inr (sf_content f)))"

definition has_artifact :: "faults \<Rightarrow> string \<Rightarrow> art_store \<Rightarrow> bool" where
  "has_artifact fault hash s = (case stat_file fault hash s of Inl e \<Rightarrow> False | Inr f \<Rightarrow> True)"

section \<open>Garbage collection\<close>

record gc_stats =
  gc_removed_files :: int
  gc_removed_bytes :: int
  gc_kept_files :: int
  gc_kept_bytes :: int

definition zero_stats :: gc_stats where
  "zero_stats = \<lparr>gc_removed_files = 0, gc_removed_bytes = 0, gc_kept_files = 0, gc_kept_bytes = 0\<rparr>"

text \<open>\<open>cutoff\<close> is \<open>None\<close> for the zero time.\<close>

definition gc_keeps :: "(string \<Rightarrow> bool) \<Rightarrow> int option \<Rightarrow> string \<Rightarrow> stored_file \<Rightarrow> bool" where
  "gc_keeps keep cutoff name f =
     (keep name \<or> (case cutoff of None \<Rightarrow> False | Some t \<Rightarrow> \<not> sf_mtime f < t))"

fun gc_entries ::
  "faults \<Rightarrow> (string \<Rightarrow> bool) \<Rightarrow> int option \<Rightarrow> (string \<times> stored_file) list \<Rightarrow> gc_stats \<Rightarrow> art_store \<Rightarrow>
     gc_stats \<times> err option \<times> art_store" where
  "gc_entries fault keep cutoff [] stats s = (stats, None, s)"
| "gc_entries fault keep cutoff ((name, f) # rest) stats s =
     (let size = int (length (sf_content f)) in
      if is_tmp name then gc_entries fault keep cutoff rest stats s
      else case fault (OpInfo name) of
        Some e \<Rightarrow> (stats, Some (errorf (''store: gc stat '' @ name @ '': '') e []), s)
      | None \<Rightarrow>
          if gc_keeps keep cutoff name f
          then gc_entries fault keep cutoff rest
                 (stats\<lparr>gc_kept_files := gc_kept_files stats + 1,
                        gc_kept_bytes := gc_kept_bytes stats + size\<rparr>) s
          else (case fault (OpRemove name) of
             Some e \<Rightarrow> (stats, Some (errorf (''store: gc remove '' @ name @ '': '') e []), s)
           | None \<Rightarrow>
               gc_entries fault keep cutoff rest
                 (stats\<lparr>gc_removed_files := gc_removed_files stats + 1,
                        gc_removed_bytes := gc_removed_bytes stats + size\<rparr>) (remove_file name s)))"

definition garbage_collect ::
  "faults \<Rightarrow> (string \<Rightarrow> bool) \<Rightarrow> int option \<Rightarrow> art_store \<Rightarrow> gc_stats \<times> err option \<times> art_store" where
  "garbage_collect fault keep cutoff s =
     (case read_dir fault s of
        Inl e \<Rightarrow>
          (zero_stats,
           if is_err ErrNotExist e then None else Some (errorf ''store: gc read dir: '' e []), s)
      | Inr entries \<Rightarrow> gc_entries fault keep cutoff entries zero_stats s)"

section \<open>The file list as a map\<close>

lemma lookup_write [simp]:
  "lookup_file n (write_file m f s) = (if n = m then Some f else lookup_file n s)"
  by (simp add: lookup_file_def write_file_def update_conv')

lemma lookup_remove [simp]:
  "lookup_file n (remove_file m s) = (if n = m then None else lookup_file n s)"
  by (simp add: lookup_file_def remove_file_def delete_conv')

lemma lookup_rename:
  "lookup_file old s = Some f \<Longrightarrow>
   lookup_file n (rename_file old new s) =
     (if n = new then Some f else if n = old then None else lookup_file n s)"
  by (simp add: rename_file_def)

lemma file_limits [simp]:
  "as_max_artifact (write_file n f s) = as_max_artifact s"
  "as_max_total (write_file n f s) = as_max_total s"
  "as_max_artifact (remove_file n s) = as_max_artifact s"
  "as_max_total (remove_file n s) = as_max_total s"
  "as_max_artifact (rename_file n m s) = as_max_artifact s"
  "as_max_total (rename_file n m s) = as_max_total s"
  by (simp_all add: write_file_def remove_file_def rename_file_def split: option.splits)

text \<open>What the store promises to hold: the committed contents by name.\<close>

definition artifacts :: "art_store \<Rightarrow> string \<Rightarrow> bytes option" where
  "artifacts s name = (if is_tmp name then None else map_option sf_content (lookup_file name s))"

lemma tmp_name [simp]: "is_tmp (tmp_prefix @ sfx)"
  by (simp add: is_tmp_def)

lemma hash_not_tmp [simp]: "\<not> is_tmp (hash_bytes sum256 b)"
proof
  assume "is_tmp (hash_bytes sum256 b)"
  then have "CHR ''t'' \<in> set (hash_bytes sum256 b)"
    by (auto simp: is_tmp_def tmp_prefix_def has_prefix_iff)
  from hash_bytes_chars [OF this] show False by simp
qed

lemma artifacts_tmp [simp]:
  "is_tmp n \<Longrightarrow> artifacts (write_file n f s) = artifacts s"
  "is_tmp n \<Longrightarrow> artifacts (remove_file n s) = artifacts s"
  by (auto simp: artifacts_def fun_eq_iff)

lemma artifacts_remove_temp [simp]: "is_tmp n \<Longrightarrow> artifacts (remove_temp fault n s) = artifacts s"
  by (simp add: remove_temp_def split: option.splits)

lemma artifacts_commit:
  assumes "lookup_file tmp s = Some f" and "is_tmp tmp" and "\<not> is_tmp h"
  shows "artifacts (rename_file tmp h s) = (artifacts s)(h \<mapsto> sf_content f)"
  using assms lookup_rename [OF assms(1)] by (auto simp: artifacts_def fun_eq_iff)

section \<open>Streaming does not depend on how the reads fall\<close>

fun stream_content :: "reader \<Rightarrow> bytes" where
  "stream_content [] = []"
| "stream_content ((chunk, ReadMore) # rest) = chunk @ stream_content rest"
| "stream_content ((chunk, _) # rest) = chunk"

fun stream_fault :: "reader \<Rightarrow> bool" where
  "stream_fault [] = False"
| "stream_fault ((chunk, ReadMore) # rest) = stream_fault rest"
| "stream_fault ((chunk, ReadEOF) # rest) = False"
| "stream_fault ((chunk, ReadErr e) # rest) = True"

lemma stream_content_bytes [simp]: "stream_content (bytes_reader b) = b"
  by (induction b rule: bytes_reader.induct) (simp_all del: take_Suc_Cons drop_Suc_Cons)

lemma bytes_reader_short:
  "b \<noteq> [] \<Longrightarrow> length b \<le> read_buf \<Longrightarrow> bytes_reader b = [(b, ReadMore), ([], ReadEOF)]"
  by (cases b) (simp_all del: take_Suc_Cons drop_Suc_Cons)

lemma stream_fault_bytes [simp]: "\<not> stream_fault (bytes_reader b)"
  by (induction b rule: bytes_reader.induct) simp_all

definition stream_inv :: "stream_state \<Rightarrow> bool" where
  "stream_inv st \<longleftrightarrow> ss_total st = int (length (ss_hashed st)) \<and> ss_tmp st = ss_hashed st"

lemma stream_inv_init [simp]: "stream_inv stream_init"
  by (simp add: stream_inv_def stream_init_def)

lemma stream_chunk [simp]:
  "ss_hashed (stream_hash_chunk c st) = ss_hashed st @ c"
  "ss_total (stream_hash_chunk c st) = ss_total st + int (length c)"
  "ss_tmp (stream_hash_chunk c st) = ss_tmp st"
  by (simp_all add: stream_hash_chunk_def)

text \<open>A stream that ends without error under the limit was hashed and written to its end.\<close>

lemma stream_complete:
  assumes "stream_to_temp fault limit i r st = (None, st')" and "stream_inv st"
    and "limit \<le> 0 \<or> ss_total st' \<le> limit"
  shows "ss_hashed st' = ss_hashed st @ stream_content r \<and> stream_inv st' \<and> \<not> stream_fault r"
  using assms
proof (induction fault limit i r st rule: stream_to_temp.induct)
  case (2 fault limit i chunk ending rest st)
  let ?st1 = "stream_hash_chunk chunk st"
  let ?st2 = "?st1\<lparr>ss_tmp := ss_tmp ?st1 @ chunk\<rparr>"
  have inv2: "stream_inv ?st2" using "2.prems"(2) by (simp add: stream_inv_def)
  show ?case
  proof (cases "chunk = []")
    case True
    with 2 show ?thesis by (cases ending) (auto simp: Let_def)
  next
    case False
    show ?thesis
    proof (cases "limit \<le> 0 \<or> ss_total ?st1 \<le> limit")
      case fits: True
      with False "2.prems"(1) have nf: "fault (OpWrite i) = None"
        by (cases "fault (OpWrite i)") (auto simp: Let_def)
      show ?thesis
      proof (cases ending)
        case ReadMore
        with "2.prems"(1) False fits nf have run: "stream_to_temp fault limit (Suc i) rest ?st2 = (None, st')"
          by (auto simp: Let_def)
        from "2.IH" [OF ReadMore run inv2 "2.prems"(3)] ReadMore show ?thesis
          by simp
      next
        case ReadEOF
        with "2.prems"(1) False fits nf have "st' = ?st2" by (auto simp: Let_def)
        with ReadEOF inv2 show ?thesis by simp
      next
        case (ReadErr e)
        with "2.prems"(1) False fits nf show ?thesis by (auto simp: Let_def)
      qed
    next
      case over: False
      with "2.prems"(1) False have "st' = ?st1" by (auto simp: Let_def)
      with over "2.prems"(3) show ?thesis by simp
    qed
  qed
qed simp

text \<open>The other way: with no write fault, a readable stream within the limit is taken whole.\<close>

lemma stream_accepts:
  assumes "\<not> stream_fault r" and "\<And>j. fault (OpWrite j) = None"
  shows "fst (stream_to_temp fault limit i r st) = None"
  using assms(1)
proof (induction fault\<equiv>fault limit i r st rule: stream_to_temp.induct)
  case (2 limit i chunk ending rest st)
  then show ?case by (cases ending) (auto simp: Let_def assms(2))
qed simp

lemma stream_total_bound:
  assumes "stream_to_temp fault limit i r st = (None, st')"
  shows "ss_total st' \<le> ss_total st + int (length (stream_content r))"
  using assms
proof (induction fault limit i r st rule: stream_to_temp.induct)
  case (2 fault limit i chunk ending rest st)
  let ?st1 = "stream_hash_chunk chunk st"
  let ?st2 = "?st1\<lparr>ss_tmp := ss_tmp ?st1 @ chunk\<rparr>"
  have len: "int (length (stream_content ((chunk, ending) # rest))) =
      int (length chunk) + (if ending = ReadMore then int (length (stream_content rest)) else 0)"
    by (cases ending) simp_all
  show ?case
  proof (cases "chunk = []")
    case True
    with 2 show ?thesis by (cases ending) (auto simp: Let_def)
  next
    case False
    show ?thesis
    proof (cases "limit \<le> 0 \<or> ss_total ?st1 \<le> limit")
      case fits: True
      with False "2.prems"(1) have nf: "fault (OpWrite i) = None"
        by (cases "fault (OpWrite i)") (auto simp: Let_def)
      show ?thesis
      proof (cases ending)
        case ReadMore
        with "2.prems"(1) False fits nf have run: "stream_to_temp fault limit (Suc i) rest ?st2 = (None, st')"
          by (auto simp: Let_def)
        from "2.IH" [OF ReadMore run] len ReadMore show ?thesis
          by simp
      qed (use "2.prems"(1) False fits nf len in \<open>auto simp: Let_def\<close>)
    next
      case over: False
      with "2.prems"(1) False have "st' = ?st1" by (auto simp: Let_def)
      with len show ?thesis by simp
    qed
  qed
qed simp

section \<open>What a put does\<close>

lemma lookup_commit_stat:
  "stat_file fault h s = Inr f \<Longrightarrow> lookup_file h s = Some f"
  by (simp add: stat_file_def split: option.splits)

lemma commit_temp_success:
  assumes "commit_temp fault tmp h n s = (Inr h', s')"
  shows "h' = h \<and> ((\<exists>f. lookup_file h s = Some f) \<and> s' = s \<or>
    check_total_quota fault h n s = None \<and> s' = rename_file tmp h s \<and>
    (fault OpStat = None \<longrightarrow> lookup_file h s = None))"
proof (cases "stat_file fault h s")
  case (Inr f)
  with assms lookup_commit_stat [OF Inr] show ?thesis by (simp add: commit_temp_def Let_def)
next
  case (Inl e)
  then have "fault OpStat = None \<longrightarrow> lookup_file h s = None"
    by (auto simp: stat_file_def split: option.splits)
  moreover have "h' = h \<and> check_total_quota fault h n s = None \<and> s' = rename_file tmp h s"
    using assms Inl by (auto simp: commit_temp_def Let_def split: option.splits if_splits)
  ultimately show ?thesis by blast
qed

lemma commit_temp_failure:
  "commit_temp fault tmp h n s = (Inl e, s') \<Longrightarrow> s' = s"
  by (auto simp: commit_temp_def Let_def split: option.splits sum.splits if_splits)

text \<open>The run of one put up to the commit, named once for the proofs below.\<close>

lemma put_reader_success:
  assumes "put_reader sum256 fault sfx now r s = (Inr h, s')"
  obtains st where
    "stream_to_temp fault (as_max_artifact s) 0 r stream_init = (None, st)"
    "as_max_artifact s \<le> 0 \<or> ss_total st \<le> as_max_artifact s"
    "h = hash_bytes sum256 (ss_hashed st)"
    "\<exists>s2. commit_temp fault (tmp_prefix @ sfx) h (ss_total st)
         (write_file (tmp_prefix @ sfx) \<lparr>sf_content = ss_tmp st, sf_mtime = now\<rparr> s) = (Inr h, s2) \<and>
       s' = remove_temp fault (tmp_prefix @ sfx) s2"
proof -
  obtain failed st where run: "stream_to_temp fault (as_max_artifact s) 0 r stream_init = (failed, st)"
    by (cases "stream_to_temp fault (as_max_artifact s) 0 r stream_init")
  let ?tmp = "tmp_prefix @ sfx"
  let ?s1 = "write_file ?tmp \<lparr>sf_content = ss_tmp st, sf_mtime = now\<rparr> s"
  let ?h = "hash_bytes sum256 (ss_hashed st)"
  obtain res s2 where c: "commit_temp fault ?tmp ?h (ss_total st) ?s1 = (res, s2)"
    by (cases "commit_temp fault ?tmp ?h (ss_total st) ?s1")
  have f: "failed = None" and fit: "as_max_artifact s \<le> 0 \<or> ss_total st \<le> as_max_artifact s"
    and r: "res = Inr h" "s' = remove_temp fault ?tmp s2"
    using assms run c
    by (auto simp: put_reader_def Let_def not_less split: option.splits if_splits)
  from commit_temp_success [OF c [unfolded r(1)]] have "h = ?h" by blast
  with that run f fit r c show ?thesis by blast
qed

lemma put_reader_error:
  assumes "put_reader sum256 fault sfx now r s = (Inl e, s')"
  shows "s' = s \<or> (\<exists>f. s' = remove_temp fault (tmp_prefix @ sfx) (write_file (tmp_prefix @ sfx) f s))"
proof -
  obtain failed st where run: "stream_to_temp fault (as_max_artifact s) 0 r stream_init = (failed, st)"
    by (cases "stream_to_temp fault (as_max_artifact s) 0 r stream_init")
  let ?tmp = "tmp_prefix @ sfx"
  let ?s1 = "write_file ?tmp \<lparr>sf_content = ss_tmp st, sf_mtime = now\<rparr> s"
  let ?h = "hash_bytes sum256 (ss_hashed st)"
  obtain res s2 where c: "commit_temp fault ?tmp ?h (ss_total st) ?s1 = (res, s2)"
    by (cases "commit_temp fault ?tmp ?h (ss_total st) ?s1")
  have "s' = s \<or> s' = remove_temp fault ?tmp ?s1 \<or> res = Inl e \<and> s' = remove_temp fault ?tmp s2"
    using assms run c
    by (auto simp: put_reader_def Let_def split: option.splits if_splits)
  moreover have "res = Inl e \<Longrightarrow> s2 = ?s1" using commit_temp_failure c by blast
  ultimately have "s' = s \<or> s' = remove_temp fault ?tmp ?s1" by (elim disjE conjE) simp_all
  then show ?thesis by metis
qed

lemma put_reader_failure:
  "put_reader sum256 fault sfx now r s = (Inl e, s') \<Longrightarrow> artifacts s' = artifacts s"
  by (drule put_reader_error) auto

text \<open>The abstract store: a map from names to contents, where a put adds at most one entry.\<close>

definition spec_put :: "string \<Rightarrow> bytes \<Rightarrow> (string \<Rightarrow> bytes option) \<Rightarrow> string \<Rightarrow> bytes option" where
  "spec_put h content m = (if m h = None then m(h \<mapsto> content) else m)"

lemma put_reader_spec:
  assumes "put_reader sum256 fault sfx now r s = (Inr h, s')"
  shows "h = hash_bytes sum256 (stream_content r)"
    and "artifacts s' = spec_put h (stream_content r) (artifacts s) \<or>
         artifacts s' = (artifacts s)(h \<mapsto> stream_content r)"
    and "fault OpStat = None \<Longrightarrow> artifacts s' = spec_put h (stream_content r) (artifacts s)"
    and "\<not> stream_fault r"
    and "0 < as_max_artifact s \<Longrightarrow> int (length (stream_content r)) \<le> as_max_artifact s"
proof -
  from put_reader_success [OF assms] obtain st s2 where
    run: "stream_to_temp fault (as_max_artifact s) 0 r stream_init = (None, st)" and
    fit: "as_max_artifact s \<le> 0 \<or> ss_total st \<le> as_max_artifact s" and
    h: "h = hash_bytes sum256 (ss_hashed st)" and
    c: "commit_temp fault (tmp_prefix @ sfx) h (ss_total st)
         (write_file (tmp_prefix @ sfx) \<lparr>sf_content = ss_tmp st, sf_mtime = now\<rparr> s) = (Inr h, s2)" and
    s': "s' = remove_temp fault (tmp_prefix @ sfx) s2"
    by blast
  let ?tmp = "tmp_prefix @ sfx"
  let ?s1 = "write_file ?tmp \<lparr>sf_content = ss_tmp st, sf_mtime = now\<rparr> s"
  have body: "ss_hashed st = stream_content r" and inv: "stream_inv st" and "\<not> stream_fault r"
    using stream_complete [OF run stream_inv_init fit] by (simp_all add: stream_init_def)
  then show "\<not> stream_fault r" by blast
  show hr: "h = hash_bytes sum256 (stream_content r)" using h body by simp
  have nt: "\<not> is_tmp h" using h by simp
  then have "h \<noteq> ?tmp" using tmp_name by blast
  then have lh: "lookup_file h ?s1 = lookup_file h s" by simp
  have ren: "artifacts (rename_file ?tmp h ?s1) = (artifacts s)(h \<mapsto> stream_content r)"
    using inv body nt by (simp add: artifacts_commit stream_inv_def)
  from commit_temp_success [OF c] lh have cases:
    "lookup_file h s \<noteq> None \<and> s2 = ?s1 \<or>
     s2 = rename_file ?tmp h ?s1 \<and> (fault OpStat = None \<longrightarrow> lookup_file h s = None)"
    by auto
  have old: "lookup_file h s \<noteq> None \<Longrightarrow> spec_put h (stream_content r) (artifacts s) = artifacts s"
    using nt by (auto simp: spec_put_def artifacts_def)
  have new: "lookup_file h s = None \<Longrightarrow>
      spec_put h (stream_content r) (artifacts s) = (artifacts s)(h \<mapsto> stream_content r)"
    by (simp add: spec_put_def artifacts_def)
  show "artifacts s' = spec_put h (stream_content r) (artifacts s) \<or>
      artifacts s' = (artifacts s)(h \<mapsto> stream_content r)"
    using cases old ren s' by auto
  show "artifacts s' = spec_put h (stream_content r) (artifacts s)" if "fault OpStat = None"
    using cases old new ren s' that by auto
  show "int (length (stream_content r)) \<le> as_max_artifact s" if "0 < as_max_artifact s"
    using fit inv body that by (auto simp: stream_inv_def)
qed


definition no_faults :: faults where
  "no_faults op = None"

definition sample_store :: art_store where
  "sample_store = new_store [WithMaxArtifactBytes 4, WithMaxTotalBytes 5] []"

definition sample_reader :: reader where
  "sample_reader = [(''ab'', ReadMore), (''c'', ReadEOF)]"

definition sample_put :: "(err + string) \<times> art_store" where
  "sample_put = put_reader (\<lambda>b. b) no_faults ''1'' 7 sample_reader sample_store"

lemma sample_put_result:
  "fst sample_put = Inr ''616263''" "lookup_file ''616263'' (snd sample_put) = Some \<lparr>sf_content = ''abc'', sf_mtime = 7\<rparr>"
  "lookup_file ''tmp-1'' (snd sample_put) = None"
  by code_simp+


section \<open>The quota\<close>

definition entry_size :: "string \<times> stored_file \<Rightarrow> int" where
  "entry_size p = (if is_tmp (fst p) then 0 else int (length (sf_content (snd p))))"

definition total_size :: "art_store \<Rightarrow> int" where
  "total_size s = sum_list (map entry_size (as_files s))"

definition keys_ok :: "art_store \<Rightarrow> bool" where
  "keys_ok s \<longleftrightarrow> distinct (map fst (as_files s))"

lemma sum_sizes_total: "sum_sizes fault l u = Inr v \<Longrightarrow> v = u + sum_list (map entry_size l)"
  by (induction fault l u rule: sum_sizes.induct)
    (auto simp: entry_size_def split: if_splits option.splits)

lemma sum_list_sort_key:
  fixes f :: "'a \<Rightarrow> int"
  shows "sum_list (map f (sort_key k l)) = sum_list (map f l)"
  by (metis mset_map mset_sort sum_mset_sum_list)

lemma total_bytes_total:
  assumes "total_bytes fault s = Inr u" and "\<And>e. fault OpReadDir = Some e \<Longrightarrow> \<not> is_err ErrNotExist e"
  shows "u = total_size s"
  using assms
  by (auto simp: total_bytes_def read_dir_def total_size_def sum_list_sort_key
      dest!: sum_sizes_total split: option.splits if_splits)

lemma size_update_new:
  "n \<notin> fst ` set l \<Longrightarrow> sum_list (map entry_size (AList.update n f l)) =
     sum_list (map entry_size l) + entry_size (n, f)"
  by (induction l) auto

lemma size_delete:
  "distinct (map fst l) \<Longrightarrow> sum_list (map entry_size (AList.delete n l)) =
     sum_list (map entry_size l) - (case map_of l n of None \<Rightarrow> 0 | Some f \<Rightarrow> entry_size (n, f))"
proof (induction l)
  case (Cons p l)
  show ?case
  proof (cases "fst p = n")
    case True
    with Cons.prems have "n \<notin> fst ` set l" by auto
    then have "AList.delete n l = l" by (rule delete_id)
    with True show ?thesis by (cases p) simp
  next
    case False
    with Cons show ?thesis by (cases p) auto
  qed
qed simp

lemma size_update_tmp:
  assumes "is_tmp n"
  shows "sum_list (map entry_size (AList.update n f l)) = sum_list (map entry_size l)"
  using assms by (induction l) (auto simp: entry_size_def)

lemma keys_ok_file_ops [simp]:
  "keys_ok s \<Longrightarrow> keys_ok (write_file n f s)"
  "keys_ok s \<Longrightarrow> keys_ok (remove_file n s)"
  by (simp_all add: keys_ok_def write_file_def remove_file_def distinct_update distinct_delete)

lemma keys_ok_rename [simp]: "keys_ok s \<Longrightarrow> keys_ok (rename_file n m s)"
  by (simp add: rename_file_def split: option.splits)

lemma total_size_tmp [simp]:
  "is_tmp n \<Longrightarrow> total_size (write_file n f s) = total_size s"
  "is_tmp n \<Longrightarrow> keys_ok s \<Longrightarrow> total_size (remove_file n s) = total_size s"
  by (auto simp: total_size_def write_file_def remove_file_def size_update_tmp size_delete
      keys_ok_def entry_size_def split: option.splits)

lemma total_size_remove:
  "keys_ok s \<Longrightarrow> total_size (remove_file n s) =
     total_size s - (case lookup_file n s of None \<Rightarrow> 0 | Some f \<Rightarrow> entry_size (n, f))"
  by (simp add: total_size_def remove_file_def lookup_file_def keys_ok_def size_delete)

lemma total_size_rename:
  assumes "lookup_file old s = Some f" and "lookup_file new s = None" and "is_tmp old"
    and "\<not> is_tmp new" and "keys_ok s"
  shows "total_size (rename_file old new s) = total_size s + int (length (sf_content f))"
proof -
  let ?t = "remove_file old s"
  have "lookup_file new ?t = None" using assms(2) by simp
  then have "new \<notin> fst ` set (as_files ?t)" by (simp add: lookup_file_def map_of_eq_None_iff)
  then have "total_size (write_file new f ?t) = total_size ?t + entry_size (new, f)"
    by (simp add: total_size_def write_file_def size_update_new)
  with assms show ?thesis by (simp add: rename_file_def entry_size_def)
qed

definition quota_ok :: "art_store \<Rightarrow> bool" where
  "quota_ok s \<longleftrightarrow> keys_ok s \<and>
     (0 < as_max_total s \<longrightarrow> total_size s \<le> as_max_total s) \<and>
     (0 < as_max_artifact s \<longrightarrow>
        (\<forall>n c. artifacts s n = Some c \<longrightarrow> int (length c) \<le> as_max_artifact s))"

lemma store_limits_put [simp]:
  assumes "put_reader sum256 fault sfx now r s = (res, s')"
  shows "as_max_artifact s' = as_max_artifact s" and "as_max_total s' = as_max_total s"
proof -
  have c: "as_max_artifact (snd (commit_temp fault tmp h n t)) = as_max_artifact t \<and>
      as_max_total (snd (commit_temp fault tmp h n t)) = as_max_total t" for tmp h n t
    by (auto simp: commit_temp_def Let_def split: option.splits sum.splits)
  have r: "as_max_artifact (remove_temp fault tmp t) = as_max_artifact t \<and>
      as_max_total (remove_temp fault tmp t) = as_max_total t" for tmp t
    by (simp add: remove_temp_def split: option.splits)
  have "as_max_artifact s' = as_max_artifact s \<and> as_max_total s' = as_max_total s"
    using assms r c by (auto simp: put_reader_def Let_def split: option.splits prod.splits if_splits)
      (metis c file_limits(1,2) snd_conv)+
  then show "as_max_artifact s' = as_max_artifact s" and "as_max_total s' = as_max_total s" by simp_all
qed

text \<open>Every put is one of three changes of the directory.\<close>

lemma put_reader_commit:
  assumes "put_reader sum256 fault sfx now r s = (Inr h, s')"
  defines "s1 \<equiv> write_file (tmp_prefix @ sfx) \<lparr>sf_content = stream_content r, sf_mtime = now\<rparr> s"
  shows "\<not> is_tmp h" and "s' = remove_temp fault (tmp_prefix @ sfx) s1 \<or>
    s' = remove_temp fault (tmp_prefix @ sfx) (rename_file (tmp_prefix @ sfx) h s1) \<and>
    check_total_quota fault h (int (length (stream_content r))) s1 = None \<and>
    (fault OpStat = None \<longrightarrow> lookup_file h s = None)"
proof -
  from put_reader_success [OF assms(1)] obtain st s2 where
    run: "stream_to_temp fault (as_max_artifact s) 0 r stream_init = (None, st)" and
    fit: "as_max_artifact s \<le> 0 \<or> ss_total st \<le> as_max_artifact s" and
    h: "h = hash_bytes sum256 (ss_hashed st)" and
    c: "commit_temp fault (tmp_prefix @ sfx) h (ss_total st)
         (write_file (tmp_prefix @ sfx) \<lparr>sf_content = ss_tmp st, sf_mtime = now\<rparr> s) = (Inr h, s2)" and
    s': "s' = remove_temp fault (tmp_prefix @ sfx) s2"
    by blast
  have st: "ss_tmp st = stream_content r" "ss_total st = int (length (stream_content r))"
    using stream_complete [OF run stream_inv_init fit] by (simp_all add: stream_init_def stream_inv_def)
  show nt: "\<not> is_tmp h" using h by simp
  then have "h \<noteq> tmp_prefix @ sfx" using tmp_name by blast
  then have lh: "lookup_file h s1 = lookup_file h s" by (simp add: s1_def)
  from commit_temp_success [OF c [unfolded st, folded s1_def]] lh s'
  show "s' = remove_temp fault (tmp_prefix @ sfx) s1 \<or>
    s' = remove_temp fault (tmp_prefix @ sfx) (rename_file (tmp_prefix @ sfx) h s1) \<and>
    check_total_quota fault h (int (length (stream_content r))) s1 = None \<and>
    (fault OpStat = None \<longrightarrow> lookup_file h s = None)"
    by (elim conjE disjE) simp_all
qed

lemma put_reader_shape:
  assumes "put_reader sum256 fault sfx now r s = (res, s')"
  obtains (same) "s' = s"
  | (temp) f where "s' = remove_temp fault (tmp_prefix @ sfx) (write_file (tmp_prefix @ sfx) f s)"
  | (commit) h f where "res = Inr h" "\<not> is_tmp h" "sf_content f = stream_content r"
      "s' = remove_temp fault (tmp_prefix @ sfx)
              (rename_file (tmp_prefix @ sfx) h (write_file (tmp_prefix @ sfx) f s))"
      "check_total_quota fault h (int (length (stream_content r)))
         (write_file (tmp_prefix @ sfx) f s) = None"
      "fault OpStat = None \<longrightarrow> lookup_file h s = None"
proof (cases res)
  case (Inl e)
  from put_reader_error [OF assms [unfolded Inl]] show ?thesis by (elim disjE exE) (fact same, fact temp)
next
  case (Inr h)
  let ?f = "\<lparr>sf_content = stream_content r, sf_mtime = now\<rparr>"
  note c = put_reader_commit [OF assms [unfolded Inr]]
  from c(2) show ?thesis
  proof (elim disjE conjE)
    assume "s' = remove_temp fault (tmp_prefix @ sfx) (write_file (tmp_prefix @ sfx) ?f s)"
    then show ?thesis by (rule temp)
  next
    assume a: "s' = remove_temp fault (tmp_prefix @ sfx)
        (rename_file (tmp_prefix @ sfx) h (write_file (tmp_prefix @ sfx) ?f s))"
      "check_total_quota fault h (int (length (stream_content r)))
         (write_file (tmp_prefix @ sfx) ?f s) = None"
      "fault OpStat = None \<longrightarrow> lookup_file h s = None"
    show ?thesis by (rule commit [OF Inr c(1) _ a]) simp
  qed
qed

lemma keys_ok_put:
  assumes "put_reader sum256 fault sfx now r s = (res, s')" and "keys_ok s"
  shows "keys_ok s'"
  by (cases rule: put_reader_shape [OF assms(1)])
    (simp_all add: assms(2) remove_temp_def split: option.splits)

lemma total_size_remove_temp [simp]:
  "is_tmp n \<Longrightarrow> keys_ok s \<Longrightarrow> total_size (remove_temp fault n s) = total_size s"
  by (simp add: remove_temp_def split: option.splits)

definition dir_readable :: "faults \<Rightarrow> bool" where
  "dir_readable fault \<longleftrightarrow>
     fault OpStat = None \<and> (\<forall>e. fault OpReadDir = Some e \<longrightarrow> \<not> is_err ErrNotExist e)"

lemma quota_ok_put:
  assumes put: "put_reader sum256 fault sfx now r s = (res, s')" and ok: "quota_ok s"
    and dir: "dir_readable fault"
  shows "quota_ok s'"
proof -
  have k: "keys_ok s" using ok by (simp add: quota_ok_def)
  have size: "total_size s' \<le> as_max_total s" if pos: "0 < as_max_total s"
    using put
  proof (cases rule: put_reader_shape)
    case same
    with ok pos show ?thesis by (simp add: quota_ok_def)
  next
    case (temp f)
    with ok pos k show ?thesis by (simp add: quota_ok_def)
  next
    case (commit h f)
    let ?tmp = "tmp_prefix @ sfx"
    let ?s1 = "write_file ?tmp f s"
    have k1: "keys_ok ?s1" using k by simp
    obtain u where u: "total_bytes fault ?s1 = Inr u"
      "u + int (length (stream_content r)) \<le> as_max_total s"
      using commit(5) pos by (auto simp: check_total_quota_def split: sum.splits if_splits)
    have "u = total_size ?s1"
      using total_bytes_total [OF u(1)] dir by (auto simp: dir_readable_def)
    then have "u = total_size s" by simp
    moreover have "h \<noteq> ?tmp" using commit(2) tmp_name by blast
    then have "lookup_file h ?s1 = None" using commit(6) dir by (simp add: dir_readable_def)
    then have "total_size (rename_file ?tmp h ?s1) = total_size ?s1 + int (length (sf_content f))"
      using commit(2) k1 by (intro total_size_rename) simp_all
    ultimately show ?thesis using u(2) k1 commit(3,4) by simp
  qed
  have each: "int (length c) \<le> as_max_artifact s"
    if pos: "0 < as_max_artifact s" and c: "artifacts s' n = Some c" for n c
  proof (cases res)
    case (Inl e)
    with put put_reader_failure have "artifacts s' = artifacts s" by blast
    with ok pos c show ?thesis by (simp add: quota_ok_def)
  next
    case (Inr h)
    note spec = put_reader_spec [OF put [unfolded Inr]]
    have "artifacts s n = Some c \<or> c = stream_content r"
      using spec(3) dir c by (auto simp: dir_readable_def spec_put_def split: if_splits)
    with ok pos spec(5) show ?thesis by (auto simp: quota_ok_def)
  qed
  show ?thesis
    using size each k keys_ok_put [OF put] store_limits_put [OF put] by (simp add: quota_ok_def)
qed

text \<open>C20. The quota is an invariant: whatever a put is given and whichever calls fail, the
  committed artifacts never exceed the directory's quota and no artifact exceeds the artifact
  limit, provided the directory can be read once it was created.\<close>

theorem quota_invariant:
  assumes "quota_ok s" and "dir_readable fault"
  shows "quota_ok (snd (put_reader sum256 fault sfx now r s))"
  using quota_ok_put [OF _ assms, of sum256 sfx now r]
  by (cases "put_reader sum256 fault sfx now r s") simp

theorem quota_invariant_witness: "quota_ok (snd sample_put) \<and> total_size (snd sample_put) = 3"
proof -
  have "quota_ok sample_store"
    by (simp add: quota_ok_def sample_store_def new_store_def keys_ok_def total_size_def artifacts_def
        lookup_file_def)
  moreover have "dir_readable no_faults" by (simp add: dir_readable_def no_faults_def)
  ultimately have "quota_ok (snd sample_put)"
    unfolding sample_put_def by (rule quota_invariant)
  moreover have "total_size (snd sample_put) = 3" by code_simp
  ultimately show ?thesis by simp
qed

section \<open>Garbage collection keeps what it is told to keep\<close>

definition files_at :: "(string \<times> stored_file) list \<Rightarrow> art_store \<Rightarrow> bool" where
  "files_at l s \<longleftrightarrow> distinct (map fst l) \<and> (\<forall>(n, f)\<in>set l. lookup_file n s = Some f)"

lemma files_at_Cons:
  "files_at ((n, f) # l) s \<Longrightarrow> files_at l s \<and> files_at l (remove_file n s) \<and> lookup_file n s = Some f"
  by (force simp: files_at_def)

definition gc_drops :: "(string \<Rightarrow> bool) \<Rightarrow> int option \<Rightarrow> string \<Rightarrow> stored_file \<Rightarrow> bool" where
  "gc_drops keep cutoff n f \<longleftrightarrow> \<not> is_tmp n \<and> \<not> gc_keeps keep cutoff n f"

lemma gc_entries_safe:
  assumes "gc_entries fault keep cutoff l stats s = (stats', e, s')" and "files_at l s"
    and "lookup_file n s = Some f" and "\<not> gc_drops keep cutoff n f"
  shows "lookup_file n s' = Some f"
  using assms
proof (induction fault keep cutoff l stats s rule: gc_entries.induct)
  case (2 fault keep cutoff m g rest stats s)
  note at = files_at_Cons [OF "2.prems"(2)]
  have "\<not> is_tmp m \<Longrightarrow> \<not> gc_keeps keep cutoff m g \<Longrightarrow> n \<noteq> m"
    using at "2.prems"(3,4) by (auto simp: gc_drops_def)
  with 2 at show ?case by (auto simp: Let_def split: if_splits option.splits)
qed simp

lemma gc_entries_subset:
  "gc_entries fault keep cutoff l stats s = (stats', e, s') \<Longrightarrow>
   lookup_file n s' = None \<or> lookup_file n s' = lookup_file n s"
  by (induction fault keep cutoff l stats s rule: gc_entries.induct)
    (auto simp: Let_def split: if_splits option.splits)

lemma gc_entries_drops:
  assumes "gc_entries fault keep cutoff l stats s = (stats', None, s')" and "files_at l s"
    and "(n, f) \<in> set l" and "gc_drops keep cutoff n f"
  shows "lookup_file n s' = None"
  using assms
proof (induction fault keep cutoff l stats s rule: gc_entries.induct)
  case (2 fault keep cutoff m g rest stats s)
  note at = files_at_Cons [OF "2.prems"(2)]
  show ?case
  proof (cases "(n, f) = (m, g)")
    case True
    with "2.prems" have d: "\<not> is_tmp m" "\<not> gc_keeps keep cutoff m g" by (simp_all add: gc_drops_def)
    with "2.prems"(1) have "gc_entries fault keep cutoff rest
        (stats\<lparr>gc_removed_files := gc_removed_files stats + 1,
               gc_removed_bytes := gc_removed_bytes stats + int (length (sf_content g))\<rparr>)
        (remove_file m s) = (stats', None, s')"
      by (simp add: Let_def split: option.splits)
    from gc_entries_subset [OF this, of n] True show ?thesis by simp
  next
    case False
    with "2.prems"(3) have "(n, f) \<in> set rest" by auto
    with 2 at show ?thesis by (auto simp: Let_def split: if_splits option.splits)
  qed
qed simp

lemma gc_entries_bytes:
  assumes "gc_entries fault keep cutoff l stats s = (stats', None, s')" and "files_at l s" and "keys_ok s"
  shows "gc_kept_bytes stats' + gc_removed_bytes stats' =
      gc_kept_bytes stats + gc_removed_bytes stats + sum_list (map entry_size l) \<and>
    total_size s' = total_size s - (gc_removed_bytes stats' - gc_removed_bytes stats) \<and> keys_ok s'"
  using assms
proof (induction fault keep cutoff l stats s rule: gc_entries.induct)
  case (2 fault keep cutoff m g rest stats s)
  note at = files_at_Cons [OF "2.prems"(2)]
  have rem: "\<not> is_tmp m \<Longrightarrow> total_size (remove_file m s) = total_size s - int (length (sf_content g))"
    using at "2.prems"(3) by (simp add: total_size_remove entry_size_def)
  consider "is_tmp m" | "\<not> is_tmp m" "fault (OpInfo m) = None" "gc_keeps keep cutoff m g"
    | "\<not> is_tmp m" "fault (OpInfo m) = None" "\<not> gc_keeps keep cutoff m g" "fault (OpRemove m) = None"
    using "2.prems"(1) by (fastforce simp: Let_def split: if_splits option.splits)
  then show ?case
  proof cases
    case 1
    with 2 at show ?thesis by (simp add: Let_def entry_size_def)
  next
    case 2
    with "2.IH"(2) "2.prems" at show ?thesis by (simp add: Let_def entry_size_def)
  next
    case 3
    with "2.IH"(3) "2.prems" at rem show ?thesis by (simp add: Let_def entry_size_def)
  qed
qed simp

lemma files_at_dir: "keys_ok s \<Longrightarrow> files_at (sort_key fst (as_files s)) s"
proof -
  assume k: "keys_ok s"
  have "mset (map fst (sort_key fst (as_files s))) = mset (map fst (as_files s))"
    by (simp only: mset_map mset_sort)
  then have "distinct (map fst (sort_key fst (as_files s)))"
    using k by (metis keys_ok_def mset_eq_imp_distinct_iff)
  then show ?thesis
    using k by (auto simp: files_at_def lookup_file_def keys_ok_def)
qed

text \<open>C21. Garbage collection is safe and complete: an artifact in the keep set, or not older than
  the cutoff, survives with its content even when a removal fails half-way, and a pass that
  reports no error leaves no other artifact.\<close>

theorem gc_safe_and_complete:
  assumes "keys_ok s" and "garbage_collect fault keep cutoff s = (stats, e, s')"
    and "fault OpReadDir = None" and "lookup_file n s = Some f" and "\<not> is_tmp n"
  shows "(if gc_keeps keep cutoff n f then lookup_file n s' = Some f
          else lookup_file n s' = (if e = None then None else lookup_file n s') \<and>
               lookup_file n s' \<in> {None, Some f})"
proof -
  let ?l = "sort_key fst (as_files s)"
  have run: "gc_entries fault keep cutoff ?l zero_stats s = (stats, e, s')"
    using assms(2,3) by (simp add: garbage_collect_def read_dir_def)
  have at: "files_at ?l s" using assms(1) by (rule files_at_dir)
  have mem: "(n, f) \<in> set ?l" using assms(4) by (simp add: lookup_file_def map_of_SomeD)
  show ?thesis
  proof (cases "gc_keeps keep cutoff n f")
    case True
    then show ?thesis using gc_entries_safe [OF run at assms(4)] by (simp add: gc_drops_def)
  next
    case False
    then have "gc_drops keep cutoff n f" using assms(5) by (simp add: gc_drops_def)
    then have "e = None \<Longrightarrow> lookup_file n s' = None" using gc_entries_drops run at mem by blast
    moreover have "lookup_file n s' \<in> {None, Some f}"
      using gc_entries_subset [OF run, of n] assms(4) by auto
    ultimately show ?thesis using False by simp
  qed
qed

lemma sample_put_keys: "keys_ok (snd sample_put)"
  unfolding keys_ok_def by code_simp

theorem gc_safe_and_complete_witness:
  "lookup_file ''616263'' (snd (snd (garbage_collect no_faults (\<lambda>h. h = ''616263'') None (snd sample_put)))) =
     Some \<lparr>sf_content = ''abc'', sf_mtime = 7\<rparr> \<and>
   lookup_file ''616263'' (snd (snd (garbage_collect no_faults (\<lambda>h. False) (Some 8) (snd sample_put)))) = None"
proof -
  have nt: "\<not> is_tmp ''616263''" and nf: "no_faults OpReadDir = None" by code_simp+
  have e: "fst (snd (garbage_collect no_faults (\<lambda>h. False) (Some 8) (snd sample_put))) = None" by code_simp
  have g: "garbage_collect x k c s = (fst (garbage_collect x k c s), fst (snd (garbage_collect x k c s)),
      snd (snd (garbage_collect x k c s)))" for x k c s by simp
  note gc = gc_safe_and_complete [where fault = no_faults and s = "snd sample_put", OF sample_put_keys _ nf
      sample_put_result(2) nt]
  from gc [OF g [of _ "\<lambda>h. h = ''616263''" None]] gc [OF g [of _ "\<lambda>h. False" "Some 8"]] e
  show ?thesis by (simp add: gc_keeps_def)
qed

section \<open>The store is a content store\<close>

text \<open>
  One put as the engine sees it: \<open>w\<close> carries the faults of its calls, the temporary name and
  the clock. \<open>os.Stat\<close> of a name in a directory that was just created answers.
\<close>

type_synonym occasion = "faults \<times> string \<times> int"

definition art_put ::
  "(bytes \<Rightarrow> bytes) \<Rightarrow> occasion \<Rightarrow> bytes \<Rightarrow> art_store \<Rightarrow> string option \<times> art_store" where
  "art_put sum256 w c s =
     (case put sum256 ((fst w)(OpStat := None)) (fst (snd w)) (snd (snd w)) c s of
        (Inl e, s') \<Rightarrow> (None, s')
      | (Inr h, s') \<Rightarrow> (Some h, s'))"

definition art_get :: "string \<Rightarrow> art_store \<Rightarrow> bytes option" where
  "art_get k s = artifacts s k"

definition integrity :: "(bytes \<Rightarrow> bytes) \<Rightarrow> art_store \<Rightarrow> bool" where
  "integrity sum256 s \<longleftrightarrow> (\<forall>n c. artifacts s n = Some c \<longrightarrow> n = hash_bytes sum256 c)"

lemma integrityD: "integrity sum256 s \<Longrightarrow> artifacts s n = Some c \<Longrightarrow> n = hash_bytes sum256 c"
  by (simp add: integrity_def)

lemma art_put_cases:
  obtains s' where "art_put sum256 w c s = (None, s')" "artifacts s' = artifacts s"
  | s' where "art_put sum256 w c s = (Some (hash_bytes sum256 c), s')"
      "artifacts s' = spec_put (hash_bytes sum256 c) c (artifacts s)"
proof -
  let ?f = "(fst w)(OpStat := None)"
  obtain res s' where run: "put_reader sum256 ?f (fst (snd w)) (snd (snd w)) (bytes_reader c) s = (res, s')"
    by fastforce
  show ?thesis
  proof (cases res)
    case (Inl e)
    from put_reader_failure [OF run [unfolded Inl]] show ?thesis
      by (intro that(1) [of s']) (simp_all add: art_put_def put_def run Inl)
  next
    case (Inr h)
    note spec = put_reader_spec [OF run [unfolded Inr]]
    from spec(1) spec(3) show ?thesis
      by (intro that(2) [of s']) (simp_all add: art_put_def put_def run Inr)
  qed
qed

interpretation artifact_store: content_store "art_put sum256" art_get "hash_bytes sum256" "integrity sum256"
  for sum256 :: "bytes \<Rightarrow> bytes"
proof
  fix s w c k s' b
  show "k = hash_bytes sum256 c \<and> art_get k s' \<noteq> None"
    if "integrity sum256 s" "art_put sum256 w c s = (Some k, s')"
    using that by (cases rule: art_put_cases [of sum256 w c s]) (auto simp: art_get_def spec_put_def)
  show "art_get k (snd (art_put sum256 w c s)) = Some b" if "integrity sum256 s" "art_get k s = Some b"
    using that by (cases rule: art_put_cases [of sum256 w c s]) (auto simp: art_get_def spec_put_def)
  show "art_get k s = Some b \<or> k = hash_bytes sum256 c \<and> b = c \<and> fst (art_put sum256 w c s) = Some k"
    if "integrity sum256 s" "art_get k (snd (art_put sum256 w c s)) = Some b"
    using that
    by (cases rule: art_put_cases [of sum256 w c s])
      (auto simp: art_get_def spec_put_def split: if_splits)
  show "integrity sum256 (snd (art_put sum256 w c s))" if "integrity sum256 s"
    using that
    by (cases rule: art_put_cases [of sum256 w c s])
      (auto simp: integrity_def spec_put_def split: if_splits)
  show "k = hash_bytes sum256 b" if "integrity sum256 s" "art_get k s = Some b"
    using that by (simp add: art_get_def integrityD)
qed

primrec art_puts :: "(bytes \<Rightarrow> bytes) \<Rightarrow> (occasion \<times> bytes) list \<Rightarrow> art_store \<Rightarrow> art_store" where
  "art_puts sum256 [] s = s"
| "art_puts sum256 (p # ps) s = art_puts sum256 ps (snd (art_put sum256 (fst p) (snd p) s))"

lemma art_puts_eq: "art_puts sum256 ps s = artifact_store.puts sum256 ps s"
  by (induction ps arbitrary: s) simp_all

text \<open>What the engine stored it can read back: once a put has returned a hash, \<open>Get\<close> of that
  hash returns exactly the stored bytes after any further puts, failing ones included, as long
  as no other content has the same hash.\<close>

theorem stored_artifact_readable:
  assumes "integrity sum256 s" and "art_put sum256 w c s = (Some h, s')"
    and "\<And>b. hash_bytes sum256 b = hash_bytes sum256 c \<Longrightarrow> b = c" and "fault OpRead = None"
  shows "get_artifact fault h (art_puts sum256 ps s') = Inr c"
proof -
  have "artifacts (art_puts sum256 ps s') h = Some c"
    using artifact_store.put_get_later [OF assms(1,2)] assms(3) unfolding art_puts_eq art_get_def by blast
  then show ?thesis
    using assms(4) by (auto simp: get_artifact_def artifacts_def split: if_splits)
qed

theorem stored_artifact_readable_witness:
  "get_artifact no_faults ''616263''
     (art_puts (\<lambda>b. b) [((no_faults, ''2'', 9), ''d'')]
       (snd (art_put (\<lambda>b. b) (no_faults, ''1'', 7) ''abc'' sample_store))) = Inr ''abc''"
proof -
  have s: "integrity (\<lambda>b. b) sample_store"
    by (simp add: integrity_def sample_store_def new_store_def artifacts_def lookup_file_def)
  have p: "art_put (\<lambda>b. b) (no_faults, ''1'', 7) ''abc'' sample_store =
      (Some ''616263'', snd (art_put (\<lambda>b. b) (no_faults, ''1'', 7) ''abc'' sample_store))"
  proof -
    have "put_reader (\<lambda>b. b) (no_faults(OpStat := None)) ''1'' 7 [(''abc'', ReadMore), ([], ReadEOF)] sample_store =
        (Inr ''616263'', snd (put_reader (\<lambda>b. b) (no_faults(OpStat := None)) ''1'' 7
          [(''abc'', ReadMore), ([], ReadEOF)] sample_store))"
      by (rule prod_eqI) (simp_all only: fst_conv snd_conv, code_simp)
    then show ?thesis
      by (cases "put_reader (\<lambda>b. b) (no_faults(OpStat := None)) ''1'' 7 [(''abc'', ReadMore), ([], ReadEOF)] sample_store")
        (simp add: art_put_def put_def bytes_reader_short read_buf_def)
  qed
  show ?thesis
    by (rule stored_artifact_readable [OF s p]) (simp_all add: hash_bytes_def no_faults_def)
qed

end
