(* ===== verification/CacheStore.thy ===== *)
theory CacheStore
  imports ArtifactStore
begin

text \<open>
  \<open>core/cache\<close>, \<open>store.go\<close> and \<open>inspect.go\<close>: the index from cache keys to entries. The index
  lives in memory and is written to one file after every change; \<open>disk\<close> is what that file
  holds (\<open>encoding/json\<close> round-trips the entry struct, so a file this package wrote is the
  index itself; \<open>DiskBad\<close> is a file it cannot read as one). Each system call can fail, as in
  \<open>ArtifactStore\<close>.
\<close>

record cache_entry =
  ce_key :: string
  ce_hash :: string
  ce_type :: artifact_type
  ce_cost :: rat
  ce_tokens :: int
  ce_created :: string

type_synonym cache_index = "(string \<times> cache_entry) list"

datatype index_file = DiskNone | DiskBad err | DiskIndex cache_index

record cache =
  ca_loaded :: bool
  ca_index :: cache_index
  ca_disk :: index_file

definition new_cache :: "index_file \<Rightarrow> cache" where
  "new_cache disk = \<lparr>ca_loaded = False, ca_index = [], ca_disk = disk\<rparr>"

section \<open>Operations\<close>

definition ensure_loaded :: "faults \<Rightarrow> cache \<Rightarrow> err option \<times> cache" where
  "ensure_loaded fault c =
     (if ca_loaded c then (None, c)
      else case fault OpRead of
        Some e \<Rightarrow>
          if is_err ErrNotExist e then (None, c\<lparr>ca_loaded := True\<rparr>)
          else (Some (errorf ''cache: read index: '' e []), c)
      | None \<Rightarrow>
          (case ca_disk c of
             DiskNone \<Rightarrow> (None, c\<lparr>ca_loaded := True\<rparr>)
           | DiskBad e \<Rightarrow> (Some (errorf ''cache: decode index: '' e []), c)
           | DiskIndex l \<Rightarrow>
               (None, c\<lparr>ca_index := AList.merge (ca_index c) l, ca_loaded := True\<rparr>)))"

definition save_index :: "faults \<Rightarrow> cache \<Rightarrow> err option \<times> cache" where
  "save_index fault c =
     (case fault OpMkdir of
        Some e \<Rightarrow> (Some (errorf ''cache: create dir: '' e []), c)
      | None \<Rightarrow>
          (case fault OpCreateTemp of
             Some e \<Rightarrow> (Some (errorf ''cache: temp index: '' e []), c)
           | None \<Rightarrow>
               (case fault (OpWrite 0) of
                  Some e \<Rightarrow> (Some (errorf ''cache: write index: '' e []), c)
                | None \<Rightarrow>
                    (case fault OpClose of
                       Some e \<Rightarrow> (Some (errorf ''cache: close index: '' e []), c)
                     | None \<Rightarrow>
                         (case fault OpRename of
                            Some e \<Rightarrow> (Some (errorf ''cache: commit index: '' e []), c)
                          | None \<Rightarrow> (None, c\<lparr>ca_disk := DiskIndex (ca_index c)\<rparr>))))))"

definition cache_get :: "faults \<Rightarrow> string \<Rightarrow> cache \<Rightarrow> cache_entry option \<times> cache" where
  "cache_get fault key c =
     (case ensure_loaded fault c of
        (Some e, c') \<Rightarrow> (None, c')
      | (None, c') \<Rightarrow> (map_of (ca_index c') key, c'))"

definition cache_put :: "faults \<Rightarrow> cache_entry \<Rightarrow> cache \<Rightarrow> err option \<times> cache" where
  "cache_put fault entry c =
     (case ensure_loaded fault c of
        (Some e, c') \<Rightarrow> (Some e, c')
      | (None, c') \<Rightarrow>
          save_index fault (c'\<lparr>ca_index := AList.update (ce_key entry) entry (ca_index c')\<rparr>))"

definition cache_list :: "faults \<Rightarrow> cache \<Rightarrow> (err + cache_entry list) \<times> cache" where
  "cache_list fault c =
     (case ensure_loaded fault c of
        (Some e, c') \<Rightarrow> (Inl e, c')
      | (None, c') \<Rightarrow> (Inr (sort_key ce_key (map snd (ca_index c'))), c'))"

definition cache_inspect :: "faults \<Rightarrow> string \<Rightarrow> cache \<Rightarrow> (err + cache_entry option) \<times> cache" where
  "cache_inspect fault key c =
     (case ensure_loaded fault c of
        (Some e, c') \<Rightarrow> (Inl e, c')
      | (None, c') \<Rightarrow> (Inr (map_of (ca_index c') key), c'))"

definition cache_clear :: "faults \<Rightarrow> cache \<Rightarrow> err option \<times> cache" where
  "cache_clear fault c = save_index fault (c\<lparr>ca_index := [], ca_loaded := True\<rparr>)"

primrec delete_keys :: "string list \<Rightarrow> cache_index \<Rightarrow> int \<times> cache_index" where
  "delete_keys [] l = (0, l)"
| "delete_keys (k # ks) l =
     (if map_of l k = None then delete_keys ks l
      else case delete_keys ks (AList.delete k l) of (n, l') \<Rightarrow> (n + 1, l'))"

definition cache_delete :: "faults \<Rightarrow> string list \<Rightarrow> cache \<Rightarrow> int \<times> err option \<times> cache" where
  "cache_delete fault keys c =
     (case ensure_loaded fault c of
        (Some e, c') \<Rightarrow> (0, Some e, c')
      | (None, c') \<Rightarrow>
          (case delete_keys keys (ca_index c') of
             (n, l) \<Rightarrow>
               if n = 0 then (0, None, c')
               else (case save_index fault (c'\<lparr>ca_index := l\<rparr>) of (e, c'') \<Rightarrow> (n, e, c''))))"

section \<open>The index as a map\<close>

text \<open>What a cache answers, loaded or not yet.\<close>

definition entries :: "cache \<Rightarrow> string \<Rightarrow> cache_entry option" where
  "entries c =
     (if ca_loaded c then map_of (ca_index c)
      else case ca_disk c of DiskIndex l \<Rightarrow> map_of (AList.merge (ca_index c) l) | _ \<Rightarrow> Map.empty)"

definition readable :: "cache \<Rightarrow> bool" where
  "readable c \<longleftrightarrow> (ca_loaded c \<or> ca_index c = []) \<and> (\<forall>e. ca_disk c \<noteq> DiskBad e)"

definition reads_ok :: "faults \<Rightarrow> bool" where
  "reads_ok fault \<longleftrightarrow> fault OpRead = None"

text \<open>The file agrees with what is in memory.\<close>

definition synced :: "cache \<Rightarrow> bool" where
  "synced c \<longleftrightarrow> readable c \<and> entries (new_cache (ca_disk c)) = entries c"

lemma ensure_loaded_ok:
  assumes "readable c" and "reads_ok fault"
  obtains c' where "ensure_loaded fault c = (None, c')" "ca_loaded c'" "map_of (ca_index c') = entries c"
    "ca_disk c' = ca_disk c"
proof -
  let ?c = "snd (ensure_loaded fault c)"
  have "ensure_loaded fault c = (None, ?c) \<and> ca_loaded ?c \<and> map_of (ca_index ?c) = entries c \<and>
      ca_disk ?c = ca_disk c"
    using assms
    by (cases "ca_loaded c"; cases "ca_disk c")
      (auto simp: ensure_loaded_def entries_def readable_def reads_ok_def)
  with that show ?thesis by blast
qed

lemma ensure_loaded_error:
  "ensure_loaded fault c = (Some e, c') \<Longrightarrow> c' = c"
  by (auto simp: ensure_loaded_def split: if_splits option.splits index_file.splits)

lemma save_index_frame:
  assumes "save_index fault c = (e, c')"
  shows "ca_index c' = ca_index c" and "ca_loaded c' = ca_loaded c"
    and "ca_disk c' = (if e = None then DiskIndex (ca_index c) else ca_disk c)"
  using assms by (auto simp: save_index_def split: option.splits)

lemma save_index_ok [simp]: "fst (save_index no_faults c) = None"
  by (simp add: save_index_def no_faults_def)

lemma new_cache_entries [simp]: "entries (new_cache (DiskIndex l)) = map_of l"
  by (simp add: entries_def new_cache_def merge_conv')

lemma delete_keys_map: "map_of (snd (delete_keys ks l)) k = (if k \<in> set ks then None else map_of l k)"
proof (induction ks arbitrary: l)
  case (Cons x ks)
  show ?case
  proof (cases "map_of l x")
    case (Some e)
    obtain n d where "delete_keys ks (AList.delete x l) = (n, d)" by fastforce
    with Cons [of "AList.delete x l"] Some show ?thesis by (simp add: delete_conv')
  qed (use Cons in simp)
qed simp

lemma delete_keys_count:
  "fst (delete_keys ks l) = int (card {k \<in> set ks. map_of l k \<noteq> None})"
proof (induction ks arbitrary: l)
  case (Cons x ks)
  show ?case
  proof (cases "map_of l x")
    case None
    then have "{k \<in> set (x # ks). map_of l k \<noteq> None} = {k \<in> set ks. map_of l k \<noteq> None}" by auto
    with None Cons show ?thesis by simp
  next
    case (Some e)
    let ?rest = "{k \<in> set ks. map_of (AList.delete x l) k \<noteq> None}"
    have "{k \<in> set (x # ks). map_of l k \<noteq> None} = insert x ?rest" "x \<notin> ?rest"
      using Some by (auto simp: delete_conv')
    moreover have "finite ?rest" by simp
    ultimately have "card {k \<in> set (x # ks). map_of l k \<noteq> None} = Suc (card ?rest)" by simp
    moreover obtain n d where "delete_keys ks (AList.delete x l) = (n, d)" by fastforce
    ultimately show ?thesis using Some Cons [of "AList.delete x l"] by simp
  qed
qed simp

lemma entries_put:
  assumes "readable c" and "reads_ok fault" and "cache_put fault entry c = (e, c')"
  shows "entries c' = (entries c)(ce_key entry \<mapsto> entry)" and "readable c'"
    and "e = None \<Longrightarrow> synced c'" and "e \<noteq> None \<Longrightarrow> ca_disk c' = ca_disk c"
proof -
  obtain c1 where l: "ensure_loaded fault c = (None, c1)" "ca_loaded c1"
    "map_of (ca_index c1) = entries c" "ca_disk c1 = ca_disk c"
    using ensure_loaded_ok [OF assms(1,2)] by blast
  let ?c2 = "c1\<lparr>ca_index := AList.update (ce_key entry) entry (ca_index c1)\<rparr>"
  have s: "save_index fault ?c2 = (e, c')" using assms(3) l(1) by (simp add: cache_put_def)
  note fr = save_index_frame [OF s]
  have ld: "ca_loaded c'" using fr(2) l(2) by simp
  show en: "entries c' = (entries c)(ce_key entry \<mapsto> entry)"
    using ld fr(1) l(3) by (simp add: entries_def [of c'] update_conv' fun_eq_iff)
  show rd: "readable c'" using ld fr(3) l(4) assms(1) by (simp add: readable_def)
  show "synced c'" if "e = None"
  proof -
    have "entries (new_cache (ca_disk c')) = map_of (ca_index c')" using fr that by simp
    also have "\<dots> = entries c'" using ld by (simp add: entries_def)
    finally show ?thesis using rd by (simp add: synced_def)
  qed
  show "ca_disk c' = ca_disk c" if "e \<noteq> None" using fr(3) l(4) that by simp
qed

lemma entries_delete:
  assumes "readable c" and "reads_ok fault" and "cache_delete fault keys c = (n, e, c')"
  shows "entries c' k = (if k \<in> set keys then None else entries c k)" and "readable c'"
    and "n = int (card {k \<in> set keys. entries c k \<noteq> None})"
proof -
  obtain c1 where l: "ensure_loaded fault c = (None, c1)" "ca_loaded c1"
    "map_of (ca_index c1) = entries c" "ca_disk c1 = ca_disk c"
    using ensure_loaded_ok [OF assms(1,2)] by blast
  obtain m d where d: "delete_keys keys (ca_index c1) = (m, d)" by fastforce
  have dm: "map_of d k = (if k \<in> set keys then None else entries c k)" for k
    using delete_keys_map [of keys "ca_index c1" k] d l(3) by simp
  have m: "m = int (card {k \<in> set keys. entries c k \<noteq> None})"
    using delete_keys_count [of keys "ca_index c1"] d l(3) by simp
  obtain e' c2 where s: "save_index fault (c1\<lparr>ca_index := d\<rparr>) = (e', c2)" by fastforce
  note fr = save_index_frame [OF s]
  have run: "n = m \<and> (m = 0 \<and> c' = c1 \<or> m \<noteq> 0 \<and> c' = c2)"
    using assms(3) l(1) d s by (auto simp: cache_delete_def split: if_splits)
  then show "n = int (card {k \<in> set keys. entries c k \<noteq> None})" using m by simp
  show "readable c'"
  proof -
    have "ca_disk c2 = DiskIndex d \<or> ca_disk c2 = ca_disk c" using fr(3) l(4) by simp
    then show ?thesis using run l(2,4) fr(2) assms(1) by (elim disjE conjE) (simp_all add: readable_def)
  qed
  have none: "entries c k = None" if "m = 0" "k \<in> set keys"
    using that m by (auto simp: card_eq_0_iff)
  show "entries c' k = (if k \<in> set keys then None else entries c k)"
    using run l(2,3) fr(1,2) dm none by (auto simp: entries_def [of c'])
qed

section \<open>The cache is an index\<close>

interpretation cache_index: key_index
  "\<lambda>q c. fst (cache_get no_faults q c)"
  "\<lambda>e c. snd (cache_put no_faults e c)"
  "\<lambda>qs c. snd (snd (cache_delete no_faults qs c))"
  ce_key readable
proof
  have nf: "reads_ok no_faults" by (simp add: reads_ok_def no_faults_def)
  have get: "fst (cache_get no_faults q c) = entries c q" if rd: "readable c" for q c
  proof -
    obtain c' where "ensure_loaded no_faults c = (None, c')" "map_of (ca_index c') = entries c"
      by (rule ensure_loaded_ok [OF rd nf])
    then show ?thesis by (simp add: cache_get_def)
  qed
  fix c :: cache and q e qs
  assume rd: "readable c"
  obtain x c' where p: "cache_put no_faults e c = (x, c')" by fastforce
  note ep = entries_put [OF rd nf p]
  show "fst (cache_get no_faults q (snd (cache_put no_faults e c))) =
      (if q = ce_key e then Some e else fst (cache_get no_faults q c))"
    using p ep(1) get [OF ep(2)] get [OF rd] by simp
  show "readable (snd (cache_put no_faults e c))" using p ep(2) by simp
  obtain n y c'' where d: "cache_delete no_faults qs c = (n, y, c'')" by (metis prod.exhaust)
  note ed = entries_delete [OF rd nf d]
  show "fst (cache_get no_faults q (snd (snd (cache_delete no_faults qs c)))) =
      (if q \<in> set qs then None else fst (cache_get no_faults q c))"
    using d ed(1) get [OF ed(2)] get [OF rd] by simp
  show "readable (snd (snd (cache_delete no_faults qs c)))" using d ed(2) by simp
qed

interpretation engine_cache: node_cache
  "art_put sum256" art_get "hash_bytes sum256" "integrity sum256"
  "\<lambda>q c. fst (cache_get no_faults q c)"
  "\<lambda>e c. snd (cache_put no_faults e c)"
  "\<lambda>qs c. snd (snd (cache_delete no_faults qs c))"
  ce_key readable ce_hash
  for sum256 :: "bytes \<Rightarrow> bytes"
  by unfold_locales

text \<open>A recorded entry survives the process: after a \<open>Put\<close> that reports no error, a fresh
  \<open>Cache\<close> on the same directory answers the new entry under its key and what the old cache
  answered under every other key.\<close>

theorem cache_put_persistent:
  assumes "readable c" and "reads_ok fault" and "cache_put fault entry c = (None, c')"
  shows "fst (cache_get no_faults q (new_cache (ca_disk c'))) =
      (if q = ce_key entry then Some entry else fst (cache_get no_faults q c))"
proof -
  have nf: "reads_ok no_faults" by (simp add: reads_ok_def no_faults_def)
  have get: "fst (cache_get no_faults q d) = entries d q" if rd: "readable d" for d
  proof -
    obtain d' where "ensure_loaded no_faults d = (None, d')" "map_of (ca_index d') = entries d"
      using ensure_loaded_ok [OF rd nf] by blast
    then show ?thesis by (simp add: cache_get_def)
  qed
  note ep = entries_put [OF assms]
  have "synced c'" using ep(3) by simp
  then have fresh: "readable (new_cache (ca_disk c'))" "entries (new_cache (ca_disk c')) = entries c'"
    by (simp_all add: synced_def readable_def new_cache_def)
  show ?thesis using get [OF fresh(1)] get [OF assms(1)] fresh(2) ep(1) by simp
qed

definition sample_entry :: "string \<Rightarrow> cache_entry" where
  "sample_entry k = \<lparr>ce_key = k, ce_hash = ''hhh'', ce_type = ArtifactJSON, ce_cost = 1 / 50,
     ce_tokens = 42, ce_created = []\<rparr>"

definition sample_cache :: cache where
  "sample_cache = snd (cache_put no_faults (sample_entry ''k1'') (new_cache DiskNone))"

lemma sample_cache_ok: "readable sample_cache"
  by (simp add: sample_cache_def cache_put_def ensure_loaded_def save_index_def no_faults_def
      new_cache_def readable_def)

theorem cache_put_persistent_witness:
  "fst (cache_get no_faults ''k1'' (new_cache (ca_disk
     (snd (cache_put no_faults (sample_entry ''k2'') sample_cache))))) = Some (sample_entry ''k1'') \<and>
   fst (cache_get no_faults ''k2'' (new_cache (ca_disk
     (snd (cache_put no_faults (sample_entry ''k2'') sample_cache))))) = Some (sample_entry ''k2'')"
proof -
  have nf: "reads_ok no_faults" by (simp add: reads_ok_def no_faults_def)
  have ok: "cache_put no_faults (sample_entry ''k2'') sample_cache =
      (None, snd (cache_put no_faults (sample_entry ''k2'') sample_cache))"
    by (rule prod_eqI) (simp_all add: cache_put_def ensure_loaded_def sample_cache_def save_index_def
        no_faults_def new_cache_def)
  have "fst (cache_get no_faults ''k1'' sample_cache) = Some (sample_entry ''k1'')"
    by (simp add: cache_get_def cache_put_def ensure_loaded_def sample_cache_def save_index_def
        no_faults_def new_cache_def sample_entry_def)
  then show ?thesis
    using cache_put_persistent [OF sample_cache_ok nf ok, of "''k1''"]
      cache_put_persistent [OF sample_cache_ok nf ok, of "''k2''"]
    by (simp add: sample_entry_def)
qed

text \<open>\<open>Delete\<close> removes the named keys and nothing else, and reports how many entries it
  removed: the number of distinct named keys that had one.\<close>

theorem cache_delete_exact:
  assumes "readable c" and "reads_ok fault" and "cache_delete fault keys c = (n, e, c')"
  shows "entries c' k = (if k \<in> set keys then None else entries c k) \<and>
    n = int (card {k \<in> set keys. entries c k \<noteq> None})"
  using entries_delete [OF assms] by blast

theorem cache_delete_exact_witness:
  "fst (cache_delete no_faults [''k1'', ''zz'', ''k1''] sample_cache) = 1 \<and>
   entries (snd (snd (cache_delete no_faults [''k1'', ''zz'', ''k1''] sample_cache))) ''k1'' = None"
proof -
  have nf: "reads_ok no_faults" by (simp add: reads_ok_def no_faults_def)
  obtain n e c' where run: "cache_delete no_faults [''k1'', ''zz'', ''k1''] sample_cache = (n, e, c')"
    by (metis prod.exhaust)
  have "entries sample_cache = [''k1'' \<mapsto> sample_entry ''k1'']"
    by (simp add: entries_def cache_put_def ensure_loaded_def sample_cache_def save_index_def
        no_faults_def new_cache_def sample_entry_def)
  then have "{k \<in> set [''k1'', ''zz'', ''k1'']. entries sample_cache k \<noteq> None} = {''k1''}" by auto
  with cache_delete_exact [OF sample_cache_ok nf run, of "''k1''"] run show ?thesis by simp
qed

end
