(* ===== verification/Providers.thy ===== *)
theory Providers
  imports RetryLoop Domain
begin

text \<open>
  \<open>core/model\<close>: the provider seam and its two built-in clients. One HTTP exchange is the
  argument \<open>send\<close>: it takes the headers, the URL and the body and returns a transport error or
  a reply, over the state \<open>'w\<close> of the network. Encoding the request, decoding the reply's
  struct and the date and message forms of a retry hint (\<open>http.ParseTime\<close>, a regexp with
  \<open>ParseFloat\<close>) are arguments as well.
\<close>

section \<open>The seam\<close>

datatype role = RoleSystem | RoleUser | RoleAssistant

fun role_str :: "role \<Rightarrow> string" where
  "role_str RoleSystem = ''system''"
| "role_str RoleUser = ''user''"
| "role_str RoleAssistant = ''assistant''"

record message =
  ms_role :: role
  ms_content :: string

record model_params =
  pm_model :: string
  pm_extra :: payload

record model_response =
  mr_content :: string
  mr_input_tokens :: int
  mr_output_tokens :: int

type_synonym 'w provider = "message list \<Rightarrow> model_params \<Rightarrow> 'w \<Rightarrow> (err + model_response) \<times> 'w"

definition default_provider :: string where
  "default_provider = ''openai''"

definition get_provider :: "(string \<Rightarrow> 'w provider option) \<Rightarrow> string \<Rightarrow> err + 'w provider" where
  "get_provider providers name =
     (let name = (if name = [] then default_provider else name) in
      case providers name of
        None \<Rightarrow> Inl (EMsg (''model: no provider registered as '' @ quote name))
      | Some p \<Rightarrow> Inr p)"

section \<open>Replies\<close>

definition max_response_bytes :: nat where
  "max_response_bytes = 2 ^ 20"

text \<open>A reply's body as it can be read: its bytes and the error reading stopped with, if any.\<close>

record http_reply =
  hp_status :: int
  hp_retry_after :: string
  hp_body :: bytes
  hp_read_error :: "err option"

type_synonym 'w send = "(string \<times> string) list \<Rightarrow> string \<Rightarrow> bytes \<Rightarrow> 'w \<Rightarrow> (err + http_reply) \<times> 'w"

text \<open>\<open>readLimited\<close>: at most \<open>n + 1\<close> bytes are read, so a read error beyond them is not seen.\<close>

definition read_limited :: "nat \<Rightarrow> http_reply \<Rightarrow> err + bytes \<times> bool" where
  "read_limited n r =
     (case hp_read_error r of
        Some e \<Rightarrow> if length (hp_body r) < n + 1 then Inl e else Inr (take n (hp_body r), True)
      | None \<Rightarrow>
          if n < length (hp_body r) then Inr (take n (hp_body r), True) else Inr (hp_body r, False))"

definition parse_retry_after :: "(string \<Rightarrow> int option) \<Rightarrow> string \<Rightarrow> int \<times> bool" where
  "parse_retry_after until_date v =
     (let v = trim_space v in
      if v = [] then (0, False)
      else case atoi v of
        Some secs \<Rightarrow>
          if 0 \<le> secs then (wrap64 (secs * 1000000000), True)
          else (case until_date v of Some d \<Rightarrow> if d < 0 then (0, False) else (d, True) | None \<Rightarrow> (0, False))
      | None \<Rightarrow>
          (case until_date v of Some d \<Rightarrow> if d < 0 then (0, False) else (d, True) | None \<Rightarrow> (0, False)))"

text \<open>\<open>classifyStatus\<close> of both clients; \<open>message_hint\<close> is OpenAI's hint in the error text and
  finds nothing for Anthropic.\<close>

definition classify_status ::
  "string \<Rightarrow> (string \<Rightarrow> int option) \<Rightarrow> (bytes \<Rightarrow> int option) \<Rightarrow> http_reply \<Rightarrow> bytes \<Rightarrow> bool \<Rightarrow> err" where
  "classify_status name until_date message_hint r body truncated =
     (let snippet = take 300 (trim_space body);
          snippet = (if truncated then snippet @ ''... [truncated]'' else snippet);
          base = EMsg (name @ '': status '' @ itoa (hp_status r) @ '': '' @ snippet)
      in if hp_status r = 429 \<or> 500 \<le> hp_status r
         then (case parse_retry_after until_date (hp_retry_after r) of
                 (d, True) \<Rightarrow> EProvTransient base d True
               | (_, False) \<Rightarrow>
                   (case message_hint body of
                      Some d \<Rightarrow> EProvTransient base d True
                    | None \<Rightarrow> EProvTransient base 0 False))
         else EProvFatal base)"

section \<open>OpenAI\<close>

record chat_response =
  ch_choices :: "string list"
  ch_prompt_tokens :: int
  ch_completion_tokens :: int

record 'w client =
  cl_base_url :: string
  cl_api_key :: string
  cl_marshal :: "gval \<Rightarrow> err + bytes"
  cl_new_request :: "string \<Rightarrow> err option"
  cl_until_date :: "string \<Rightarrow> int option"
  cl_send :: "'w send"

text \<open>\<open>New\<close>: the defaults, then the options in order.\<close>

datatype client_option = WithBaseURL string | WithAPIKey string

definition trim_right_slash :: "string \<Rightarrow> string" where
  "trim_right_slash u = rev (dropWhile (\<lambda>c. c = CHR ''/'') (rev u))"

fun apply_client_option :: "client_option \<Rightarrow> 'w client \<Rightarrow> 'w client" where
  "apply_client_option (WithBaseURL u) c = c\<lparr>cl_base_url := trim_right_slash u\<rparr>"
| "apply_client_option (WithAPIKey k) c = c\<lparr>cl_api_key := k\<rparr>"

definition openai_new :: "(string \<Rightarrow> string) \<Rightarrow> client_option list \<Rightarrow> 'w client \<Rightarrow> 'w client" where
  "openai_new getenv opts c =
     fold apply_client_option opts
       (c\<lparr>cl_base_url := ''https://api.openai.com/v1'', cl_api_key := getenv ''OPENAI_API_KEY''\<rparr>)"

definition anthropic_new :: "(string \<Rightarrow> string) \<Rightarrow> client_option list \<Rightarrow> 'w client \<Rightarrow> 'w client" where
  "anthropic_new getenv opts c =
     fold apply_client_option opts
       (c\<lparr>cl_base_url := ''https://api.anthropic.com/v1'', cl_api_key := getenv ''ANTHROPIC_API_KEY''\<rparr>)"

definition message_json :: "message \<Rightarrow> gval" where
  "message_json m = JObj [(''role'', JStr (role_str (ms_role m))), (''content'', JStr (ms_content m))]"

definition openai_body :: "message list \<Rightarrow> model_params \<Rightarrow> gval" where
  "openai_body msgs p =
     JObj ([(''model'', JStr (pm_model p)), (''messages'', JArr (map message_json msgs))] @
       filter (\<lambda>kv. fst kv \<noteq> ''model'' \<and> fst kv \<noteq> ''messages'') (pm_extra p))"

definition openai_headers :: "string \<Rightarrow> (string \<times> string) list" where
  "openai_headers key =
     (''Content-Type'', ''application/json'') #
       (if key = [] then [] else [(''Authorization'', ''Bearer '' @ key)])"

definition openai_reply ::
  "(string \<Rightarrow> int option) \<Rightarrow> (bytes \<Rightarrow> int option) \<Rightarrow> (bytes \<Rightarrow> err + chat_response) \<Rightarrow> http_reply \<Rightarrow>
     err + model_response" where
  "openai_reply until_date message_hint unmarshal r =
     (case read_limited max_response_bytes r of
        Inl e \<Rightarrow> Inl (EProvTransient (errorf ''openai: read response: '' e []) 0 False)
      | Inr (body, truncated) \<Rightarrow>
          if hp_status r \<noteq> 200
          then Inl (classify_status ''openai'' until_date message_hint r body truncated)
          else if truncated
          then Inl (EProvFatal (EMsg ''openai: response exceeded 1048576 bytes; refusing partial output''))
          else (case unmarshal body of
             Inl e \<Rightarrow> Inl (EProvFatal (errorf ''openai: decode response: '' e []))
           | Inr c \<Rightarrow>
               (case ch_choices c of
                  [] \<Rightarrow> Inl (EProvFatal (EMsg ''openai: response had no choices''))
                | m # ms \<Rightarrow>
                    Inr \<lparr>mr_content = m, mr_input_tokens = ch_prompt_tokens c,
                         mr_output_tokens = ch_completion_tokens c\<rparr>)))"

definition openai_complete ::
  "'w client \<Rightarrow> (bytes \<Rightarrow> int option) \<Rightarrow> (bytes \<Rightarrow> err + chat_response) \<Rightarrow> 'w provider" where
  "openai_complete c message_hint unmarshal msgs p w =
     (case cl_marshal c (openai_body msgs p) of
        Inl e \<Rightarrow> (Inl (EProvFatal (errorf ''openai: encode request: '' e [])), w)
      | Inr raw \<Rightarrow>
          (case cl_new_request c (cl_base_url c @ ''/chat/completions'') of
             Some e \<Rightarrow> (Inl (EProvFatal (errorf ''openai: build request: '' e [])), w)
           | None \<Rightarrow>
               (case cl_send c (openai_headers (cl_api_key c)) (cl_base_url c @ ''/chat/completions'') raw w of
                  (Inl e, w') \<Rightarrow> (Inl (EProvTransient (errorf ''openai: request failed: '' e []) 0 False), w')
                | (Inr r, w') \<Rightarrow> (openai_reply (cl_until_date c) message_hint unmarshal r, w'))))"

section \<open>Anthropic\<close>

record messages_response =
  an_blocks :: "(string \<times> string) list"
  an_input_tokens :: int
  an_output_tokens :: int

text \<open>System messages are joined by a blank line into one field; the other turns stay.\<close>

fun split_system :: "message list \<Rightarrow> string \<Rightarrow> message list \<Rightarrow> string \<times> message list" where
  "split_system [] sys turns = (sys, turns)"
| "split_system (m # ms) sys turns =
     (if ms_role m = RoleSystem
      then split_system ms ((if sys = [] then [] else sys @ [CHR 0x0A, CHR 0x0A]) @ ms_content m) turns
      else split_system ms sys (turns @ [m]))"

text \<open>An extra parameter replaces a key of the request, except the three the client owns.\<close>

definition anthropic_body :: "message list \<Rightarrow> model_params \<Rightarrow> gval" where
  "anthropic_body msgs p =
     (let (sys, turns) = split_system msgs [] [] in
      JObj ([(''model'', JStr (pm_model p)), (''max_tokens'', jint 4096),
             (''messages'', JArr (map message_json turns))] @
            (if sys = [] then [] else [(''system'', JStr sys)]) @
            filter (\<lambda>kv. fst kv \<notin> {''model'', ''messages'', ''system''}) (pm_extra p)))"

definition anthropic_headers :: "string \<Rightarrow> (string \<times> string) list" where
  "anthropic_headers key =
     [(''Content-Type'', ''application/json''), (''anthropic-version'', ''2023-06-01'')] @
       (if key = [] then [] else [(''x-api-key'', key)])"

definition anthropic_reply ::
  "(string \<Rightarrow> int option) \<Rightarrow> (bytes \<Rightarrow> err + messages_response) \<Rightarrow> http_reply \<Rightarrow> err + model_response" where
  "anthropic_reply until_date unmarshal r =
     (case read_limited max_response_bytes r of
        Inl e \<Rightarrow> Inl (EProvTransient (errorf ''anthropic: read response: '' e []) 0 False)
      | Inr (body, truncated) \<Rightarrow>
          if hp_status r \<noteq> 200
          then Inl (classify_status ''anthropic'' until_date (\<lambda>b. None) r body truncated)
          else if truncated
          then Inl (EProvFatal (EMsg ''anthropic: response exceeded 1048576 bytes; refusing partial output''))
          else (case unmarshal body of
             Inl e \<Rightarrow> Inl (EProvFatal (errorf ''anthropic: decode response: '' e []))
           | Inr m \<Rightarrow>
               Inr \<lparr>mr_content = concat (map snd (filter (\<lambda>b. fst b = ''text'') (an_blocks m))),
                    mr_input_tokens = an_input_tokens m, mr_output_tokens = an_output_tokens m\<rparr>))"

definition anthropic_complete :: "'w client \<Rightarrow> (bytes \<Rightarrow> err + messages_response) \<Rightarrow> 'w provider" where
  "anthropic_complete c unmarshal msgs p w =
     (case cl_marshal c (anthropic_body msgs p) of
        Inl e \<Rightarrow> (Inl (EProvFatal (errorf ''anthropic: encode request: '' e [])), w)
      | Inr raw \<Rightarrow>
          (case cl_new_request c (cl_base_url c @ ''/messages'') of
             Some e \<Rightarrow> (Inl (EProvFatal (errorf ''anthropic: build request: '' e [])), w)
           | None \<Rightarrow>
               (case cl_send c (anthropic_headers (cl_api_key c)) (cl_base_url c @ ''/messages'') raw w of
                  (Inl e, w') \<Rightarrow> (Inl (EProvTransient (errorf ''anthropic: request failed: '' e []) 0 False), w')
                | (Inr r, w') \<Rightarrow> (anthropic_reply (cl_until_date c) unmarshal r, w'))))"

section \<open>The registry of built-in providers\<close>

text \<open>\<open>providers.Configured\<close>: the compatible endpoints may replace \<open>openai\<close> but not
  \<open>anthropic\<close>, which is registered last. \<open>serve_o\<close> and \<open>serve_a\<close> make a client a provider.\<close>

record provider_config =
  pc_openai :: string
  pc_anthropic :: string
  pc_compatible :: "string \<rightharpoonup> string"

definition base_url_option :: "string \<Rightarrow> client_option list" where
  "base_url_option u = (if u = [] then [] else [WithBaseURL u])"

definition configured ::
  "(string \<Rightarrow> string) \<Rightarrow> 'w client \<Rightarrow> ('w client \<Rightarrow> 'w provider) \<Rightarrow> ('w client \<Rightarrow> 'w provider) \<Rightarrow>
     provider_config \<Rightarrow> string \<Rightarrow> 'w provider option" where
  "configured getenv c serve_o serve_a cfg =
     ([''openai'' \<mapsto> serve_o (openai_new getenv (base_url_option (pc_openai cfg)) c)] ++
      (\<lambda>name. map_option (\<lambda>u. serve_o (openai_new getenv (base_url_option u) c)) (pc_compatible cfg name)))
     (''anthropic'' \<mapsto> serve_a (anthropic_new getenv (base_url_option (pc_anthropic cfg)) c))"

text \<open>The default provider is always registered.\<close>

lemma configured_default: "get_provider (configured getenv c so sa cfg) [] \<noteq> Inl e"
  by (auto simp: get_provider_def configured_def default_provider_def map_add_def Let_def
      split: option.splits)

section \<open>Errors keep their class\<close>

text \<open>\<open>mapProviderError\<close> (\<open>worker_executor.go\<close>): the provider's class becomes the engine's.\<close>

fun as_prov_transient :: "err \<Rightarrow> (int \<times> bool) option" where
  "as_prov_transient (EProvTransient e d h) = Some (d, h)"
| "as_prov_transient _ = None"

fun as_prov_fatal :: "err \<Rightarrow> err option" where
  "as_prov_fatal (EProvFatal e) = Some e"
| "as_prov_fatal _ = None"

definition map_provider_error :: "string \<Rightarrow> err \<Rightarrow> err" where
  "map_provider_error nid e =
     (case as_err as_prov_transient e of
        Some (d, has) \<Rightarrow>
          let w = diag_wrap e KindProvider ''provider_transient'' nid ''provider.complete''
                    ''provider returned a retryable failure'' ''wait for the retry window or lower concurrency/rate''
          in ETransient (if has then with_retry_after w d else w)
      | None \<Rightarrow>
          (case as_err as_prov_fatal e of
             Some _ \<Rightarrow>
               EFatal (diag_wrap e KindProvider ''provider_fatal'' nid ''provider.complete''
                 ''provider rejected the request''
                 ''check provider credentials, base URL, model name, and request parameters'')
           | None \<Rightarrow>
               EFatal (diag_wrap e KindProvider ''provider_unknown'' nid ''provider.complete''
                 ''provider call failed'' ''check provider configuration and network access'')))"

text \<open>What the engine is to make of a reply's error: the retry class and the pause asked for.\<close>

definition status_class :: "(string \<Rightarrow> int option) \<Rightarrow> string \<Rightarrow> http_reply \<Rightarrow> err \<Rightarrow> bool" where
  "status_class until_date nid r e \<longleftrightarrow>
     classify (map_provider_error nid e) =
       (if hp_status r = 429 \<or> 500 \<le> hp_status r then ClassTransient else ClassFatal) \<and>
     (\<forall>d. parse_retry_after until_date (hp_retry_after r) = (d, True) \<longrightarrow>
        hp_status r = 429 \<or> 500 \<le> hp_status r \<longrightarrow> retry_after_of (map_provider_error nid e) = (d, True))"

lemma map_provider_transient:
  "classify (map_provider_error nid (EProvTransient (EMsg m) d h)) = ClassTransient"
  "retry_after_of (map_provider_error nid (EProvTransient (EMsg m) d h)) = (d, h)"
  by (simp_all add: map_provider_error_def diag_wrap_def retry_after_of_def Let_def)

lemma map_provider_fatal:
  "classify (map_provider_error nid (EProvFatal (EMsg m))) = ClassFatal"
  by (simp add: map_provider_error_def diag_wrap_def classify_def)

lemma classify_status_class: "status_class until_date nid r (classify_status name until_date h r body tr)"
proof (cases "hp_status r = 429 \<or> 500 \<le> hp_status r")
  case False
  then show ?thesis
    by (simp add: status_class_def classify_status_def map_provider_fatal Let_def)
next
  case True
  obtain d ok where p: "parse_retry_after until_date (hp_retry_after r) = (d, ok)" by fastforce
  show ?thesis
  proof (cases ok)
    case True
    with p \<open>hp_status r = 429 \<or> _\<close> show ?thesis
      by (simp add: status_class_def classify_status_def map_provider_transient Let_def)
  next
    case False
    with p \<open>hp_status r = 429 \<or> _\<close> show ?thesis
      by (cases "h body") (simp_all add: status_class_def classify_status_def map_provider_transient Let_def)
  qed
qed

text \<open>A reply's status decides what the engine does: after both clients, a failed request is
  retried exactly when its status is 429 or a server error, a reply that cannot be read is
  retried, and the pause the server asked for reaches the retry loop unchanged.\<close>

theorem provider_status_classified:
  assumes "hp_status r \<noteq> 200" and "hp_read_error r = None"
  shows "(\<exists>e. openai_reply until_date msg_hint unmarshal r = Inl e \<and> status_class until_date nid r e) \<and>
    (\<exists>e. anthropic_reply until_date unmarshal' r = Inl e \<and> status_class until_date nid r e)"
proof -
  obtain body tr where "read_limited max_response_bytes r = Inr (body, tr)"
    using assms(2)
    by (cases "max_response_bytes < length (hp_body r)") (auto simp: read_limited_def)
  then show ?thesis
    using assms(1) classify_status_class by (simp add: openai_reply_def anthropic_reply_def)
qed

definition sample_reply :: "int \<Rightarrow> http_reply" where
  "sample_reply status = \<lparr>hp_status = status, hp_retry_after = ''7'', hp_body = ''busy'', hp_read_error = None\<rparr>"

theorem provider_status_classified_witness:
  "\<exists>e. openai_reply (\<lambda>v. None) (\<lambda>b. None) (\<lambda>b. Inl (EMsg b)) (sample_reply 429) = Inl e \<and>
     classify (map_provider_error ''n'' e) = ClassTransient \<and>
     retry_after_of (map_provider_error ''n'' e) = (7000000000, True)"
proof -
  have r: "hp_status (sample_reply 429) \<noteq> 200" "hp_read_error (sample_reply 429) = None"
    by (simp_all add: sample_reply_def)
  have "parse_retry_after (\<lambda>v. None) (hp_retry_after (sample_reply 429)) = (7000000000, True)" by code_simp
  with provider_status_classified [OF r, of "\<lambda>v. None" "\<lambda>b. None" "\<lambda>b. Inl (EMsg b)" "''n''", THEN conjunct1]
  show ?thesis by (auto simp: sample_reply_def status_class_def)
qed

end
