(* ===== verification/CacheKey.thy ===== *)
theory CacheKey
  imports Canonical
begin

text \<open>
  \<open>core/cache/key.go\<close>: the key a node's result is cached under is the canonical hash of its
  \<open>Inputs\<close>, printed here as the JSON object the struct tags describe. The digits of a number
  are \<open>num\<close>, Go's shortest decimal; a nil slice is the empty list.
\<close>

record cache_inputs =
  ci_worker_id :: string
  ci_worker_version :: string
  ci_contract_hash :: string
  ci_input_hashes :: "string list"
  ci_workflow_inputs :: "string \<rightharpoonup> string"
  ci_model :: model_config
  ci_tool_versions :: "string list"
  ci_context_policy :: context_policy

definition sorted_copy :: "string list \<Rightarrow> string list" where
  "sorted_copy xs = sort xs"

section \<open>The struct as JSON\<close>

text \<open>\<open>sortedCopy\<close> returns nil for an empty slice, which is printed as null.\<close>

definition strings_json :: "string list \<Rightarrow> cjson" where
  "strings_json xs = (if xs = [] then JNull else JArr (map JStr xs))"

definition string_map_json :: "(string \<rightharpoonup> string) \<Rightarrow> cjson" where
  "string_map_json m = JObj (map (\<lambda>k. (k, JStr (the (m k)))) (sorted_list_of_set (dom m)))"

definition gval_json :: "(rat \<Rightarrow> string) \<Rightarrow> gval \<Rightarrow> cjson" where
  "gval_json num v = map_json num v"

definition model_json :: "(rat \<Rightarrow> string) \<Rightarrow> model_config \<Rightarrow> cjson" where
  "model_json num m =
     JObj ([(''provider'', JStr (mc_provider m)), (''model'', JStr (mc_model m))] @
       (if mc_params m = [] then [] else [(''params'', gval_json num (JObj (mc_params m)))]))"

definition context_policy_json :: "context_policy \<Rightarrow> cjson" where
  "context_policy_json p =
     JObj ((''mode'', JStr (context_mode_str (cp_mode p))) #
       (case cp_params p of
          None \<Rightarrow> []
        | Some ids \<Rightarrow>
            [(''params'', JObj (if ids = [] then [] else [(''artifacts'', JArr (map JStr ids))]))]))"

definition cache_inputs_json :: "(rat \<Rightarrow> string) \<Rightarrow> cache_inputs \<Rightarrow> cjson" where
  "cache_inputs_json num i =
     JObj ([(''workerId'', JStr (ci_worker_id i)),
            (''workerVersion'', JStr (ci_worker_version i)),
            (''contractHash'', JStr (ci_contract_hash i)),
            (''inputArtifactHashes'', strings_json (ci_input_hashes i))] @
           (if dom (ci_workflow_inputs i) = {} then []
            else [(''workflowInputs'', string_map_json (ci_workflow_inputs i))]) @
           [(''model'', model_json num (ci_model i)),
            (''toolVersions'', strings_json (ci_tool_versions i)),
            (''contextPolicy'', context_policy_json (ci_context_policy i))])"

definition cache_key :: "(bytes \<Rightarrow> bytes) \<Rightarrow> (rat \<Rightarrow> string) \<Rightarrow> cache_inputs \<Rightarrow> string" where
  "cache_key sum256 num i =
     canonical_hash sum256 (cache_inputs_json num
       (i\<lparr>ci_input_hashes := sorted_copy (ci_input_hashes i),
          ci_tool_versions := sorted_copy (ci_tool_versions i)\<rparr>))"

section \<open>What the key distinguishes\<close>

text \<open>The field of a document; a nested one is read the same way.\<close>

definition field :: "string \<Rightarrow> cjson \<Rightarrow> tree option" where
  "field k v = (case denote v of TObj m \<Rightarrow> m k | _ \<Rightarrow> None)"

lemma field_cong: "denote v = denote w \<Longrightarrow> field k v = field k w"
  by (simp add: field_def)

lemma field_obj [simp]: "field k (JObj kvs) = map_option denote (map_of (rev kvs) k)"
  by (simp add: field_def map_of_rev_map)

lemma denote_obj_cong:
  "map (map_prod id denote) kvs = map (map_prod id denote) lws \<Longrightarrow> denote (JObj kvs) = denote (JObj lws)"
  by simp

lemma denote_objI: "(\<And>k. field k (JObj kvs) = field k (JObj lws)) \<Longrightarrow> denote (JObj kvs) = denote (JObj lws)"
  by (simp add: fun_eq_iff map_of_rev_map)

lemma denote_strings: "map denote (map JStr xs) = map denote (map JStr ys) \<longleftrightarrow> xs = ys"
proof
  assume "map denote (map JStr xs) = map denote (map JStr ys)"
  then have "map TStr xs = map TStr ys" by (simp add: comp_def)
  then show "xs = ys" by (simp add: inj_map_eq_map inj_def)
qed simp

lemma denote_strings_json: "denote (strings_json xs) = denote (strings_json ys) \<longleftrightarrow> xs = ys"
  using denote_strings [of xs ys] by (auto simp: strings_json_def)

lemma map_of_graph: "map_of (map (\<lambda>k. (k, g k)) ks) k = (if k \<in> set ks then Some (g k) else None)"
  by (induction ks) auto

lemma string_map_field:
  assumes "finite (dom m)"
  shows "field k (string_map_json m) = map_option TStr (m k)"
  using assms by (auto simp: string_map_json_def rev_map map_of_graph domIff)

lemma denote_string_map:
  assumes "finite (dom m)" and "finite (dom n)" and "denote (string_map_json m) = denote (string_map_json n)"
  shows "m = n"
proof
  fix k
  have "map_option TStr (m k) = map_option TStr (n k)"
    using field_cong [OF assms(3), of k] string_map_field assms(1,2) by metis
  then show "m k = n k" by (cases "m k"; cases "n k") simp_all
qed

text \<open>What a model's parameters denote, absent and empty being the same.\<close>

definition params_tree :: "(rat \<Rightarrow> string) \<Rightarrow> payload \<Rightarrow> tree" where
  "params_tree num p = denote (gval_json num (JObj p))"

lemma model_fields:
  "field ''provider'' (model_json num m) = Some (TStr (mc_provider m))"
  "field ''model'' (model_json num m) = Some (TStr (mc_model m))"
  "field ''params'' (model_json num m) =
     (if mc_params m = [] then None else Some (params_tree num (mc_params m)))"
  by (simp_all add: model_json_def params_tree_def del: denote.simps(6))

lemma model_denote:
  "denote (model_json num m) = denote (model_json num m') \<longleftrightarrow>
     mc_provider m = mc_provider m' \<and> mc_model m = mc_model m' \<and>
     params_tree num (mc_params m) = params_tree num (mc_params m')"
proof -
  have empty: "params_tree num p = params_tree num [] \<longleftrightarrow> p = []" for p
  proof
    assume "params_tree num p = params_tree num []"
    then have "map_of (rev (map (map_prod id denote) (map (map_prod id (map_json num)) p))) = Map.empty"
      by (simp add: params_tree_def gval_json_def)
    then show "p = []" by (metis map_of_eq_empty_iff map_is_Nil_conv rev_is_Nil_conv)
  qed simp
  show ?thesis (is "?l \<longleftrightarrow> ?r")
  proof
    assume ?l
    note f = field_cong [OF this]
    have "(if mc_params m = [] then None else Some (params_tree num (mc_params m))) =
        (if mc_params m' = [] then None else Some (params_tree num (mc_params m')))"
      using f [of "''params''"] by (simp only: model_fields)
    then have "params_tree num (mc_params m) = params_tree num (mc_params m')"
      by (auto split: if_splits)
    with f [of "''provider''"] f [of "''model''"] show ?r by (simp add: model_fields)
  next
    assume r: ?r
    have "mc_params m = [] \<longleftrightarrow> mc_params m' = []"
      using r empty [of "mc_params m"] empty [of "mc_params m'"] by metis
    with r show ?l unfolding model_json_def
      by (intro denote_obj_cong) (simp add: params_tree_def)
  qed
qed

lemma context_policy_denote:
  "denote (context_policy_json p) = denote (context_policy_json q) \<longleftrightarrow>
     context_mode_str (cp_mode p) = context_mode_str (cp_mode q) \<and> cp_params p = cp_params q"
proof (intro iffI; (elim conjE)?)
  assume eq: "denote (context_policy_json p) = denote (context_policy_json q)"
  have art: "denote (JObj (if xs = [] then [] else [(''artifacts'', JArr (map JStr xs))])) =
      denote (JObj (if ys = [] then [] else [(''artifacts'', JArr (map JStr ys))])) \<Longrightarrow> xs = ys" for xs ys
    using denote_strings [of xs ys]
    by (auto simp: fun_eq_iff split: if_splits dest!: spec [of _ "''artifacts''"])
  from field_cong [OF eq, of "''mode''"] field_cong [OF eq, of "''params''"]
  show "context_mode_str (cp_mode p) = context_mode_str (cp_mode q) \<and> cp_params p = cp_params q"
    by (auto simp: context_policy_json_def simp del: denote.simps(6) dest!: art split: option.splits)
qed (simp add: context_policy_json_def)

lemma inputs_fields:
  "field ''workerId'' (cache_inputs_json num i) = Some (TStr (ci_worker_id i))"
  "field ''workerVersion'' (cache_inputs_json num i) = Some (TStr (ci_worker_version i))"
  "field ''contractHash'' (cache_inputs_json num i) = Some (TStr (ci_contract_hash i))"
  "field ''inputArtifactHashes'' (cache_inputs_json num i) = Some (denote (strings_json (ci_input_hashes i)))"
  "field ''workflowInputs'' (cache_inputs_json num i) =
     (if dom (ci_workflow_inputs i) = {} then None
      else Some (denote (string_map_json (ci_workflow_inputs i))))"
  "field ''model'' (cache_inputs_json num i) = Some (denote (model_json num (ci_model i)))"
  "field ''toolVersions'' (cache_inputs_json num i) = Some (denote (strings_json (ci_tool_versions i)))"
  "field ''contextPolicy'' (cache_inputs_json num i) = Some (denote (context_policy_json (ci_context_policy i)))"
  by (simp_all add: cache_inputs_json_def)

lemma inputs_denote:
  assumes "finite (dom (ci_workflow_inputs i))" and "finite (dom (ci_workflow_inputs j))"
  shows "denote (cache_inputs_json num i) = denote (cache_inputs_json num j) \<longleftrightarrow>
     ci_worker_id i = ci_worker_id j \<and> ci_worker_version i = ci_worker_version j \<and>
     ci_contract_hash i = ci_contract_hash j \<and> ci_input_hashes i = ci_input_hashes j \<and>
     ci_workflow_inputs i = ci_workflow_inputs j \<and>
     denote (model_json num (ci_model i)) = denote (model_json num (ci_model j)) \<and>
     ci_tool_versions i = ci_tool_versions j \<and>
     denote (context_policy_json (ci_context_policy i)) = denote (context_policy_json (ci_context_policy j))"
    (is "?l \<longleftrightarrow> ?r")
proof
  assume ?l
  note f = field_cong [OF this]
  have "ci_workflow_inputs i = ci_workflow_inputs j"
  proof (cases "dom (ci_workflow_inputs i) = {} \<or> dom (ci_workflow_inputs j) = {}")
    case True
    with f [of "''workflowInputs''"] show ?thesis by (auto simp: inputs_fields split: if_splits)
  next
    case False
    with f [of "''workflowInputs''"] assms show ?thesis
      by (intro denote_string_map) (simp_all add: inputs_fields)
  qed
  with f [of "''workerId''"] f [of "''workerVersion''"] f [of "''contractHash''"]
    f [of "''inputArtifactHashes''"] f [of "''model''"] f [of "''toolVersions''"] f [of "''contextPolicy''"]
  show ?r by (simp add: inputs_fields denote_strings_json)
next
  assume r: ?r
  show ?l unfolding cache_inputs_json_def by (intro denote_obj_cong) (simp add: r)
qed

lemma numbers_ok_gval: "(\<And>q. num_literal (num q)) \<Longrightarrow> numbers_ok (gval_json num v)"
proof (induction v)
  case (JObj kvs)
  have "numbers_ok (gval_json num (snd p))" if "p \<in> set kvs" for p
  proof -
    have "snd p \<in> Basic_BNFs.snds p" by (cases p) simp
    then show ?thesis using JObj.IH [OF that _ JObj.prems] by blast
  qed
  then show ?case unfolding gval_json_def json.map numbers_ok_object by auto
next
  case (JArr vs)
  then show ?case by (auto simp: gval_json_def list_all_iff)
qed (simp_all add: gval_json_def)

lemma numbers_ok_inputs:
  assumes "\<And>q. num_literal (num q)"
  shows "numbers_ok (cache_inputs_json num i)"
proof -
  have "numbers_ok (strings_json xs)" for xs by (simp add: strings_json_def list_all_iff)
  moreover have "numbers_ok (string_map_json m)" for m
    by (simp only: string_map_json_def numbers_ok_object) auto
  moreover have "numbers_ok (model_json num m)" for m
    unfolding model_json_def numbers_ok_object using numbers_ok_gval [OF assms] by auto
  moreover have "numbers_ok (context_policy_json p)" for p
    by (auto simp: context_policy_json_def list_all_iff split: option.splits)
  ultimately show ?thesis
    unfolding cache_inputs_json_def numbers_ok_object by auto
qed

definition normal_inputs :: "cache_inputs \<Rightarrow> cache_inputs" where
  "normal_inputs i = i\<lparr>ci_input_hashes := sorted_copy (ci_input_hashes i),
     ci_tool_versions := sorted_copy (ci_tool_versions i)\<rparr>"

lemma sorted_copy_eq: "sorted_copy xs = sorted_copy ys \<longleftrightarrow> mset xs = mset ys"
  by (metis mset_sort properties_for_sort sorted_copy_def sorted_sort)

text \<open>C28. A cache key stands for exactly these facts: two nodes have the same key if and only if
  Worker, version, contract hash, workflow inputs, model, parameters and context policy are
  the same and the input hashes and the tools are the same up to order. The order of edges and
  of an allowlist never matters, any other change does, as long as SHA-256 does not collide on
  the two documents.\<close>

theorem cache_key_exact:
  assumes "\<And>q. num_literal (num q)"
    and "finite (dom (ci_workflow_inputs i))" and "finite (dom (ci_workflow_inputs j))"
    and "inj_on sum256 {canonical_marshal (cache_inputs_json num (normal_inputs i)),
                        canonical_marshal (cache_inputs_json num (normal_inputs j))}"
  shows "cache_key sum256 num i = cache_key sum256 num j \<longleftrightarrow>
     ci_worker_id i = ci_worker_id j \<and> ci_worker_version i = ci_worker_version j \<and>
     ci_contract_hash i = ci_contract_hash j \<and>
     mset (ci_input_hashes i) = mset (ci_input_hashes j) \<and>
     ci_workflow_inputs i = ci_workflow_inputs j \<and>
     mc_provider (ci_model i) = mc_provider (ci_model j) \<and> mc_model (ci_model i) = mc_model (ci_model j) \<and>
     params_tree num (mc_params (ci_model i)) = params_tree num (mc_params (ci_model j)) \<and>
     mset (ci_tool_versions i) = mset (ci_tool_versions j) \<and>
     context_mode_str (cp_mode (ci_context_policy i)) = context_mode_str (cp_mode (ci_context_policy j)) \<and>
     cp_params (ci_context_policy i) = cp_params (ci_context_policy j)"
proof -
  have key: "cache_key sum256 num k = canonical_hash sum256 (cache_inputs_json num (normal_inputs k))" for k
    by (simp add: cache_key_def normal_inputs_def)
  note ok = numbers_ok_inputs [OF assms(1)]
  have "norm v = norm w \<longleftrightarrow> denote v = denote w" for v w :: cjson
    using norm_denote denote_norm by metis
  then have "cache_key sum256 num i = cache_key sum256 num j \<longleftrightarrow>
      denote (cache_inputs_json num (normal_inputs i)) = denote (cache_inputs_json num (normal_inputs j))"
    using canonical_hash_inject [OF assms(4) ok ok] by (simp add: key)
  also have "finite (dom (ci_workflow_inputs (normal_inputs i)))" "finite (dom (ci_workflow_inputs (normal_inputs j)))"
    using assms(2,3) by (simp_all add: normal_inputs_def)
  note inputs_denote [OF this]
  finally show ?thesis
    by (simp add: normal_inputs_def sorted_copy_eq model_denote context_policy_denote)
qed

definition sample_inputs :: "string list \<Rightarrow> cache_inputs" where
  "sample_inputs hs = \<lparr>ci_worker_id = ''reviewer'', ci_worker_version = ''1.0.0'', ci_contract_hash = ''abc'',
     ci_input_hashes = hs, ci_workflow_inputs = [''prUrl'' \<mapsto> ''u''],
     ci_model = \<lparr>mc_provider = ''openai'', mc_model = ''m'', mc_params = [(''temperature'', JNum 0)]\<rparr>,
     ci_tool_versions = [''git'', ''filesystem''],
     ci_context_policy = \<lparr>cp_mode = ContextDiffOnly, cp_params = None\<rparr>\<rparr>"

theorem cache_key_exact_witness:
  "cache_key (\<lambda>b. b) (\<lambda>q. ''0'') (sample_inputs [''h1'', ''h2'']) =
     cache_key (\<lambda>b. b) (\<lambda>q. ''0'') (sample_inputs [''h2'', ''h1'']) \<and>
   cache_key (\<lambda>b. b) (\<lambda>q. ''0'') (sample_inputs [''h1'', ''h2'']) \<noteq>
     cache_key (\<lambda>b. b) (\<lambda>q. ''0'') (sample_inputs [''h1'', ''h3''])"
proof -
  have num: "\<And>q. num_literal ((\<lambda>q :: rat. ''0'') q)" by (simp add: num_literal_def num_char_def)
  have fin: "finite (dom (ci_workflow_inputs (sample_inputs hs)))" for hs by (simp add: sample_inputs_def)
  note k = cache_key_exact [OF num fin fin, of "\<lambda>b. b"]
  have "mset [''h1'', ''h2''] = mset [''h2'', ''h1'']" "mset [''h1'', ''h2''] \<noteq> mset [''h1'', ''h3'']"
    by (simp_all add: add_mset_commute)
  then show ?thesis
    using k [of "[''h1'', ''h2'']" "[''h2'', ''h1'']"] k [of "[''h1'', ''h2'']" "[''h1'', ''h3'']"]
    by (simp add: sample_inputs_def)
qed

end
