(* ===== verification/ToolInput.thy ===== *)
theory ToolInput
  imports RunTypes "HOL-Library.AList"
begin

text \<open>
  \<open>core/engine/tool_input.go\<close>: the placeholders of a tool call's input and the redaction of
  the secrets they bring in. An object is walked in the order of its association list, which
  stands for the iteration order of the Go map. \<open>env\<close> is the process environment and
  \<open>unmarshal\<close> the JSON decoder. \<open>secrets\<close> maps a resolved value to the placeholder that
  produced it; \<open>refs\<close> lists the hashes of the artifacts that were referenced.
\<close>

section \<open>Placeholders\<close>

text \<open>The pattern: dollar, brace, one or more characters other than newline, brace.\<close>

definition placeholder_inner :: "string \<Rightarrow> string option" where
  "placeholder_inner s =
     (if has_prefix s ''${'' \<and> has_suffix s ''}'' \<and> 4 \<le> length s \<and> CHR 0x0A \<notin> set s
      then Some (take (length s - 3) (drop 2 s)) else None)"

record resolve_env =
  rv_env :: "string \<rightharpoonup> string"
  rv_inputs :: "node_input list"
  rv_wf_inputs :: "string \<rightharpoonup> string"
  rv_connections :: "string \<rightharpoonup> connection_ref"
  rv_unmarshal :: "bytes \<Rightarrow> err + gval"

record resolve_state =
  rs_secrets :: "(string \<times> string) list"
  rs_refs :: "string list"

definition placeholder_error :: "string \<Rightarrow> string \<Rightarrow> err" where
  "placeholder_error s msg = EMsg (''placeholder '' @ quote s @ '': '' @ msg)"

definition resolve_env_var ::
  "resolve_env \<Rightarrow> string \<Rightarrow> string \<Rightarrow> resolve_state \<Rightarrow> err + gval \<times> resolve_state" where
  "resolve_env_var rv s name st =
     (let (name, fallback) =
            (case cut name '':-'' of Some (n, f) \<Rightarrow> (n, Some f) | None \<Rightarrow> (name, None))
      in case rv_env rv name of
           None \<Rightarrow>
             (case fallback of
                Some f \<Rightarrow> Inr (JStr f, st)
              | None \<Rightarrow> Inl (placeholder_error s (''environment variable '' @ quote name @ '' is not set'')))
         | Some v \<Rightarrow>
             Inr (JStr v, if v = [] then st
                          else st\<lparr>rs_secrets := AList.update v s (rs_secrets st)\<rparr>))"

definition connection_field :: "connection_ref \<Rightarrow> string \<Rightarrow> string option" where
  "connection_field c fld =
     (if fld = ''id'' then Some (cr_id c)
      else if fld = ''label'' then Some (cr_label c)
      else if fld = ''kind'' then Some (cr_kind c)
      else if fld = ''type'' then Some (cr_type c)
      else if fld = ''baseUrl'' then Some (cr_base_url c)
      else if fld = ''secretEnv'' then Some (cr_secret_env c)
      else cr_defaults c fld)"

definition resolve_connection :: "resolve_env \<Rightarrow> string \<Rightarrow> string \<Rightarrow> err + gval" where
  "resolve_connection rv s ref =
     (case cut ref ''.'' of
        None \<Rightarrow> Inl (placeholder_error s ''connection placeholders must be ${connection:id.field}'')
      | Some (i, fld) \<Rightarrow>
          if i = [] \<or> fld = []
          then Inl (placeholder_error s ''connection placeholders must be ${connection:id.field}'')
          else case rv_connections rv i of
            None \<Rightarrow>
              Inl (placeholder_error s (''connection '' @ quote i @ '' was not resolved for this run''))
          | Some c \<Rightarrow>
              (case connection_field c fld of
                 Some v \<Rightarrow> Inr (JStr v)
               | None \<Rightarrow>
                   Inl (placeholder_error s
                     (''connection '' @ quote i @ '' has no field/default '' @ quote fld))))"

fun find_input :: "string \<Rightarrow> node_input list \<Rightarrow> node_input option" where
  "find_input n [] = None"
| "find_input n (i # is) = (if ni_from i \<noteq> n then find_input n is else Some i)"

definition resolve_artifact ::
  "resolve_env \<Rightarrow> string \<Rightarrow> string \<Rightarrow> resolve_state \<Rightarrow> err + gval \<times> resolve_state" where
  "resolve_artifact rv s inner st =
     (let (nid, path) = (case cut inner ''.'' of Some p \<Rightarrow> p | None \<Rightarrow> (inner, [])) in
      case find_input nid (rv_inputs rv) of
        None \<Rightarrow>
          Inl (placeholder_error s
            (''no upstream input from node '' @ quote nid @ '' (not wired by an edge?)''))
      | Some i \<Rightarrow>
          (case rv_unmarshal rv (ni_content i) of
             Inl e \<Rightarrow>
               Inl (errorf (''placeholder '' @ quote s @ '': upstream artifact from '' @ quote nid @
                      '' is not valid JSON: '') e [])
           | Inr doc \<Rightarrow>
               (case lookup_path doc path of
                  None \<Rightarrow>
                    Inl (placeholder_error s
                      (''path '' @ quote path @ '' not found in '' @ quote nid @ [CHR 0x27] @ ''s output''))
                | Some v \<Rightarrow> Inr (v, st\<lparr>rs_refs := List.insert (ni_hash i) (rs_refs st)\<rparr>))))"

definition resolve_placeholder ::
  "resolve_env \<Rightarrow> string \<Rightarrow> resolve_state \<Rightarrow> err + gval \<times> resolve_state" where
  "resolve_placeholder rv s st =
     (case placeholder_inner s of
        None \<Rightarrow> Inr (JStr s, st)
      | Some inner \<Rightarrow>
          (case cut_prefix inner ''env:'' of
             Some name \<Rightarrow> resolve_env_var rv s name st
           | None \<Rightarrow>
          (case cut_prefix inner ''input:'' of
             Some name \<Rightarrow>
               (case rv_wf_inputs rv name of
                  Some v \<Rightarrow> Inr (JStr v, st)
                | None \<Rightarrow>
                    Inl (placeholder_error s (''workflow input '' @ quote name @
                           '' has no value (not declared, or not supplied)'')))
           | None \<Rightarrow>
          (case cut_prefix inner ''connection:'' of
             Some ref \<Rightarrow> (case resolve_connection rv s ref of Inl e \<Rightarrow> Inl e | Inr v \<Rightarrow> Inr (v, st))
           | None \<Rightarrow> resolve_artifact rv s inner st))))"

text \<open>The walk over the input tree.\<close>

fun resolve_tool_input ::
    "resolve_env \<Rightarrow> gval \<Rightarrow> resolve_state \<Rightarrow> err + gval \<times> resolve_state"
  and resolve_fields ::
    "resolve_env \<Rightarrow> (string \<times> gval) list \<Rightarrow> resolve_state \<Rightarrow> err + (string \<times> gval) list \<times> resolve_state"
  and resolve_items ::
    "resolve_env \<Rightarrow> nat \<Rightarrow> gval list \<Rightarrow> resolve_state \<Rightarrow> err + gval list \<times> resolve_state" where
  "resolve_tool_input rv (JStr s) st = resolve_placeholder rv s st"
| "resolve_tool_input rv (JObj kvs) st =
     (case resolve_fields rv kvs st of Inl e \<Rightarrow> Inl e | Inr (kvs', st') \<Rightarrow> Inr (JObj kvs', st'))"
| "resolve_tool_input rv (JArr vs) st =
     (case resolve_items rv 0 vs st of Inl e \<Rightarrow> Inl e | Inr (vs', st') \<Rightarrow> Inr (JArr vs', st'))"
| "resolve_tool_input rv v st = Inr (v, st)"
| "resolve_fields rv [] st = Inr ([], st)"
| "resolve_fields rv ((k, v) # kvs) st =
     (case resolve_tool_input rv v st of
        Inl e \<Rightarrow> Inl (errorf (k @ '': '') e [])
      | Inr (v', st') \<Rightarrow>
          (case resolve_fields rv kvs st' of
             Inl e \<Rightarrow> Inl e
           | Inr (kvs', st'') \<Rightarrow> Inr ((k, v') # kvs', st'')))"
| "resolve_items rv i [] st = Inr ([], st)"
| "resolve_items rv i (v # vs) st =
     (case resolve_tool_input rv v st of
        Inl e \<Rightarrow> Inl (errorf (''['' @ itoa (int i) @ '']: '') e [])
      | Inr (v', st') \<Rightarrow>
          (case resolve_items rv (Suc i) vs st' of
             Inl e \<Rightarrow> Inl e
           | Inr (vs', st'') \<Rightarrow> Inr (v' # vs', st'')))"

section \<open>Redaction\<close>

fun redact_bytes :: "bytes \<Rightarrow> (string \<times> string) list \<Rightarrow> bytes" where
  "redact_bytes b [] = b"
| "redact_bytes b ((val, ref) # secrets) =
     redact_bytes (if val = [] then b else replace_all val ref b) secrets"

text \<open>\<open>redactString\<close> does the same on strings, which are bytes here.\<close>

definition redact_string :: "string \<Rightarrow> (string \<times> string) list \<Rightarrow> string" where
  "redact_string s secrets = redact_bytes s secrets"

section \<open>What replacing leaves\<close>

lemma replace_all_pieces:
  assumes "val \<noteq> []"
  shows "\<exists>us. us \<noteq> [] \<and> replace_all val ref b = join ref us \<and> join val us = b \<and>
    (\<forall>u\<in>set us. \<not> sublist val u)"
  using assms
proof (induction val ref b rule: replace_all.induct)
  case (1 val ref b)
  show ?case
  proof (cases b)
    case Nil
    with "1.prems" show ?thesis by (intro exI [of _ "[[]]"]) simp
  next
    case (Cons c cs)
    show ?thesis
    proof (cases "has_prefix b val")
      case True
      from "1.IH"(1) [OF "1.prems" Cons True "1.prems"] obtain us where us: "us \<noteq> []"
        "replace_all val ref (drop (length val) b) = join ref us" "join val us = drop (length val) b"
        "\<forall>u\<in>set us. \<not> sublist val u" by blast
      have hd: "join s ([] # us) = s @ join s us" for s using us(1) by (cases us) simp_all
      have "replace_all val ref b = ref @ replace_all val ref (drop (length val) b)"
        using "1.prems" Cons True by (subst replace_all.simps) simp
      moreover have "val @ drop (length val) b = b"
        using True by (metis append_take_drop_id has_prefix_def)
      ultimately show ?thesis
        using us hd "1.prems" by (intro exI [of _ "[] # us"]) auto
    next
      case False
      from "1.IH"(2) [OF "1.prems" Cons False "1.prems"] obtain us where us: "us \<noteq> []"
        "replace_all val ref cs = join ref us" "join val us = cs" "\<forall>u\<in>set us. \<not> sublist val u" by blast
      obtain u us' where u: "us = u # us'" using us(1) by (cases us) auto
      have hd: "join s ((c # u) # us') = c # join s us" for s using u by (cases us') simp_all
      have "replace_all val ref b = c # replace_all val ref cs"
        using "1.prems" Cons False by (subst replace_all.simps) simp
      moreover have "\<not> sublist val (c # u)"
      proof
        assume "sublist val (c # u)"
        then consider "prefix val (c # u)" | "sublist val u" by (auto simp: sublist_Cons_right)
        then show False
        proof cases
          case 1
          then obtain z where z: "c # u = val @ z" by (auto simp: prefix_def)
          obtain y where "join val us = u @ y" using u by (cases us') auto
          then have "b = (c # u) @ y" using us(3) Cons by simp
          then have "b = val @ z @ y" unfolding z by simp
          with False show ?thesis by (auto simp: has_prefix_iff)
        next
          case 2
          with us(4) u show ?thesis by simp
        qed
      qed
      ultimately show ?thesis
        using us u hd Cons by (intro exI [of _ "(c # u) # us'"]) auto
    qed
  qed
qed

lemma sublist_join: "u \<in> set us \<Longrightarrow> sublist u (join sep us)"
proof (induction sep us rule: join.induct)
  case (3 sep x y xs)
  then show ?case by (auto simp: sublist_append)
qed auto

lemma sublist_around:
  assumes "sublist v (x @ c # y)" and "c \<notin> set v"
  shows "sublist v x \<or> sublist v y"
proof -
  from assms(1) obtain p q where eq: "x @ c # y = p @ v @ q" by (auto simp: sublist_def)
  then obtain us where "x = p @ us \<and> us @ c # y = v @ q \<or> x @ us = p \<and> c # y = us @ v @ q"
    by (auto simp: append_eq_append_conv2)
  then show ?thesis
  proof (elim disjE conjE)
    assume x: "x = p @ us" and "us @ c # y = v @ q"
    then obtain ws where "us = v @ ws \<or> us @ ws = v \<and> c # y = ws @ q"
      by (auto simp: append_eq_append_conv2)
    then show ?thesis
    proof (elim disjE conjE)
      assume "us = v @ ws"
      with x show ?thesis by (simp add: sublist_appendI)
    next
      assume v: "us @ ws = v" and "c # y = ws @ q"
      then have "ws = []" using assms(2) by (cases ws) auto
      with v x show ?thesis by simp
    qed
  next
    assume y: "c # y = us @ v @ q"
    show ?thesis
    proof (cases us)
      case Nil
      with y assms(2) show ?thesis by (cases v) auto
    next
      case (Cons d us')
      with y have "y = us' @ v @ q" by simp
      then show ?thesis by (simp only: sublist_appendI simp_thms)
    qed
  qed
qed

definition reference :: "string \<Rightarrow> bool" where
  "reference r \<longleftrightarrow> (\<exists>m. r = ''${'' @ m @ ''}'')"

definition no_marks :: "string \<Rightarrow> bool" where
  "no_marks v \<longleftrightarrow> v \<noteq> [] \<and> CHR ''$'' \<notin> set v \<and> CHR ''}'' \<notin> set v"

lemma join_no_occurrence:
  assumes "no_marks v" and "reference r" and "\<not> sublist v r" and "\<forall>u\<in>set us. \<not> sublist v u"
  shows "\<not> sublist v (join r us)"
  using assms(4)
proof (induction r\<equiv>r us rule: join.induct)
  case 1
  with assms(1) show ?case by (simp add: no_marks_def)
next
  case (3 x y xs)
  show ?case
  proof
    assume occ: "sublist v (join r (x # y # xs))"
    obtain m where r: "r = CHR ''$'' # (CHR ''{'' # m) @ [CHR ''}'']"
      using assms(2) by (auto simp: reference_def)
    have "sublist v (x @ CHR ''$'' # ((CHR ''{'' # m) @ CHR ''}'' # join r (y # xs)))"
      using occ r by simp
    from sublist_around [OF this]
    have "sublist v x \<or> sublist v ((CHR ''{'' # m) @ CHR ''}'' # join r (y # xs))"
      using assms(1) by (simp only: no_marks_def simp_thms)
    then have "sublist v x \<or> sublist v (CHR ''{'' # m) \<or> sublist v (join r (y # xs))"
      using sublist_around [of v "CHR ''{'' # m" "CHR ''}''"] assms(1) by (auto simp only: no_marks_def)
    moreover have "\<not> sublist v (CHR ''{'' # m)"
      using assms(3) unfolding r by (metis append_Cons append_Nil sublist_appendI sublist_order.order_trans)
    ultimately show False using 3 by auto
  qed
qed simp

lemma replace_all_absent_after:
  assumes "no_marks w" and "reference r" and "\<not> sublist w r" and "val \<noteq> []"
    and "w = val \<or> \<not> sublist w b"
  shows "\<not> sublist w (replace_all val r b)"
proof -
  from replace_all_pieces [OF assms(4), of r b] obtain us where us:
    "replace_all val r b = join r us" "join val us = b" "\<forall>u\<in>set us. \<not> sublist val u" by blast
  have "\<not> sublist w u" if "u \<in> set us" for u
    using assms(5) us(3) that sublist_join [OF that, of val] us(2)
    by (metis sublist_order.order_trans)
  with join_no_occurrence [OF assms(1-3), of us] us(1) show ?thesis by simp
qed

lemma redact_absent:
  assumes "\<forall>(v, r)\<in>set secrets. no_marks v \<and> reference r"
    and "\<forall>v\<in>fst ` set secrets. \<forall>r\<in>snd ` set secrets. \<not> contains r v"
  shows "\<forall>v\<in>fst ` set secrets. \<not> contains (redact_bytes b secrets) v"
proof -
  have keep: "\<not> sublist w (redact_bytes c l)"
    if "set l \<subseteq> set secrets" "no_marks w" "\<forall>r\<in>snd ` set secrets. \<not> sublist w r"
      "w \<in> fst ` set l \<or> \<not> sublist w c" for w c l
    using that
  proof (induction l arbitrary: c)
    case (Cons p l)
    obtain v r where p: "p = (v, r)" by fastforce
    have vr: "no_marks v" "reference r" using assms(1) Cons.prems(1) p by auto
    then have v: "v \<noteq> []" by (simp add: no_marks_def)
    have wr: "\<not> sublist w r" using Cons.prems(1,3) p by force
    have "w \<in> fst ` set l \<or> \<not> sublist w (replace_all v r c)"
      using Cons.prems(4) p replace_all_absent_after [OF Cons.prems(2) vr(2) wr v, of c] by auto
    with Cons.IH [of "replace_all v r c"] Cons.prems p v show ?case by simp
  qed simp
  show ?thesis
  proof
    fix v assume v: "v \<in> fst ` set secrets"
    then have "no_marks v" using assms(1) by auto
    with keep [of secrets v b] v assms(2) show "\<not> contains (redact_bytes b secrets) v"
      by (auto simp: contains_def)
  qed
qed


text \<open>Redaction is complete: whatever order the secrets are replaced in, none of them occurs in
  the result, provided no secret contains a dollar or a closing brace and none is part of a
  placeholder's text.\<close>

theorem redaction_complete:
  assumes "\<forall>(v, r)\<in>set secrets. no_marks v \<and> reference r"
    and "\<forall>v\<in>fst ` set secrets. \<forall>r\<in>snd ` set secrets. \<not> contains r v"
  shows "\<forall>v\<in>fst ` set secrets. \<not> contains (redact_bytes b secrets) v"
  by (rule redact_absent [OF assms])

theorem redaction_complete_witness:
  "\<not> contains (redact_bytes ''curl -H sk-1: tok2 sk-1''
     [(''sk-1'', ''${env:KEY}''), (''tok2'', ''${env:TOKEN}'')]) ''sk-1'' \<and>
   redact_bytes ''curl -H sk-1: tok2 sk-1'' [(''sk-1'', ''${env:KEY}''), (''tok2'', ''${env:TOKEN}'')] =
     ''curl -H ${env:KEY}: ${env:TOKEN} ${env:KEY}''"
proof -
  let ?s = "[(''sk-1'', ''${env:KEY}''), (''tok2'', ''${env:TOKEN}'')]"
  have marks: "no_marks ''sk-1''" "no_marks ''tok2''" by (simp_all add: no_marks_def)
  have refs: "reference ''${env:KEY}''" "reference ''${env:TOKEN}''"
    unfolding reference_def by (rule exI [of _ "''env:KEY''"], simp, rule exI [of _ "''env:TOKEN''"], simp)
  have "\<forall>(v, r)\<in>set ?s. no_marks v \<and> reference r" using marks refs by simp
  moreover have "\<forall>v\<in>fst ` set ?s. \<forall>r\<in>snd ` set ?s. \<not> contains r v"
    by (simp add: contains_def, code_simp)
  ultimately have "\<forall>v\<in>fst ` set ?s. \<not> contains (redact_bytes ''curl -H sk-1: tok2 sk-1'' ?s) v"
    by (rule redaction_complete)
  moreover have "redact_bytes ''curl -H sk-1: tok2 sk-1'' ?s = ''curl -H ${env:KEY}: ${env:TOKEN} ${env:KEY}''"
    by code_simp
  ultimately show ?thesis by simp
qed

section \<open>Every secret that is resolved is recorded\<close>

primrec leaf_strings :: "gval \<Rightarrow> string list" where
  "leaf_strings JNull = []"
| "leaf_strings (JBool b) = []"
| "leaf_strings (JNum q) = []"
| "leaf_strings (JStr s) = [s]"
| "leaf_strings (JArr vs) = concat (map leaf_strings vs)"
| "leaf_strings (JObj kvs) = concat (map snd (map (map_prod id leaf_strings) kvs))"

text \<open>The environment value a leaf stands for, if it names a variable that is set.\<close>

definition env_value :: "resolve_env \<Rightarrow> string \<Rightarrow> string option" where
  "env_value rv s =
     (case placeholder_inner s of
        None \<Rightarrow> None
      | Some inner \<Rightarrow>
          (case cut_prefix inner ''env:'' of
             None \<Rightarrow> None
           | Some name \<Rightarrow>
               rv_env rv (case cut name '':-'' of Some (n, f) \<Rightarrow> n | None \<Rightarrow> name)))"

definition secrets_ok :: "resolve_state \<Rightarrow> bool" where
  "secrets_ok st \<longleftrightarrow> (\<forall>(v, r)\<in>set (rs_secrets st). v \<noteq> [] \<and> reference r)"

definition recorded :: "resolve_state \<Rightarrow> string set" where
  "recorded st = fst ` set (rs_secrets st)"

definition resolves :: "resolve_env \<Rightarrow> string list \<Rightarrow> resolve_state \<Rightarrow> resolve_state \<Rightarrow> bool" where
  "resolves rv ss st st' \<longleftrightarrow> recorded st \<subseteq> recorded st' \<and>
     (\<forall>s\<in>set ss. \<forall>x. env_value rv s = Some x \<longrightarrow> x \<noteq> [] \<longrightarrow> x \<in> recorded st') \<and>
     (secrets_ok st \<longrightarrow> secrets_ok st')"

lemma resolves_none [simp]: "resolves rv [] st st"
  by (simp add: resolves_def)

lemma resolves_append:
  "resolves rv ss st st1 \<Longrightarrow> resolves rv ts st1 st2 \<Longrightarrow> resolves rv (ss @ ts) st st2"
  by (auto simp: resolves_def)

lemma placeholder_reference: "placeholder_inner s = Some inner \<Longrightarrow> reference s"
proof -
  assume "placeholder_inner s = Some inner"
  then have "has_prefix s ''${''" "has_suffix s ''}''" "4 \<le> length s"
    by (auto simp: placeholder_inner_def split: if_splits)
  then obtain a b where a: "s = ''${'' @ a" and b: "s = b @ ''}''"
    unfolding has_prefix_iff has_suffix_iff by blast
  then have "a \<noteq> []" "last a = CHR ''}''"
    using \<open>4 \<le> length s\<close> by (auto simp: append_eq_Cons_conv Cons_eq_append_conv)
  then have "a = butlast a @ ''}''" by (metis append_butlast_last_id)
  with a show ?thesis unfolding reference_def by blast
qed

lemma resolve_placeholder_resolves:
  assumes "resolve_placeholder rv s st = Inr (v, st')"
  shows "resolves rv [s] st st'"
proof (cases "placeholder_inner s")
  case None
  with assms show ?thesis by (simp add: resolve_placeholder_def resolves_def env_value_def)
next
  case (Some inner)
  note ref = placeholder_reference [OF Some]
  show ?thesis
  proof (cases "cut_prefix inner ''env:''")
    case None
    then have "env_value rv s = None" using Some by (simp add: env_value_def)
    moreover have "rs_secrets st' = rs_secrets st"
      using assms Some None
      by (auto simp: resolve_placeholder_def resolve_artifact_def Let_def split: option.splits sum.splits prod.splits)
    ultimately show ?thesis by (simp add: resolves_def recorded_def secrets_ok_def)
  next
    case env: (Some name)
    define n where "n = (case cut name '':-'' of Some (n, f) \<Rightarrow> n | None \<Rightarrow> name)"
    have val: "env_value rv s = rv_env rv n" using Some env by (simp add: env_value_def n_def)
    have run: "resolve_env_var rv s name st = Inr (v, st')"
      using assms Some env by (simp add: resolve_placeholder_def)
    show ?thesis
    proof (cases "rv_env rv n")
      case None
      with run have "st' = st"
        by (auto simp: resolve_env_var_def n_def Let_def split: option.splits prod.splits)
      with val None show ?thesis by (simp add: resolves_def)
    next
      case x: (Some x)
      with run have st': "st' = (if x = [] then st else st\<lparr>rs_secrets := AList.update x s (rs_secrets st)\<rparr>)"
        by (auto simp: resolve_env_var_def n_def Let_def split: option.splits prod.splits)
      show ?thesis
      proof (cases "x = []")
        case True
        with st' val x show ?thesis by (simp add: resolves_def)
      next
        case False
        have sub: "set (AList.update x s l) \<subseteq> insert (x, s) (set l)" for l
          by (induction l) auto
        have dom: "fst ` set (AList.update x s l) = insert x (fst ` set l)" for l
          by (induction l) auto
        have "recorded st' = insert x (recorded st)" using st' False dom by (simp add: recorded_def)
        moreover have "secrets_ok st'" if "secrets_ok st"
          using that st' False sub [of "rs_secrets st"] ref unfolding secrets_ok_def by auto
        ultimately show ?thesis using val x by (auto simp: resolves_def)
      qed
    qed
  qed
qed

lemma resolve_resolves:
  "resolve_tool_input rv v st = Inr (v', st') \<Longrightarrow> resolves rv (leaf_strings v) st st'"
  "resolve_fields rv kvs st = Inr (kvs', st') \<Longrightarrow> resolves rv (leaf_strings (JObj kvs)) st st'"
  "resolve_items rv i vs st = Inr (vs', st') \<Longrightarrow> resolves rv (leaf_strings (JArr vs)) st st'"
proof (induction rv v st and rv kvs st and rv i vs st arbitrary: v' st' and kvs' st' and vs' st'
    rule: resolve_tool_input_resolve_fields_resolve_items.induct)
  case (1 rv s st)
  then show ?case by (auto intro: resolve_placeholder_resolves)
next
  case (6 rv k v kvs st)
  then show ?case by (auto intro!: resolves_append split: sum.splits prod.splits)
next
  case (8 rv i v vs st)
  then show ?case by (auto intro!: resolves_append split: sum.splits prod.splits)
qed (auto split: sum.splits prod.splits)

text \<open>No environment value reaches a tool unrecorded: when an input resolves, every non-empty
  value that one of its placeholders read from the environment is among the secrets that are
  redacted afterwards, each with the text of a placeholder to stand for it.\<close>

theorem resolved_secrets_recorded:
  assumes "resolve_tool_input rv v st = Inr (v', st')" and "s \<in> set (leaf_strings v)"
    and "env_value rv s = Some x" and "x \<noteq> []" and "secrets_ok st"
  shows "x \<in> fst ` set (rs_secrets st') \<and> (\<forall>(y, r)\<in>set (rs_secrets st'). y \<noteq> [] \<and> reference r)"
  using resolve_resolves(1) [OF assms(1)] assms(2-5)
  unfolding resolves_def recorded_def secrets_ok_def by blast

definition sample_resolve_env :: resolve_env where
  "sample_resolve_env = \<lparr>rv_env = [''KEY'' \<mapsto> ''sk-1''], rv_inputs = [], rv_wf_inputs = Map.empty,
     rv_connections = Map.empty, rv_unmarshal = (\<lambda>b. Inr JNull)\<rparr>"

definition sample_tool_input :: gval where
  "sample_tool_input = JObj [(''method'', JStr ''GET''),
     (''headers'', JObj [(''x'', JStr ''${env:KEY}''), (''y'', JStr ''${env:NONE:-}'')])]"

theorem resolved_secrets_recorded_witness:
  "\<exists>st'. resolve_tool_input sample_resolve_env sample_tool_input \<lparr>rs_secrets = [], rs_refs = []\<rparr> =
      Inr (JObj [(''method'', JStr ''GET''), (''headers'', JObj [(''x'', JStr ''sk-1''), (''y'', JStr [])])], st') \<and>
    ''sk-1'' \<in> fst ` set (rs_secrets st')"
proof -
  let ?st = "\<lparr>rs_secrets = [], rs_refs = []\<rparr>"
  have "resolve_tool_input sample_resolve_env sample_tool_input ?st =
      Inr (JObj [(''method'', JStr ''GET''), (''headers'', JObj [(''x'', JStr ''sk-1''), (''y'', JStr [])])],
        \<lparr>rs_secrets = [(''sk-1'', ''${env:KEY}'')], rs_refs = []\<rparr>)" (is "_ = Inr (_, ?st')")
    by code_simp
  moreover from resolved_secrets_recorded [OF this, of "''${env:KEY}''" "''sk-1''"]
  have "''sk-1'' \<in> fst ` set (rs_secrets ?st')"
  proof -
    have "''${env:KEY}'' \<in> set (leaf_strings sample_tool_input)" by code_simp
    moreover have "env_value sample_resolve_env ''${env:KEY}'' = Some ''sk-1''" by code_simp
    moreover have "secrets_ok ?st" by (simp add: secrets_ok_def)
    ultimately show ?thesis
      using resolved_secrets_recorded [OF \<open>resolve_tool_input _ _ _ = _\<close>] by blast
  qed
  ultimately show ?thesis by blast
qed

end
