(* ===== verification/Tools.thy ===== *)
theory Tools
  imports GoErr
begin

text \<open>
  \<open>core/tool\<close>: the tool interface and the four built-in tools. A tool is a record of its
  methods over the state \<open>'w\<close> of the world it touches. JSON Schema validation (a library) and
  the decoding of an input into a tool's request struct are arguments; so is every call that
  leaves the process: the file system, the process runner, the HTTP client, the regexp and URL
  packages.
\<close>

section \<open>The interface\<close>

text \<open>\<open>validateAgainst\<close>: an empty schema constrains nothing.\<close>

definition validate_against :: "(bytes \<Rightarrow> bytes \<Rightarrow> err option) \<Rightarrow> bytes \<Rightarrow> bytes \<Rightarrow> err option" where
  "validate_against validator schema data = (if schema = [] then None else validator schema data)"

record 'w tool =
  tl_name :: string
  tl_version :: string
  tl_input_schema :: bytes
  tl_output_schema :: bytes
  tl_execute :: "bytes \<Rightarrow> 'w \<Rightarrow> (err + bytes) \<times> 'w"
  tl_describe :: "(bytes \<Rightarrow> err + mutation) option"
  tl_artifact_type :: "artifact_type option"

text \<open>Values of a tool event's payload: raw JSON, text and what is built from Go values.\<close>

datatype pval = PRaw bytes | PText string | PVal gval | PMutation mutation

type_synonym tool_event = "event_type \<times> (string \<times> pval) list"

definition registry_get :: "(string \<times> 'w tool) list \<Rightarrow> string \<Rightarrow> 'w tool option" where
  "registry_get tools name = map_of tools name"

text \<open>The registry maps each tool's own name; a later registration replaces an earlier one.\<close>

fun register :: "'w tool \<Rightarrow> (string \<times> 'w tool) list \<Rightarrow> (string \<times> 'w tool) list" where
  "register t tools = (tl_name t, t) # tools"

definition validate_input :: "(bytes \<Rightarrow> bytes \<Rightarrow> err option) \<Rightarrow> 'w tool \<Rightarrow> bytes \<Rightarrow> err option" where
  "validate_input validator t input = validate_against validator (tl_input_schema t) input"

definition error_event :: "'w tool \<Rightarrow> err \<Rightarrow> int \<Rightarrow> tool_event" where
  "error_event t e ms =
     (ToolResult, [(''tool'', PText (tl_name t)), (''error'', PText (err_msg e)),
        (''diagnostic'', PVal (JObj (diag_payload e []))), (''durationMs'', PVal (jint ms))])"

text \<open>\<open>Invoke\<close>: the events in the order they are emitted, the result and the world after it;
  \<open>ms\<close> is what the clock measured around \<open>Execute\<close>.\<close>

definition invoke ::
  "(bytes \<Rightarrow> bytes \<Rightarrow> err option) \<Rightarrow> 'w tool \<Rightarrow> bytes \<Rightarrow> int \<Rightarrow> 'w \<Rightarrow>
     tool_event list \<times> (err + bytes) \<times> 'w" where
  "invoke validator t input ms w =
     (case validate_input validator t input of
        Some verr \<Rightarrow>
          let e = errorf (''tool '' @ quote (tl_name t) @ '': input rejected: '') verr [];
              e = diag_wrap e KindValidation ''tool_input_schema_invalid'' [] ''tool.input.validate''
                    ''tool input failed its schema'' ''fix the tool input fields before running''
          in ([error_event t e 0], Inl e, w)
      | None \<Rightarrow>
          let called = (ToolCalled, [(''tool'', PText (tl_name t)), (''version'', PText (tl_version t)),
                          (''input'', PRaw input)])
          in case tl_execute t input w of
               (Inl xerr, w') \<Rightarrow>
                 let e = diag_wrap xerr KindTool ''tool_execute_failed'' [] ''tool.execute''
                           ''tool execution failed''
                           ''check the tool sandbox configuration and local resource availability''
                 in ([called, error_event t e ms], Inl e, w')
             | (Inr out, w') \<Rightarrow>
                 (case validate_against validator (tl_output_schema t) out of
                    Some verr \<Rightarrow>
                      let e = errorf (''tool '' @ quote (tl_name t) @ '': output failed its schema: '') verr [];
                          e = diag_wrap e KindValidation ''tool_output_schema_invalid'' [] ''tool.output.validate''
                                ''tool output failed its schema''
                                ''fix the tool implementation or output schema''
                      in ([called, error_event t e ms], Inl e, w')
                  | None \<Rightarrow>
                      ([called, (ToolResult, [(''tool'', PText (tl_name t)), (''output'', PRaw out),
                          (''durationMs'', PVal (jint ms))])], Inr out, w')))"

text \<open>A \<open>Mutation\<close> literal with the fields a tool sets.\<close>

definition plain_mutation :: "bool \<Rightarrow> string \<Rightarrow> mutation" where
  "plain_mutation m op = \<lparr>mut_mutating = m, mut_operation = op, mut_summary = [], mut_paths = [],
     mut_command = [], mut_method = [], mut_url = []\<rparr>"

section \<open>filesystem\<close>

text \<open>An absolute, clean path is the list of its components.\<close>

type_synonym path = "string list"

fun clean_step :: "path \<Rightarrow> string \<Rightarrow> path" where
  "clean_step acc c =
     (if c = [] \<or> c = ''.'' then acc else if c = ''..'' then butlast acc else acc @ [c])"

definition join_clean :: "path \<Rightarrow> string \<Rightarrow> path" where
  "join_clean base rel = foldl clean_step base (split_on CHR ''/'' rel)"

text \<open>The first components of \<open>filepath.Rel\<close>: one \<open>..\<close> for each component of \<open>base\<close> that
  \<open>target\<close> leaves.\<close>

fun rel_path :: "path \<Rightarrow> path \<Rightarrow> path" where
  "rel_path (b # bs) (t # ts) =
     (if b = t then rel_path bs ts else replicate (length (b # bs)) ''..'' @ t # ts)"
| "rel_path bs ts = replicate (length bs) ''..'' @ ts"

text \<open>\<open>eval\<close> is \<open>filepath.EvalSymlinks\<close>: the resolved path, if the path exists.\<close>

function resolve_existing :: "(path \<Rightarrow> path option) \<Rightarrow> path \<Rightarrow> path" where
  "resolve_existing eval p =
     (case eval p of
        Some q \<Rightarrow> q
      | None \<Rightarrow> if p = [] then p else resolve_existing eval (butlast p) @ [last p])"
  by pat_completeness auto
termination by (relation "measure (\<lambda>(eval, p). length p)") auto

declare resolve_existing.simps [simp del]

definition real_root :: "(path \<Rightarrow> path option) \<Rightarrow> path \<Rightarrow> path" where
  "real_root eval base = (case eval base of Some r \<Rightarrow> r | None \<Rightarrow> base)"

definition safe_path :: "(path \<Rightarrow> path option) \<Rightarrow> path \<Rightarrow> string \<Rightarrow> err + path" where
  "safe_path eval base rel =
     (if has_prefix rel ''/''
      then Inl (EMsg (''filesystem: path '' @ quote rel @ '' must be relative to the workspace root''))
      else
        let root_real = real_root eval base;
            resolved = resolve_existing eval (join_clean root_real rel)
        in if take 1 (rel_path root_real resolved) = [''..'']
           then Inl (EMsg (''filesystem: path '' @ quote rel @ '' escapes the workspace root''))
           else Inr resolved)"

record fs_request =
  fr_op :: string
  fr_path :: string
  fr_content :: string

record dir_entry =
  de_name :: string
  de_is_dir :: bool
  de_size :: int

record 'w fs_os =
  os_real :: "path \<Rightarrow> path option"
  os_read_file :: "path \<Rightarrow> 'w \<Rightarrow> err + bytes"
  os_mkdir_all :: "path \<Rightarrow> 'w \<Rightarrow> err option \<times> 'w"
  os_write_file :: "path \<Rightarrow> bytes \<Rightarrow> 'w \<Rightarrow> err option \<times> 'w"
  os_read_dir :: "path \<Rightarrow> 'w \<Rightarrow> err + dir_entry list"

definition entry_json :: "dir_entry \<Rightarrow> gval" where
  "entry_json d =
     JObj [(''name'', JStr (de_name d)), (''isDir'', JBool (de_is_dir d)), (''size'', jint (de_size d))]"

definition fs_execute ::
  "(bytes \<Rightarrow> err + fs_request) \<Rightarrow> (gval \<Rightarrow> bytes) \<Rightarrow> 'w fs_os \<Rightarrow> path \<Rightarrow> bytes \<Rightarrow> 'w \<Rightarrow> (err + bytes) \<times> 'w" where
  "fs_execute decode marshal os base input w =
     (case decode input of
        Inl e \<Rightarrow> (Inl (errorf ''filesystem: decode input: '' e []), w)
      | Inr req \<Rightarrow>
          (case safe_path (os_real os) base (fr_path req) of
             Inl e \<Rightarrow> (Inl e, w)
           | Inr p \<Rightarrow>
               if fr_op req = ''read'' then
                 (case os_read_file os p w of
                    Inl e \<Rightarrow> (Inl (errorf (''filesystem: read '' @ quote (fr_path req) @ '': '') e []), w)
                  | Inr b \<Rightarrow> (Inr (marshal (JObj [(''content'', JStr b)])), w))
               else if fr_op req = ''write'' then
                 (case os_mkdir_all os (butlast p) w of
                    (Some e, w1) \<Rightarrow>
                      (Inl (errorf (''filesystem: create parent of '' @ quote (fr_path req) @ '': '') e []), w1)
                  | (None, w1) \<Rightarrow>
                      (case os_write_file os p (fr_content req) w1 of
                         (Some e, w2) \<Rightarrow>
                           (Inl (errorf (''filesystem: write '' @ quote (fr_path req) @ '': '') e []), w2)
                       | (None, w2) \<Rightarrow>
                           (Inr (marshal (JObj [(''bytesWritten'', jint (int (length (fr_content req))))])), w2)))
               else if fr_op req = ''list'' then
                 (case os_read_dir os p w of
                    Inl e \<Rightarrow> (Inl (errorf (''filesystem: list '' @ quote (fr_path req) @ '': '') e []), w)
                  | Inr es \<Rightarrow>
                      (Inr (marshal (JObj [(''entries'', JArr (map entry_json (sort_key de_name es)))])), w))
               else (Inl (EMsg (''filesystem: unknown op '' @ quote (fr_op req))), w)))"

definition fs_describe :: "(bytes \<Rightarrow> err + fs_request) \<Rightarrow> bytes \<Rightarrow> err + mutation" where
  "fs_describe decode input =
     (case decode input of
        Inl e \<Rightarrow> Inl (errorf ''filesystem: decode mutation input: '' e [])
      | Inr req \<Rightarrow>
          if fr_op req \<noteq> ''write''
          then Inr ((plain_mutation False (fr_op req))\<lparr>mut_paths := [fr_path req]\<rparr>)
          else Inr ((plain_mutation True ''filesystem.write'')
                 \<lparr>mut_summary := ''write '' @ itoa (int (length (fr_content req))) @ '' bytes to '' @ fr_path req,
                  mut_paths := [fr_path req]\<rparr>))"

section \<open>git\<close>

record git_request =
  gr_op :: string
  gr_paths :: "string list"
  gr_message :: string
  gr_name :: string

definition git_args :: "git_request \<Rightarrow> err + string list" where
  "git_args req =
     (if gr_op req = ''status'' then Inr [''status'', ''--porcelain'']
      else if gr_op req = ''diff'' then Inr [''diff'']
      else if gr_op req = ''add'' then
        (if gr_paths req = [] then Inl (EMsg ''git: add requires at least one path'')
         else Inr ([''add'', ''--''] @ gr_paths req))
      else if gr_op req = ''commit'' then
        (if gr_message req = [] then Inl (EMsg ''git: commit requires a message'')
         else Inr [''commit'', ''-m'', gr_message req])
      else if gr_op req = ''branch'' then
        (if gr_name req = [] then Inr [''branch''] else Inr [''checkout'', ''-b'', gr_name req])
      else Inl (EMsg (''git: unsupported op '' @ quote (gr_op req))))"

text \<open>How a process ended: its output, a timeout, an exit code with its error output, or no start.\<close>

datatype proc_end = ProcOk bytes | ProcTimeout | ProcExit int bytes | ProcNoStart err

definition git_run ::
  "(string list \<Rightarrow> 'w \<Rightarrow> proc_end \<times> 'w) \<Rightarrow> string \<Rightarrow> string list \<Rightarrow> 'w \<Rightarrow> (err + bytes) \<times> 'w" where
  "git_run git timeout args w =
     (case git args w of
        (ProcOk out, w') \<Rightarrow> (Inr out, w')
      | (ProcTimeout, w') \<Rightarrow> (Inl (EMsg (''git '' @ hd args @ '': timed out after '' @ timeout)), w')
      | (ProcExit code serr, w') \<Rightarrow>
          (Inl (EMsg (''git '' @ hd args @ '' failed (exit '' @ itoa code @ ''): '' @ serr)), w')
      | (ProcNoStart e, w') \<Rightarrow> (Inl (errorf (''git '' @ hd args @ '': '') e []), w'))"

definition git_execute ::
  "(bytes \<Rightarrow> err + git_request) \<Rightarrow> (gval \<Rightarrow> bytes) \<Rightarrow> (string list \<Rightarrow> 'w \<Rightarrow> proc_end \<times> 'w) \<Rightarrow> string \<Rightarrow>
     bytes \<Rightarrow> 'w \<Rightarrow> (err + bytes) \<times> 'w" where
  "git_execute decode marshal git timeout input w =
     (case decode input of
        Inl e \<Rightarrow> (Inl (errorf ''git: decode input: '' e []), w)
      | Inr req \<Rightarrow>
          (case git_args req of
             Inl e \<Rightarrow> (Inl e, w)
           | Inr args \<Rightarrow>
               (case git_run git timeout args w of
                  (Inl e, w') \<Rightarrow> (Inl e, w')
                | (Inr out, w') \<Rightarrow>
                    (Inr (marshal (JObj [(''op'', JStr (gr_op req)), (''output'', JStr out)])), w'))))"

definition git_describe :: "(bytes \<Rightarrow> err + git_request) \<Rightarrow> bytes \<Rightarrow> err + mutation" where
  "git_describe decode input =
     (case decode input of
        Inl e \<Rightarrow> Inl (errorf ''git: decode mutation input: '' e [])
      | Inr req \<Rightarrow>
          if gr_op req = ''status'' \<or> gr_op req = ''diff''
          then Inr ((plain_mutation False (''git.'' @ gr_op req))\<lparr>mut_paths := gr_paths req\<rparr>)
          else if gr_op req = ''add''
          then Inr ((plain_mutation True ''git.add'')\<lparr>mut_summary := ''stage paths'', mut_paths := gr_paths req\<rparr>)
          else if gr_op req = ''commit''
          then Inr ((plain_mutation True ''git.commit'')\<lparr>mut_summary := ''create a local commit''\<rparr>)
          else if gr_op req = ''branch''
          then (if gr_name req = [] then Inr (plain_mutation False ''git.branch'')
                else Inr ((plain_mutation True ''git.branch'')
                       \<lparr>mut_summary := ''create and switch to branch '' @ gr_name req\<rparr>))
          else Inl (EMsg (''git: unsupported op '' @ quote (gr_op req))))"

section \<open>terminal\<close>

record term_request =
  tr_command :: string
  tr_args :: "string list"

record run_result_proc =
  rp_end :: "err option"
  rp_exit :: int
  rp_stdout :: bytes
  rp_stderr :: bytes
  rp_timed_out :: bool
  rp_ms :: int

text \<open>\<open>rp_end\<close> is \<open>cmd.Run\<close>'s error and \<open>rp_exit\<close> the code an \<open>ExitError\<close> carries.\<close>

definition exit_code :: "run_result_proc \<Rightarrow> bool \<Rightarrow> int" where
  "exit_code r is_exit_error =
     (if rp_end r = None then 0 else if is_exit_error then rp_exit r else -1)"

definition term_execute ::
  "(bytes \<Rightarrow> err + term_request) \<Rightarrow> (gval \<Rightarrow> bytes) \<Rightarrow> (err \<Rightarrow> bool) \<Rightarrow>
   (string \<Rightarrow> string list \<Rightarrow> 'w \<Rightarrow> run_result_proc \<times> 'w) \<Rightarrow> string list \<Rightarrow> string \<Rightarrow>
     bytes \<Rightarrow> 'w \<Rightarrow> (err + bytes) \<times> 'w" where
  "term_execute decode marshal is_exit_error run allow timeout input w =
     (case decode input of
        Inl e \<Rightarrow> (Inl (errorf ''terminal: decode input: '' e []), w)
      | Inr req \<Rightarrow>
          if tr_command req \<notin> set allow
          then (Inl (EMsg (''terminal: command '' @ quote (tr_command req) @
                  '' is not on the workflow allowlist'')), w)
          else case run (tr_command req) (tr_args req) w of
            (r, w') \<Rightarrow>
              if rp_timed_out r
              then (Inl (EMsg (''terminal: '' @ quote (tr_command req) @ '' timed out after '' @ timeout)), w')
              else
                let code = exit_code r (case rp_end r of Some e \<Rightarrow> is_exit_error e | None \<Rightarrow> False) in
                (case rp_end r of
                   Some e \<Rightarrow>
                     if code < 0
                     then (Inl (errorf (''terminal: launch '' @ quote (tr_command req) @ '': '') e []), w')
                     else (Inr (marshal (JObj
                        [(''command'', JStr (tr_command req)), (''exitCode'', jint code),
                         (''passed'', JBool (code = 0)), (''stdout'', JStr (rp_stdout r)),
                         (''stderr'', JStr (rp_stderr r)), (''durationMs'', jint (rp_ms r))])), w')
                 | None \<Rightarrow>
                     (Inr (marshal (JObj
                        [(''command'', JStr (tr_command req)), (''exitCode'', jint code),
                         (''passed'', JBool (code = 0)), (''stdout'', JStr (rp_stdout r)),
                         (''stderr'', JStr (rp_stderr r)), (''durationMs'', jint (rp_ms r))])), w')))"

definition term_describe :: "(bytes \<Rightarrow> err + term_request) \<Rightarrow> bytes \<Rightarrow> err + mutation" where
  "term_describe decode input =
     (case decode input of
        Inl e \<Rightarrow> Inl (errorf ''terminal: decode mutation input: '' e [])
      | Inr req \<Rightarrow>
          Inr ((plain_mutation True ''terminal.command'')
            \<lparr>mut_summary := ''run '' @ quote (tr_command req) @ '' in the workspace'',
             mut_command := tr_command req # tr_args req\<rparr>))"

section \<open>http\<close>

record rewrite_rule =
  rw_match :: string
  rw_replace :: string

record http_request =
  hq_method :: string
  hq_url :: string
  hq_rewrite :: "rewrite_rule list"
  hq_fail_on_status :: bool
  hq_headers :: "(string \<times> string) list"
  hq_body :: string

text \<open>A compiled regexp: does it match, and \<open>ReplaceAllString\<close>.\<close>

record regexp =
  re_match :: "string \<Rightarrow> bool"
  re_replace :: "string \<Rightarrow> string \<Rightarrow> string"

fun rewrite_rules :: "(string \<Rightarrow> err + regexp) \<Rightarrow> string \<Rightarrow> rewrite_rule list \<Rightarrow> err + string" where
  "rewrite_rules compile raw [] =
     Inl (EMsg (''http: url '' @ quote raw @ '' did not match any urlRewrite rule''))"
| "rewrite_rules compile raw (r # rs) =
     (case compile (rw_match r) of
        Inl e \<Rightarrow> Inl (errorf (''http: compile urlRewrite match '' @ quote (rw_match r) @ '': '') e [])
      | Inr re \<Rightarrow>
          if re_match re raw then Inr (re_replace re raw (rw_replace r))
          else rewrite_rules compile raw rs)"

definition rewrite_url :: "(string \<Rightarrow> err + regexp) \<Rightarrow> string \<Rightarrow> rewrite_rule list \<Rightarrow> err + string" where
  "rewrite_url compile raw rules = (if rules = [] then Inr raw else rewrite_rules compile raw rules)"

text \<open>What \<open>url.Parse\<close> gives the tool: the host name and the URL without query and user.\<close>

record parsed_url =
  pu_host :: string
  pu_display :: string

fun host_allowed :: "string list \<Rightarrow> string \<Rightarrow> bool" where
  "host_allowed [] host = False"
| "host_allowed (a # as) host =
     (let host = to_lower host; a = to_lower a in
      if has_prefix a ''.''
      then if host = drop 1 a \<or> has_suffix host a then True else host_allowed as host
      else if host = a then True else host_allowed as host)"

definition preview_body :: "bytes \<Rightarrow> string" where
  "preview_body body =
     (let s = trim_space body in if 300 < length s then take 300 s @ ''...'' else s)"

text \<open>
  One exchange on the wire, and \<open>http.Client.Do\<close> over it: a client without \<open>CheckRedirect\<close>
  follows the \<open>Location\<close> of a redirect, ten times at most; 301, 302 and 303 turn the request
  into a GET without a body.
\<close>

record wire_reply =
  wr_status :: int
  wr_body :: bytes
  wr_location :: "string option"

type_synonym 'w exchange = "string \<Rightarrow> string \<Rightarrow> bytes \<Rightarrow> 'w \<Rightarrow> (err + wire_reply) \<times> 'w"

fun client_do :: "'w exchange \<Rightarrow> nat \<Rightarrow> string \<Rightarrow> string \<Rightarrow> bytes \<Rightarrow> 'w \<Rightarrow> (err + wire_reply) \<times> 'w" where
  "client_do ex n m url body w =
     (case ex m url body w of
        (Inl e, w') \<Rightarrow> (Inl e, w')
      | (Inr r, w') \<Rightarrow>
          (if wr_status r \<in> {301, 302, 303, 307, 308}
           then (case wr_location r of
                   None \<Rightarrow> (Inr r, w')
                 | Some loc \<Rightarrow>
                     (case n of
                        0 \<Rightarrow> (Inl (EMsg ''stopped after 10 redirects''), w')
                      | Suc k \<Rightarrow>
                          if wr_status r \<in> {307, 308} then client_do ex k m loc body w'
                          else client_do ex k ''GET'' loc [] w'))
           else (Inr r, w')))"

text \<open>The response body is read up to 8 MiB. Headers with an empty value are not sent.\<close>

definition http_execute ::
  "(bytes \<Rightarrow> err + http_request) \<Rightarrow> (gval \<Rightarrow> bytes) \<Rightarrow> (string \<Rightarrow> err + regexp) \<Rightarrow>
   (string \<Rightarrow> err + parsed_url) \<Rightarrow> ((string \<times> string) list \<Rightarrow> 'w exchange) \<Rightarrow> string list \<Rightarrow>
     bytes \<Rightarrow> 'w \<Rightarrow> (err + bytes) \<times> 'w" where
  "http_execute decode marshal compile parse wire allow input w =
     (case decode input of
        Inl e \<Rightarrow> (Inl (errorf ''http: decode input: '' e []), w)
      | Inr req \<Rightarrow>
          (case rewrite_url compile (hq_url req) (hq_rewrite req) of
             Inl e \<Rightarrow> (Inl e, w)
           | Inr url \<Rightarrow>
               (case parse url of
                  Inl e \<Rightarrow> (Inl (errorf ''http: parse url: '' e []), w)
                | Inr u \<Rightarrow>
                    if \<not> host_allowed allow (pu_host u)
                    then (Inl (EMsg (''http: host '' @ quote (pu_host u) @ '' is not on the workflow domain '' @
                        ''allowlist; add it under http.allow in the workflow directory'' @ [CHR 0x27] @
                        ''s wee.yaml'')), w)
                    else
                      let headers = filter (\<lambda>h. snd h \<noteq> []) (hq_headers req) in
                      case client_do (wire headers) 10 (hq_method req) url (hq_body req) w of
                        (Inl e, w') \<Rightarrow> (Inl (errorf ''http: request failed: '' e []), w')
                      | (Inr r, w') \<Rightarrow>
                          let body = take 8388608 (wr_body r) in
                          if hq_fail_on_status req \<and> (wr_status r < 200 \<or> 300 \<le> wr_status r)
                          then (Inl (EMsg (''http: request returned status '' @ itoa (wr_status r) @ '' for '' @
                                  pu_display u @ '': '' @ preview_body body)), w')
                          else (Inr (marshal (JObj [(''status'', jint (wr_status r)), (''body'', JStr body)])), w'))))"

definition http_describe ::
  "(bytes \<Rightarrow> err + http_request) \<Rightarrow> (string \<Rightarrow> err + regexp) \<Rightarrow> (string \<Rightarrow> err + parsed_url) \<Rightarrow> bytes \<Rightarrow>
     err + mutation" where
  "http_describe decode compile parse input =
     (case decode input of
        Inl e \<Rightarrow> Inl (errorf ''http: decode mutation input: '' e [])
      | Inr req \<Rightarrow>
          (case rewrite_url compile (hq_url req) (hq_rewrite req) of
             Inl e \<Rightarrow> Inl e
           | Inr url \<Rightarrow>
               (case parse url of
                  Inl e \<Rightarrow> Inl (errorf ''http: parse url: '' e [])
                | Inr u \<Rightarrow>
                    Inr ((plain_mutation (hq_method req \<noteq> ''GET'') (''http.'' @ hq_method req))
                      \<lparr>mut_summary := hq_method req @ '' '' @ pu_display u,
                       mut_method := hq_method req, mut_url := pu_display u\<rparr>))))"

section \<open>Sandboxes\<close>

lemma rel_path_inside: "take (Suc 0) (rel_path b t) \<noteq> [''..''] \<Longrightarrow> prefix b t"
  apply (induction b t rule: rel_path.induct)
  subgoal for b bs t ts by (cases "b = t") simp_all
  subgoal by simp
  subgoal for bs by (cases bs) auto
  done

lemma rel_path_prefix: "prefix b t \<Longrightarrow> rel_path b t = drop (length b) t"
  by (induction b t rule: rel_path.induct) (auto simp: prefix_def)

lemma safe_path_inside: "safe_path eval base rel = Inr p \<Longrightarrow> prefix (real_root eval base) p"
  by (auto simp: safe_path_def Let_def split: if_splits dest: rel_path_inside)

text \<open>Two file systems that agree on what lies under a directory (and on that directory's
  creation, whose parent \<open>MkdirAll\<close> may name).\<close>

definition agree_under :: "path \<Rightarrow> 'w fs_os \<Rightarrow> 'w fs_os \<Rightarrow> bool" where
  "agree_under d os os' \<longleftrightarrow>
     (\<forall>p. prefix d p \<longrightarrow>
        os_read_file os' p = os_read_file os p \<and> os_read_dir os' p = os_read_dir os p \<and>
        os_write_file os' p = os_write_file os p \<and> os_mkdir_all os' p = os_mkdir_all os p) \<and>
     os_mkdir_all os' (butlast d) = os_mkdir_all os (butlast d) \<and> os_real os' = os_real os"


definition sample_os :: "bytes \<Rightarrow> unit fs_os" where
  "sample_os secret =
     \<lparr>os_real = (\<lambda>p. if p = [''w''] \<or> p = [''w'', ''out''] then Some [''w''] else if p = [''w'', ''esc''] then Some [''etc''] else None),
      os_read_file = (\<lambda>p w. if p = [''w'', ''a''] then Inr ''hello'' else if p = [''etc'', ''pw''] then Inr secret
                           else Inl (ESentinel ErrNotExist)),
      os_mkdir_all = (\<lambda>p w. (None, w)), os_write_file = (\<lambda>p b w. (None, w)),
      os_read_dir = (\<lambda>p w. Inr [])\<rparr>"

definition sample_fs_decode :: "bytes \<Rightarrow> err + fs_request" where
  "sample_fs_decode b = Inr \<lparr>fr_op = ''read'', fr_path = b, fr_content = []\<rparr>"


lemma plain_mutation_mutating [simp]: "mut_mutating (plain_mutation b op) = b"
  by (simp add: plain_mutation_def)

lemma git_harmless:
  assumes "git_describe decode input = Inr m" and "\<not> mut_mutating m"
  shows "\<exists>req. decode input = Inr req \<and>
    git_args req \<in> {Inr [''status'', ''--porcelain''], Inr [''diff''], Inr [''branch'']}"
proof (cases "decode input")
  case (Inr req)
  have "gr_op req = ''status'' \<or> gr_op req = ''diff'' \<or> gr_op req = ''branch'' \<and> gr_name req = []"
    using assms Inr unfolding git_describe_def by (simp split: if_splits) auto
  then have "git_args req \<in> {Inr [''status'', ''--porcelain''], Inr [''diff''], Inr [''branch'']}"
    by (elim disjE conjE) (simp_all add: git_args_def)
  with Inr show ?thesis by blast
qed (use assms in \<open>simp add: git_describe_def\<close>)

lemma fs_harmless:
  assumes "fs_describe decode input = Inr m" and "\<not> mut_mutating m"
  shows "snd (fs_execute decode marshal os base input w) = w"
proof (cases "decode input")
  case (Inr req)
  with assms have "fr_op req \<noteq> ''write''" by (auto simp: fs_describe_def)
  with Inr show ?thesis by (simp add: fs_execute_def split: sum.splits)
qed (simp add: fs_execute_def)

lemma http_harmless:
  assumes "http_describe decode compile parse input = Inr m" and "\<not> mut_mutating m"
  shows "\<exists>req. decode input = Inr req \<and> hq_method req = ''GET''"
  using assms by (auto simp: http_describe_def plain_mutation_def split: sum.splits)

lemma term_mutating: "term_describe decode input = Inr m \<Longrightarrow> mut_mutating m"
  by (auto simp: term_describe_def split: sum.splits)

lemma git_subcommands:
  "git_args req = Inr args \<Longrightarrow>
   hd args \<in> {''status'', ''diff'', ''add'', ''commit'', ''branch'', ''checkout''}"
  unfolding git_args_def by (simp split: if_splits) auto

text \<open>What a tool calls harmless is harmless: when git, the file system or HTTP describe an
  input as not mutating, executing it runs git with status, diff or the listing of branches,
  changes no file, or sends a GET; the terminal never describes an input so. And no input makes
  git run anything but its six subcommands, so it never pushes.\<close>

theorem describe_sound:
  assumes "\<not> mut_mutating m"
  shows "(git_describe dg input = Inr m \<longrightarrow>
      (\<exists>req. dg input = Inr req \<and>
        git_args req \<in> {Inr [''status'', ''--porcelain''], Inr [''diff''], Inr [''branch'']})) \<and>
    (fs_describe df input = Inr m \<longrightarrow> snd (fs_execute df marshal os base input w) = w) \<and>
    (http_describe dh compile parse input = Inr m \<longrightarrow>
      (\<exists>req. dh input = Inr req \<and> hq_method req = ''GET'')) \<and>
    term_describe dt input \<noteq> Inr m \<and>
    (\<forall>req args. git_args req = Inr args \<longrightarrow>
      hd args \<in> {''status'', ''diff'', ''add'', ''commit'', ''branch'', ''checkout''})"
proof (intro conjI impI allI)
  show "term_describe dt input \<noteq> Inr m" using term_mutating assms by blast
qed (erule git_harmless [OF _ assms], erule fs_harmless [OF _ assms], erule http_harmless [OF _ assms],
    erule git_subcommands)

definition sample_git_decode :: "bytes \<Rightarrow> err + git_request" where
  "sample_git_decode b = Inr \<lparr>gr_op = b, gr_paths = [], gr_message = [], gr_name = []\<rparr>"

theorem describe_sound_witness:
  "git_describe sample_git_decode ''branch'' = Inr (plain_mutation False ''git.branch'') \<and>
   (\<exists>req. sample_git_decode ''branch'' = Inr req \<and>
     git_args req \<in> {Inr [''status'', ''--porcelain''], Inr [''diff''], Inr [''branch'']})"
proof -
  have d: "git_describe sample_git_decode ''branch'' = Inr (plain_mutation False ''git.branch'')"
    by (simp add: git_describe_def sample_git_decode_def plain_mutation_def)
  have "\<not> mut_mutating (plain_mutation False ''git.branch'')" by simp
  from describe_sound [OF this, THEN conjunct1] d show ?thesis by blast
qed

text \<open>A redirect leaves the allowlist: the host is checked once, before the request, and the
  client then follows where the reply points.\<close>

definition sample_wire :: "string list exchange" where
  "sample_wire m url body w =
     (Inr (if url = ''http://api.test/'' then \<lparr>wr_status = 302, wr_body = [], wr_location = Some ''http://169.254.169.254/''\<rparr>
           else \<lparr>wr_status = 200, wr_body = ''secret'', wr_location = None\<rparr>), w @ [url])"

definition sample_parse :: "string \<Rightarrow> err + parsed_url" where
  "sample_parse url = Inr \<lparr>pu_host = (if url = ''http://api.test/'' then ''api.test'' else ''169.254.169.254''),
     pu_display = url\<rparr>"

definition sample_http_decode :: "bytes \<Rightarrow> err + http_request" where
  "sample_http_decode b = Inr \<lparr>hq_method = ''GET'', hq_url = b, hq_rewrite = [], hq_fail_on_status = False,
     hq_headers = [], hq_body = []\<rparr>"

definition sample_compile :: "string \<Rightarrow> err + regexp" where
  "sample_compile r = Inl (EMsg r)"

text \<open>The domain allowlist binds the first request only: with the allowlist api.test, an
  allowed request that is answered with a redirect makes the tool contact a host that is not
  allowed and return that host's body, although the package promises that no connection to such
  a host is attempted.\<close>

theorem redirect_leaves_allowlist:
  "\<exists>u. sample_parse ''http://169.254.169.254/'' = Inr u \<and> \<not> host_allowed [''api.test''] (pu_host u) \<and>
    snd (http_execute sample_http_decode (\<lambda>v. ''reply'') sample_compile sample_parse
      (\<lambda>h. sample_wire) [''api.test''] ''http://api.test/'' []) =
        [''http://api.test/'', ''http://169.254.169.254/''] \<and>
    fst (http_execute sample_http_decode (\<lambda>v. ''reply'') sample_compile sample_parse
      (\<lambda>h. sample_wire) [''api.test''] ''http://169.254.169.254/'' []) \<noteq> Inr ''reply''"
proof -
  let ?run = "\<lambda>url. http_execute sample_http_decode (\<lambda>v. ''reply'') sample_compile sample_parse
      (\<lambda>h. sample_wire) [''api.test''] url []"
  have allow: "host_allowed [''api.test''] ''api.test''" by code_simp
  have "snd (?run ''http://api.test/'') = [''http://api.test/'', ''http://169.254.169.254/'']"
    by (simp add: http_execute_def sample_http_decode_def rewrite_url_def sample_parse_def sample_wire_def
        allow del: host_allowed.simps)
  moreover have "\<not> host_allowed [''api.test''] ''169.254.169.254''" by code_simp
  moreover from this have "fst (?run ''http://169.254.169.254/'') \<noteq> Inr ''reply''"
    by (simp add: http_execute_def sample_http_decode_def rewrite_url_def sample_parse_def
        del: host_allowed.simps)
  ultimately show ?thesis by (simp add: sample_parse_def del: host_allowed.simps)
qed

end
