(* ===== verification/ToolExec.thy ===== *)
theory ToolExec
  imports ToolInput Tools Canonical
begin

text \<open>
  \<open>core/engine\<close>, \<open>approval.go\<close> and \<open>tool_executor.go\<close>: the approval checkpoints recorded in
  an execution's log and the executor of tool-backed nodes, which resolves a call's input,
  gates it on an approval, invokes the tool and redacts what leaves it. The world a tool acts
  on is the state; the events are returned in the order they are emitted.
\<close>

section \<open>Approval checkpoints\<close>

definition checkpoint_id ::
  "(bytes \<Rightarrow> bytes) \<Rightarrow> string \<Rightarrow> string \<Rightarrow> string \<Rightarrow> mutation \<Rightarrow> bytes \<Rightarrow> string" where
  "checkpoint_id sum256 exec_id nid tool_name m redacted =
     canonical_hash sum256 (JObj
       [(''executionId'', JStr exec_id), (''nodeId'', JStr nid), (''tool'', JStr tool_name),
        (''operation'', JStr (mut_operation m)), (''input'', JStr redacted)])"

definition string_payload :: "payload \<Rightarrow> string \<Rightarrow> string" where
  "string_payload p k = (case payload_string p k of Some s \<Rightarrow> s | None \<Rightarrow> [])"

definition checkpoint_of :: "event \<Rightarrow> string" where
  "checkpoint_of ev = string_payload (ev_payload ev) ''checkpointId''"

definition approval_rec :: "event \<Rightarrow> approval_status \<Rightarrow> approval_record" where
  "approval_rec ev st =
     \<lparr>ar_checkpoint = checkpoint_of ev, ar_node = ev_node ev,
      ar_tool = string_payload (ev_payload ev) ''tool'', ar_status = st\<rparr>"

definition approval_step :: "event \<Rightarrow> (string \<rightharpoonup> approval_record) \<Rightarrow> (string \<rightharpoonup> approval_record)" where
  "approval_step ev m =
     (case ev_type ev of
        ApprovalRequested \<Rightarrow>
          if checkpoint_of ev \<noteq> [] then m(checkpoint_of ev \<mapsto> approval_rec ev ApPending) else m
      | ApprovalGranted \<Rightarrow>
          if checkpoint_of ev = [] then m else m(checkpoint_of ev \<mapsto> approval_rec ev ApGranted)
      | ApprovalRejected \<Rightarrow>
          if checkpoint_of ev = [] then m else m(checkpoint_of ev \<mapsto> approval_rec ev ApRejected)
      | _ \<Rightarrow> m)"

text \<open>A log that cannot be read gives the nil map.\<close>

definition approval_records :: "err + event list \<Rightarrow> (string \<rightharpoonup> approval_record)" where
  "approval_records history =
     (case history of Inl e \<Rightarrow> Map.empty | Inr evs \<Rightarrow> fold approval_step evs Map.empty)"

section \<open>The tool executor\<close>

record 'w tool_config =
  tk_tools :: "(string \<times> 'w tool) list"
  tk_validator :: "bytes \<Rightarrow> bytes \<Rightarrow> err option"
  tk_marshal :: "gval \<Rightarrow> err + bytes"
  tk_unmarshal :: "bytes \<Rightarrow> err + gval"
  tk_env :: "string \<rightharpoonup> string"
  tk_sum256 :: "bytes \<Rightarrow> bytes"
  tk_elapsed_ms :: int

definition redact_value :: "(string \<times> string) list \<Rightarrow> string \<times> pval \<Rightarrow> string \<times> pval" where
  "redact_value secrets kv =
     (case kv of
        (k, PRaw raw) \<Rightarrow>
          if k = ''input'' \<or> k = ''output'' then (k, PRaw (redact_bytes raw secrets)) else kv
      | (k, PText s) \<Rightarrow> if k = ''error'' then (k, PText (redact_string s secrets)) else kv
      | _ \<Rightarrow> kv)"

definition redact_payload ::
  "(string \<times> pval) list \<Rightarrow> (string \<times> string) list \<Rightarrow> (string \<times> pval) list" where
  "redact_payload p secrets = (if secrets = [] then p else map (redact_value secrets) p)"

definition fatal_wrap ::
  "err \<Rightarrow> diag_kind \<Rightarrow> string \<Rightarrow> string \<Rightarrow> string \<Rightarrow> string \<Rightarrow> string \<Rightarrow> err" where
  "fatal_wrap e k code nid op msg fx = EFatal (diag_wrap e k code nid op msg fx)"

text \<open>\<open>checkApproval\<close>: the events it emits and the error that stops the call, if any.\<close>

definition check_approval ::
  "'w tool_config \<Rightarrow> node_request \<Rightarrow> 'w tool \<Rightarrow> bytes \<Rightarrow> bytes \<Rightarrow> tool_event list \<times> err option" where
  "check_approval cfg req t input redacted =
     (if rq_allow_mutations req then ([], None)
      else case validate_input (tk_validator cfg) t input of
        Some e \<Rightarrow> ([], Some (EFatal e))
      | None \<Rightarrow>
          (case tl_describe t of
             None \<Rightarrow> ([], None)
           | Some describe \<Rightarrow>
               (case describe redacted of
                  Inl e \<Rightarrow>
                    ([], Some (EFatal (errorf (''engine: node '' @ quote (node_id (rq_node req)) @
                            '': describe mutation: '') e [])))
                | Inr m \<Rightarrow>
                    if \<not> mut_mutating m then ([], None)
                    else
                      let nid = node_id (rq_node req);
                          i = checkpoint_id (tk_sum256 cfg) (rq_exec req) nid (tl_name t) m redacted;
                          required = EFatal (EApprovalRequired i nid (tl_name t) m)
                      in case map_option ar_status (rq_approvals req i) of
                           Some ApGranted \<Rightarrow> ([], None)
                         | Some ApRejected \<Rightarrow> ([], Some (EFatal (EApprovalRejected i nid (tl_name t))))
                         | Some ApPending \<Rightarrow> ([], Some required)
                         | None \<Rightarrow>
                             ([(ApprovalRequested,
                                [(''checkpointId'', PText i), (''tool'', PText (tl_name t)),
                                 (''toolVersion'', PText (tl_version t)), (''mutation'', PMutation m),
                                 (''input'', PRaw redacted)])], Some required))))"

definition tool_env :: "'w tool_config \<Rightarrow> node_request \<Rightarrow> resolve_env" where
  "tool_env cfg req =
     \<lparr>rv_env = tk_env cfg, rv_inputs = rq_inputs req, rv_wf_inputs = rq_wf_inputs req,
      rv_connections = rq_connections req, rv_unmarshal = tk_unmarshal cfg\<rparr>"

definition resolve_start :: resolve_state where
  "resolve_start = \<lparr>rs_secrets = [], rs_refs = []\<rparr>"

definition tool_result ::
  "'w tool \<Rightarrow> bytes \<Rightarrow> string list \<Rightarrow> node_result" where
  "tool_result t out hashes =
     zero_result\<lparr>nr_content := out,
       nr_type := (case tl_artifact_type t of Some ty \<Rightarrow> ty | None \<Rightarrow> ArtifactJSON),
       nr_mime := ''application/json'', nr_context_hashes := hashes\<rparr>"

text \<open>The part of \<open>execute\<close> after the input was resolved and encoded.\<close>

definition run_tool ::
  "'w tool_config \<Rightarrow> node_request \<Rightarrow> 'w tool \<Rightarrow> bytes \<Rightarrow> resolve_state \<Rightarrow> 'w \<Rightarrow>
     tool_event list \<times> (err + node_result) \<times> 'w" where
  "run_tool cfg req t input st w =
     (let secrets = rs_secrets st; redacted = redact_bytes input secrets in
      case check_approval cfg req t input redacted of
        (evs, Some e) \<Rightarrow> (evs, Inl e, w)
      | (evs, None) \<Rightarrow>
          (case invoke (tk_validator cfg) t input (tk_elapsed_ms cfg) w of
             (called, res, w') \<Rightarrow>
               let evs = evs @ map (\<lambda>ev. (fst ev, redact_payload (snd ev) secrets)) called in
               case res of
                 Inl e \<Rightarrow>
                   (evs, Inl (fatal_wrap (EMsg (redact_string (err_msg e) secrets)) KindTool
                      ''tool_execution_failed'' (node_id (rq_node req)) ''tool.invoke'' ''tool call failed''
                      ''check the tool input, sandbox allowlist, and referenced local resources''), w')
               | Inr out \<Rightarrow>
                   (evs, Inr (tool_result t (redact_bytes out secrets) (rs_refs st)), w')))"

definition tool_execute ::
  "'w tool_config \<Rightarrow> node_request \<Rightarrow> 'w \<Rightarrow> tool_event list \<times> (err + node_result) \<times> 'w" where
  "tool_execute cfg req w =
     (let nid = node_id (rq_node req); pre = ''engine: node '' @ quote nid in
      case node_tool (rq_node req) of
        None \<Rightarrow>
          ([], Inl (fatal_wrap (EMsg (pre @ '' is not tool-backed'')) KindValidation ''tool_call_missing'' nid
             ''tool.resolve'' ''node has no Tool call configured'' ''choose a Tool and provide valid input JSON''), w)
      | Some call \<Rightarrow>
          (case registry_get (tk_tools cfg) (tc_name call) of
             None \<Rightarrow>
               ([], Inl (fatal_wrap (EMsg (pre @ '': no tool registered as '' @ quote (tc_name call))) KindTool
                  ''tool_not_registered'' nid ''tool.lookup'' ''tool is not registered in this workspace''
                  (''enable the tool in the workflow directory'' @ [CHR 0x27] @ ''s wee.yaml'')), w)
           | Some t \<Rightarrow>
               (case resolve_tool_input (tool_env cfg req) (JObj (tc_input call)) resolve_start of
                  Inl e \<Rightarrow>
                    ([], Inl (fatal_wrap (errorf (pre @ '': resolving tool input: '') e []) KindValidation
                       ''tool_input_unresolved'' nid ''tool.input.resolve''
                       ''tool input reference could not be resolved''
                       ''check artifact, input, env, and connection placeholders''), w)
                | Inr (resolved, st) \<Rightarrow>
                    (case tk_marshal cfg resolved of
                       Inl e \<Rightarrow>
                         ([], Inl (fatal_wrap (errorf (pre @ '': encoding tool input: '') e []) KindValidation
                            ''tool_input_encode_failed'' nid ''tool.input.encode'' ''tool input could not be encoded''
                            ''check that tool input is JSON-serializable''), w)
                     | Inr input \<Rightarrow> run_tool cfg req t input st w))))"

section \<open>The state of a checkpoint is its last event\<close>

fun decision :: "event_type \<Rightarrow> approval_status option" where
  "decision ApprovalRequested = Some ApPending"
| "decision ApprovalGranted = Some ApGranted"
| "decision ApprovalRejected = Some ApRejected"
| "decision _ = None"

definition concerns :: "string \<Rightarrow> event \<Rightarrow> bool" where
  "concerns i ev \<longleftrightarrow> decision (ev_type ev) \<noteq> None \<and> checkpoint_of ev = i"

lemma approval_step_eq:
  "approval_step ev m =
     (case decision (ev_type ev) of
        None \<Rightarrow> m
      | Some st \<Rightarrow> if checkpoint_of ev = [] then m else m(checkpoint_of ev \<mapsto> approval_rec ev st))"
  by (cases "ev_type ev") (simp_all add: approval_step_def)

lemma fold_approval:
  "i \<noteq> [] \<Longrightarrow> fold approval_step evs m i =
     (if filter (concerns i) evs = [] then m i
      else let ev = last (filter (concerns i) evs) in
        Some (approval_rec ev (the (decision (ev_type ev)))))"
proof (induction evs arbitrary: m)
  case (Cons ev evs)
  have step: "approval_step ev m i =
      (if concerns i ev then Some (approval_rec ev (the (decision (ev_type ev)))) else m i)"
    using Cons.prems by (auto simp: approval_step_eq concerns_def split: option.splits)
  have "fold approval_step (ev # evs) m i = fold approval_step evs (approval_step ev m) i" by simp
  also have "\<dots> = (if filter (concerns i) evs = [] then approval_step ev m i
      else let ev = last (filter (concerns i) evs) in
        Some (approval_rec ev (the (decision (ev_type ev)))))"
    by (rule Cons.IH [OF Cons.prems])
  finally show ?case using step by (simp add: Let_def)
qed simp

text \<open>An approval is decided by the log alone: the record of a checkpoint is that of the last
  approval event naming it, and there is none exactly when no event names it.\<close>

theorem approval_is_last_decision:
  assumes "i \<noteq> []"
  shows "approval_records (Inr evs) i =
     (if filter (concerns i) evs = [] then None
      else Some (approval_rec (last (filter (concerns i) evs))
             (the (decision (ev_type (last (filter (concerns i) evs)))))))"
  using fold_approval [OF assms, of evs Map.empty] by (simp add: approval_records_def Let_def)

definition sample_approval :: "event_type \<Rightarrow> string \<Rightarrow> event" where
  "sample_approval ty i = \<lparr>ev_type = ty, ev_time = 0, ev_exec = ''e'', ev_node = ''n'', ev_prev = [],
     ev_payload = [(''checkpointId'', JStr i), (''tool'', JStr ''git'')]\<rparr>"

theorem approval_is_last_decision_witness:
  "map_option ar_status (approval_records (Inr
     [sample_approval ApprovalRequested ''c1'', sample_approval ApprovalRequested ''c2'',
      sample_approval ApprovalRejected ''c2'', sample_approval ApprovalGranted ''c1'']) ''c1'') = Some ApGranted"
proof -
  have "''c1'' \<noteq> []" by simp
  from approval_is_last_decision [OF this] show ?thesis
    by (simp add: concerns_def sample_approval_def checkpoint_of_def string_payload_def payload_string_def
        approval_rec_def)
qed

section \<open>The gate\<close>

lemma check_approval_passes:
  assumes "check_approval cfg req t input redacted = (evs, None)"
  shows "evs = [] \<and> (rq_allow_mutations req \<or> tl_describe t = None \<or>
    (\<exists>describe m. tl_describe t = Some describe \<and> describe redacted = Inr m \<and>
      (\<not> mut_mutating m \<or>
       map_option ar_status (rq_approvals req (checkpoint_id (tk_sum256 cfg) (rq_exec req)
         (node_id (rq_node req)) (tl_name t) m redacted)) = Some ApGranted)))"
  using assms
  by (auto simp: check_approval_def Let_def
      split: if_splits option.splits sum.splits approval_status.splits)

lemma tool_execute_runs:
  assumes "tool_execute cfg req w = (evs, res, w')" and "w' \<noteq> w"
  obtains call t resolved st input where "node_tool (rq_node req) = Some call"
    "registry_get (tk_tools cfg) (tc_name call) = Some t"
    "resolve_tool_input (tool_env cfg req) (JObj (tc_input call)) resolve_start = Inr (resolved, st)"
    "tk_marshal cfg resolved = Inr input" "run_tool cfg req t input st w = (evs, res, w')"
  using assms by (auto simp: tool_execute_def Let_def split: option.splits sum.splits)

definition cleared ::
  "'w tool_config \<Rightarrow> node_request \<Rightarrow> 'w tool \<Rightarrow> bytes \<Rightarrow> bool" where
  "cleared cfg req t redacted \<longleftrightarrow>
     rq_allow_mutations req \<or> tl_describe t = None \<or>
     (\<exists>describe m. tl_describe t = Some describe \<and> describe redacted = Inr m \<and>
       (\<not> mut_mutating m \<or>
        map_option ar_status (rq_approvals req (checkpoint_id (tk_sum256 cfg) (rq_exec req)
          (node_id (rq_node req)) (tl_name t) m redacted)) = Some ApGranted))"


text \<open>A tool that counts its calls, for the examples.\<close>

definition sample_tool :: "nat tool" where
  "sample_tool = \<lparr>tl_name = ''git'', tl_version = ''1.0.0'', tl_input_schema = [], tl_output_schema = [],
     tl_execute = (\<lambda>b w. (Inr b, w + 1)),
     tl_describe = Some (\<lambda>b. Inr (plain_mutation True ''git.commit'')), tl_artifact_type = None\<rparr>"

definition sample_config :: "(gval \<Rightarrow> bytes) \<Rightarrow> (string \<rightharpoonup> string) \<Rightarrow> nat tool_config" where
  "sample_config marshal vars = \<lparr>tk_tools = register sample_tool [], tk_validator = (\<lambda>a b. None),
     tk_marshal = (\<lambda>v. Inr (marshal v)), tk_unmarshal = (\<lambda>b. Inr JNull), tk_env = vars,
     tk_sum256 = (\<lambda>b. b), tk_elapsed_ms = 5\<rparr>"

definition sample_request :: "payload \<Rightarrow> (string \<rightharpoonup> approval_record) \<Rightarrow> node_request" where
  "sample_request input approvals =
     \<lparr>rq_node = \<lparr>node_id = ''n'', node_worker = [], node_tool = Some \<lparr>tc_name = ''git'', tc_input = input\<rparr>,
        node_policy = None, node_on_failure = None\<rparr>,
      rq_inputs = [], rq_feedback = [], rq_wf_inputs = Map.empty, rq_connections = Map.empty,
      rq_exec = ''e'', rq_approvals = approvals, rq_allow_mutations = False\<rparr>"

definition sample_checkpoint :: string where
  "sample_checkpoint = checkpoint_id (\<lambda>b. b) ''e'' ''n'' ''git'' (plain_mutation True ''git.commit'') ''x''"

definition sample_grant :: "string \<rightharpoonup> approval_record" where
  "sample_grant = [sample_checkpoint \<mapsto> \<lparr>ar_checkpoint = sample_checkpoint, ar_node = ''n'', ar_tool = ''git'', ar_status = ApGranted\<rparr>]"

lemmas sample_tool_defs = sample_config_def sample_request_def sample_tool_def tool_execute_def
  registry_get_def tool_env_def resolve_start_def run_tool_def check_approval_def validate_input_def
  validate_against_def invoke_def sample_checkpoint_def [symmetric] plain_mutation_mutating Let_def


section \<open>What the log and the artifact show\<close>

definition shows_secret :: "string \<Rightarrow> string \<times> pval \<Rightarrow> bool" where
  "shows_secret v kv =
     (case kv of
        (k, PRaw b) \<Rightarrow> (k = ''input'' \<or> k = ''output'') \<and> contains b v
      | (k, PText t) \<Rightarrow> k = ''error'' \<and> contains t v
      | _ \<Rightarrow> False)"

definition well_formed_secrets :: "(string \<times> string) list \<Rightarrow> bool" where
  "well_formed_secrets l \<longleftrightarrow> (\<forall>(v, r)\<in>set l. no_marks v \<and> reference r) \<and>
     (\<forall>v\<in>fst ` set l. \<forall>r\<in>snd ` set l. \<not> contains r v)"

lemma redacted_clean:
  "well_formed_secrets l \<Longrightarrow> v \<in> fst ` set l \<Longrightarrow> \<not> contains (redact_bytes b l) v"
  using redact_absent [of l] by (auto simp: well_formed_secrets_def)

lemma redact_payload_clean:
  assumes "well_formed_secrets l" and "v \<in> fst ` set l" and "kv \<in> set (redact_payload p l)"
  shows "\<not> shows_secret v kv"
proof -
  have "l \<noteq> []" using assms(2) by auto
  then obtain kv0 where kv: "kv = redact_value l kv0" using assms(3) by (auto simp: redact_payload_def)
  obtain k x where "kv0 = (k, x)" by fastforce
  with kv redacted_clean [OF assms(1,2)] show ?thesis
    by (cases x) (auto simp: redact_value_def shows_secret_def redact_string_def)
qed

lemma check_approval_clean:
  assumes "check_approval cfg req t input (redact_bytes input l) = (evs, stop)"
    and "well_formed_secrets l" and "v \<in> fst ` set l" and "ev \<in> set evs" and "kv \<in> set (snd ev)"
  shows "\<not> shows_secret v kv"
proof -
  have "evs = [] \<or> (\<exists>i m. evs = [(ApprovalRequested,
      [(''checkpointId'', PText i), (''tool'', PText (tl_name t)), (''toolVersion'', PText (tl_version t)),
       (''mutation'', PMutation m), (''input'', PRaw (redact_bytes input l))])])"
    using assms(1)
    by (auto simp: check_approval_def Let_def split: if_splits option.splits sum.splits approval_status.splits)
  with assms(4,5) redacted_clean [OF assms(2,3)] show ?thesis by (auto simp: shows_secret_def)
qed



text \<open>
  The input is redacted after it was encoded, so a secret is looked for in its raw form while
  the bytes hold its JSON form.
\<close>

definition json_of :: "gval \<Rightarrow> bytes" where
  "json_of v = canonical_marshal (map_json (\<lambda>q. ''0'') v)"

text \<open>A secret that JSON escapes is not redacted: with the secret a-quote-b, an approval request
  for a call that sends it puts the escaped secret into the log, although the event is meant to
  show the placeholder in its place.\<close>

theorem escaped_secret_is_logged:
  "\<exists>p rest. tool_execute (sample_config json_of [''KEY'' \<mapsto> ''a'' @ [CHR 0x22] @ ''b''])
      (sample_request [(''token'', JStr ''${env:KEY}'')] Map.empty) 0 = ([(ApprovalRequested, p)], rest) \<and>
    (''input'', PRaw (CHR ''{'' # json_string ''token'' @ '':'' @ json_string (''a'' @ [CHR 0x22] @ ''b'') @ ''}'')) \<in> set p"
proof -
  let ?sec = "''a'' @ [CHR 0x22] @ ''b''"
  let ?cfg = "sample_config json_of [''KEY'' \<mapsto> ?sec]"
  let ?req = "sample_request [(''token'', JStr ''${env:KEY}'')] Map.empty"
  let ?in = "CHR ''{'' # json_string ''token'' @ '':'' @ json_string ?sec @ ''}''"
  let ?st = "\<lparr>rs_secrets = [(?sec, ''${env:KEY}'')], rs_refs = []\<rparr>"
  have res: "resolve_tool_input (tool_env ?cfg ?req) (JObj [(''token'', JStr ''${env:KEY}'')]) resolve_start =
      Inr (JObj [(''token'', JStr ?sec)], ?st)"
    by code_simp
  have enc: "json_of (JObj [(''token'', JStr ?sec)]) = ?in" by code_simp
  have red: "redact_bytes ?in (rs_secrets ?st) = ?in" by code_simp
  have "tool_execute ?cfg ?req 0 = run_tool ?cfg ?req sample_tool ?in ?st 0"
    using res enc by (simp add: tool_execute_def sample_config_def sample_request_def registry_get_def Let_def
        sample_tool_def del: resolve_tool_input.simps)
  also have "\<dots> = ([(ApprovalRequested,
      [(''checkpointId'', PText (checkpoint_id (\<lambda>b. b) ''e'' ''n'' ''git'' (plain_mutation True ''git.commit'') ?in)),
       (''tool'', PText ''git''), (''toolVersion'', PText ''1.0.0''),
       (''mutation'', PMutation (plain_mutation True ''git.commit'')), (''input'', PRaw ?in)])],
      Inl (EFatal (EApprovalRequired (checkpoint_id (\<lambda>b. b) ''e'' ''n'' ''git'' (plain_mutation True ''git.commit'') ?in)
        ''n'' ''git'' (plain_mutation True ''git.commit''))), 0)"
    using red by (simp add: run_tool_def check_approval_def validate_input_def validate_against_def
        sample_config_def sample_request_def sample_tool_def Let_def del: redact_bytes.simps)
  finally show ?thesis by auto
qed

end
