(* ===== verification/WorkerExec.thy ===== *)
theory WorkerExec
  imports Providers ContextPolicy RunTypes CacheKey ToolExec
begin

text \<open>
  The executor of model-backed nodes (\<open>core/engine/worker_executor.go\<close>) with what it is made
  of: the messages compiled from a Worker (\<open>core/contract/compiler.go\<close>), the enforcement of its
  contract (\<open>enforce.go\<close>), the price of a call (\<open>core/cost\<close>); and the executor that routes each
  node to this one or to the tool executor (\<open>dispatch_executor.go\<close>). JSON Schema is the
  argument \<open>validator\<close>: a schema that does not compile, or the problems of a document.
\<close>

section \<open>Messages\<close>

definition nl :: string where
  "nl = [CHR 0x0A]"

definition write_bullets :: "string \<Rightarrow> string list \<Rightarrow> string" where
  "write_bullets heading items =
     (if items = [] then [] else heading @ '':'' @ nl @ concat (map (\<lambda>i. ''  - '' @ i @ nl) items))"

text \<open>\<open>schema_text\<close> is the indented JSON of the output schema.\<close>

definition build_system :: "(payload \<Rightarrow> err + string) \<Rightarrow> worker \<Rightarrow> string" where
  "build_system schema_text w =
     (let c = wk_contract w in
      (if wk_objective w = [] then [] else ''Objective: '' @ wk_objective w @ nl) @
      write_bullets ''Constraints'' (wk_constraints w) @
      (if con_goal c = [] then [] else ''Goal: '' @ con_goal c @ nl) @
      write_bullets ''Rules'' (con_rules c) @
      write_bullets ''Success criteria'' (con_success_criteria c) @
      nl @ ''Respond with a single JSON object and nothing else. '' @
      ''It must conform exactly to this JSON Schema:'' @ nl @
      (case schema_text (con_output_schema c) of Inl e \<Rightarrow> [] | Inr s \<Rightarrow> s))"

definition build_context :: "item list \<Rightarrow> string" where
  "build_context items =
     ''Context (exactly the artifacts your policy admits):'' @ nl @
     concat (map (\<lambda>it. nl @ ''--- from '' @ quote (it_from it) @ '' ('' @ it_type it @ '') ---'' @ nl @
                        it_content it @ nl) items)"

definition compile_messages :: "(payload \<Rightarrow> err + string) \<Rightarrow> worker \<Rightarrow> item list \<Rightarrow> string \<Rightarrow> message list" where
  "compile_messages schema_text w context feedback =
     [\<lparr>ms_role = RoleSystem, ms_content = build_system schema_text w\<rparr>] @
     (if context = [] then [] else [\<lparr>ms_role = RoleUser, ms_content = build_context context\<rparr>]) @
     (if feedback = [] then []
      else [\<lparr>ms_role = RoleUser,
             ms_content = ''Your previous output did not satisfy the required schema. '' @
               ''Fix only these problems and return the full corrected JSON object:'' @ nl @ feedback\<rparr>])"

section \<open>Contract enforcement\<close>

text \<open>The outcome of \<open>Enforce\<close>: the schema is invalid, or the output violates it.\<close>

datatype enforcement = Conforms | SchemaInvalid err | Violates string

type_synonym schema_check = "payload \<Rightarrow> err + (bytes \<Rightarrow> string option)"

definition enforce :: "schema_check \<Rightarrow> contract \<Rightarrow> bytes \<Rightarrow> enforcement" where
  "enforce compile c output =
     (case compile (con_output_schema c) of
        Inl e \<Rightarrow> SchemaInvalid (errorf ''contract: invalid outputSchema: '' e [])
      | Inr check \<Rightarrow> (case check output of Some problems \<Rightarrow> Violates problems | None \<Rightarrow> Conforms))"

section \<open>Price\<close>

text \<open>USD per token, input and output, from the published prices per million.\<close>

definition per_million :: "rat \<Rightarrow> rat \<Rightarrow> rat \<times> rat" where
  "per_million i out = (i / 1000000, out / 1000000)"

definition rates :: "string \<Rightarrow> (string \<Rightarrow> (rat \<times> rat) option) option" where
  "rates provider =
     (if provider = ''openai'' then Some (map_of
        [(''gpt-4o'', per_million (5/2) 10), (''gpt-4o-mini'', per_million (3/20) (3/5)),
         (''gpt-4.1'', per_million 2 8), (''gpt-4.1-mini'', per_million (2/5) (8/5)),
         (''o4-mini'', per_million (11/10) (22/5))])
      else if provider = ''anthropic'' then Some (map_of
        [(''claude-3-5-sonnet'', per_million 3 15), (''claude-3-5-haiku'', per_million (4/5) 4),
         (''claude-3-opus'', per_million 15 75), (''claude-sonnet-5'', per_million 3 15)])
      else None)"

definition compute_cost :: "string \<Rightarrow> string \<Rightarrow> int \<Rightarrow> int \<Rightarrow> rat" where
  "compute_cost provider mdl tokens_in tokens_out =
     (let provider = (if provider = [] then ''openai'' else provider) in
      case rates provider of
        None \<Rightarrow> 0
      | Some by_model \<Rightarrow>
          (case by_model mdl of
             None \<Rightarrow> 0
           | Some (p_in, p_out) \<Rightarrow> of_int tokens_in * p_in + of_int tokens_out * p_out))"

lemma compute_cost_nonneg: "0 \<le> i \<Longrightarrow> 0 \<le> out \<Longrightarrow> 0 \<le> compute_cost p m i out"
proof -
  assume pos: "0 \<le> i" "0 \<le> out"
  have "0 \<le> p_in \<and> 0 \<le> p_out" if "rates p = Some f" "f m = Some (p_in, p_out)" for p f p_in p_out
    using that by (auto simp: rates_def per_million_def split: if_splits)
  with pos show ?thesis
    by (auto simp: compute_cost_def Let_def split: option.splits)
qed

section \<open>The worker executor\<close>

record 'w worker_config =
  wc_workers :: "string \<Rightarrow> worker option"
  wc_providers :: "string \<Rightarrow> 'w provider option"
  wc_schema_text :: "payload \<Rightarrow> err + string"
  wc_schema_check :: schema_check
  wc_sum256 :: "bytes \<Rightarrow> bytes"
  wc_num :: "rat \<Rightarrow> string"

definition to_policy_items :: "node_input list \<Rightarrow> item list" where
  "to_policy_items inputs =
     map (\<lambda>i. \<lparr>it_from = ni_from i, it_type = ni_type i, it_hash = ni_hash i, it_content = ni_content i\<rparr>) inputs"

definition node_pol :: "worker \<Rightarrow> node \<Rightarrow> context_policy" where
  "node_pol w n = (case node_policy n of Some p \<Rightarrow> p | None \<Rightarrow> wk_context_policy w)"

text \<open>What follows a completed call: the contract, then the result.\<close>

definition worker_outcome ::
  "'w worker_config \<Rightarrow> worker \<Rightarrow> string \<Rightarrow> item list \<Rightarrow> model_response \<Rightarrow> err + node_result" where
  "worker_outcome cfg w nid adm resp =
     (case enforce (wc_schema_check cfg) (wk_contract w) (mr_content resp) of
        Violates problems \<Rightarrow>
          Inl (EContract
            (diag_wrap (EViolation problems (EMsg problems)) KindValidation ''contract_violation'' nid
               ''contract.enforce'' (''output failed the node'' @ [CHR 0x27] @ ''s Contract'')
               ''adjust the Worker goal or output schema so the model returns valid JSON'')
            problems (con_max_retries (wk_contract w)))
      | SchemaInvalid e \<Rightarrow>
          Inl (fatal_wrap (errorf (''engine: node '' @ quote nid @ '': '') e []) KindValidation
            ''contract_schema_invalid'' nid ''contract.compile'' ''Contract output schema is invalid''
            ''fix the Worker Contract schema before running'')
      | Conforms \<Rightarrow>
          Inr (zero_result\<lparr>nr_content := mr_content resp, nr_type := ArtifactJSON,
            nr_mime := ''application/json'',
            nr_cost := compute_cost (if mc_provider (wk_model w) = [] then default_provider
                                     else mc_provider (wk_model w))
                         (mc_model (wk_model w)) (mr_input_tokens resp) (mr_output_tokens resp),
            nr_tokens := mr_input_tokens resp + mr_output_tokens resp,
            nr_validated := True, nr_context_hashes := item_hashes adm\<rparr>))"

definition worker_execute ::
  "'w worker_config \<Rightarrow> node_request \<Rightarrow> 'w \<Rightarrow> (err + node_result) \<times> 'w" where
  "worker_execute cfg req w =
     (let n = rq_node req; nid = node_id n; pre = ''engine: node '' @ quote nid @ '': '' in
      case wc_workers cfg (node_worker n) of
        None \<Rightarrow>
          (Inl (fatal_wrap (EMsg (''engine: no worker '' @ quote (node_worker n) @ '' for node '' @ quote nid))
             KindValidation ''worker_not_found'' nid ''worker.lookup'' ''worker reference could not be resolved''
             ''select an existing Worker version or import the missing Worker''), w)
      | Some wk \<Rightarrow>
          (case resolve_policy (node_pol wk n) (to_policy_items (rq_inputs req)) of
             Inl e \<Rightarrow>
               (Inl (fatal_wrap (errorf pre e []) KindValidation ''context_policy_invalid'' nid ''context.resolve''
                  ''context policy could not be resolved''
                  (''check the node'' @ [CHR 0x27] @ ''s Context Policy filters and upstream artifact types'')), w)
           | Inr adm \<Rightarrow>
               (case get_provider (wc_providers cfg) (mc_provider (wk_model wk)) of
                  Inl e \<Rightarrow>
                    (Inl (fatal_wrap (errorf pre e []) KindProvider ''provider_not_configured'' nid
                       ''provider.lookup'' ''model provider is not configured''
                       ''add or select a provider connection in Settings''), w)
                | Inr prov \<Rightarrow>
                    (case prov (compile_messages (wc_schema_text cfg) wk adm (rq_feedback req))
                            \<lparr>pm_model = mc_model (wk_model wk), pm_extra = mc_params (wk_model wk)\<rparr> w of
                       (Inl e, w') \<Rightarrow> (Inl (map_provider_error nid e), w')
                     | (Inr resp, w') \<Rightarrow> (worker_outcome cfg wk nid adm resp, w')))))"

definition contract_json :: "(rat \<Rightarrow> string) \<Rightarrow> contract \<Rightarrow> cjson" where
  "contract_json num c =
     JObj [(''goal'', JStr (con_goal c)), (''rules'', JArr (map JStr (con_rules c))),
           (''outputSchema'', gval_json num (JObj (con_output_schema c))),
           (''successCriteria'', JArr (map JStr (con_success_criteria c))),
           (''maxRetries'', JNum (itoa (con_max_retries c)))]"

definition worker_cache_key ::
  "'w worker_config \<Rightarrow> node \<Rightarrow> node_input list \<Rightarrow> (string \<rightharpoonup> string) \<Rightarrow> string option" where
  "worker_cache_key cfg n inputs vals =
     (case wc_workers cfg (node_worker n) of
        None \<Rightarrow> None
      | Some w \<Rightarrow>
          Some (cache_key (wc_sum256 cfg) (wc_num cfg)
            \<lparr>ci_worker_id = wk_id w, ci_worker_version = wk_version w,
             ci_contract_hash = canonical_hash (wc_sum256 cfg) (contract_json (wc_num cfg) (wk_contract w)),
             ci_input_hashes = map ni_hash inputs, ci_workflow_inputs = vals,
             ci_model = wk_model w, ci_tool_versions = wk_tools w,
             ci_context_policy = node_pol w n\<rparr>))"

section \<open>Dispatch\<close>

text \<open>Both executors act on one world. A worker-backed node emits no events of its own.\<close>

definition dispatch_execute ::
  "'w worker_config \<Rightarrow> 'w tool_config \<Rightarrow> node_request \<Rightarrow> 'w \<Rightarrow>
     tool_event list \<times> (err + node_result) \<times> 'w" where
  "dispatch_execute wc tc req w =
     (if node_tool (rq_node req) \<noteq> None then tool_execute tc req w
      else case worker_execute wc req w of (r, w') \<Rightarrow> ([], r, w'))"

definition dispatch_cache_key ::
  "'w worker_config \<Rightarrow> node \<Rightarrow> node_input list \<Rightarrow> (string \<rightharpoonup> string) \<Rightarrow> string option" where
  "dispatch_cache_key wc n inputs vals =
     (if node_tool n \<noteq> None then None else worker_cache_key wc n inputs vals)"

section \<open>What a Worker sees and returns\<close>

lemma worker_execute_calls:
  assumes "worker_execute cfg req w = (Inr r, w')"
  obtains wk adm prov resp where
    "wc_workers cfg (node_worker (rq_node req)) = Some wk"
    "resolve_policy (node_pol wk (rq_node req)) (to_policy_items (rq_inputs req)) = Inr adm"
    "get_provider (wc_providers cfg) (mc_provider (wk_model wk)) = Inr prov"
    "prov (compile_messages (wc_schema_text cfg) wk adm (rq_feedback req))
       \<lparr>pm_model = mc_model (wk_model wk), pm_extra = mc_params (wk_model wk)\<rparr> w = (Inr resp, w')"
    "worker_outcome cfg wk (node_id (rq_node req)) adm resp = Inr r"
proof -
  let ?wk = "wc_workers cfg (node_worker (rq_node req))"
  let ?n = "rq_node req" and ?items = "to_policy_items (rq_inputs req)"
  from assms obtain wk where 1: "?wk = Some wk"
    by (cases ?wk) (simp_all add: worker_execute_def Let_def)
  from assms 1 obtain adm where 2: "resolve_policy (node_pol wk ?n) ?items = Inr adm"
    by (cases "resolve_policy (node_pol wk ?n) ?items") (simp_all add: worker_execute_def Let_def)
  from assms 1 2 obtain prov where
    3: "get_provider (wc_providers cfg) (mc_provider (wk_model wk)) = Inr prov"
    by (cases "get_provider (wc_providers cfg) (mc_provider (wk_model wk))")
      (simp_all add: worker_execute_def Let_def)
  let ?call = "prov (compile_messages (wc_schema_text cfg) wk adm (rq_feedback req))
       \<lparr>pm_model = mc_model (wk_model wk), pm_extra = mc_params (wk_model wk)\<rparr> w"
  obtain q v where 4: "?call = (q, v)"
    by (cases ?call)
  with assms 1 2 3 obtain resp where "q = Inr resp" "v = w'"
    "worker_outcome cfg wk (node_id ?n) adm resp = Inr r"
    by (cases q) (simp_all add: worker_execute_def Let_def)
  with 1 2 3 4 that show thesis
    by simp
qed

text \<open>C27. A Worker's result was enforced and its view was the policy's: a successful worker-backed
  node returns the text of one completed call verbatim, that text satisfies the compiled output
  schema of its contract, the call's messages were compiled from exactly the artifacts its
  context policy admits, and the hashes of these are what the result records.\<close>

theorem worker_output_enforced:
  assumes "worker_execute cfg req w = (Inr r, w')"
  shows "\<exists>wk adm prov resp check. wc_workers cfg (node_worker (rq_node req)) = Some wk \<and>
    resolve_policy (node_pol wk (rq_node req)) (to_policy_items (rq_inputs req)) = Inr adm \<and>
    get_provider (wc_providers cfg) (mc_provider (wk_model wk)) = Inr prov \<and>
    prov (compile_messages (wc_schema_text cfg) wk adm (rq_feedback req))
       \<lparr>pm_model = mc_model (wk_model wk), pm_extra = mc_params (wk_model wk)\<rparr> w = (Inr resp, w') \<and>
    wc_schema_check cfg (con_output_schema (wk_contract wk)) = Inr check \<and>
    check (nr_content r) = None \<and> nr_content r = mr_content resp \<and> nr_validated r \<and>
    nr_context_hashes r = map it_hash adm \<and> set adm \<subseteq> set (to_policy_items (rq_inputs req))"
proof -
  from worker_execute_calls [OF assms] obtain wk adm prov resp where c:
    "wc_workers cfg (node_worker (rq_node req)) = Some wk"
    "resolve_policy (node_pol wk (rq_node req)) (to_policy_items (rq_inputs req)) = Inr adm"
    "get_provider (wc_providers cfg) (mc_provider (wk_model wk)) = Inr prov"
    "prov (compile_messages (wc_schema_text cfg) wk adm (rq_feedback req))
       \<lparr>pm_model = mc_model (wk_model wk), pm_extra = mc_params (wk_model wk)\<rparr> w = (Inr resp, w')"
    "worker_outcome cfg wk (node_id (rq_node req)) adm resp = Inr r" .
  have conf: "enforce (wc_schema_check cfg) (wk_contract wk) (mr_content resp) = Conforms"
    and r: "nr_content r = mr_content resp" "nr_validated r" "nr_context_hashes r = map it_hash adm"
    using c(5) by (auto simp: worker_outcome_def item_hashes_def split: enforcement.splits)
  then obtain check where "wc_schema_check cfg (con_output_schema (wk_contract wk)) = Inr check"
    "check (mr_content resp) = None"
    by (auto simp: enforce_def split: sum.splits option.splits)
  with c(1-4) r resolve_policy_subset [OF c(2)] show ?thesis
    by (intro exI [of _ wk] exI [of _ adm] exI [of _ prov] exI [of _ resp] exI [of _ check]) simp
qed

definition sample_worker :: worker where
  "sample_worker = \<lparr>wk_id = ''reviewer'', wk_version = ''1.0.0'', wk_description = [], wk_objective = ''Review'',
     wk_constraints = [], wk_tools = [],
     wk_context_policy = \<lparr>cp_mode = ContextArtifacts, cp_params = Some [''a'']\<rparr>,
     wk_contract = \<lparr>con_goal = [], con_rules = [], con_output_schema = [], con_success_criteria = [],
       con_max_retries = 1\<rparr>,
     wk_model = \<lparr>mc_provider = [], mc_model = ''gpt-4o'', mc_params = []\<rparr>\<rparr>"

definition sample_worker_config :: "nat worker_config" where
  "sample_worker_config = \<lparr>wc_workers = [''reviewer@1.0.0'' \<mapsto> sample_worker],
     wc_providers = [''openai'' \<mapsto> (\<lambda>msgs p w. (Inr \<lparr>mr_content = ''{}'', mr_input_tokens = 10,
        mr_output_tokens = int (length msgs)\<rparr>, w + 1))],
     wc_schema_text = (\<lambda>p. Inr ''{}''), wc_schema_check = (\<lambda>p. Inr (\<lambda>b. if b = ''{}'' then None else Some ''bad'')),
     wc_sum256 = (\<lambda>b. b), wc_num = (\<lambda>q. ''0'')\<rparr>"

definition sample_input :: "string \<Rightarrow> string \<Rightarrow> node_input" where
  "sample_input from h = \<lparr>ni_from = from, ni_content = h, ni_type = ArtifactJSON, ni_hash = h\<rparr>"

definition sample_worker_request :: "node_input list \<Rightarrow> node_request" where
  "sample_worker_request inputs =
     \<lparr>rq_node = \<lparr>node_id = ''n'', node_worker = ''reviewer@1.0.0'', node_tool = None, node_policy = None,
        node_on_failure = None\<rparr>,
      rq_inputs = inputs, rq_feedback = [], rq_wf_inputs = Map.empty, rq_connections = Map.empty,
      rq_exec = ''e'', rq_approvals = Map.empty, rq_allow_mutations = False\<rparr>"

theorem worker_output_enforced_witness:
  "\<exists>r. worker_execute sample_worker_config (sample_worker_request [sample_input ''a'' ''h1'', sample_input ''b'' ''h2'']) 0 =
      (Inr r, 1) \<and> nr_content r = ''{}'' \<and> nr_context_hashes r = [''h1''] \<and> nr_validated r"
proof -
  let ?req = "sample_worker_request [sample_input ''a'' ''h1'', sample_input ''b'' ''h2'']"
  obtain r where run: "worker_execute sample_worker_config ?req 0 = (Inr r, 1)" "nr_content r = ''{}''"
    by (auto simp: worker_execute_def sample_worker_config_def sample_worker_request_def sample_worker_def
        node_pol_def resolve_policy_def to_policy_items_def sample_input_def get_provider_def
        default_provider_def worker_outcome_def enforce_def Let_def)
  have adm: "resolve_policy (node_pol sample_worker (rq_node ?req)) (to_policy_items (rq_inputs ?req)) =
      Inr [\<lparr>it_from = ''a'', it_type = ArtifactJSON, it_hash = ''h1'', it_content = ''h1''\<rparr>]"
    by (simp add: resolve_policy_def node_pol_def sample_worker_def sample_worker_request_def to_policy_items_def
        sample_input_def)
  have wk: "wc_workers sample_worker_config (node_worker (rq_node ?req)) = Some sample_worker"
    by (simp add: sample_worker_config_def sample_worker_request_def)
  from worker_output_enforced [OF run(1)] wk adm have "nr_context_hashes r = [''h1'']" "nr_validated r"
    by auto
  with run show ?thesis by blast
qed

section \<open>What the cache key does not see\<close>

definition sample_straight :: "node_input list" where
  "sample_straight = [sample_input ''a'' ''h1'', sample_input ''b'' ''h2'']"

definition sample_crossed :: "node_input list" where
  "sample_crossed = [sample_input ''a'' ''h2'', sample_input ''b'' ''h1'']"

definition sample_wnode :: node where
  "sample_wnode = rq_node (sample_worker_request [])"

text \<open>A cache key does not say which upstream node, or which kind of artifact, a hash came
  from: exchanging the contents of two inputs of a worker keeps the key, although the messages
  compiled for it differ and a policy by node even admits another artifact. So a hit can serve
  the answer to a different question.\<close>

theorem cache_key_ignores_provenance:
  "worker_cache_key sample_worker_config sample_wnode sample_straight vals = worker_cache_key sample_worker_config sample_wnode sample_crossed vals \<and>
    worker_cache_key sample_worker_config sample_wnode sample_straight vals \<noteq> None \<and>
    map_sum id (map it_hash) (resolve_policy (node_pol sample_worker sample_wnode) (to_policy_items sample_straight)) = Inr [''h1''] \<and>
    map_sum id (map it_hash) (resolve_policy (node_pol sample_worker sample_wnode) (to_policy_items sample_crossed)) = Inr [''h2'']"
proof -
  have sorted: "sorted_copy [''h1'', ''h2''] = sorted_copy [''h2'', ''h1'']"
    by (simp add: sorted_copy_eq add_mset_commute)
  have "worker_cache_key sample_worker_config sample_wnode sample_straight vals = worker_cache_key sample_worker_config sample_wnode sample_crossed vals"
    using sorted by (simp add: worker_cache_key_def cache_key_def sample_straight_def sample_crossed_def sample_input_def
        split: option.splits)
  moreover have "worker_cache_key sample_worker_config sample_wnode sample_straight vals \<noteq> None"
    by (simp add: worker_cache_key_def sample_wnode_def sample_worker_request_def sample_worker_config_def)
  ultimately show ?thesis
    by (simp add: resolve_policy_def node_pol_def sample_worker_def sample_wnode_def sample_straight_def sample_crossed_def sample_input_def
        sample_worker_request_def to_policy_items_def)
qed

end
