(* ===== verification/NodeExec.thy ===== *)
theory NodeExec
  imports CacheStore WorkerExec Scheduler
begin

text \<open>
  \<open>core/engine/node.go\<close>: one node from its \<open>WorkerStarted\<close> to its last event. \<open>execute_node\<close>
  consults the cache, runs the executor under the retry loop, stores the artifact, logs and
  records the cache entry. The executor, the waiting between attempts and \<open>ctx.Err()\<close> are
  arguments over the world \<open>'w\<close>; the artifact store and the cache are the models of
  \<open>ArtifactStore\<close> and \<open>CacheStore\<close>, with the faults of the node's own accesses.
\<close>

section \<open>The run of a node\<close>

type_synonym 'w executor = "node_request \<Rightarrow> 'w \<Rightarrow> tool_event list \<times> (err + node_result) \<times> 'w"

type_synonym cache_keyer = "node \<Rightarrow> node_input list \<Rightarrow> (string \<rightharpoonup> string) \<Rightarrow> string option"

record 'w node_env =
  ne_execute :: "'w executor"
  ne_keyer :: "cache_keyer option"
  ne_sum256 :: "bytes \<Rightarrow> bytes"
  ne_max_retries :: int
  ne_backoff :: "int \<Rightarrow> int"
  ne_sleep :: "int \<Rightarrow> 'w \<Rightarrow> 'w \<times> bool"
  ne_ctx_err :: "'w \<Rightarrow> err option"
  ne_mode :: cache_mode
  ne_read :: faults
  ne_write :: "faults \<times> string \<times> int"
  ne_cache_write :: faults
  ne_created :: string

record 'w node_run =
  nx_events :: "tool_event list"
  nx_store :: art_store
  nx_cache :: "cache option"
  nx_feedback :: string
  nx_result :: node_result
  nx_world :: 'w

definition node_emit :: "event_type \<Rightarrow> payload \<Rightarrow> 'w node_run \<Rightarrow> 'w node_run" where
  "node_emit ty p s = s\<lparr>nx_events := nx_events s @ [(ty, map (\<lambda>(k, v). (k, PVal v)) p)]\<rparr>"

definition error_payload :: "err \<Rightarrow> string \<Rightarrow> payload" where
  "error_payload e lid =
     [(''error'', JStr (err_msg e)), (''diagnostic'', JObj (diag_payload e lid))]"

section \<open>The cache\<close>

definition cache_key_for ::
  "'w node_env \<Rightarrow> bool \<Rightarrow> node \<Rightarrow> node_input list \<Rightarrow> (string \<rightharpoonup> string) \<Rightarrow> string" where
  "cache_key_for env has_cache n inputs vals =
     (if ne_mode env = CacheOff \<or> \<not> has_cache then []
      else case ne_keyer env of
        None \<Rightarrow> []
      | Some keyer \<Rightarrow> (case keyer n inputs vals of None \<Rightarrow> [] | Some k \<Rightarrow> k))"

text \<open>The events of a hit: the recorded artifact again, at zero cost.\<close>

definition hit_events :: "string \<Rightarrow> cache_entry \<Rightarrow> 'w node_run \<Rightarrow> 'w node_run" where
  "hit_events key entry s =
     (let s = node_emit CacheHit [(''key'', JStr key), (''savedCostUsd'', JNum (ce_cost entry)),
                (''savedTokens'', jint (ce_tokens entry))] s;
          s = node_emit ArtifactCreated [(''hash'', JStr (ce_hash entry)), (''type'', JStr (ce_type entry))] s
      in node_emit WorkerFinished [(''costUsd'', jint 0), (''tokens'', jint 0)] s)"

text \<open>The result of a hit, or what the miss event says when the entry's artifact is gone.\<close>

definition cache_hit ::
  "'w node_env \<Rightarrow> string \<Rightarrow> string \<Rightarrow> 'w node_run \<Rightarrow> (payload option + node_result) \<times> 'w node_run" where
  "cache_hit env lid key s =
     (case nx_cache s of
        None \<Rightarrow> (Inl None, s)
      | Some c \<Rightarrow>
          (case cache_get (ne_read env) key c of
             (None, c') \<Rightarrow> (Inl None, s\<lparr>nx_cache := Some c'\<rparr>)
           | (Some entry, c') \<Rightarrow>
               let s = s\<lparr>nx_cache := Some c'\<rparr> in
               (case get_artifact (ne_read env) (ce_hash entry) (nx_store s) of
                  Inl e \<Rightarrow>
                    let e = diag_wrap e KindCache ''cache_artifact_missing'' lid ''cache.hit''
                          ''cache entry referenced an artifact that is no longer stored''
                          ''clear this cache entry or rerun the node to refresh it''
                    in (Inl (Some [(''key'', JStr key), (''artifact'', JStr (ce_hash entry)),
                          (''diagnostic'', JObj (diag_payload e lid))]), s)
                | Inr content \<Rightarrow>
                    (Inr (zero_result\<lparr>nr_content := content, nr_type := ce_type entry, nr_hash := ce_hash entry\<rparr>),
                     hit_events key entry s))))"

text \<open>The block before the executor runs: \<open>Some\<close> is the result of a hit.\<close>

definition cache_lookup ::
  "'w node_env \<Rightarrow> string \<Rightarrow> string \<Rightarrow> 'w node_run \<Rightarrow> node_result option \<times> 'w node_run" where
  "cache_lookup env lid key s =
     (if key = [] then (None, s)
      else let (r, s) =
          (if ne_mode env = CacheOn \<or> ne_mode env = CacheReadOnly then cache_hit env lid key s
           else (Inl None, s))
        in case r of
             Inr res \<Rightarrow> (Some res, s)
           | Inl (Some p) \<Rightarrow> (None, node_emit CacheMiss p s)
           | Inl None \<Rightarrow> (None, node_emit CacheMiss [(''key'', JStr key)] s))"

section \<open>The attempts\<close>

definition node_attempt ::
  "'w node_env \<Rightarrow> node_request \<Rightarrow> 'w node_run \<Rightarrow> 'w node_run \<times> err option" where
  "node_attempt env req s =
     (case ne_execute env (req\<lparr>rq_feedback := nx_feedback s\<rparr>) (nx_world s) of
        (evs, r, w) \<Rightarrow>
          let s = s\<lparr>nx_events := nx_events s @ evs, nx_world := w\<rparr> in
          case r of
            Inr res \<Rightarrow> (s\<lparr>nx_result := res\<rparr>, None)
          | Inl e \<Rightarrow>
              (case as_err as_contract e of
                 Some (feedback, n) \<Rightarrow> (s\<lparr>nx_feedback := feedback\<rparr>, Some e)
               | None \<Rightarrow> (s, Some e)))"

definition node_retry :: "'w node_env \<Rightarrow> node_request \<Rightarrow> string \<Rightarrow> 'w node_run retry_env" where
  "node_retry env req lid =
     \<lparr>re_max_transient = ne_max_retries env,
      re_backoff = ne_backoff env,
      re_attempt = node_attempt env req,
      re_on_retry = (\<lambda>n e. node_emit Retry [(''attempt'', jint n), (''reason'', JStr (err_msg e)),
        (''diagnostic'', JObj (diag_payload e lid))]),
      re_sleep = (\<lambda>d s. case ne_sleep env d (nx_world s) of (w, b) \<Rightarrow> (s\<lparr>nx_world := w\<rparr>, b)),
      re_ctx_err = (\<lambda>s. ne_ctx_err env (nx_world s))\<rparr>"

section \<open>After the attempts\<close>

definition node_failed :: "string \<Rightarrow> err \<Rightarrow> 'w node_run \<Rightarrow> 'w node_run" where
  "node_failed lid e s =
     (if is_err ErrApprovalRequired e then s
      else node_emit Failure (error_payload e lid)
        (if is_contract_violation e then node_emit ContractViolated (error_payload e lid) s else s))"

definition node_record :: "'w node_env \<Rightarrow> string \<Rightarrow> node_result \<Rightarrow> 'w node_run \<Rightarrow> 'w node_run" where
  "node_record env key res s =
     (case nx_cache s of
        None \<Rightarrow> s
      | Some c \<Rightarrow>
          if key \<noteq> [] \<and> ne_mode env = CacheOn
          then s\<lparr>nx_cache := Some (snd (cache_put (ne_cache_write env)
                 \<lparr>ce_key = key, ce_hash = nr_hash res, ce_type = nr_type res, ce_cost = nr_cost res,
                  ce_tokens = nr_tokens res, ce_created = ne_created env\<rparr> c))\<rparr>
          else s)"

definition node_finished :: "string \<Rightarrow> node_result \<Rightarrow> 'w node_run \<Rightarrow> 'w node_run" where
  "node_finished hash res s =
     (let s = (if nr_validated res then node_emit ContractValidated [] s else s);
          s = node_emit ArtifactCreated [(''hash'', JStr hash), (''type'', JStr (nr_type res))] s
      in node_emit WorkerFinished
           ([(''costUsd'', JNum (nr_cost res)), (''tokens'', jint (nr_tokens res))] @
            (if nr_context_hashes res \<noteq> []
             then [(''contextHashes'', JArr (map JStr (nr_context_hashes res)))] else [])) s)"

definition store_error :: "string \<Rightarrow> err \<Rightarrow> err" where
  "store_error lid e =
     diag_wrap (errorf (''store node '' @ quote lid @ '' artifact: '') e []) KindArtifact
       ''artifact_store_failed'' lid ''artifact.put'' ''artifact could not be persisted''
       ''reduce output size or check workspace storage permissions''"

definition node_commit ::
  "'w node_env \<Rightarrow> string \<Rightarrow> string \<Rightarrow> 'w node_run \<Rightarrow> 'w node_run \<times> (err + node_result)" where
  "node_commit env lid key s =
     (let res = nx_result s in
      case put (ne_sum256 env) (fst (ne_write env)) (fst (snd (ne_write env)))
             (snd (snd (ne_write env))) (nr_content res) (nx_store s) of
        (Inl e, st) \<Rightarrow>
          (node_emit Failure (error_payload (store_error lid e) lid) (s\<lparr>nx_store := st\<rparr>), Inl (store_error lid e))
      | (Inr hash, st) \<Rightarrow>
          let res = res\<lparr>nr_hash := hash\<rparr> in
          (node_record env key res (node_finished hash res (s\<lparr>nx_store := st\<rparr>)), Inr res))"

text \<open>\<open>executeNode\<close>: \<open>None\<close> if the retry loop does not return. \<open>req\<close> holds the node that is run,
  \<open>lid\<close> the node it is logged as; they differ for a fallback.\<close>

definition execute_node ::
  "'w node_env \<Rightarrow> node_request \<Rightarrow> string \<Rightarrow> 'w node_run \<Rightarrow> ('w node_run \<times> (err + node_result)) option" where
  "execute_node env req lid s =
     (let s = node_emit WorkerStarted [] s;
          key = cache_key_for env (nx_cache s \<noteq> None) (rq_node req) (rq_inputs req) (rq_wf_inputs req)
      in case cache_lookup env lid key s of
           (Some hit, s) \<Rightarrow> Some (s, Inr hit)
         | (None, s) \<Rightarrow>
             (case with_retry (node_retry env req lid) 0 0 (s\<lparr>nx_feedback := [], nx_result := zero_result\<rparr>) of
                None \<Rightarrow> None
              | Some (s, Some e) \<Rightarrow> Some (node_failed lid e s, Inl e)
              | Some (s, None) \<Rightarrow> Some (node_commit env lid key s)))"


section \<open>Emitting\<close>

lemma node_emit_simps [simp]:
  "nx_events (node_emit ty p s) = nx_events s @ [(ty, map (\<lambda>(k, v). (k, PVal v)) p)]"
  "nx_store (node_emit ty p s) = nx_store s" "nx_cache (node_emit ty p s) = nx_cache s"
  "nx_world (node_emit ty p s) = nx_world s" "nx_result (node_emit ty p s) = nx_result s"
  "nx_feedback (node_emit ty p s) = nx_feedback s"
  by (simp_all add: node_emit_def)

lemma node_failed_frame [simp]:
  "nx_store (node_failed lid e s) = nx_store s" "nx_cache (node_failed lid e s) = nx_cache s"
  "nx_world (node_failed lid e s) = nx_world s"
  by (simp_all add: node_failed_def)

lemma node_finished_frame [simp]:
  "nx_store (node_finished h res s) = nx_store s" "nx_cache (node_finished h res s) = nx_cache s"
  "nx_world (node_finished h res s) = nx_world s"
  by (simp_all add: node_finished_def Let_def)

lemma node_record_frame [simp]:
  "nx_store (node_record env key res s) = nx_store s"
  "nx_events (node_record env key res s) = nx_events s"
  "nx_world (node_record env key res s) = nx_world s"
  by (simp_all add: node_record_def split: option.splits)

lemma node_attempt_frame:
  assumes "node_attempt env req s = (s', r)"
  shows "nx_store s' = nx_store s" and "nx_cache s' = nx_cache s"
    and "nx_events s' = nx_events s @ fst (ne_execute env (req\<lparr>rq_feedback := nx_feedback s\<rparr>) (nx_world s))"
    and "nx_world s' = snd (snd (ne_execute env (req\<lparr>rq_feedback := nx_feedback s\<rparr>) (nx_world s)))"
    and "fst (snd (ne_execute env (req\<lparr>rq_feedback := nx_feedback s\<rparr>) (nx_world s))) =
      (case r of None \<Rightarrow> Inr (nx_result s') | Some e \<Rightarrow> Inl e)"
  using assms
  by (auto simp: node_attempt_def Let_def split: prod.splits sum.splits option.splits)

lemma node_pause_frame:
  assumes "retry_pause (node_retry env req lid) n e s = (s', r)"
  shows "nx_store s' = nx_store s" and "nx_cache s' = nx_cache s"
    and "map fst (nx_events s') = map fst (nx_events s) @ [Retry]"
    and "r \<noteq> None \<Longrightarrow> the r = ne_ctx_err env (nx_world s')"
  using assms
  by (auto simp: retry_pause_def node_retry_def Let_def split: prod.splits if_splits)

text \<open>The attempts leave the store and the cache alone, and log what the executor emits and
  the retries.\<close>

definition attempt_events :: "'w node_env \<Rightarrow> event_type \<Rightarrow> bool" where
  "attempt_events env ty \<longleftrightarrow>
     ty = Retry \<or> (\<exists>req w. ty \<in> fst ` set (fst (ne_execute env req w)))"

definition attempts_ok :: "'w node_env \<Rightarrow> 'w node_run \<Rightarrow> 'w node_run \<Rightarrow> bool" where
  "attempts_ok env s s' \<longleftrightarrow> nx_store s' = nx_store s \<and> nx_cache s' = nx_cache s \<and>
     (\<exists>tys. map fst (nx_events s') = map fst (nx_events s) @ tys \<and> list_all (attempt_events env) tys)"

lemma attempts_ok_refl: "attempts_ok env s s"
  by (simp add: attempts_ok_def)

lemma attempts_ok_extend:
  assumes "attempts_ok env s s1" "nx_store s2 = nx_store s1" "nx_cache s2 = nx_cache s1"
    and "map fst (nx_events s2) = map fst (nx_events s1) @ tys" "list_all (attempt_events env) tys"
  shows "attempts_ok env s s2"
proof -
  from assms(1) obtain us where "map fst (nx_events s1) = map fst (nx_events s) @ us"
    "list_all (attempt_events env) us" by (auto simp: attempts_ok_def)
  with assms show ?thesis
    by (auto simp: attempts_ok_def intro!: exI [of _ "us @ tys"])
qed

lemma attempts_ok_attempt:
  assumes "attempts_ok env s s1" and "re_attempt (node_retry env req lid) s1 = (s2, r)"
  shows "attempts_ok env s s2"
proof -
  let ?evs = "fst (ne_execute env (req\<lparr>rq_feedback := nx_feedback s1\<rparr>) (nx_world s1))"
  from assms(2) have "node_attempt env req s1 = (s2, r)" by (simp add: node_retry_def)
  note fr = node_attempt_frame [OF this]
  have "list_all (attempt_events env) (map fst ?evs)"
    by (auto simp: list_all_iff attempt_events_def)
  with fr(1-3) show ?thesis
    by (intro attempts_ok_extend [OF assms(1), of s2 "map fst ?evs"]) simp_all
qed

lemma attempts_ok_pause:
  assumes "attempts_ok env s s1" and "retry_pause (node_retry env req lid) n e s1 = (s2, r)"
  shows "attempts_ok env s s2"
  using node_pause_frame [OF assms(2)]
  by (intro attempts_ok_extend [OF assms(1), of s2 "[Retry]"]) (simp_all add: attempt_events_def)

lemma attempts_frame:
  assumes "with_retry (node_retry env req lid) tn cn s = Some (s', r)"
  shows "attempts_ok env s s'"
  by (rule with_retry_rule [where I = "attempts_ok env s" and A = "\<lambda>s1 _. attempts_ok env s s1"
        and Q = "\<lambda>s1 _. attempts_ok env s s1", OF assms])
    (auto intro: attempts_ok_refl attempts_ok_attempt attempts_ok_pause)

text \<open>If the context error that ends a pause is not nil, the loop succeeds only because the
  executor did.\<close>

definition sleep_ends :: "'w node_env \<Rightarrow> bool" where
  "sleep_ends env \<longleftrightarrow> (\<forall>d w w'. ne_sleep env d w = (w', False) \<longrightarrow> ne_ctx_err env w' \<noteq> None)"

lemma sleep_endsD: "sleep_ends env \<Longrightarrow> ne_sleep env d w = (w', False) \<Longrightarrow> \<exists>e. ne_ctx_err env w' = Some e"
  unfolding sleep_ends_def by blast

lemma node_pause_stops:
  assumes "retry_pause (node_retry env req lid) n e s = (s', Some r)" and "sleep_ends env"
  shows "\<exists>e. r = Some e"
  using assms(1)
  by (auto simp: retry_pause_def node_retry_def Let_def dest: sleep_endsD [OF assms(2)] sym [of "Some _"]
      split: prod.splits if_splits)

definition executed :: "'w node_env \<Rightarrow> node_request \<Rightarrow> 'w node_run \<Rightarrow> bool" where
  "executed env req s \<longleftrightarrow> (\<exists>w fb. ne_execute env (req\<lparr>rq_feedback := fb\<rparr>) w =
     (fst (ne_execute env (req\<lparr>rq_feedback := fb\<rparr>) w), Inr (nx_result s), nx_world s))"

lemma attempts_result:
  assumes "with_retry (node_retry env req lid) tn cn s = Some (s', None)" and "sleep_ends env"
  shows "executed env req s'"
proof -
  have ok: "executed env req s1" if "re_attempt (node_retry env req lid) s = (s1, None)" for s s1
  proof -
    from that have "node_attempt env req s = (s1, None)" by (simp add: node_retry_def)
    from node_attempt_frame(4,5) [OF this] show ?thesis
      unfolding executed_def by (intro exI [of _ "nx_world s"] exI [of _ "nx_feedback s"]) (simp add: prod_eq_iff)
  qed
  have "(None :: err option) = None \<longrightarrow> executed env req s'"
    by (rule with_retry_rule [where I = "\<lambda>_. True" and A = "\<lambda>_ _. True"
          and Q = "\<lambda>s1 r. r = None \<longrightarrow> executed env req s1", OF assms(1)])
      (auto dest: ok node_pause_stops [OF _ assms(2)])
  then show ?thesis by simp
qed

section \<open>The cache under faults\<close>

lemma ensure_loaded_readable:
  assumes "readable c" and "ensure_loaded f c = (r, c')"
  shows "readable c'" and "r = None \<Longrightarrow> ca_loaded c'"
    and "map_of (ca_index c') q = Some e \<Longrightarrow> entries c q = Some e"
    and "entries c' q = Some e \<Longrightarrow> entries c q = Some e"
  using assms
  by (auto simp: ensure_loaded_def readable_def entries_def split: if_splits option.splits index_file.splits)

lemma cache_get_keeps:
  assumes "readable c" and "cache_get f k c = (r, c')"
  shows "readable c'" and "entries c' q = Some e \<Longrightarrow> entries c q = Some e"
    and "r = Some e \<Longrightarrow> entries c k = Some e"
  using assms
  by (auto simp: cache_get_def dest: ensure_loaded_readable split: prod.splits option.splits)

lemma cache_get_ok:
  assumes "readable c" and "reads_ok f"
  obtains c' where "cache_get f k c = (entries c k, c')" "readable c'" "entries c' = entries c"
proof -
  obtain c' where l: "ensure_loaded f c = (None, c')" "ca_loaded c'" "map_of (ca_index c') = entries c"
    by (rule ensure_loaded_ok [OF assms])
  show thesis
    by (rule that [of c']) (use l ensure_loaded_readable(1) [OF assms(1) l(1)] in
        \<open>simp_all add: cache_get_def entries_def [of c']\<close>)
qed

lemma cache_put_keeps:
  assumes "readable c" and "cache_put f x c = (r, c')"
  shows "readable c'" and "entries c' q = Some e \<Longrightarrow> entries c q = Some e \<or> q = ce_key x \<and> e = x"
proof -
  obtain r1 c1 where l: "ensure_loaded f c = (r1, c1)" by fastforce
  note ld = ensure_loaded_readable [OF assms(1) l]
  show "readable c'" "entries c' q = Some e \<Longrightarrow> entries c q = Some e \<or> q = ce_key x \<and> e = x"
  proof (atomize (full), cases r1)
    case (Some e1)
    with assms(2) l ensure_loaded_error have "c' = c" by (auto simp: cache_put_def)
    with assms(1) show "readable c' \<and> (entries c' q = Some e \<longrightarrow> entries c q = Some e \<or> q = ce_key x \<and> e = x)"
      by simp
  next
    case None
    let ?c2 = "c1\<lparr>ca_index := AList.update (ce_key x) x (ca_index c1)\<rparr>"
    have s: "save_index f ?c2 = (r, c')" using assms(2) l None by (simp add: cache_put_def)
    note fr = save_index_frame [OF s]
    have "ca_loaded c'" using fr(2) ld(2) None by simp
    then have "entries c' = (map_of (ca_index c1))(ce_key x \<mapsto> x)" "readable c'"
      using fr(1,3) ld(1) by (auto simp: entries_def [of c'] readable_def update_conv')
    with ld(3) show "readable c' \<and> (entries c' q = Some e \<longrightarrow> entries c q = Some e \<or> q = ce_key x \<and> e = x)"
      by auto
  qed
qed

section \<open>The invariant of store and cache\<close>

text \<open>Every artifact is under its own hash, the index can be read, and no entry names one of
  the store's temporary files.\<close>

definition node_ok :: "(bytes \<Rightarrow> bytes) \<Rightarrow> 'w node_run \<Rightarrow> bool" where
  "node_ok sum256 s \<longleftrightarrow> integrity sum256 (nx_store s) \<and>
     (\<forall>c. nx_cache s = Some c \<longrightarrow> readable c \<and> (\<forall>q e. entries c q = Some e \<longrightarrow> \<not> is_tmp (ce_hash e)))"

lemma node_ok_cong:
  "nx_store s' = nx_store s \<Longrightarrow> nx_cache s' = nx_cache s \<Longrightarrow> node_ok sum256 s' = node_ok sum256 s"
  by (simp add: node_ok_def)

lemma node_ok_emit [simp]: "node_ok sum256 (node_emit ty p s) = node_ok sum256 s"
  by (rule node_ok_cong) simp_all

lemma put_stores:
  assumes "put sum256 f sfx now c s = (r, s')" and "integrity sum256 s"
  shows "integrity sum256 s'" and "r = Inl e \<Longrightarrow> artifacts s' = artifacts s"
    and "r = Inr h \<Longrightarrow> h = hash_bytes sum256 c \<and> \<not> is_tmp h"
    and "r = Inr h \<Longrightarrow> (\<And>b. hash_bytes sum256 b = hash_bytes sum256 c \<Longrightarrow> b = c) \<Longrightarrow> artifacts s' h = Some c"
    and "r = Inr h \<Longrightarrow> artifacts s k = Some b \<Longrightarrow> k \<noteq> h \<Longrightarrow> artifacts s' k = Some b"
proof -
  show "artifacts s' = artifacts s" if "r = Inl e"
    using put_reader_failure assms(1) that unfolding put_def by blast
  have ok: "h = hash_bytes sum256 c \<and> \<not> is_tmp h \<and> (artifacts s' = spec_put h c (artifacts s) \<or>
      artifacts s' = (artifacts s)(h \<mapsto> c))" if "r = Inr h" for h
  proof -
    have "put_reader sum256 f sfx now (bytes_reader c) s = (Inr h, s')"
      using assms(1) that by (simp add: put_def)
    from put_reader_spec(1,2) [OF this] show ?thesis by (simp add: hash_not_tmp)
  qed
  show "integrity sum256 s'"
  proof (cases r)
    case (Inl e)
    then have "artifacts s' = artifacts s"
      using assms(1) put_reader_failure unfolding put_def by blast
    with assms(2) show ?thesis by (simp add: integrity_def)
  next
    case (Inr h)
    from ok [OF Inr] assms(2) show ?thesis
      by (auto simp: integrity_def spec_put_def split: if_splits)
  qed
  show "h = hash_bytes sum256 c \<and> \<not> is_tmp h" if "r = Inr h" using ok [OF that] by blast
  show "artifacts s' h = Some c" if r: "r = Inr h" and "\<And>b. hash_bytes sum256 b = hash_bytes sum256 c \<Longrightarrow> b = c"
  proof (cases "artifacts s h")
    case None
    with ok [OF r] show ?thesis by (auto simp: spec_put_def)
  next
    case (Some b)
    with integrityD [OF assms(2)] ok [OF r] that(2) have "b = c" by metis
    with Some ok [OF r] show ?thesis by (auto simp: spec_put_def)
  qed
  show "artifacts s' k = Some b" if "r = Inr h" "artifacts s k = Some b" "k \<noteq> h"
    using ok [OF that(1)] that(2,3) by (auto simp: spec_put_def)
qed

section \<open>Every step keeps the invariant\<close>

lemma get_artifact_Inr:
  "get_artifact f h s = Inr b \<Longrightarrow> \<not> is_tmp h \<Longrightarrow> artifacts s h = Some b"
  by (auto simp: get_artifact_def artifacts_def split: option.splits if_splits)

lemma get_artifact_stored:
  "artifacts s h = Some b \<Longrightarrow> reads_ok f \<Longrightarrow> get_artifact f h s = Inr b"
  by (auto simp: get_artifact_def artifacts_def reads_ok_def split: if_splits)

lemma hit_events_frame [simp]:
  "nx_store (hit_events key entry s) = nx_store s" "nx_cache (hit_events key entry s) = nx_cache s"
  "nx_world (hit_events key entry s) = nx_world s"
  "map fst (nx_events (hit_events key entry s)) =
     map fst (nx_events s) @ [CacheHit, ArtifactCreated, WorkerFinished]"
  by (simp_all add: hit_events_def Let_def)

lemma node_ok_hit [simp]: "node_ok sum256 (hit_events key entry s) = node_ok sum256 s"
  by (rule node_ok_cong) simp_all

lemma cache_hit_cases:
  assumes "cache_hit env lid key s = (r, s')"
  obtains (off) "nx_cache s = None" "r = Inl None" "s' = s"
  | (miss) c g c' p where "nx_cache s = Some c" "cache_get (ne_read env) key c = (g, c')"
      "r = Inl p" "s' = s\<lparr>nx_cache := Some c'\<rparr>"
  | (hit) c c' entry content where "nx_cache s = Some c"
      "cache_get (ne_read env) key c = (Some entry, c')"
      "get_artifact (ne_read env) (ce_hash entry) (nx_store s) = Inr content"
      "r = Inr (zero_result\<lparr>nr_content := content, nr_type := ce_type entry, nr_hash := ce_hash entry\<rparr>)"
      "s' = hit_events key entry (s\<lparr>nx_cache := Some c'\<rparr>)"
proof (cases "nx_cache s")
  case None
  with assms have "r = Inl None" "s' = s" by (simp_all add: cache_hit_def)
  with None show thesis by (rule off)
next
  case (Some c)
  obtain g c' where g: "cache_get (ne_read env) key c = (g, c')" by fastforce
  show thesis
  proof (cases g)
    case None
    with assms Some g have "r = Inl None" "s' = s\<lparr>nx_cache := Some c'\<rparr>" by (simp_all add: cache_hit_def)
    then show thesis by (rule miss [OF Some g])
  next
    case e: (Some entry)
    show thesis
    proof (cases "get_artifact (ne_read env) (ce_hash entry) (nx_store s)")
      case (Inl x)
      with assms Some g e have "isl r" "s' = s\<lparr>nx_cache := Some c'\<rparr>"
        by (auto simp: cache_hit_def Let_def)
      moreover from this(1) obtain p where "r = Inl p" by (cases r) simp_all
      ultimately have "r = Inl p" "s' = s\<lparr>nx_cache := Some c'\<rparr>" by simp_all
      then show thesis by (rule miss [OF Some g])
    next
      case (Inr content)
      with assms Some g e have
        "r = Inr (zero_result\<lparr>nr_content := content, nr_type := ce_type entry, nr_hash := ce_hash entry\<rparr>)"
        "s' = hit_events key entry (s\<lparr>nx_cache := Some c'\<rparr>)"
        by (simp_all add: cache_hit_def Let_def)
      then show thesis by (rule hit [OF Some g [unfolded e] Inr])
    qed
  qed
qed

text \<open>What the run may do to the cache: forget, or record the one new entry.\<close>

definition cache_within :: "cache_entry option \<Rightarrow> 'w node_run \<Rightarrow> 'w node_run \<Rightarrow> bool" where
  "cache_within x s s' \<longleftrightarrow> (nx_cache s' = None) = (nx_cache s = None) \<and>
     (\<forall>c c' q e. nx_cache s = Some c \<longrightarrow> nx_cache s' = Some c' \<longrightarrow> entries c' q = Some e \<longrightarrow>
        entries c q = Some e \<or> x = Some e \<and> q = ce_key e)"

lemma cache_within_same: "nx_cache s' = nx_cache s \<Longrightarrow> cache_within x s s'"
  by (simp add: cache_within_def)

lemma cache_within_trans: "cache_within None s s1 \<Longrightarrow> cache_within x s1 s2 \<Longrightarrow> cache_within x s s2"
  unfolding cache_within_def by (metis option.distinct(1) option.exhaust)

lemma cache_hit_ok:
  assumes "node_ok sum256 s" and "cache_hit env lid key s = (r, s')"
  shows "node_ok sum256 s'" and "nx_store s' = nx_store s" and "nx_world s' = nx_world s"
    and "cache_within None s s'"
    and "r = Inr res \<Longrightarrow> artifacts (nx_store s') (nr_hash res) = Some (nr_content res)"
    and "r = Inr res \<Longrightarrow> map fst (nx_events s') =
      map fst (nx_events s) @ [CacheHit, ArtifactCreated, WorkerFinished]"
    and "r = Inl p \<Longrightarrow> nx_events s' = nx_events s"
proof -
  have rd: "readable c" and tmp: "entries c q = Some e \<Longrightarrow> \<not> is_tmp (ce_hash e)"
    if "nx_cache s = Some c" for c q e
    using assms(1) that by (auto simp: node_ok_def)
  have ok: "node_ok sum256 (s\<lparr>nx_cache := Some c'\<rparr>)" and within: "cache_within None s (s\<lparr>nx_cache := Some c'\<rparr>)"
    if c: "nx_cache s = Some c" and g: "cache_get (ne_read env) key c = (g, c')" for c c' g
  proof -
    note kp = cache_get_keeps [OF rd [OF c] g]
    show "node_ok sum256 (s\<lparr>nx_cache := Some c'\<rparr>)"
      using assms(1) kp(1,2) tmp [OF c] by (auto simp: node_ok_def)
    show "cache_within None s (s\<lparr>nx_cache := Some c'\<rparr>)"
      using c kp(2) by (auto simp: cache_within_def)
  qed
  from assms(2) show "node_ok sum256 s'"
    by (cases rule: cache_hit_cases) (use assms(1) ok in auto)
  from assms(2) show "cache_within None s s'"
    by (cases rule: cache_hit_cases) (use within in \<open>auto simp: cache_within_def\<close>)
  from assms(2) show "nx_store s' = nx_store s" "nx_world s' = nx_world s"
    "r = Inr res \<Longrightarrow> map fst (nx_events s') =
      map fst (nx_events s) @ [CacheHit, ArtifactCreated, WorkerFinished]"
    "r = Inl p \<Longrightarrow> nx_events s' = nx_events s"
    by (cases rule: cache_hit_cases; simp)+
  show "artifacts (nx_store s') (nr_hash res) = Some (nr_content res)" if "r = Inr res"
    using assms(2)
  proof (cases rule: cache_hit_cases)
    case (hit c c' entry content)
    then have "\<not> is_tmp (ce_hash entry)"
      using tmp [OF hit(1)] cache_get_keeps(3) [OF rd [OF hit(1)] hit(2)] by blast
    from get_artifact_Inr [OF hit(3) this] hit(4,5) that show ?thesis by simp
  qed (use that in simp_all)
qed

lemma cache_lookup_ok:
  assumes "node_ok sum256 s" and "cache_lookup env lid key s = (r, s')"
  shows "node_ok sum256 s'" and "nx_store s' = nx_store s" and "nx_world s' = nx_world s"
    and "cache_within None s s'"
    and "r = Some res \<Longrightarrow> artifacts (nx_store s') (nr_hash res) = Some (nr_content res)"
    and "r = Some res \<Longrightarrow> map fst (nx_events s') =
      map fst (nx_events s) @ [CacheHit, ArtifactCreated, WorkerFinished]"
    and "r = None \<Longrightarrow> map fst (nx_events s') = map fst (nx_events s) @ (if key = [] then [] else [CacheMiss])"
proof -
  obtain q s1 where q: "(if ne_mode env = CacheOn \<or> ne_mode env = CacheReadOnly then cache_hit env lid key s
      else (Inl None, s)) = (q, s1)" by fastforce
  have key: "key = [] \<Longrightarrow> r = None \<and> s' = s"
    using assms(2) by (simp add: cache_lookup_def)
  have res: "key \<noteq> [] \<Longrightarrow> (case q of Inr x \<Rightarrow> r = Some x \<and> s' = s1
      | Inl p \<Rightarrow> r = None \<and> (\<exists>p. s' = node_emit CacheMiss p s1))"
    using assms(2) q by (auto simp: cache_lookup_def Let_def split: sum.splits option.splits)
  have hit: "node_ok sum256 s1 \<and> nx_store s1 = nx_store s \<and> nx_world s1 = nx_world s \<and> cache_within None s s1 \<and>
    (\<forall>x. q = Inr x \<longrightarrow> artifacts (nx_store s1) (nr_hash x) = Some (nr_content x) \<and>
       map fst (nx_events s1) = map fst (nx_events s) @ [CacheHit, ArtifactCreated, WorkerFinished]) \<and>
    (\<forall>p. q = Inl p \<longrightarrow> nx_events s1 = nx_events s)"
  proof (cases "ne_mode env = CacheOn \<or> ne_mode env = CacheReadOnly")
    case True
    with q have "cache_hit env lid key s = (q, s1)" by simp
    from cache_hit_ok [OF assms(1) this] show ?thesis by blast
  next
    case False
    with q assms(1) show ?thesis by (auto simp: cache_within_same)
  qed
  have emit: "cache_within None s (node_emit CacheMiss p s1) = cache_within None s s1" for p
    by (simp add: cache_within_def)
  show "node_ok sum256 s'" "nx_store s' = nx_store s" "nx_world s' = nx_world s" "cache_within None s s'"
    "r = Some res \<Longrightarrow> artifacts (nx_store s') (nr_hash res) = Some (nr_content res)"
    "r = Some res \<Longrightarrow> map fst (nx_events s') =
      map fst (nx_events s) @ [CacheHit, ArtifactCreated, WorkerFinished]"
    "r = None \<Longrightarrow> map fst (nx_events s') = map fst (nx_events s) @ (if key = [] then [] else [CacheMiss])"
    using key res hit assms(1) emit
    by (cases "key = []"; cases q; auto simp: cache_within_same)+
qed

lemma node_record_ok:
  assumes "node_ok sum256 s" and "\<not> is_tmp (nr_hash res)"
  shows "node_ok sum256 (node_record env key res s)"
    and "cache_within (Some \<lparr>ce_key = key, ce_hash = nr_hash res, ce_type = nr_type res, ce_cost = nr_cost res,
      ce_tokens = nr_tokens res, ce_created = ne_created env\<rparr>) s (node_record env key res s)"
proof -
  let ?x = "\<lparr>ce_key = key, ce_hash = nr_hash res, ce_type = nr_type res, ce_cost = nr_cost res,
      ce_tokens = nr_tokens res, ce_created = ne_created env\<rparr>"
  show "node_ok sum256 (node_record env key res s)" "cache_within (Some ?x) s (node_record env key res s)"
  proof (atomize (full), cases "nx_cache s")
    case (Some c)
    obtain r c' where p: "cache_put (ne_cache_write env) ?x c = (r, c')" by fastforce
    have rd: "readable c" and tmp: "\<And>q e. entries c q = Some e \<Longrightarrow> \<not> is_tmp (ce_hash e)"
      using assms(1) Some by (auto simp: node_ok_def)
    note kp = cache_put_keeps [OF rd p]
    have new: "\<not> is_tmp (ce_hash e)" if "entries c' q = Some e" for q e
      using kp(2) [OF that] tmp assms(2) by auto
    have "node_ok sum256 (node_record env key res s)"
      using Some p kp(1) assms(1) new by (auto simp: node_record_def node_ok_def)
    moreover have "cache_within (Some ?x) s (node_record env key res s)"
      using Some p by (auto simp: node_record_def cache_within_def dest!: kp(2))
    ultimately show "node_ok sum256 (node_record env key res s) \<and> cache_within (Some ?x) s (node_record env key res s)"
      by simp
  qed (use assms in \<open>simp add: node_record_def cache_within_same\<close>)
qed

lemma node_finished_events:
  "map fst (nx_events (node_finished h res s)) =
     map fst (nx_events s) @ (if nr_validated res then [ContractValidated] else []) @
     [ArtifactCreated, WorkerFinished]"
  by (simp add: node_finished_def Let_def)

lemma node_commit_cases:
  assumes "node_commit env lid key s = (s', r)"
  obtains (failed) e st where "put (ne_sum256 env) (fst (ne_write env)) (fst (snd (ne_write env)))
      (snd (snd (ne_write env))) (nr_content (nx_result s)) (nx_store s) = (Inl e, st)"
      "r = Inl (store_error lid e)"
      "s' = node_emit Failure (error_payload (store_error lid e) lid) (s\<lparr>nx_store := st\<rparr>)"
  | (stored) h st where "put (ne_sum256 env) (fst (ne_write env)) (fst (snd (ne_write env)))
      (snd (snd (ne_write env))) (nr_content (nx_result s)) (nx_store s) = (Inr h, st)"
      "r = Inr (nx_result s\<lparr>nr_hash := h\<rparr>)"
      "s' = node_record env key (nx_result s\<lparr>nr_hash := h\<rparr>)
        (node_finished h (nx_result s\<lparr>nr_hash := h\<rparr>) (s\<lparr>nx_store := st\<rparr>))"
proof -
  let ?put = "put (ne_sum256 env) (fst (ne_write env)) (fst (snd (ne_write env)))
      (snd (snd (ne_write env))) (nr_content (nx_result s)) (nx_store s)"
  obtain q st where q: "?put = (q, st)" by fastforce
  show thesis
  proof (cases q)
    case (Inl e)
    with assms q have "r = Inl (store_error lid e)"
      "s' = node_emit Failure (error_payload (store_error lid e) lid) (s\<lparr>nx_store := st\<rparr>)"
      by (simp_all add: node_commit_def Let_def)
    then show thesis by (rule failed [OF q [unfolded Inl]])
  next
    case (Inr h)
    with assms q have "r = Inr (nx_result s\<lparr>nr_hash := h\<rparr>)"
      "s' = node_record env key (nx_result s\<lparr>nr_hash := h\<rparr>)
        (node_finished h (nx_result s\<lparr>nr_hash := h\<rparr>) (s\<lparr>nx_store := st\<rparr>))"
      by (simp_all add: node_commit_def Let_def)
    then show thesis by (rule stored [OF q [unfolded Inr]])
  qed
qed

definition node_key :: "'w node_env \<Rightarrow> node_request \<Rightarrow> 'w node_run \<Rightarrow> string" where
  "node_key env req s =
     cache_key_for env (nx_cache s \<noteq> None) (rq_node req) (rq_inputs req) (rq_wf_inputs req)"

lemma execute_node_cases:
  assumes "execute_node env req lid s = Some (s', r)"
  obtains (hit) res where
    "cache_lookup env lid (node_key env req s) (node_emit WorkerStarted [] s) = (Some res, s')" "r = Inr res"
  | (failed) s1 s2 e where
    "cache_lookup env lid (node_key env req s) (node_emit WorkerStarted [] s) = (None, s1)"
    "with_retry (node_retry env req lid) 0 0 (s1\<lparr>nx_feedback := [], nx_result := zero_result\<rparr>) = Some (s2, Some e)"
    "s' = node_failed lid e s2" "r = Inl e"
  | (ran) s1 s2 where
    "cache_lookup env lid (node_key env req s) (node_emit WorkerStarted [] s) = (None, s1)"
    "with_retry (node_retry env req lid) 0 0 (s1\<lparr>nx_feedback := [], nx_result := zero_result\<rparr>) = Some (s2, None)"
    "node_commit env lid (node_key env req s) s2 = (s', r)"
proof -
  obtain q s1 where q:
    "cache_lookup env lid (node_key env req s) (node_emit WorkerStarted [] s) = (q, s1)" by fastforce
  show thesis
  proof (cases q)
    case (Some res)
    with assms q have "q = Some res" "s' = s1" "r = Inr res"
      by (simp_all add: execute_node_def node_key_def Let_def)
    with q show thesis by (intro hit [of res]) simp_all
  next
    case None
    obtain res where w: "with_retry (node_retry env req lid) 0 0 (s1\<lparr>nx_feedback := [], nx_result := zero_result\<rparr>) = Some res"
      using assms q None by (auto simp: execute_node_def node_key_def Let_def split: option.splits)
    obtain s2 x where res: "res = (s2, x)" by fastforce
    show thesis
    proof (cases x)
      case x: None
      with assms q None w res have "node_commit env lid (node_key env req s) s2 = (s', r)"
        by (simp add: execute_node_def node_key_def Let_def)
      with q None w res x show thesis by (intro ran [of s1 s2]) simp_all
    next
      case (Some e)
      with assms q None w res have "s' = node_failed lid e s2" "r = Inl e"
        by (simp_all add: execute_node_def node_key_def Let_def)
      with q None w res Some show thesis by (intro failed [of s1 s2 e]) simp_all
    qed
  qed
qed

text \<open>The state the commit or the failure starts in, when the cache did not answer.\<close>

lemma attempts_from:
  assumes "node_ok sum256 s"
    and "cache_lookup env lid (node_key env req s) (node_emit WorkerStarted [] s) = (None, s1)"
    and "with_retry (node_retry env req lid) 0 0 (s1\<lparr>nx_feedback := [], nx_result := zero_result\<rparr>) = Some (s2, x)"
  shows "node_ok sum256 s2" and "nx_store s2 = nx_store s" and "cache_within None s s2"
    and "\<exists>tys. map fst (nx_events s2) = map fst (nx_events s) @ WorkerStarted #
      (if node_key env req s = [] then [] else [CacheMiss]) @ tys \<and> list_all (attempt_events env) tys"
proof -
  have "node_ok sum256 (node_emit WorkerStarted [] s)" using assms(1) by simp
  note lk = cache_lookup_ok [OF this assms(2)]
  from attempts_frame [OF assms(3)] obtain tys where at: "nx_store s2 = nx_store s1" "nx_cache s2 = nx_cache s1"
    "map fst (nx_events s2) = map fst (nx_events s1) @ tys" "list_all (attempt_events env) tys"
    by (auto simp: attempts_ok_def)
  show "nx_store s2 = nx_store s" using at(1) lk(2) by simp
  show "node_ok sum256 s2" using lk(1) at(1,2) node_ok_cong [of s2 s1] by blast
  show "cache_within None s s2" using lk(4) at(2) by (simp add: cache_within_def)
  show "\<exists>tys. map fst (nx_events s2) = map fst (nx_events s) @ WorkerStarted #
      (if node_key env req s = [] then [] else [CacheMiss]) @ tys \<and> list_all (attempt_events env) tys"
    using lk(7) at(3,4) by (intro exI [of _ tys]) simp
qed

section \<open>The last two events of a success\<close>

text \<open>The end of a successful run in the log, from which a resumed or audited run is rebuilt.\<close>

definition success_ends :: "node_result \<Rightarrow> tool_event list \<Rightarrow> bool" where
  "success_ends res evs \<longleftrightarrow> (\<exists>before more. evs = before @
     [(ArtifactCreated, [(''hash'', PVal (JStr (nr_hash res))), (''type'', PVal (JStr (nr_type res)))]),
      (WorkerFinished, [(''costUsd'', PVal (JNum (nr_cost res))), (''tokens'', PVal (jint (nr_tokens res)))] @ more)])"

lemma success_ends_hit:
  assumes "cache_hit env lid key s = (Inr res, s')"
  shows "success_ends res (nx_events s')"
  using assms
proof (cases rule: cache_hit_cases)
  case (hit c c' entry content)
  then show ?thesis
    by (auto simp: success_ends_def hit_events_def Let_def zero_result_def jint_def)
qed simp_all

lemma success_ends_finished: "success_ends (res\<lparr>nr_hash := h\<rparr>) (nx_events (node_finished h (res\<lparr>nr_hash := h\<rparr>) s))"
  by (auto simp: success_ends_def node_finished_def Let_def)

lemma execute_node_ends:
  assumes "execute_node env req lid s = Some (s', Inr res)"
  shows "success_ends res (nx_events s')"
  using assms
proof (cases rule: execute_node_cases)
  case (hit x)
  then have "cache_hit env lid (node_key env req s) (node_emit WorkerStarted [] s) = (Inr res, s')"
    by (auto simp: cache_lookup_def Let_def split: prod.splits sum.splits option.splits if_splits)
  then show ?thesis by (rule success_ends_hit)
next
  case (ran s1 s2)
  from ran(3) show ?thesis
  proof (cases rule: node_commit_cases)
    case (stored h st)
    then show ?thesis
      using success_ends_finished [where h = h and res = "nx_result s2" and s = "s2\<lparr>nx_store := st\<rparr>"] by simp
  qed simp
qed simp

section \<open>A sample node\<close>

text \<open>An executor that counts its calls in the world and fails on the node \<open>bad\<close>.\<close>

definition sample_node_env :: "nat node_env" where
  "sample_node_env =
     \<lparr>ne_execute = (\<lambda>req w. ([], if node_id (rq_node req) = ''bad'' then Inl (EMsg ''boom'')
        else Inr (zero_result\<lparr>nr_content := ''abc'', nr_cost := 1 / 50, nr_tokens := 9\<rparr>), Suc w)),
      ne_keyer = Some (\<lambda>n inputs vals. Some (node_id n)), ne_sum256 = (\<lambda>b. b), ne_max_retries = 2,
      ne_backoff = (\<lambda>n. n), ne_sleep = (\<lambda>d w. (w, True)), ne_ctx_err = (\<lambda>w. None), ne_mode = CacheOn,
      ne_read = no_faults, ne_write = (no_faults, ''1'', 7), ne_cache_write = no_faults, ne_created = ''now''\<rparr>"

definition sample_node_request :: "string \<Rightarrow> node_request" where
  "sample_node_request i =
     \<lparr>rq_node = \<lparr>node_id = i, node_worker = ''w'', node_tool = None, node_policy = None, node_on_failure = None\<rparr>,
      rq_inputs = [], rq_feedback = [], rq_wf_inputs = Map.empty, rq_connections = Map.empty,
      rq_exec = ''e'', rq_approvals = Map.empty, rq_allow_mutations = False\<rparr>"

definition sample_node_start :: "nat node_run" where
  "sample_node_start = \<lparr>nx_events = [], nx_store = sample_store, nx_cache = Some (new_cache DiskNone),
     nx_feedback = [], nx_result = zero_result, nx_world = 0\<rparr>"

lemma sample_node_ok: "node_ok (\<lambda>b. b) sample_node_start"
  by (simp add: node_ok_def sample_node_start_def integrity_def sample_store_def new_store_def
      artifacts_def lookup_file_def new_cache_def readable_def entries_def)

lemma sample_node_put: "\<exists>st. put (\<lambda>b. b) no_faults ''1'' 7 ''abc'' sample_store = (Inr ''616263'', st)"
proof -
  have "fst (put_reader (\<lambda>b. b) no_faults ''1'' 7 [(''abc'', ReadMore), ([], ReadEOF)] sample_store) = Inr ''616263''"
    by code_simp
  then show ?thesis
    by (cases "put_reader (\<lambda>b. b) no_faults ''1'' 7 [(''abc'', ReadMore), ([], ReadEOF)] sample_store")
      (simp add: put_def bytes_reader_short read_buf_def)
qed

lemma sample_node_miss:
  "cache_lookup sample_node_env i [c] (node_emit WorkerStarted [] sample_node_start) =
     (None, node_emit CacheMiss [(''key'', JStr [c])] (node_emit WorkerStarted [] sample_node_start\<lparr>nx_cache :=
        Some \<lparr>ca_loaded = True, ca_index = [], ca_disk = DiskNone\<rparr>\<rparr>))"
  by (simp add: cache_lookup_def cache_hit_def sample_node_env_def sample_node_start_def cache_get_def
      ensure_loaded_def new_cache_def no_faults_def node_emit_def)

lemma sample_node_key: "cache_key_for sample_node_env True (rq_node (sample_node_request i)) ins vals = i"
  by (simp add: cache_key_for_def sample_node_env_def sample_node_request_def)

lemma sample_node_retry:
  "with_retry (node_retry sample_node_env (sample_node_request ''n'') lid) 0 0 s =
     Some (s\<lparr>nx_world := Suc (nx_world s),
       nx_result := zero_result\<lparr>nr_content := ''abc'', nr_cost := 1 / 50, nr_tokens := 9\<rparr>\<rparr>, None)"
  by (subst with_retry.simps)
    (simp add: node_retry_def node_attempt_def sample_node_env_def sample_node_request_def)

lemma sample_node_fails:
  "with_retry (node_retry sample_node_env (sample_node_request ''bad'') lid) 0 0 s =
     Some (s\<lparr>nx_world := Suc (nx_world s)\<rparr>, Some (EMsg ''boom''))"
  by (subst with_retry.simps)
    (simp add: node_retry_def node_attempt_def retry_decide_def sample_node_env_def sample_node_request_def)

definition sample_node_result :: node_result where
  "sample_node_result =
     zero_result\<lparr>nr_content := ''abc'', nr_cost := 1 / 50, nr_tokens := 9, nr_hash := ''616263''\<rparr>"

lemma sample_node_run:
  obtains s' c1 where "execute_node sample_node_env (sample_node_request ''n'') ''n'' sample_node_start =
      Some (s', Inr sample_node_result)" "nx_world s' = 1" "nx_cache s' = Some c1"
proof -
  obtain st where st: "put (\<lambda>b. b) no_faults ''1'' 7 ''abc'' sample_store = (Inr ''616263'', st)"
    using sample_node_put by blast
  have start: "nx_cache sample_node_start = Some (new_cache DiskNone)" "nx_store sample_node_start = sample_store"
    "nx_world sample_node_start = 0"
    by (simp_all add: sample_node_start_def)
  have env: "ne_sum256 sample_node_env = (\<lambda>b. b)" "ne_write sample_node_env = (no_faults, ''1'', 7)"
    by (simp_all add: sample_node_env_def)
  let ?s1 = "node_emit CacheMiss [(''key'', JStr ''n'')] (node_emit WorkerStarted [] sample_node_start\<lparr>nx_cache :=
      Some \<lparr>ca_loaded = True, ca_index = [], ca_disk = DiskNone\<rparr>\<rparr>)"
  let ?s2 = "?s1\<lparr>nx_feedback := [], nx_world := 1,
      nx_result := zero_result\<lparr>nr_content := ''abc'', nr_cost := 1 / 50, nr_tokens := 9\<rparr>\<rparr>"
  have "execute_node sample_node_env (sample_node_request ''n'') ''n'' sample_node_start =
      Some (node_commit sample_node_env ''n'' ''n'' ?s2)"
    using start by (simp add: execute_node_def sample_node_key sample_node_miss sample_node_retry Let_def)
  moreover have "snd (node_commit sample_node_env ''n'' ''n'' ?s2) = Inr sample_node_result"
    "nx_world (fst (node_commit sample_node_env ''n'' ''n'' ?s2)) = 1"
    "nx_cache (fst (node_commit sample_node_env ''n'' ''n'' ?s2)) \<noteq> None"
    using st start env
    by (simp_all add: node_commit_def node_record_def sample_node_result_def Let_def)
  ultimately show thesis
    using that by (metis not_None_eq prod.collapse)
qed

section \<open>A node's output is stored\<close>

lemma execute_node_ok:
  assumes "node_ok (ne_sum256 env) s" and "execute_node env req lid s = Some (s', r)"
  shows "node_ok (ne_sum256 env) s'"
    and "r = Inr res \<Longrightarrow> \<exists>us. map fst (nx_events s') = us @ [WorkerFinished]"
    and "r = Inr res \<Longrightarrow>
      (\<And>b. hash_bytes (ne_sum256 env) b = hash_bytes (ne_sum256 env) (nr_content res) \<Longrightarrow> b = nr_content res) \<Longrightarrow>
      artifacts (nx_store s') (nr_hash res) = Some (nr_content res)"
proof -
  let ?sum = "ne_sum256 env"
  let ?coll = "\<lambda>res. \<forall>b. hash_bytes ?sum b = hash_bytes ?sum (nr_content res) \<longrightarrow> b = nr_content res"
  let ?goal = "node_ok ?sum s' \<and> (\<forall>res. r = Inr res \<longrightarrow>
      (\<exists>us. map fst (nx_events s') = us @ [WorkerFinished]) \<and>
      (?coll res \<longrightarrow> artifacts (nx_store s') (nr_hash res) = Some (nr_content res)))"
  from assms(2) have ?goal
  proof (cases rule: execute_node_cases)
    case (hit res)
    have "node_ok ?sum (node_emit WorkerStarted [] s)" using assms(1) by simp
    note lk = cache_lookup_ok [OF this hit(1)]
    from lk(1,5,6) hit(2) show ?goal by auto
  next
    case (failed s1 s2 e)
    from attempts_from(1) [OF assms(1) failed(1,2)] failed(3) have "node_ok ?sum s'"
      using node_ok_cong [of s' s2] by simp
    with failed(4) show ?goal by simp
  next
    case (ran s1 s2)
    have ok2: "node_ok ?sum s2" by (rule attempts_from(1) [OF assms(1) ran(1,2)])
    then have int2: "integrity ?sum (nx_store s2)" by (simp add: node_ok_def)
    from ran(3) show ?goal
    proof (cases rule: node_commit_cases)
      case (failed e st)
      from put_stores(1) [OF failed(1) int2] ok2 failed(3) have "node_ok ?sum s'"
        by (simp add: node_ok_def)
      with failed(2) show ?goal by simp
    next
      case (stored h st)
      note ps = put_stores [OF stored(1) int2]
      let ?s3 = "node_finished h (nx_result s2\<lparr>nr_hash := h\<rparr>) (s2\<lparr>nx_store := st\<rparr>)"
      have "node_ok ?sum ?s3" using ok2 ps(1) by (simp add: node_ok_def)
      then have "node_ok ?sum s'" unfolding stored(3)
        by (rule node_record_ok(1)) (use ps(3) in simp)
      moreover have "artifacts st h = Some (nr_content (nx_result s2))" if "?coll (nx_result s2)"
        by (rule ps(4) [OF refl]) (use that in simp)
      moreover have "\<exists>us. map fst (nx_events s') = us @ [WorkerFinished]"
        by (simp add: stored(3) node_finished_events)
      ultimately show ?goal using stored(2,3) by simp
    qed
  qed
  then show "node_ok ?sum s'" "r = Inr res \<Longrightarrow> \<exists>us. map fst (nx_events s') = us @ [WorkerFinished]"
    "r = Inr res \<Longrightarrow> (\<And>b. hash_bytes ?sum b = hash_bytes ?sum (nr_content res) \<Longrightarrow> b = nr_content res) \<Longrightarrow>
      artifacts (nx_store s') (nr_hash res) = Some (nr_content res)" by blast+
qed

text \<open>C22. A node's output can be read back: running a node keeps every artifact under its own
  hash, and if it succeeds, by an executor call or from the cache, its result's hash is the hash
  of its content, the store answers that hash with exactly that content, and its last event is
  \<open>WorkerFinished\<close>.\<close>

theorem node_output_stored:
  assumes "node_ok (ne_sum256 env) s" and "execute_node env req lid s = Some (s', r)"
    and "\<And>res b. r = Inr res \<Longrightarrow> hash_bytes (ne_sum256 env) b = hash_bytes (ne_sum256 env) (nr_content res) \<Longrightarrow>
      b = nr_content res"
  shows "node_ok (ne_sum256 env) s' \<and>
    (\<forall>res. r = Inr res \<longrightarrow> nr_hash res = hash_bytes (ne_sum256 env) (nr_content res) \<and>
       get_artifact no_faults (nr_hash res) (nx_store s') = Inr (nr_content res) \<and>
       fst (last (nx_events s')) = WorkerFinished)"
proof -
  note ok = execute_node_ok [OF assms(1,2)]
  have res: "nr_hash res = hash_bytes (ne_sum256 env) (nr_content res) \<and>
       get_artifact no_faults (nr_hash res) (nx_store s') = Inr (nr_content res) \<and>
       fst (last (nx_events s')) = WorkerFinished" if r: "r = Inr res" for res
  proof -
    have a: "artifacts (nx_store s') (nr_hash res) = Some (nr_content res)"
      using ok(3) [OF r] assms(3) [OF r] by blast
    from ok(2) [OF r] obtain us where us: "map fst (nx_events s') = us @ [WorkerFinished]" ..
    then have "nx_events s' \<noteq> []" by auto
    with us have "fst (last (nx_events s')) = WorkerFinished"
      by (metis last_map last_snoc)
    moreover have "nr_hash res = hash_bytes (ne_sum256 env) (nr_content res)"
      using ok(1) integrityD [OF _ a] by (simp add: node_ok_def)
    ultimately show ?thesis
      using get_artifact_stored [OF a] by (simp add: reads_ok_def no_faults_def)
  qed
  with ok(1) show ?thesis by blast
qed

theorem node_output_stored_witness:
  "\<exists>s' res. execute_node sample_node_env (sample_node_request ''n'') ''n'' sample_node_start = Some (s', Inr res) \<and>
     nr_content res = ''abc'' \<and> get_artifact no_faults ''616263'' (nx_store s') = Inr ''abc'' \<and>
     fst (last (nx_events s')) = WorkerFinished"
proof -
  obtain s' c1 where run: "execute_node sample_node_env (sample_node_request ''n'') ''n'' sample_node_start =
      Some (s', Inr sample_node_result)"
    by (rule sample_node_run)
  have sum: "ne_sum256 sample_node_env = (\<lambda>b. b)" by (simp add: sample_node_env_def)
  have "nr_content sample_node_result = ''abc''" "nr_hash sample_node_result = ''616263''"
    by (simp_all add: sample_node_result_def)
  moreover from node_output_stored [OF sample_node_ok [folded sum] run] sum
  have "get_artifact no_faults (nr_hash sample_node_result) (nx_store s') = Inr (nr_content sample_node_result)"
    "fst (last (nx_events s')) = WorkerFinished"
    by (fastforce simp: hash_bytes_def)+
  ultimately show ?thesis using run by auto
qed

section \<open>Failures\<close>

text \<open>A failed node leaves a trace in the log and nowhere else: no artifact becomes readable
  or is lost, no cache entry is recorded, and unless the node waits for an approval its last
  event is a \<open>Failure\<close> carrying the error that is returned.\<close>

theorem node_failure_recorded:
  assumes "node_ok (ne_sum256 env) s" and "execute_node env req lid s = Some (s', Inl e)"
  shows "artifacts (nx_store s') = artifacts (nx_store s) \<and> cache_within None s s' \<and>
    (is_err ErrApprovalRequired e \<or>
       (\<exists>evs. nx_events s' = evs @ [(Failure, map (\<lambda>(k, v). (k, PVal v)) (error_payload e lid))]))"
  using assms(2)
proof (cases rule: execute_node_cases)
  case (failed s1 s2 x)
  note at = attempts_from(2,3) [OF assms(1) failed(1,2)]
  have "cache_within None s (node_failed lid x s2)" using at(2) by (simp add: cache_within_def)
  with at(1) failed(3,4) show ?thesis by (simp add: node_failed_def)
next
  case (ran s1 s2)
  note at = attempts_from [OF assms(1) ran(1,2)]
  have "integrity (ne_sum256 env) (nx_store s2)" using at(1) by (simp add: node_ok_def)
  from ran(3) show ?thesis
  proof (cases rule: node_commit_cases)
    case (failed x st)
    from put_stores(2) [OF failed(1) \<open>integrity _ _\<close> refl] at(2)
    have "artifacts st = artifacts (nx_store s)" by simp
    moreover have "cache_within None s s'" using at(3) failed(3) by (simp add: cache_within_def)
    ultimately show ?thesis using failed(2,3) by simp
  qed simp
qed simp

theorem node_failure_recorded_witness:
  "\<exists>s'. execute_node sample_node_env (sample_node_request ''bad'') ''bad'' sample_node_start =
      Some (s', Inl (EMsg ''boom'')) \<and> artifacts (nx_store s') = artifacts sample_store \<and>
    fst (last (nx_events s')) = Failure"
proof -
  have sum: "ne_sum256 sample_node_env = (\<lambda>b. b)" by (simp add: sample_node_env_def)
  have start: "nx_cache sample_node_start \<noteq> None" "nx_store sample_node_start = sample_store"
    by (simp_all add: sample_node_start_def)
  obtain q s1 where lk: "cache_lookup sample_node_env ''bad'' ''bad'' (node_emit WorkerStarted [] sample_node_start) = (q, s1)"
    by fastforce
  have "q = None"
    using lk by (simp add: cache_lookup_def cache_hit_def sample_node_env_def sample_node_start_def cache_get_def
      ensure_loaded_def new_cache_def no_faults_def node_emit_def)
  with lk start obtain s' where run: "execute_node sample_node_env (sample_node_request ''bad'') ''bad'' sample_node_start =
      Some (s', Inl (EMsg ''boom''))"
    by (simp add: execute_node_def sample_node_key sample_node_fails Let_def)
  from node_failure_recorded [OF sample_node_ok [folded sum] run] start(2) run show ?thesis by auto
qed

section \<open>A recorded node is not run again\<close>

lemma success_recorded:
  assumes ok: "node_ok (ne_sum256 env) s" and run: "execute_node env req lid s = Some (s1, Inr res)"
    and mode: "ne_mode env = CacheOn" and key: "node_key env req s = k" "k \<noteq> []"
    and c1: "nx_cache s1 = Some c1" and reads: "reads_ok (ne_read env)" "reads_ok (ne_cache_write env)"
    and coll: "\<And>b. hash_bytes (ne_sum256 env) b = hash_bytes (ne_sum256 env) (nr_content res) \<Longrightarrow>
      b = nr_content res"
  shows "\<exists>entry. entries c1 k = Some entry \<and> ce_hash entry = nr_hash res \<and> ce_type entry = nr_type res"
    and "artifacts (nx_store s1) (nr_hash res) = Some (nr_content res)"
    and "integrity (ne_sum256 env) (nx_store s1)"
proof -
  let ?goal = "(\<exists>entry. entries c1 k = Some entry \<and> ce_hash entry = nr_hash res \<and> ce_type entry = nr_type res) \<and>
    artifacts (nx_store s1) (nr_hash res) = Some (nr_content res) \<and> integrity (ne_sum256 env) (nx_store s1)"
  from run have ?goal
  proof (cases rule: execute_node_cases)
    case (hit r)
    have w: "node_ok (ne_sum256 env) (node_emit WorkerStarted [] s)" using ok by simp
    note lk = cache_lookup_ok [OF w hit(1)]
    have "cache_hit env lid k (node_emit WorkerStarted [] s) = (Inr res, s1)"
      using hit mode key by (auto simp: cache_lookup_def Let_def split: prod.splits sum.splits option.splits)
    then obtain entry where "entries c1 k = Some entry" "ce_hash entry = nr_hash res" "ce_type entry = nr_type res"
    proof (cases rule: cache_hit_cases)
      case (hit c c' entry content)
      have "readable c" using ok hit(1) by (simp add: node_ok_def)
      then obtain c2 where "cache_get (ne_read env) k c = (entries c k, c2)" "entries c2 = entries c"
        by (rule cache_get_ok [OF _ reads(1), of c k])
      with hit(2) have "entries c k = Some entry" "entries c' = entries c" by simp_all
      moreover have "c1 = c'" using hit(5) c1 by simp
      ultimately show thesis using hit(4) by (intro that [of entry]) simp_all
    qed simp_all
    with lk(1,5) hit(2) show ?goal by (auto simp: node_ok_def)
  next
    case (ran t1 s2)
    have ok2: "node_ok (ne_sum256 env) s2" by (rule attempts_from(1) [OF ok ran(1,2)])
    then have int2: "integrity (ne_sum256 env) (nx_store s2)" by (simp add: node_ok_def)
    from ran(3) show ?goal
    proof (cases rule: node_commit_cases)
      case (stored h st)
      note ps = put_stores [OF stored(1) int2]
      have res: "res = nx_result s2\<lparr>nr_hash := h\<rparr>" using stored(2) by simp
      have "artifacts st h = Some (nr_content (nx_result s2))"
        by (rule ps(4) [OF refl]) (use coll res in simp)
      let ?x = "\<lparr>ce_key = k, ce_hash = nr_hash res, ce_type = nr_type res, ce_cost = nr_cost res,
        ce_tokens = nr_tokens res, ce_created = ne_created env\<rparr>"
      obtain c where c: "nx_cache s2 = Some c"
        using stored(3) c1 by (cases "nx_cache s2") (auto simp: node_record_def)
      obtain r c' where p: "cache_put (ne_cache_write env) ?x c = (r, c')" by fastforce
      have "readable c" using ok2 c by (simp add: node_ok_def)
      from entries_put(1) [OF this reads(2) p] have "entries c' k = Some ?x" by simp
      moreover have "c1 = c'"
        using stored(3) c c1 p key mode res by (simp add: node_record_def)
      ultimately show ?goal using \<open>artifacts st h = _\<close> ps(1) res stored(3) by simp
    qed simp
  qed simp
  then show "\<exists>entry. entries c1 k = Some entry \<and> ce_hash entry = nr_hash res \<and> ce_type entry = nr_type res"
    "artifacts (nx_store s1) (nr_hash res) = Some (nr_content res)"
    "integrity (ne_sum256 env) (nx_store s1)" by blast+
qed

text \<open>A cached node is not run again: after a run that succeeded under a cache key in mode
  \<open>on\<close>, any later run of a node with that key whose index still holds the entry, over the store
  after any further puts, returns the same content under the same hash and type at no cost,
  calls no executor (the world is unchanged) and logs exactly a hit.\<close>

theorem cached_node_not_rerun:
  assumes ok: "node_ok (ne_sum256 env) s" and run: "execute_node env req lid s = Some (s1, Inr res)"
    and mode: "ne_mode env = CacheOn" and key: "node_key env req s = k" "k \<noteq> []"
    and c1: "nx_cache s1 = Some c1" and reads: "reads_ok (ne_read env)" "reads_ok (ne_cache_write env)"
    and coll: "\<And>b. hash_bytes (ne_sum256 env) b = hash_bytes (ne_sum256 env) (nr_content res) \<Longrightarrow>
      b = nr_content res"
    and later: "nx_store s2 = art_puts (ne_sum256 env) ps (nx_store s1)"
    and c2: "nx_cache s2 = Some c2" "readable c2" "entries c2 k = entries c1 k"
    and mode2: "ne_mode env2 = CacheOn \<or> ne_mode env2 = CacheReadOnly" and reads2: "reads_ok (ne_read env2)"
    and key2: "node_key env2 req2 s2 = k"
  shows "\<exists>s3. execute_node env2 req2 lid2 s2 =
      Some (s3, Inr (zero_result\<lparr>nr_content := nr_content res, nr_type := nr_type res, nr_hash := nr_hash res\<rparr>)) \<and>
    nx_world s3 = nx_world s2 \<and> nx_store s3 = nx_store s2 \<and>
    map fst (nx_events s3) = map fst (nx_events s2) @ [WorkerStarted, CacheHit, ArtifactCreated, WorkerFinished]"
proof -
  let ?sum = "ne_sum256 env"
  note rec = success_recorded [OF ok run mode key c1 reads coll]
  obtain entry where e: "entries c1 k = Some entry" "ce_hash entry = nr_hash res" "ce_type entry = nr_type res"
    using rec(1) by blast
  note a = rec(2,3)
  have a2: "artifacts (nx_store s2) (nr_hash res) = Some (nr_content res)"
    using artifact_store.puts_keep [of ?sum "nx_store s1" "nr_hash res" "nr_content res" ps] a later
    by (simp add: art_get_def art_puts_eq)
  obtain c3 where g: "cache_get (ne_read env2) k c2 = (Some entry, c3)"
    using cache_get_ok [OF c2(2) reads2, of k] c2(3) e(1) by metis
  have "cache_hit env2 lid2 k (node_emit WorkerStarted [] s2) =
      (Inr (zero_result\<lparr>nr_content := nr_content res, nr_type := nr_type res, nr_hash := nr_hash res\<rparr>),
       hit_events k entry ((node_emit WorkerStarted [] s2)\<lparr>nx_cache := Some c3\<rparr>))"
    using c2(1) g e(2,3) get_artifact_stored [OF a2 reads2] by (simp add: cache_hit_def)
  then have "cache_lookup env2 lid2 k (node_emit WorkerStarted [] s2) =
      (Some (zero_result\<lparr>nr_content := nr_content res, nr_type := nr_type res, nr_hash := nr_hash res\<rparr>),
       hit_events k entry ((node_emit WorkerStarted [] s2)\<lparr>nx_cache := Some c3\<rparr>))"
    using key(2) mode2 by (simp add: cache_lookup_def)
  with key2 show ?thesis by (simp add: execute_node_def node_key_def Let_def)
qed

theorem cached_node_not_rerun_witness:
  "\<exists>s1 s3 res. execute_node sample_node_env (sample_node_request ''n'') ''n'' sample_node_start = Some (s1, Inr res) \<and>
     nr_cost res = 1 / 50 \<and> nx_world s1 = 1 \<and>
     execute_node sample_node_env (sample_node_request ''n'') ''n'' s1 =
       Some (s3, Inr (zero_result\<lparr>nr_content := ''abc'', nr_hash := ''616263''\<rparr>)) \<and> nx_world s3 = 1"
proof -
  obtain s1 c1 where run: "execute_node sample_node_env (sample_node_request ''n'') ''n'' sample_node_start =
      Some (s1, Inr sample_node_result)" "nx_world s1 = 1" "nx_cache s1 = Some c1"
    by (rule sample_node_run)
  have sum: "ne_sum256 sample_node_env = (\<lambda>b. b)" and env: "ne_mode sample_node_env = CacheOn"
    "reads_ok (ne_read sample_node_env)" "reads_ok (ne_cache_write sample_node_env)"
    by (simp_all add: sample_node_env_def reads_ok_def no_faults_def)
  have key: "node_key sample_node_env (sample_node_request ''n'') s = ''n''" if "nx_cache s \<noteq> None" for s
    using that by (simp add: node_key_def sample_node_key)
  have "node_ok (\<lambda>b. b) s1"
    using execute_node_ok(1) [OF sample_node_ok [folded sum] run(1)] sum by simp
  then have rd: "readable c1" using run(3) by (simp add: node_ok_def)
  have inj: "b = nr_content sample_node_result"
    if "hash_bytes (ne_sum256 sample_node_env) b = hash_bytes (ne_sum256 sample_node_env) (nr_content sample_node_result)" for b
    using that sum by (simp add: hash_bytes_def)
  have "nx_cache s1 \<noteq> None" "nx_cache sample_node_start \<noteq> None"
    using run(3) by (simp_all add: sample_node_start_def)
  note keys = key [OF this(1)] key [OF this(2)]
  have "\<exists>s3. execute_node sample_node_env (sample_node_request ''n'') ''n'' s1 =
      Some (s3, Inr (zero_result\<lparr>nr_content := nr_content sample_node_result,
        nr_type := nr_type sample_node_result, nr_hash := nr_hash sample_node_result\<rparr>)) \<and>
    nx_world s3 = nx_world s1 \<and> nx_store s3 = nx_store s1 \<and>
    map fst (nx_events s3) = map fst (nx_events s1) @ [WorkerStarted, CacheHit, ArtifactCreated, WorkerFinished]"
    by (rule cached_node_not_rerun [where ps = "[]", OF sample_node_ok [folded sum] run(1) env(1) keys(2) _ run(3)
        env(2,3) inj _ run(3) rd refl disjI1 [OF env(1)] env(2) keys(1)]) simp_all
  with run show ?thesis by (auto simp: sample_node_result_def zero_result_def)
qed

end
