(* ===== verification/NodeTrace.thy ===== *)
theory NodeTrace
  imports NodeExec
begin

text \<open>
  What one node writes to the event log and when its run returns: the events of
  \<open>execute_node\<close> over the executor the program uses (\<open>dispatch_execute\<close>) form a trace of a fixed
  shape, and the number of executor calls is bounded by the two retry budgets.
\<close>

section \<open>The executor's own events\<close>

definition executor_event :: "event_type \<Rightarrow> bool" where
  "executor_event ty \<longleftrightarrow> ty \<in> {ToolCalled, ToolResult, ApprovalRequested}"

lemma invoke_events: "list_all executor_event (map fst (fst (invoke validator t input ms w)))"
  by (simp add: invoke_def Let_def error_event_def executor_event_def split: option.splits sum.splits prod.splits)

lemma check_approval_events:
  "check_approval cfg req t input redacted = (evs, r) \<Longrightarrow> list_all executor_event (map fst evs)"
  by (auto simp: check_approval_def Let_def executor_event_def
      split: if_splits option.splits sum.splits approval_status.splits)

lemma run_tool_events: "list_all executor_event (map fst (fst (run_tool cfg req t input st w)))"
proof -
  obtain evs r where c: "check_approval cfg req t input (redact_bytes input (rs_secrets st)) = (evs, r)"
    by fastforce
  obtain called res w' where i: "invoke (tk_validator cfg) t input (tk_elapsed_ms cfg) w = (called, res, w')"
    by (metis prod.exhaust)
  have "list_all executor_event (map fst called)"
    using invoke_events [of "tk_validator cfg" t input "tk_elapsed_ms cfg" w] i by simp
  with check_approval_events [OF c] c i show ?thesis
    by (cases r; cases res) (auto simp: run_tool_def Let_def list_all_iff)
qed

lemma tool_execute_events: "list_all executor_event (map fst (fst (tool_execute cfg req w)))"
  by (simp add: run_tool_events tool_execute_def Let_def split: option.splits sum.splits prod.splits)

lemma dispatch_events: "list_all executor_event (map fst (fst (dispatch_execute wc tc req w)))"
  using tool_execute_events by (auto simp: dispatch_execute_def split: prod.splits)

lemma attempt_events_dispatch:
  assumes "ne_execute env = dispatch_execute wc tc" and "attempt_events env ty"
  shows "ty = Retry \<or> executor_event ty"
  using assms dispatch_events by (fastforce simp: attempt_events_def list_all_iff)

section \<open>The trace of a node\<close>

text \<open>How a run that was not served from the cache ends in the log.\<close>

definition node_ending :: "err + node_result \<Rightarrow> event_type list \<Rightarrow> bool" where
  "node_ending r tys = (case r of
     Inr res \<Rightarrow> tys = (if nr_validated res then [ContractValidated] else []) @ [ArtifactCreated, WorkerFinished]
   | Inl e \<Rightarrow> tys = [Failure] \<or> (is_err ErrApprovalRequired e \<and> tys = []) \<or>
       (is_contract_violation e \<and> tys = [ContractViolated, Failure]))"

definition node_trace :: "bool \<Rightarrow> err + node_result \<Rightarrow> event_type list \<Rightarrow> bool" where
  "node_trace cacheable r tys \<longleftrightarrow>
     (\<exists>res. r = Inr res \<and> cacheable \<and> tys = [WorkerStarted, CacheHit, ArtifactCreated, WorkerFinished]) \<or>
     (\<exists>mid fin. tys = WorkerStarted # (if cacheable then [CacheMiss] else []) @ mid @ fin \<and>
        list_all (\<lambda>ty. ty = Retry \<or> executor_event ty) mid \<and> node_ending r fin)"

lemma node_ending_worker_events: "node_ending r tys \<Longrightarrow> list_all worker_event tys"
  by (cases r) (auto simp: node_ending_def worker_event_def)

lemma attempt_worker_event: "ty = Retry \<or> executor_event ty \<Longrightarrow> worker_event ty"
  by (auto simp: worker_event_def executor_event_def)

lemma node_trace_worker_events:
  assumes "node_trace cacheable r tys"
  shows "list_all worker_event tys"
proof -
  have own: "worker_event WorkerStarted" "worker_event CacheHit" "worker_event CacheMiss"
    "worker_event ArtifactCreated" "worker_event WorkerFinished"
    by (simp_all add: worker_event_def)
  from assms show ?thesis unfolding node_trace_def
  proof (elim disjE exE conjE)
    fix mid fin
    assume tys: "tys = WorkerStarted # (if cacheable then [CacheMiss] else []) @ mid @ fin"
      and mid: "list_all (\<lambda>ty. ty = Retry \<or> executor_event ty) mid" and fin: "node_ending r fin"
    have "list_all worker_event mid"
      using mid by (rule list.pred_mono_strong) (rule attempt_worker_event)
    with tys own node_ending_worker_events [OF fin] show ?thesis by simp
  qed (simp add: own)
qed

text \<open>C23. The log of a node has one shape: it starts with \<open>WorkerStarted\<close>; a cache hit is followed
  by the recorded artifact and the end; a cacheable node that misses says so once; then come
  only tool calls, their results, approval requests and retries; the end tells the outcome,
  \<open>ArtifactCreated\<close> and \<open>WorkerFinished\<close> on success and \<open>Failure\<close> otherwise, which is missing only
  when the node waits for an approval. In particular it emits nothing that the scheduler
  reserves for itself.\<close>

theorem node_log_shape:
  assumes "ne_execute env = dispatch_execute wc tc" and "node_ok (ne_sum256 env) s"
    and "execute_node env req lid s = Some (s', r)"
  shows "\<exists>tys. map fst (nx_events s') = map fst (nx_events s) @ tys \<and>
    node_trace (node_key env req s \<noteq> []) r tys \<and> list_all worker_event tys"
proof -
  have fin: ?thesis if "map fst (nx_events s') = map fst (nx_events s) @ tys"
    "node_trace (node_key env req s \<noteq> []) r tys" for tys
    using that node_trace_worker_events by blast
  have attempts: "\<exists>mid. map fst (nx_events s2) = map fst (nx_events s) @ WorkerStarted #
      (if node_key env req s \<noteq> [] then [CacheMiss] else []) @ mid \<and>
      list_all (\<lambda>ty. ty = Retry \<or> executor_event ty) mid"
    if "cache_lookup env lid (node_key env req s) (node_emit WorkerStarted [] s) = (None, s1)"
      "with_retry (node_retry env req lid) 0 0 (s1\<lparr>nx_feedback := [], nx_result := zero_result\<rparr>) = Some (s2, x)"
    for s1 s2 x
    using attempts_from(4) [OF assms(2) that] attempt_events_dispatch [OF assms(1)]
    by (auto simp: list_all_iff)
  have whole: ?thesis
    if "map fst (nx_events s2) = map fst (nx_events s) @ WorkerStarted #
        (if node_key env req s \<noteq> [] then [CacheMiss] else []) @ mid"
      "list_all (\<lambda>ty. ty = Retry \<or> executor_event ty) mid"
      "map fst (nx_events s') = map fst (nx_events s2) @ ending" "node_ending r ending" for s2 mid ending
    by (rule fin [of "WorkerStarted # (if node_key env req s \<noteq> [] then [CacheMiss] else []) @ mid @ ending"])
      (use that in \<open>auto simp: node_trace_def\<close>)
  from assms(3) show ?thesis
  proof (cases rule: execute_node_cases)
    case (hit res)
    have ok: "node_ok (ne_sum256 env) (node_emit WorkerStarted [] s)" using assms(2) by simp
    have "node_key env req s \<noteq> []" using hit(1) by (auto simp: cache_lookup_def)
    with cache_lookup_ok(6) [OF ok hit(1) refl] hit(2) show ?thesis
      by (intro fin [of "[WorkerStarted, CacheHit, ArtifactCreated, WorkerFinished]"])
        (simp_all add: node_trace_def)
  next
    case (failed s1 s2 e)
    obtain ending where "map fst (nx_events s') = map fst (nx_events s2) @ ending" "node_ending r ending"
      by (rule that [of "if is_err ErrApprovalRequired e then []
            else (if is_contract_violation e then [ContractViolated] else []) @ [Failure]"])
        (simp_all add: failed(3,4) node_failed_def node_ending_def)
    with attempts [OF failed(1,2)] whole show ?thesis by blast
  next
    case (ran s1 s2)
    obtain ending where "map fst (nx_events s') = map fst (nx_events s2) @ ending" "node_ending r ending"
      using ran(3)
    proof (cases rule: node_commit_cases)
      case (failed e st)
      then show thesis by (intro that [of "[Failure]"]) (simp_all add: node_ending_def)
    next
      case (stored h st)
      then show thesis
        by (intro that [of "(if nr_validated (nx_result s2) then [ContractValidated] else []) @
              [ArtifactCreated, WorkerFinished]"]) (simp_all add: node_ending_def node_finished_events)
    qed
    with attempts [OF ran(1,2)] whole show ?thesis by blast
  qed
qed

definition sample_trace_env :: "nat node_env" where
  "sample_trace_env = sample_node_env\<lparr>ne_keyer := None,
     ne_execute := dispatch_execute sample_worker_config (sample_config json_of Map.empty)\<rparr>"

lemma sample_trace_retry:
  "\<exists>s'. with_retry (node_retry sample_trace_env (sample_worker_request []) lid) 0 0 s = Some (s', None)"
proof -
  let ?req = "sample_worker_request []\<lparr>rq_feedback := nx_feedback s\<rparr>"
  have "\<exists>r. fst (worker_execute sample_worker_config ?req (nx_world s)) = Inr r"
    by (simp add: worker_execute_def sample_worker_config_def sample_worker_request_def sample_worker_def
        node_pol_def resolve_policy_def to_policy_items_def get_provider_def default_provider_def
        worker_outcome_def enforce_def Let_def)
  then obtain r w' where w: "worker_execute sample_worker_config ?req (nx_world s) = (Inr r, w')"
    by (metis prod.collapse)
  have "ne_execute sample_trace_env ?req (nx_world s) = ([], Inr r, w')"
    using w by (simp add: sample_trace_env_def dispatch_execute_def sample_worker_request_def)
  then obtain s' where "node_attempt sample_trace_env (sample_worker_request []) s = (s', None)"
    by (simp add: node_attempt_def)
  then show ?thesis by (subst with_retry.simps) (simp add: node_retry_def)
qed

theorem node_log_shape_witness:
  "\<exists>s' r. execute_node sample_trace_env (sample_worker_request []) ''n'' sample_node_start = Some (s', r) \<and>
     node_trace False r (map fst (nx_events s')) \<and> list_all worker_event (map fst (nx_events s'))"
proof -
  have key: "node_key sample_trace_env (sample_worker_request []) sample_node_start = []"
    by (simp add: node_key_def cache_key_for_def sample_trace_env_def)
  obtain s2 where "with_retry (node_retry sample_trace_env (sample_worker_request []) ''n'') 0 0
      ((node_emit WorkerStarted [] sample_node_start)\<lparr>nx_feedback := [], nx_result := zero_result\<rparr>) = Some (s2, None)"
    using sample_trace_retry by blast
  then have "execute_node sample_trace_env (sample_worker_request []) ''n'' sample_node_start =
      Some (node_commit sample_trace_env ''n'' [] s2)"
    using key by (simp add: execute_node_def node_key_def cache_lookup_def Let_def)
  then obtain s' r where run: "execute_node sample_trace_env (sample_worker_request []) ''n'' sample_node_start = Some (s', r)"
    by (cases "node_commit sample_trace_env ''n'' [] s2") simp
  have env: "ne_execute sample_trace_env = dispatch_execute sample_worker_config (sample_config json_of Map.empty)"
    "ne_sum256 sample_trace_env = (\<lambda>b. b)"
    by (simp_all add: sample_trace_env_def sample_node_env_def)
  have "nx_events sample_node_start = []" by (simp add: sample_node_start_def)
  with node_log_shape [OF env(1) sample_node_ok [folded env(2)] run] key run show ?thesis by auto
qed

section \<open>The run returns\<close>

text \<open>C24. A node's run returns: if the contracts the executor reports violations of allow at most
  \<open>M\<close> retries, \<open>execute_node\<close> has a result and calls the executor at most once more than
  the transient budget and \<open>M\<close> together; \<open>calls\<close> counts the calls in the world.\<close>

theorem node_run_returns:
  assumes contracts: "\<And>req w evs e w' f n. ne_execute env req w = (evs, Inl e, w') \<Longrightarrow>
      as_err as_contract e = Some (f, n) \<Longrightarrow> n \<le> M"
    and calls: "\<And>req w. calls (snd (snd (ne_execute env req w))) = Suc (calls w)"
    and sleeps: "\<And>d w. calls (fst (ne_sleep env d w)) = calls w"
    and ok: "node_ok (ne_sum256 env) s"
  shows "\<exists>s' r. execute_node env req lid s = Some (s', r) \<and>
    calls (nx_world s') \<le> calls (nx_world s) + 1 + nat (ne_max_retries env) + nat M"
proof -
  obtain q s1 where lk: "cache_lookup env lid (node_key env req s) (node_emit WorkerStarted [] s) = (q, s1)"
    by fastforce
  have okw: "node_ok (ne_sum256 env) (node_emit WorkerStarted [] s)" using ok by simp
  have w1: "nx_world s1 = nx_world s" using cache_lookup_ok(3) [OF okw lk] by simp
  show ?thesis
  proof (cases q)
    case (Some res)
    with lk w1 show ?thesis by (simp add: execute_node_def node_key_def Let_def)
  next
    case None
    let ?env = "node_retry env req lid" and ?s = "s1\<lparr>nx_feedback := [], nx_result := zero_result\<rparr>"
    have "\<exists>s' r. with_retry ?env 0 0 ?s = Some (s', r) \<and> calls (nx_world ?s) < calls (nx_world s') \<and>
        calls (nx_world s') \<le> calls (nx_world ?s) + 1 + nat (re_max_transient ?env - 0) + nat (M - 0)"
    proof (rule with_retry_bounded [where cnt = "\<lambda>s. calls (nx_world s)"])
      fix s s' e f n
      assume at: "re_attempt ?env s = (s', Some e)" and c: "as_err as_contract e = Some (f, n)"
      obtain evs x w where ex: "ne_execute env (req\<lparr>rq_feedback := nx_feedback s\<rparr>) (nx_world s) = (evs, x, w)"
        by (metis prod.exhaust)
      have "node_attempt env req s = (s', Some e)" using at by (simp add: node_retry_def)
      from node_attempt_frame(5) [OF this] ex have "x = Inl e" by simp
      with contracts ex c show "n \<le> M" by blast
    next
      fix s s' r
      assume "re_attempt ?env s = (s', r)"
      then have "node_attempt env req s = (s', r)" by (simp add: node_retry_def)
      from node_attempt_frame(4) [OF this] calls show "calls (nx_world s') = Suc (calls (nx_world s))" by simp
    next
      fix n e s s' r
      assume p: "retry_pause ?env n e s = (s', r)"
      have "calls w' = calls w" if "ne_sleep env d w = (w', b)" for d w w' b
        using sleeps [of d w] that by simp
      with p show "calls (nx_world s') = calls (nx_world s)"
        by (auto simp: retry_pause_def node_retry_def Let_def split: prod.splits if_splits)
    qed
    then obtain s2 x where run: "with_retry ?env 0 0 ?s = Some (s2, x)"
      and bound: "calls (nx_world s2) \<le> calls (nx_world s) + 1 + nat (ne_max_retries env) + nat M"
      using w1 by (auto simp: node_retry_def)
    have world: "nx_world (fst (node_commit env lid (node_key env req s) s2)) = nx_world s2"
      by (simp add: node_commit_def Let_def split: prod.splits sum.splits)
    show ?thesis
      using lk None run bound world
      by (cases x; cases "node_commit env lid (node_key env req s) s2")
        (simp_all add: execute_node_def node_key_def Let_def)
  qed
qed

theorem node_run_returns_witness:
  "\<exists>s' r. execute_node sample_node_env (sample_node_request ''bad'') ''n'' sample_node_start = Some (s', r) \<and>
    nx_world s' \<le> 3"
proof -
  have "\<exists>s' r. execute_node sample_node_env (sample_node_request ''bad'') ''n'' sample_node_start = Some (s', r) \<and>
      id (nx_world s') \<le> id (nx_world sample_node_start) + 1 + nat (ne_max_retries sample_node_env) + nat 0"
    by (rule node_run_returns)
      (use sample_node_ok in \<open>auto simp: sample_node_env_def split: if_splits\<close>)
  moreover have "nx_world sample_node_start = 0" "ne_max_retries sample_node_env = 2"
    by (simp_all add: sample_node_start_def sample_node_env_def)
  ultimately show ?thesis by (simp add: eval_nat_numeral)
qed

end
