(* ===== verification/NodeLog.thy ===== *)
theory NodeLog
  imports NodeExec
begin

text \<open>
  Reading a node's outcome off the execution's log, which is how a resumed run
  (\<open>core/engine/resume.go\<close>) and an audit (\<open>core/replay/audit.go\<close>) both work: the last event that
  answers a question wins. The lemmas connect the events \<open>execute_node\<close> emits with the answers,
  whatever other nodes wrote in between.
\<close>

section \<open>The last answer\<close>

fun last_of :: "(event \<Rightarrow> 'a option) \<Rightarrow> event list \<Rightarrow> 'a option" where
  "last_of f [] = None"
| "last_of f (ev # evs) = (case last_of f evs of Some x \<Rightarrow> Some x | None \<Rightarrow> f ev)"

lemma last_of_append [simp]:
  "last_of f (xs @ ys) = (case last_of f ys of Some x \<Rightarrow> Some x | None \<Rightarrow> last_of f xs)"
  by (induction xs) (auto split: option.splits)

lemma last_of_None: "last_of f evs = None \<longleftrightarrow> (\<forall>ev\<in>set evs. f ev = None)"
  by (induction evs) (auto split: option.splits)

lemma last_of_filter:
  assumes "\<And>ev. f ev \<noteq> None \<Longrightarrow> P ev"
  shows "last_of f (filter P evs) = last_of f evs"
proof (induction evs)
  case (Cons a evs)
  have "f a = None" if "\<not> P a" using assms that by blast
  with Cons show ?case by (auto split: option.splits)
qed simp

section \<open>The questions\<close>

text \<open>A missing entry of a Go map reads as the empty string.\<close>

definition str_or_empty :: "string option \<Rightarrow> string" where
  "str_or_empty s = (case s of None \<Rightarrow> [] | Some v \<Rightarrow> v)"

definition artifact_field :: "string \<Rightarrow> string \<Rightarrow> event \<Rightarrow> string option" where
  "artifact_field k n ev =
     (if ev_type ev = ArtifactCreated \<and> ev_node ev = n then payload_string (ev_payload ev) k else None)"

definition finish_field :: "string \<Rightarrow> string \<Rightarrow> event \<Rightarrow> rat option" where
  "finish_field k n ev =
     (if ev_type ev = WorkerFinished \<and> ev_node ev = n then payload_float (ev_payload ev) k else None)"

definition end_state :: "string \<Rightarrow> event \<Rightarrow> node_state option" where
  "end_state n ev =
     (if ev_node ev \<noteq> n then None
      else if ev_type ev = WorkerFinished then Some StateSucceeded
      else if ev_type ev = Failure then Some StateFailed else None)"

definition failure_text :: "string \<Rightarrow> event \<Rightarrow> string option" where
  "failure_text n ev =
     (if ev_type ev = Failure \<and> ev_node ev = n then payload_string (ev_payload ev) ''error'' else None)"

lemmas question_defs = artifact_field_def finish_field_def end_state_def failure_text_def

abbreviation last_logged :: "string \<Rightarrow> event list \<Rightarrow> string \<Rightarrow> string option" where
  "last_logged k evs n \<equiv> last_of (artifact_field k n) evs"

definition finished_in :: "event list \<Rightarrow> string \<Rightarrow> bool" where
  "finished_in evs n \<longleftrightarrow> (\<exists>ev\<in>set evs. ev_type ev = WorkerFinished \<and> ev_node ev = n)"

lemma last_of_node:
  "last_of (artifact_field k n) (filter (\<lambda>ev. ev_node ev = n) evs) = last_logged k evs n"
  "last_of (finish_field k n) (filter (\<lambda>ev. ev_node ev = n) evs) = last_of (finish_field k n) evs"
  "last_of (end_state n) (filter (\<lambda>ev. ev_node ev = n) evs) = last_of (end_state n) evs"
  by (auto intro!: last_of_filter simp: question_defs split: if_splits)

section \<open>The log of a node that succeeded\<close>

text \<open>The entries the log holds for what a node emitted; \<open>js\<close> is what a payload value becomes
  when it is encoded and read back.\<close>

definition logged :: "(pval \<Rightarrow> gval) \<Rightarrow> string \<Rightarrow> tool_event \<Rightarrow> event \<Rightarrow> bool" where
  "logged js n t ev \<longleftrightarrow>
     ev_type ev = fst t \<and> ev_node ev = n \<and> ev_payload ev = map (\<lambda>(k, v). (k, js v)) (snd t)"

definition js_ok :: "(pval \<Rightarrow> gval) \<Rightarrow> bool" where
  "js_ok js \<longleftrightarrow> (\<forall>v. js (PVal v) = v)"

text \<open>The events of \<open>n\<close> in the log end with what its last run emitted, apart from entries of
  other kinds.\<close>

definition node_logged :: "(pval \<Rightarrow> gval) \<Rightarrow> string \<Rightarrow> tool_event list \<Rightarrow> event list \<Rightarrow> bool" where
  "node_logged js n ts evs \<longleftrightarrow>
     (\<exists>before mine after. filter (\<lambda>ev. ev_node ev = n) evs = before @ mine @ after \<and>
        list_all2 (logged js n) ts mine \<and>
        (\<forall>ev\<in>set after. ev_type ev \<notin> {ArtifactCreated, WorkerFinished, Failure}))"

lemma quiet_after:
  assumes "\<forall>ev\<in>set after. ev_type ev \<notin> {ArtifactCreated, WorkerFinished, Failure}"
  shows "last_of (artifact_field k n) after = None" "last_of (finish_field k n) after = None"
    "last_of (end_state n) after = None"
  using assms by (auto simp: last_of_None question_defs)

lemma list_all2_two_lastD:
  assumes "list_all2 P (xs @ [a, b]) zs"
  obtains us x y where "zs = us @ [x, y]" "P a x" "P b y"
proof -
  from assms obtain us vs where zs: "zs = us @ vs" and P: "list_all2 P [a, b] vs"
    by (auto simp: list_all2_append1)
  from P obtain x y where "vs = [x, y]" "P a x" "P b y"
    by (auto simp: list_all2_Cons1)
  with zs that show thesis by blast
qed

lemma success_logged:
  assumes "success_ends res ts" and "js_ok js" and "node_logged js n ts evs"
  shows "last_logged ''hash'' evs n = Some (nr_hash res)" "last_logged ''type'' evs n = Some (nr_type res)"
    "last_of (end_state n) evs = Some StateSucceeded" "finished_in evs n"
    "last_of (finish_field ''costUsd'' n) evs = Some (nr_cost res)"
    "last_of (finish_field ''tokens'' n) evs = Some (of_int (nr_tokens res))"
proof -
  from assms(3) obtain bf mine af where split: "filter (\<lambda>ev. ev_node ev = n) evs = bf @ mine @ af"
    and mine: "list_all2 (logged js n) ts mine"
    and quiet: "\<forall>ev\<in>set af. ev_type ev \<notin> {ArtifactCreated, WorkerFinished, Failure}"
    unfolding node_logged_def by blast
  from assms(1) obtain xs more where ts: "ts = xs @
     [(ArtifactCreated, [(''hash'', PVal (JStr (nr_hash res))), (''type'', PVal (JStr (nr_type res)))]),
      (WorkerFinished, [(''costUsd'', PVal (JNum (nr_cost res))), (''tokens'', PVal (jint (nr_tokens res)))] @ more)]"
    unfolding success_ends_def by blast
  from mine [unfolded ts] obtain us c f where m: "mine = us @ [c, f]"
    and c: "logged js n (ArtifactCreated, [(''hash'', PVal (JStr (nr_hash res))), (''type'', PVal (JStr (nr_type res)))]) c"
    and f: "logged js n (WorkerFinished, [(''costUsd'', PVal (JNum (nr_cost res))),
       (''tokens'', PVal (jint (nr_tokens res)))] @ more) f"
    by (rule list_all2_two_lastD)
  have v: "js (PVal v) = v" for v using assms(2) by (simp add: js_ok_def)
  have ev: "ev_type c = ArtifactCreated" "ev_node c = n" "payload_string (ev_payload c) ''hash'' = Some (nr_hash res)"
    "payload_string (ev_payload c) ''type'' = Some (nr_type res)" "ev_type f = WorkerFinished" "ev_node f = n"
    "payload_float (ev_payload f) ''costUsd'' = Some (nr_cost res)"
    "payload_float (ev_payload f) ''tokens'' = Some (of_int (nr_tokens res))"
    using c f by (auto simp: logged_def v payload_string_def payload_float_def jint_def)
  have all: "filter (\<lambda>ev. ev_node ev = n) evs = (bf @ us) @ [c, f] @ af" using split m by simp
  note quiet_after [OF quiet, simp]
  show "last_logged ''hash'' evs n = Some (nr_hash res)" "last_logged ''type'' evs n = Some (nr_type res)"
    using last_of_node(1) [of "''hash''" n evs] last_of_node(1) [of "''type''" n evs] ev
    unfolding all by (auto simp: artifact_field_def)
  show "last_of (finish_field ''costUsd'' n) evs = Some (nr_cost res)"
    "last_of (finish_field ''tokens'' n) evs = Some (of_int (nr_tokens res))"
    using last_of_node(2) [of "''costUsd''" n evs] last_of_node(2) [of "''tokens''" n evs] ev
    unfolding all by (auto simp: finish_field_def)
  show "last_of (end_state n) evs = Some StateSucceeded"
    using last_of_node(3) [of n evs] ev unfolding all by (auto simp: end_state_def)
  have "f \<in> set (filter (\<lambda>ev. ev_node ev = n) evs)" unfolding all by simp
  then show "finished_in evs n" using ev unfolding finished_in_def by auto
qed

end
