(* ===== verification/Resume.thy ===== *)
theory Resume
  imports NodeLog Graph SchedulerTheorems
begin

text \<open>
  \<open>core/engine/resume.go\<close>: a run rebuilt from its snapshot and event log. \<open>reconstruct\<close> finds the
  nodes that finished and reloads their artifacts, \<open>resume\<close> runs the rest, \<open>resume_from\<close> first
  drops a node and everything downstream of it.
\<close>

section \<open>What the log says about the nodes\<close>

text \<open>The three maps of \<open>reconstruct\<close>; \<open>rc_finished\<close> lists the finished nodes.\<close>

record recon =
  rc_hash :: "string \<rightharpoonup> string"
  rc_type :: "string \<rightharpoonup> artifact_type"
  rc_finished :: "string list"

definition recon_start :: recon where
  "recon_start = \<lparr>rc_hash = Map.empty, rc_type = Map.empty, rc_finished = []\<rparr>"

definition recon_step :: "event \<Rightarrow> recon \<Rightarrow> recon" where
  "recon_step ev r =
     (let n = ev_node ev in
      if ev_type ev = ArtifactCreated then
        let r = (case payload_string (ev_payload ev) ''hash'' of
                   Some h \<Rightarrow> r\<lparr>rc_hash := (rc_hash r)(n \<mapsto> h)\<rparr> | None \<Rightarrow> r)
        in (case payload_string (ev_payload ev) ''type'' of
              Some t \<Rightarrow> r\<lparr>rc_type := (rc_type r)(n \<mapsto> t)\<rparr> | None \<Rightarrow> r)
      else if ev_type ev = WorkerFinished then r\<lparr>rc_finished := List.insert n (rc_finished r)\<rparr>
      else r)"

text \<open>Reloading the artifacts: nodes without a recorded hash are left out, a missing artifact is
  an error. The code goes through the finished nodes in an order Go does not specify.\<close>

fun reload :: "faults \<Rightarrow> string \<Rightarrow> recon \<Rightarrow> art_store \<Rightarrow> string list \<Rightarrow> err + (string \<times> node_output) list" where
  "reload fault eid r st [] = Inr []"
| "reload fault eid r st (n # ns) =
     (let h = str_or_empty (rc_hash r n) in
      if h = [] then reload fault eid r st ns
      else case get_artifact fault h st of
        Inl e \<Rightarrow> Inl (errorf (''engine: resume '' @ eid @ '': reload artifact for node '' @ quote n @ '': '') e [])
      | Inr content \<Rightarrow>
          (case reload fault eid r st ns of
             Inl e \<Rightarrow> Inl e
           | Inr pre \<Rightarrow>
               Inr ((n, \<lparr>out_hash = h, out_content = content, out_type = str_or_empty (rc_type r n)\<rparr>) # pre)))"

definition reconstruct ::
  "faults \<Rightarrow> string \<Rightarrow> err + snapshot \<Rightarrow> err + event list \<Rightarrow> art_store \<Rightarrow>
     err + snapshot \<times> (string \<times> node_output) list" where
  "reconstruct fault eid snap history st =
     (case snap of
        Inl e \<Rightarrow> Inl (errorf (''engine: resume '' @ eid @ '': '') e [])
      | Inr sn \<Rightarrow>
          (case history of
             Inl e \<Rightarrow> Inl (errorf (''engine: resume '' @ eid @ '': '') e [])
           | Inr evs \<Rightarrow>
               let r = fold recon_step evs recon_start in
               (case reload fault eid r st (rc_finished r) of
                  Inl e \<Rightarrow> Inl e
                | Inr pre \<Rightarrow> Inr (sn, pre))))"

section \<open>The options and the graph\<close>

definition resume_opts :: "string \<Rightarrow> snapshot \<Rightarrow> run_options" where
  "resume_opts eid sn =
     \<lparr>ro_execution_id = eid, ro_concurrency = sn_concurrency sn, ro_budget = sn_budget sn,
      ro_backoff = 0, ro_backoff_max = 0, ro_cache = CacheUnset,
      ro_definition_hashes = sn_definition_hashes sn, ro_workers = sn_workers sn,
      ro_inputs = sn_inputs sn, ro_connections = sn_connections sn,
      ro_allow_mutations = sn_allow_mutations sn\<rparr>"

definition node_by_id :: "workflow \<Rightarrow> string \<Rightarrow> node option" where
  "node_by_id w i = find (\<lambda>n. node_id n = i) (wf_nodes w)"

definition children_of :: "workflow \<Rightarrow> string \<Rightarrow> string list" where
  "children_of w i = map edge_to (filter (\<lambda>e. edge_from e = i) (wf_edges w))"

lemma children_of_source: "children_of w i \<noteq> [] \<Longrightarrow> i \<in> edge_from ` set (wf_edges w)"
  by (auto simp: children_of_def filter_empty_conv)

function descend :: "workflow \<Rightarrow> string list \<Rightarrow> string list \<Rightarrow> string list" where
  "descend w seen [] = seen"
| "descend w seen (i # queue) =
     (if i \<in> set seen then descend w seen queue else descend w (i # seen) (queue @ children_of w i))"
  by pat_completeness auto

termination
proof (relation "measures [\<lambda>(w, seen, q). card (edge_from ` set (wf_edges w) - set seen), \<lambda>(w, seen, q). length q]")
  fix w :: workflow and seen queue :: "string list" and i
  assume new: "i \<notin> set seen"
  show "((w, i # seen, queue @ children_of w i), (w, seen, i # queue))
      \<in> measures [\<lambda>(w, seen, q). card (edge_from ` set (wf_edges w) - set seen), \<lambda>(w, seen, q). length q]"
  proof (cases "i \<in> edge_from ` set (wf_edges w)")
    case True
    with new have "card (edge_from ` set (wf_edges w) - set (i # seen)) < card (edge_from ` set (wf_edges w) - set seen)"
      by (intro psubset_card_mono) auto
    then show ?thesis by simp
  next
    case False
    then have "children_of w i = []" using children_of_source by blast
    moreover have "edge_from ` set (wf_edges w) - set (i # seen) = edge_from ` set (wf_edges w) - set seen"
      using False by auto
    ultimately show ?thesis by simp
  qed
qed auto

definition descendants_inclusive :: "workflow \<Rightarrow> string \<Rightarrow> string list" where
  "descendants_inclusive w start = descend w [] [start]"

section \<open>Resuming\<close>

text \<open>The run up to its coordinator loop; no snapshot is written for it.\<close>

definition resume_run ::
  "sched_env \<Rightarrow> string \<Rightarrow> snapshot \<Rightarrow> (string \<times> node_output) list \<Rightarrow> int \<Rightarrow> err option \<Rightarrow>
     sched_env \<times> ((run_result \<times> err) + sched)" where
  "resume_run env eid sn pre now parent =
     (let env = env\<lparr>se_wf := sn_workflow sn, se_opts := resume_opts eid sn\<rparr>
      in (env, run_begin env (\<lambda>_. None) pre False now parent))"

definition resume ::
  "sched_env \<Rightarrow> faults \<Rightarrow> string \<Rightarrow> err + snapshot \<Rightarrow> err + event list \<Rightarrow> art_store \<Rightarrow> int \<Rightarrow> err option \<Rightarrow>
     err + sched_env \<times> ((run_result \<times> err) + sched)" where
  "resume env fault eid snap history st now parent =
     (case reconstruct fault eid snap history st of
        Inl e \<Rightarrow> Inl e
      | Inr (sn, pre) \<Rightarrow> Inr (resume_run env eid sn pre now parent))"

definition resume_from ::
  "sched_env \<Rightarrow> faults \<Rightarrow> string \<Rightarrow> string \<Rightarrow> err + snapshot \<Rightarrow> err + event list \<Rightarrow> art_store \<Rightarrow> int \<Rightarrow> err option \<Rightarrow>
     err + sched_env \<times> ((run_result \<times> err) + sched)" where
  "resume_from env fault eid from_node snap history st now parent =
     (case reconstruct fault eid snap history st of
        Inl e \<Rightarrow> Inl e
      | Inr (sn, pre) \<Rightarrow>
          if node_by_id (sn_workflow sn) from_node = None
          then Inl (EMsg (''engine: resume-from '' @ eid @ '': node '' @ quote from_node @ '' not in workflow''))
          else Inr (resume_run env eid sn
            (filter (\<lambda>p. fst p \<notin> set (descendants_inclusive (sn_workflow sn) from_node)) pre) now parent))"

section \<open>Downstream is exactly what is dropped\<close>

lemma set_children_of [simp]: "set (children_of w i) = {j. (i, j) \<in> wf_rel w}"
  by (auto simp: children_of_def wf_rel_def)

lemma descend_correct:
  assumes "\<forall>c\<in>set seen. \<forall>j. (c, j) \<in> wf_rel w \<longrightarrow> j \<in> set seen \<union> set queue"
  shows "set (descend w seen queue) = {x. \<exists>s\<in>set seen \<union> set queue. (s, x) \<in> (wf_rel w)\<^sup>*}"
  using assms
proof (induction w seen queue rule: descend.induct)
  case (1 w seen)
  have "x \<in> set seen" if "(s, x) \<in> (wf_rel w)\<^sup>*" "s \<in> set seen" for x s
    using that 1 by (induction rule: rtrancl_induct) auto
  then show ?case by auto
next
  case (2 w seen i queue)
  show ?case
  proof (cases "i \<in> set seen")
    case True
    with "2.prems" have "\<forall>c\<in>set seen. \<forall>j. (c, j) \<in> wf_rel w \<longrightarrow> j \<in> set seen \<union> set queue" by auto
    with "2.IH"(1) [OF True] True show ?thesis by (auto simp: insert_absorb)
  next
    case False
    from "2.prems" have "\<forall>c\<in>set (i # seen). \<forall>j. (c, j) \<in> wf_rel w \<longrightarrow>
        j \<in> set (i # seen) \<union> set (queue @ children_of w i)" by auto
    note IH = "2.IH"(2) [OF False this]
    have "\<exists>s\<in>set seen \<union> set (i # queue). (s, x) \<in> (wf_rel w)\<^sup>*"
      if "(s, x) \<in> (wf_rel w)\<^sup>*" "(i, s) \<in> wf_rel w" for x s
      using that by (auto intro: converse_rtrancl_into_rtrancl)
    with False IH show ?thesis by auto
  qed
qed

lemma descendants_inclusive_correct: "set (descendants_inclusive w i) = {x. (i, x) \<in> (wf_rel w)\<^sup>*}"
  using descend_correct [of "[]" w "[i]"] by (simp add: descendants_inclusive_def)

section \<open>What is reused is what was recorded\<close>

lemma recon_step_fields:
  "rc_hash (recon_step ev r) n = (case artifact_field ''hash'' n ev of Some h \<Rightarrow> Some h | None \<Rightarrow> rc_hash r n)"
  "rc_type (recon_step ev r) n = (case artifact_field ''type'' n ev of Some t \<Rightarrow> Some t | None \<Rightarrow> rc_type r n)"
  "set (rc_finished (recon_step ev r)) =
     set (rc_finished r) \<union> (if ev_type ev = WorkerFinished then {ev_node ev} else {})"
  "distinct (rc_finished r) \<Longrightarrow> distinct (rc_finished (recon_step ev r))"
  by (auto simp: recon_step_def artifact_field_def Let_def split: option.splits)

lemma recon_correct:
  "rc_hash (fold recon_step evs recon_start) n = last_logged ''hash'' evs n"
  "rc_type (fold recon_step evs recon_start) n = last_logged ''type'' evs n"
  "n \<in> set (rc_finished (fold recon_step evs recon_start)) \<longleftrightarrow> finished_in evs n"
  "distinct (rc_finished (fold recon_step evs recon_start))"
proof (induction evs rule: rev_induct)
  case (snoc ev evs)
  {
    case 1
    show ?case using snoc(1) by (simp add: recon_step_fields split: option.split)
  next
    case 2
    show ?case using snoc(2) by (simp add: recon_step_fields split: option.split)
  next
    case 3
    show ?case using snoc(3) by (auto simp: recon_step_fields finished_in_def)
  next
    case 4
    show ?case using snoc(4) by (simp add: recon_step_fields)
  }
qed (simp_all add: recon_start_def finished_in_def)

lemma reload_Cons:
  assumes "reload fault eid r st (n # ns) = Inr pre"
  obtains "str_or_empty (rc_hash r n) = []" "reload fault eid r st ns = Inr pre"
  | content pre' where "str_or_empty (rc_hash r n) \<noteq> []"
      "get_artifact fault (str_or_empty (rc_hash r n)) st = Inr content"
      "reload fault eid r st ns = Inr pre'"
      "pre = (n, \<lparr>out_hash = str_or_empty (rc_hash r n), out_content = content,
                 out_type = str_or_empty (rc_type r n)\<rparr>) # pre'"
  using assms by (auto simp: Let_def split: if_splits sum.splits)

lemma reload_within: "reload fault eid r st ns = Inr pre \<Longrightarrow> set (map fst pre) \<subseteq> set ns"
proof (induction ns arbitrary: pre)
  case (Cons n ns)
  from Cons.prems show ?case
  proof (cases rule: reload_Cons)
    case 1
    with Cons.IH show ?thesis by fastforce
  next
    case (2 content pre')
    with Cons.IH [OF 2(3)] show ?thesis by fastforce
  qed
qed simp

lemma reload_distinct: "reload fault eid r st ns = Inr pre \<Longrightarrow> distinct ns \<Longrightarrow> distinct (map fst pre)"
proof (induction ns arbitrary: pre)
  case (Cons n ns)
  from Cons.prems(1) show ?case
  proof (cases rule: reload_Cons)
    case 1
    with Cons show ?thesis by simp
  next
    case (2 content pre')
    have "n \<notin> set (map fst pre')" using reload_within [OF 2(3)] Cons.prems(2) by auto
    then show ?thesis using Cons.IH [OF 2(3)] Cons.prems(2) 2(4) by simp
  qed
qed simp

text \<open>The entry of one node.\<close>

definition reloaded :: "faults \<Rightarrow> recon \<Rightarrow> art_store \<Rightarrow> string \<Rightarrow> node_output option" where
  "reloaded fault r st n =
     (if str_or_empty (rc_hash r n) = [] then None
      else case get_artifact fault (str_or_empty (rc_hash r n)) st of
        Inl e \<Rightarrow> None
      | Inr c \<Rightarrow> Some \<lparr>out_hash = str_or_empty (rc_hash r n), out_content = c,
                        out_type = str_or_empty (rc_type r n)\<rparr>)"

lemma reload_map:
  "reload fault eid r st ns = Inr pre \<Longrightarrow>
     map_of pre n = (if n \<in> set ns then reloaded fault r st n else None)"
proof (induction ns arbitrary: pre)
  case (Cons m ns)
  from Cons.prems show ?case
  proof (cases rule: reload_Cons)
    case 1
    have "reloaded fault r st m = None" using 1 by (simp add: reloaded_def)
    then show ?thesis using Cons.IH [OF 1(2)] by (cases "n = m") simp_all
  next
    case (2 content pre')
    show ?thesis using Cons.IH [OF 2(3)] 2(1,2,4) by (cases "n = m") (simp_all add: reloaded_def)
  qed
qed simp

lemma reload_readable:
  "(\<And>n. n \<in> set ns \<Longrightarrow> str_or_empty (rc_hash r n) \<noteq> [] \<Longrightarrow>
      \<exists>c. get_artifact fault (str_or_empty (rc_hash r n)) st = Inr c) \<Longrightarrow>
   \<exists>pre. reload fault eid r st ns = Inr pre"
proof (induction ns)
  case (Cons n ns)
  from Cons.IH Cons.prems obtain pre where "reload fault eid r st ns = Inr pre" by auto
  with Cons.prems [of n] show ?case by (cases "str_or_empty (rc_hash r n) = []") (auto simp: Let_def)
qed simp

lemma reconstruct_readable:
  assumes "\<And>n h. finished_in evs n \<Longrightarrow> last_logged ''hash'' evs n = Some h \<Longrightarrow> h \<noteq> [] \<Longrightarrow>
      \<exists>c. get_artifact fault h st = Inr c"
  shows "\<exists>pre. reconstruct fault eid (Inr sn) (Inr evs) st = Inr (sn, pre)"
proof -
  let ?r = "fold recon_step evs recon_start"
  have "\<exists>pre. reload fault eid ?r st (rc_finished ?r) = Inr pre"
    using assms by (intro reload_readable) (auto simp: recon_correct str_or_empty_def split: option.splits)
  then show ?thesis by (auto simp: reconstruct_def Let_def)
qed

lemma reconstruct_distinct: "reconstruct fault eid snap history st = Inr (sn, pre) \<Longrightarrow> distinct (map fst pre)"
  by (auto simp: reconstruct_def Let_def recon_correct reload_distinct split: sum.splits)

lemma reconstruct_map:
  assumes "reconstruct fault eid (Inr sn) (Inr evs) st = Inr (sn', pre)"
  shows "map_of pre n = Some out \<longleftrightarrow>
    finished_in evs n \<and> last_logged ''hash'' evs n = Some (out_hash out) \<and> out_hash out \<noteq> [] \<and>
    get_artifact fault (out_hash out) st = Inr (out_content out) \<and>
    out_type out = str_or_empty (last_logged ''type'' evs n)"
proof -
  let ?r = "fold recon_step evs recon_start"
  from assms have "reload fault eid ?r st (rc_finished ?r) = Inr pre"
    by (auto simp: reconstruct_def Let_def split: sum.splits)
  from reload_map [OF this, of n] show ?thesis
    by (auto simp: recon_correct reloaded_def str_or_empty_def split: option.splits sum.splits)
qed

text \<open>Resuming reuses exactly what was recorded: a run rebuilt from its log takes over a node
  if and only if the log holds a \<open>WorkerFinished\<close> for it and an artifact hash, and then with the
  last hash and type logged for it and the content the store returns for that hash.\<close>

theorem resume_reuses_recorded:
  assumes "reconstruct fault eid (Inr sn) (Inr evs) st = Inr (sn', pre)"
  shows "sn' = sn \<and> distinct (map fst pre) \<and>
    (\<forall>n out. map_of pre n = Some out \<longleftrightarrow>
       finished_in evs n \<and> last_logged ''hash'' evs n = Some (out_hash out) \<and> out_hash out \<noteq> [] \<and>
       get_artifact fault (out_hash out) st = Inr (out_content out) \<and>
       out_type out = str_or_empty (last_logged ''type'' evs n))"
proof -
  from assms have "sn' = sn" by (auto simp: reconstruct_def Let_def split: sum.splits)
  with reconstruct_distinct [OF assms] reconstruct_map [OF assms] show ?thesis by simp
qed

text \<open>A stored execution of the two-node workflow whose first node finished.\<close>

definition resume_events :: "event list" where
  "resume_events =
     [\<lparr>ev_type = ArtifactCreated, ev_time = 0, ev_exec = ''e'', ev_node = ''a'', ev_prev = [],
       ev_payload = [(''hash'', JStr ''616263''), (''type'', JStr ''text'')]\<rparr>,
      \<lparr>ev_type = WorkerFinished, ev_time = 1, ev_exec = ''e'', ev_node = ''a'', ev_prev = [],
       ev_payload = [(''costUsd'', JNum 1), (''tokens'', JNum 2)]\<rparr>,
      \<lparr>ev_type = WorkerStarted, ev_time = 1, ev_exec = ''e'', ev_node = ''b'', ev_prev = [], ev_payload = []\<rparr>]"

definition resume_store :: art_store where
  "resume_store = snd (put (\<lambda>b. b) no_faults ''1'' 7 ''abc'' sample_store)"

definition resume_snapshot :: snapshot where
  "resume_snapshot =
     \<lparr>sn_workflow = sample_wf, sn_budget = wf_budget sample_wf, sn_concurrency = 2,
      sn_definition_hashes = Map.empty, sn_workers = Map.empty, sn_inputs = Map.empty,
      sn_connections = Map.empty, sn_allow_mutations = False\<rparr>"

definition resume_output :: node_output where
  "resume_output = \<lparr>out_hash = ''616263'', out_content = ''abc'', out_type = ''text''\<rparr>"

lemma resume_store_get: "get_artifact no_faults ''616263'' resume_store = Inr ''abc''"
proof -
  have "get_artifact no_faults ''616263'' (snd (put_reader (\<lambda>b. b) no_faults ''1'' 7
      [(''abc'', ReadMore), ([], ReadEOF)] sample_store)) = Inr ''abc''"
    by code_simp
  then show ?thesis by (simp add: resume_store_def put_def bytes_reader_short read_buf_def)
qed

lemma resume_sample:
  "reconstruct no_faults ''e'' (Inr resume_snapshot) (Inr resume_events) resume_store =
     Inr (resume_snapshot, [(''a'', resume_output)])"
  by (simp add: reconstruct_def resume_events_def recon_step_def recon_start_def Let_def
      payload_string_def str_or_empty_def resume_store_get resume_output_def)

theorem resume_reuses_recorded_witness:
  "get_artifact no_faults ''616263'' resume_store = Inr ''abc'' \<and>
   reconstruct no_faults ''e'' (Inr resume_snapshot) (Inr resume_events) resume_store =
     Inr (resume_snapshot, [(''a'', resume_output)])"
  using resume_reuses_recorded [OF resume_sample] resume_sample
  by (auto simp: resume_output_def dest!: spec [of _ "''a''"] spec [of _ resume_output])

section \<open>Retrying from a node\<close>


definition resume_acts :: "action list" where
  "resume_acts = [ActDispatch, ActComplete 0 (Inr sample_result)]"

definition resume_from_state :: "sched option" where
  "resume_from_state =
     (case resume_from sample_env no_faults ''e'' ''b'' (Inr resume_snapshot) (Inr resume_events) resume_store 0 None of
        Inr (env', Inr s0) \<Rightarrow> sched_run env' resume_acts s0 | _ \<Rightarrow> None)"


section \<open>From a node's run to the resumed run\<close>

text \<open>C7. What a node produced is what a resumed run goes on with: if a node's run succeeded, its
  events were written to the log, among those of any other nodes, and its artifact is still in
  the store, then a run rebuilt from that log takes the node over with the hash, the content and
  the type its run returned.\<close>

theorem finished_node_resumed:
  assumes "execute_node nenv req n s = Some (s', Inr res)" and "node_ok (ne_sum256 nenv) s"
    and "\<And>b. hash_bytes (ne_sum256 nenv) b = hash_bytes (ne_sum256 nenv) (nr_content res) \<Longrightarrow> b = nr_content res"
    and "nr_hash res \<noteq> []"
    and "js_ok js" and "node_logged js n (nx_events s') evs"
    and "artifacts st (nr_hash res) = artifacts (nx_store s') (nr_hash res)"
    and "reconstruct no_faults eid (Inr sn) (Inr evs) st = Inr (sn', pre)"
  shows "map_of pre n =
    Some \<lparr>out_hash = nr_hash res, out_content = nr_content res, out_type = nr_type res\<rparr>"
proof -
  note log = success_logged [OF execute_node_ends [OF assms(1)] assms(5,6)]
  have "artifacts st (nr_hash res) = Some (nr_content res)"
    using execute_node_ok(3) [OF assms(2,1) refl] assms(3,7) by simp
  then have "get_artifact no_faults (nr_hash res) st = Inr (nr_content res)"
    by (rule get_artifact_stored) (simp add: reads_ok_def no_faults_def)
  with log(1,2,4) assms(4) show ?thesis
    by (simp add: reconstruct_map [OF assms(8)] str_or_empty_def)
qed

definition sample_js :: "pval \<Rightarrow> gval" where
  "sample_js v = (case v of PVal g \<Rightarrow> g | PRaw b \<Rightarrow> JStr b | PText t \<Rightarrow> JStr t | PMutation m \<Rightarrow> JNull)"

definition sample_logged :: "string \<Rightarrow> tool_event list \<Rightarrow> event list" where
  "sample_logged n ts =
     map (\<lambda>(ty, p). \<lparr>ev_type = ty, ev_time = 0, ev_exec = ''e'', ev_node = n, ev_prev = [],
        ev_payload = map (\<lambda>(k, v). (k, sample_js v)) p\<rparr>) ts"

lemma sample_logged_ok: "js_ok sample_js" "node_logged sample_js n ts (sample_logged n ts)"
proof -
  show "js_ok sample_js" by (simp add: js_ok_def sample_js_def)
  have all: "filter (\<lambda>ev. ev_node ev = n) (sample_logged n ts) = sample_logged n ts"
    by (auto simp: sample_logged_def filter_id_conv)
  have "list_all2 (logged sample_js n) ts (sample_logged n ts)"
    by (auto simp: sample_logged_def list_all2_conv_all_nth logged_def split: prod.splits)
  with all show "node_logged sample_js n ts (sample_logged n ts)"
    unfolding node_logged_def by (intro exI [of _ "[]"] exI [of _ "sample_logged n ts"]) simp
qed

theorem finished_node_resumed_witness:
  "\<exists>s' pre. execute_node sample_node_env (sample_node_request ''n'') ''n'' sample_node_start =
       Some (s', Inr sample_node_result) \<and>
     reconstruct no_faults ''e'' (Inr resume_snapshot) (Inr (sample_logged ''n'' (nx_events s'))) (nx_store s') =
       Inr (resume_snapshot, pre) \<and>
     map_of pre ''n'' = Some \<lparr>out_hash = ''616263'', out_content = ''abc'', out_type = ''''\<rparr>"
proof -
  obtain s' c1 where run: "execute_node sample_node_env (sample_node_request ''n'') ''n'' sample_node_start =
      Some (s', Inr sample_node_result)"
    by (rule sample_node_run)
  have sum: "ne_sum256 sample_node_env = (\<lambda>b. b)" by (simp add: sample_node_env_def)
  have res: "nr_content sample_node_result = ''abc''" "nr_hash sample_node_result = ''616263''"
    "nr_type sample_node_result = ''''"
    by (simp_all add: sample_node_result_def zero_result_def)
  have coll: "b = nr_content sample_node_result"
    if "hash_bytes (ne_sum256 sample_node_env) b = hash_bytes (ne_sum256 sample_node_env) (nr_content sample_node_result)"
    for b using that sum by (simp add: hash_bytes_def)
  note ok = sample_node_ok [folded sum]
  let ?evs = "sample_logged ''n'' (nx_events s')"
  note log = success_logged [OF execute_node_ends [OF run] sample_logged_ok]
  have stored: "artifacts (nx_store s') ''616263'' = Some ''abc''"
    using execute_node_ok(3) [OF ok run refl] coll unfolding res by blast
  have "n = ''n''" if "finished_in ?evs n" for n
    using that by (auto simp: finished_in_def sample_logged_def)
  then have "h = ''616263''" if "finished_in ?evs n" "last_logged ''hash'' ?evs n = Some h" for n h
    using that log(1) [of "''n''"] res by fastforce
  moreover have "get_artifact no_faults ''616263'' (nx_store s') = Inr ''abc''"
    using get_artifact_stored [OF stored] by (simp add: reads_ok_def no_faults_def)
  ultimately have "\<exists>c. get_artifact no_faults h (nx_store s') = Inr c"
    if "finished_in ?evs n" "last_logged ''hash'' ?evs n = Some h" for n h
    using that by blast
  then obtain pre where rec: "reconstruct no_faults ''e'' (Inr resume_snapshot) (Inr ?evs) (nx_store s') =
      Inr (resume_snapshot, pre)"
    using reconstruct_readable by blast
  have "nr_hash sample_node_result \<noteq> []" using res by simp
  from finished_node_resumed [OF run ok coll this sample_logged_ok refl rec] run rec res
  show ?thesis by auto
qed

end
