(* ===== verification/Replay.thy ===== *)
theory Replay
  imports Resume EventLog
begin

text \<open>
  \<open>core/replay\<close>: \<open>Audit\<close> rebuilds what a run reported from its files alone (\<open>audit.go\<close>),
  \<open>Divergence\<close> compares two such records (\<open>divergence.go\<close>), \<open>ExportBundle\<close> packs the files
  (\<open>bundle.go\<close>) and \<open>Reexecute\<close> runs a recorded workflow again (\<open>reexecute.go\<close>). A Go map that is
  iterated is an association list with distinct keys, in the order of the log.
\<close>

section \<open>Audit\<close>

record audit_node =
  rec_state :: node_state
  rec_hash :: string
  rec_type :: artifact_type
  rec_content :: bytes
  rec_cost :: rat
  rec_tokens :: int
  rec_err :: string

definition zero_record :: audit_node where
  "zero_record = \<lparr>rec_state = StateUnset, rec_hash = [], rec_type = [], rec_content = [], rec_cost = 0,
     rec_tokens = 0, rec_err = []\<rparr>"

lemma zero_record_hash [simp]: "rec_hash zero_record = []"
  by (simp add: zero_record_def)

type_synonym records = "(string \<times> audit_node) list"

record timeline =
  tm_exec :: string
  tm_workflow :: workflow
  tm_budget :: budget
  tm_events :: "event list"
  tm_nodes :: records
  tm_cost :: rat
  tm_tokens :: int
  tm_hashes :: "string \<rightharpoonup> string"
  tm_workers :: "string \<rightharpoonup> worker"
  tm_inputs :: "string \<rightharpoonup> string"
  tm_connections :: "string \<rightharpoonup> connection_ref"

text \<open>\<open>int64(t)\<close> of a float64 truncates towards zero; a value outside of 64 bits, where Go leaves
  the result to the platform, cannot come from the engine's own events.\<close>

definition audit_record :: "event \<Rightarrow> audit_node \<Rightarrow> audit_node" where
  "audit_record ev r =
     (if ev_type ev = ArtifactCreated then
        let r = (case payload_string (ev_payload ev) ''hash'' of Some h \<Rightarrow> r\<lparr>rec_hash := h\<rparr> | None \<Rightarrow> r)
        in (case payload_string (ev_payload ev) ''type'' of Some t \<Rightarrow> r\<lparr>rec_type := t\<rparr> | None \<Rightarrow> r)
      else if ev_type ev = WorkerFinished then
        let r = r\<lparr>rec_state := StateSucceeded\<rparr>;
            r = (case payload_float (ev_payload ev) ''costUsd'' of Some c \<Rightarrow> r\<lparr>rec_cost := c\<rparr> | None \<Rightarrow> r)
        in (case payload_float (ev_payload ev) ''tokens'' of Some t \<Rightarrow> r\<lparr>rec_tokens := trunc_rat t\<rparr> | None \<Rightarrow> r)
      else if ev_type ev = Failure then
        let r = r\<lparr>rec_state := StateFailed\<rparr>
        in (case payload_string (ev_payload ev) ''error'' of Some e \<Rightarrow> r\<lparr>rec_err := e\<rparr> | None \<Rightarrow> r)
      else r)"

definition record_of :: "records \<Rightarrow> string \<Rightarrow> audit_node" where
  "record_of rs n = (case map_of rs n of Some r \<Rightarrow> r | None \<Rightarrow> zero_record)"

definition audit_event :: "event \<Rightarrow> records \<Rightarrow> records" where
  "audit_event ev rs =
     (let n = ev_node ev in
      if n = [] then rs else AList.update n (audit_record ev (record_of rs n)) rs)"

text \<open>The second loop of \<open>Audit\<close>, over the nodes of the workflow.\<close>

fun audit_nodes ::
  "faults \<Rightarrow> string \<Rightarrow> bool \<Rightarrow> art_store \<Rightarrow> node list \<Rightarrow> records \<times> rat \<times> int \<Rightarrow> err + records \<times> rat \<times> int" where
  "audit_nodes fault eid finished st [] acc = Inr acc"
| "audit_nodes fault eid finished st (n # ns) (rs, cost, tokens) =
     (let i = node_id n in
      case map_of rs i of
        None \<Rightarrow> audit_nodes fault eid finished st ns
            (AList.update i (zero_record\<lparr>rec_state := if finished then StateSkipped else StatePending\<rparr>) rs, cost, tokens)
      | Some r \<Rightarrow>
          (case (if rec_hash r = [] then Inr rs
                 else case get_artifact fault (rec_hash r) st of
                   Inl e \<Rightarrow> Inl (errorf (''replay: audit '' @ eid @ '': load artifact for node '' @ quote i @ '': '') e [])
                 | Inr c \<Rightarrow> Inr (AList.update i (r\<lparr>rec_content := c\<rparr>) rs)) of
             Inl e \<Rightarrow> Inl e
           | Inr rs' \<Rightarrow> audit_nodes fault eid finished st ns
               (rs', cost + rec_cost r, wrap64 (tokens + rec_tokens r))))"

definition audit ::
  "(bytes \<Rightarrow> err + snapshot) \<Rightarrow> (bytes \<Rightarrow> err + event) \<Rightarrow> faults \<Rightarrow> log_state \<Rightarrow> art_store \<Rightarrow> string \<Rightarrow>
     err + timeline" where
  "audit sdec edec fault lg st eid =
     (case read_snapshot sdec eid lg of
        Inl e \<Rightarrow> Inl (errorf (''replay: audit '' @ eid @ '': '') e [])
      | Inr sn \<Rightarrow>
          (case read_all edec eid lg of
             Inl e \<Rightarrow> Inl (errorf (''replay: audit '' @ eid @ '': '') e [])
           | Inr evs \<Rightarrow>
               (case audit_nodes fault eid (\<exists>ev\<in>set evs. ev_type ev = ExecutionFinished) st
                       (wf_nodes (sn_workflow sn)) (fold audit_event evs [], 0, 0) of
                  Inl e \<Rightarrow> Inl e
                | Inr (rs, cost, tokens) \<Rightarrow>
                    Inr \<lparr>tm_exec = eid, tm_workflow = sn_workflow sn, tm_budget = sn_budget sn, tm_events = evs,
                      tm_nodes = rs, tm_cost = cost, tm_tokens = tokens, tm_hashes = sn_definition_hashes sn,
                      tm_workers = sn_workers sn, tm_inputs = sn_inputs sn, tm_connections = sn_connections sn\<rparr>)))"

section \<open>Divergence\<close>

datatype divergence_status = Cached | ReExecuted | Added | Removed

record node_divergence =
  dv_node :: string
  dv_status :: divergence_status
  dv_old_hash :: string
  dv_new_hash :: string
  dv_old_content :: bytes
  dv_new_content :: bytes

definition diverge :: "records \<Rightarrow> string \<times> audit_node \<Rightarrow> node_divergence" where
  "diverge new p = (case p of (i, o1) \<Rightarrow>
     (case map_of new i of
        None \<Rightarrow> \<lparr>dv_node = i, dv_status = Removed, dv_old_hash = rec_hash o1, dv_new_hash = [],
                  dv_old_content = rec_content o1, dv_new_content = []\<rparr>
      | Some n \<Rightarrow>
          \<lparr>dv_node = i,
           dv_status = (if rec_hash o1 \<noteq> [] \<and> rec_hash o1 = rec_hash n then Cached else ReExecuted),
           dv_old_hash = rec_hash o1, dv_new_hash = rec_hash n,
           dv_old_content = rec_content o1, dv_new_content = rec_content n\<rparr>))"

definition divergence :: "timeline \<Rightarrow> timeline \<Rightarrow> node_divergence list" where
  "divergence original reexecuted =
     map (diverge (tm_nodes reexecuted)) (tm_nodes original) @
     map (\<lambda>(i, n). \<lparr>dv_node = i, dv_status = Added, dv_old_hash = [], dv_new_hash = rec_hash n,
                     dv_old_content = [], dv_new_content = rec_content n\<rparr>)
       (filter (\<lambda>(i, n). i \<notin> fst ` set (tm_nodes original)) (tm_nodes reexecuted))"

section \<open>The bundle\<close>

text \<open>An archive is the list of its entries; \<open>tar\<close> gives the error the tar writer has for an
  entry, such as a name it cannot write.\<close>

type_synonym archive = "(string \<times> bytes) list"

definition write_entry :: "(string \<Rightarrow> err option) \<Rightarrow> string \<Rightarrow> bytes \<Rightarrow> archive \<Rightarrow> err + archive" where
  "write_entry tar name d a =
     (case tar name of
        Some e \<Rightarrow> Inl (errorf (''replay: bundle header '' @ name @ '': '') e [])
      | None \<Rightarrow> Inr (a @ [(name, d)]))"

definition artifact_entry :: "string \<Rightarrow> string" where
  "artifact_entry h = ''artifacts/'' @ h"

fun bundle_artifacts ::
  "(string \<Rightarrow> err option) \<Rightarrow> faults \<Rightarrow> string \<Rightarrow> art_store \<Rightarrow> event list \<Rightarrow> string list \<Rightarrow> archive \<Rightarrow> err + archive" where
  "bundle_artifacts tar fault eid st [] seen a = Inr a"
| "bundle_artifacts tar fault eid st (ev # evs) seen a =
     (let h = str_or_empty (payload_string (ev_payload ev) ''hash'') in
      if ev_type ev \<noteq> ArtifactCreated \<or> h = [] \<or> h \<in> set seen
      then bundle_artifacts tar fault eid st evs seen a
      else case get_artifact fault h st of
        Inl e \<Rightarrow> Inl (errorf (''replay: bundle '' @ eid @ '': reload artifact '' @ h @ '': '') e [])
      | Inr c \<Rightarrow>
          (case write_entry tar (artifact_entry h) c a of
             Inl e \<Rightarrow> Inl e
           | Inr a' \<Rightarrow> bundle_artifacts tar fault eid st evs (h # seen) a'))"

definition export_bundle ::
  "(string \<Rightarrow> err option) \<Rightarrow> (bytes \<Rightarrow> err + event) \<Rightarrow> faults \<Rightarrow> log_state \<Rightarrow> art_store \<Rightarrow> string \<Rightarrow> err + archive" where
  "export_bundle tar edec fault lg st eid =
     (case raw_snapshot eid lg of
        Inl e \<Rightarrow> Inl (errorf (''replay: bundle '' @ eid @ '': read snapshot: '') e [])
      | Inr snap \<Rightarrow>
     (case raw_events eid lg of
        Inl e \<Rightarrow> Inl (errorf (''replay: bundle '' @ eid @ '': read events: '') e [])
      | Inr events \<Rightarrow>
     (case read_all edec eid lg of
        Inl e \<Rightarrow> Inl (errorf (''replay: bundle '' @ eid @ '': '') e [])
      | Inr evs \<Rightarrow>
     (case write_entry tar ''snapshot.json'' snap [] of
        Inl e \<Rightarrow> Inl e
      | Inr a \<Rightarrow>
     (case write_entry tar ''events.jsonl'' events a of
        Inl e \<Rightarrow> Inl e
      | Inr a \<Rightarrow> bundle_artifacts tar fault eid st evs [] a)))))"

section \<open>Re-execution\<close>

definition reexecute_opts :: "string \<Rightarrow> snapshot \<Rightarrow> run_options" where
  "reexecute_opts eid sn =
     \<lparr>ro_execution_id = eid, ro_concurrency = sn_concurrency sn, ro_budget = sn_budget sn,
      ro_backoff = 0, ro_backoff_max = 0, ro_cache = CacheUnset, ro_definition_hashes = Map.empty,
      ro_workers = Map.empty, ro_inputs = Map.empty, ro_connections = Map.empty,
      ro_allow_mutations = False\<rparr>"

definition reexecute ::
  "(bytes \<Rightarrow> err + snapshot) \<Rightarrow> log_state \<Rightarrow> sched_env \<Rightarrow> (snapshot \<Rightarrow> err option) \<Rightarrow> string \<Rightarrow> string \<Rightarrow> int \<Rightarrow>
     err option \<Rightarrow> err + sched_env \<times> ((run_result \<times> err) + sched)" where
  "reexecute sdec lg env ws original new now parent =
     (case read_snapshot sdec original lg of
        Inl e \<Rightarrow> Inl (errorf (''replay: reexecute '' @ original @ '': '') e [])
      | Inr sn \<Rightarrow>
          let env = env\<lparr>se_wf := sn_workflow sn, se_opts := reexecute_opts new sn\<rparr>
          in Inr (env, run_begin env ws [] True now parent))"

lemma last_of_Some:
  assumes "last_of f evs = Some x"
  obtains ev where "ev \<in> set evs" "f ev = Some x"
  using assms by (induction evs) (auto split: option.splits)

section \<open>The facts of a node in the log\<close>

definition logged_record :: "event list \<Rightarrow> string \<Rightarrow> audit_node" where
  "logged_record evs n =
     \<lparr>rec_state = (case last_of (end_state n) evs of Some s \<Rightarrow> s | None \<Rightarrow> StateUnset),
      rec_hash = str_or_empty (last_logged ''hash'' evs n), rec_type = str_or_empty (last_logged ''type'' evs n),
      rec_content = [],
      rec_cost = (case last_of (finish_field ''costUsd'' n) evs of Some c \<Rightarrow> c | None \<Rightarrow> 0),
      rec_tokens = (case last_of (finish_field ''tokens'' n) evs of Some t \<Rightarrow> trunc_rat t | None \<Rightarrow> 0),
      rec_err = str_or_empty (last_of (failure_text n) evs)\<rparr>"

lemma audit_record_snoc:
  "ev_node ev = n \<Longrightarrow> audit_record ev (logged_record evs n) = logged_record (evs @ [ev]) n"
  by (cases "ev_type ev")
    (simp_all add: audit_record_def logged_record_def question_defs str_or_empty_def split: option.split)

lemma logged_record_skip: "ev_node ev \<noteq> n \<Longrightarrow> logged_record (evs @ [ev]) n = logged_record evs n"
  by (simp add: logged_record_def question_defs)

lemma logged_record_Nil [simp]: "logged_record [] n = zero_record"
  by (simp add: logged_record_def zero_record_def str_or_empty_def)

lemma map_of_audit_event:
  "map_of (audit_event ev rs) n =
     (if n \<noteq> [] \<and> ev_node ev = n then Some (audit_record ev (record_of rs n)) else map_of rs n)"
  by (auto simp: audit_event_def Let_def update_conv')

lemma last_of_absent:
  assumes "n \<notin> ev_node ` set evs"
  shows "last_logged k evs n = None" "last_of (finish_field k n) evs = None"
    "last_of (end_state n) evs = None" "last_of (failure_text n) evs = None"
  using assms by (auto simp: last_of_None question_defs)

lemma audit_events_map:
  "map_of (fold audit_event evs []) n =
     (if n \<noteq> [] \<and> n \<in> ev_node ` set evs then Some (logged_record evs n) else None)"
proof (induction evs rule: rev_induct)
  case (snoc ev evs)
  show ?case
  proof (cases "n \<noteq> [] \<and> ev_node ev = n")
    case True
    have "logged_record evs n = zero_record" if "n \<notin> ev_node ` set evs"
      using last_of_absent [OF that] by (simp add: logged_record_def zero_record_def str_or_empty_def)
    then have "record_of (fold audit_event evs []) n = logged_record evs n"
      using True snoc by (auto simp: record_of_def)
    with True show ?thesis by (simp add: map_of_audit_event audit_record_snoc)
  next
    case False
    with snoc show ?thesis by (auto simp: map_of_audit_event logged_record_skip)
  qed
qed simp

lemma audit_events_distinct: "distinct (map fst (fold audit_event evs []))"
  by (induction evs rule: rev_induct) (simp_all add: audit_event_def Let_def distinct_update)

section \<open>The nodes of the workflow\<close>

definition audited :: "faults \<Rightarrow> bool \<Rightarrow> art_store \<Rightarrow> audit_node option \<Rightarrow> audit_node option" where
  "audited fault finished st r =
     (case r of
        None \<Rightarrow> Some (zero_record\<lparr>rec_state := if finished then StateSkipped else StatePending\<rparr>)
      | Some r \<Rightarrow>
          if rec_hash r = [] then Some r
          else (case get_artifact fault (rec_hash r) st of Inl e \<Rightarrow> None | Inr c \<Rightarrow> Some (r\<lparr>rec_content := c\<rparr>)))"

lemma audited_plain: "rec_hash r = [] \<Longrightarrow> audited fault fin st (Some r) = Some r"
  by (simp add: audited_def)

lemma audit_nodes_Cons:
  assumes "audit_nodes fault eid fin st (n # ns) (rs, c, t) = Inr x"
  obtains r where "audited fault fin st (map_of rs (node_id n)) = Some r"
    "audit_nodes fault eid fin st ns (AList.update (node_id n) r rs,
       c + rec_cost (record_of rs (node_id n)), wrap64 (t + rec_tokens (record_of rs (node_id n)))) = Inr x"
  | r where "audited fault fin st (map_of rs (node_id n)) = Some r" "map_of rs (node_id n) = None"
    "audit_nodes fault eid fin st ns (AList.update (node_id n) r rs, c, t) = Inr x"
  | r where "map_of rs (node_id n) = Some r" "rec_hash r = []"
    "audit_nodes fault eid fin st ns (rs, c + rec_cost r, wrap64 (t + rec_tokens r)) = Inr x"
  using assms
  by (auto simp: Let_def audited_def record_of_def split: option.splits if_splits sum.splits)

lemma wrap64_add [simp]: "wrap64 (wrap64 x + y) = wrap64 (x + y)"
  by (simp add: wrap64_def mod_simps algebra_simps)

lemma audit_nodes_correct:
  assumes "audit_nodes fault eid fin st ns (rs, c, t) = Inr (rs', c', t')"
    and "distinct (map node_id ns)" and "int64_range t"
  shows "(\<forall>i. map_of rs' i = (if i \<in> node_id ` set ns then audited fault fin st (map_of rs i) else map_of rs i)) \<and>
    (\<forall>n\<in>set ns. map_of rs' (node_id n) \<noteq> None) \<and>
    c' = c + (\<Sum>n\<leftarrow>ns. rec_cost (record_of rs (node_id n))) \<and>
    t' = wrap64 (t + (\<Sum>n\<leftarrow>ns. rec_tokens (record_of rs (node_id n))))"
  using assms
proof (induction ns arbitrary: rs c t)
  case (Cons n ns)
  let ?i = "node_id n"
  have fresh: "?i \<notin> node_id ` set ns" using Cons.prems(2) by auto
  have ne: "node_id m \<noteq> ?i" if "m \<in> set ns" for m using that fresh by (metis image_eqI)
  have keep: "record_of (AList.update ?i r rs) (node_id m) = record_of rs (node_id m)" if "m \<in> set ns" for m r
    using ne [OF that] by (simp add: record_of_def update_conv')
  have sums: "(\<Sum>m\<leftarrow>ns. f (record_of (AList.update ?i r rs) (node_id m))) = (\<Sum>m\<leftarrow>ns. f (record_of rs (node_id m)))"
    for f :: "audit_node \<Rightarrow> 'x::comm_monoid_add" and r
    using keep by (intro arg_cong [where f = sum_list]) simp
  from Cons.prems(1) show ?case
  proof (cases rule: audit_nodes_Cons)
    case (1 r)
    from Cons.IH [OF 1(2)] Cons.prems(2) 1(1) fresh show ?thesis
      by (auto simp: wrap64_in_range sums update_conv' ne algebra_simps)
  next
    case (2 r)
    have "record_of rs ?i = zero_record" using 2(2) by (simp add: record_of_def)
    with Cons.IH [OF 2(3)] Cons.prems(2,3) 2(1) fresh show ?thesis
      by (auto simp: sums update_conv' ne zero_record_def)
  next
    case (3 r)
    have "record_of rs ?i = r" using 3(1) by (simp add: record_of_def)
    with Cons.IH [OF 3(3)] Cons.prems(2) 3(1,2) fresh show ?thesis
      by (auto simp: wrap64_in_range audited_plain algebra_simps)
  qed
qed simp

section \<open>What an audit reports\<close>

lemma audit_cases:
  assumes "audit sdec edec fault lg st eid = Inr tln"
  obtains sn rs where "read_snapshot sdec eid lg = Inr sn" "read_all edec eid lg = Inr (tm_events tln)"
    "tm_workflow tln = sn_workflow sn" "tm_nodes tln = rs"
    "audit_nodes fault eid (\<exists>ev\<in>set (tm_events tln). ev_type ev = ExecutionFinished) st
       (wf_nodes (sn_workflow sn)) (fold audit_event (tm_events tln) [], 0, 0) = Inr (rs, tm_cost tln, tm_tokens tln)"
  using assms by (auto simp: audit_def split: sum.splits)

lemma audit_map:
  assumes "audit sdec edec fault lg st eid = Inr tln" and "distinct (map node_id (wf_nodes (tm_workflow tln)))"
  shows "map_of (tm_nodes tln) i =
      (let r = (if i \<noteq> [] \<and> i \<in> ev_node ` set (tm_events tln) then Some (logged_record (tm_events tln) i) else None)
       in if i \<in> node_id ` set (wf_nodes (tm_workflow tln))
          then audited fault (\<exists>ev\<in>set (tm_events tln). ev_type ev = ExecutionFinished) st r else r)"
    and "i \<in> node_id ` set (wf_nodes (tm_workflow tln)) \<Longrightarrow> map_of (tm_nodes tln) i \<noteq> None"
    and "tm_cost tln = (\<Sum>n\<leftarrow>wf_nodes (tm_workflow tln). rec_cost (record_of (tm_nodes tln) (node_id n)))"
    and "tm_tokens tln = wrap64 (\<Sum>n\<leftarrow>wf_nodes (tm_workflow tln). rec_tokens (record_of (tm_nodes tln) (node_id n)))"
proof -
  let ?ar = "fold audit_event (tm_events tln) []"
  let ?fin = "\<exists>ev\<in>set (tm_events tln). ev_type ev = ExecutionFinished"
  from assms(1) obtain sn rs where "read_snapshot sdec eid lg = Inr sn" "read_all edec eid lg = Inr (tm_events tln)"
    and sn: "tm_workflow tln = sn_workflow sn" and rs: "tm_nodes tln = rs"
    and nodes: "audit_nodes fault eid ?fin st (wf_nodes (sn_workflow sn)) (?ar, 0, 0) = Inr (rs, tm_cost tln, tm_tokens tln)"
    by (rule audit_cases)
  have "distinct (map node_id (wf_nodes (sn_workflow sn)))" "int64_range 0"
    using assms(2) sn by (simp_all add: int64_range_def)
  note all = audit_nodes_correct [OF nodes this]
  from all show "map_of (tm_nodes tln) i =
      (let r = (if i \<noteq> [] \<and> i \<in> ev_node ` set (tm_events tln) then Some (logged_record (tm_events tln) i) else None)
       in if i \<in> node_id ` set (wf_nodes (tm_workflow tln)) then audited fault ?fin st r else r)"
    unfolding rs sn audit_events_map Let_def by blast
  show "map_of (tm_nodes tln) i \<noteq> None" if "i \<in> node_id ` set (wf_nodes (tm_workflow tln))"
    using that all unfolding rs sn by blast
  have same: "rec_cost (record_of rs (node_id n)) = rec_cost (record_of ?ar (node_id n))"
    "rec_tokens (record_of rs (node_id n)) = rec_tokens (record_of ?ar (node_id n))"
    if "n \<in> set (wf_nodes (sn_workflow sn))" for n
    using that all
    by (auto simp: record_of_def audited_def zero_record_def split: option.splits sum.splits if_splits)
  show "tm_cost tln = (\<Sum>n\<leftarrow>wf_nodes (tm_workflow tln). rec_cost (record_of (tm_nodes tln) (node_id n)))"
    using all same(1) unfolding rs sn by (metis (no_types, lifting) add_0 map_eq_conv)
  show "tm_tokens tln = wrap64 (\<Sum>n\<leftarrow>wf_nodes (tm_workflow tln). rec_tokens (record_of (tm_nodes tln) (node_id n)))"
    using all same(2) unfolding rs sn by (metis (no_types, lifting) add_0 map_eq_conv)
qed

text \<open>An audit says what happened: for every node of the workflow it reports the last state,
  artifact, cost, tokens and error the log holds for it and the content the store returns for
  that artifact, or, without any event, skipped if the run ended and pending otherwise; the totals
  are the sums over the nodes, tokens in 64 bits.\<close>

theorem audit_reads_log:
  assumes "audit sdec edec fault lg st eid = Inr tln" and "distinct (map node_id (wf_nodes (tm_workflow tln)))"
    and "i \<in> node_id ` set (wf_nodes (tm_workflow tln))" and "i \<noteq> []"
  shows "map_of (tm_nodes tln) i \<noteq> None \<and>
    (if i \<in> ev_node ` set (tm_events tln)
     then \<exists>content. record_of (tm_nodes tln) i = (logged_record (tm_events tln) i)\<lparr>rec_content := content\<rparr> \<and>
       (if last_logged ''hash'' (tm_events tln) i \<in> {None, Some []} then content = []
        else get_artifact fault (str_or_empty (last_logged ''hash'' (tm_events tln) i)) st = Inr content)
     else record_of (tm_nodes tln) i =
       zero_record\<lparr>rec_state := if \<exists>ev\<in>set (tm_events tln). ev_type ev = ExecutionFinished
         then StateSkipped else StatePending\<rparr>) \<and>
    tm_cost tln = (\<Sum>n\<leftarrow>wf_nodes (tm_workflow tln). rec_cost (record_of (tm_nodes tln) (node_id n))) \<and>
    tm_tokens tln = wrap64 (\<Sum>n\<leftarrow>wf_nodes (tm_workflow tln). rec_tokens (record_of (tm_nodes tln) (node_id n)))"
proof -
  let ?rec = "logged_record (tm_events tln) i"
  note m = audit_map [OF assms(1,2)]
  have some: "map_of (tm_nodes tln) i \<noteq> None" using m(2) assms(3) .
  have hash: "rec_hash ?rec = str_or_empty (last_logged ''hash'' (tm_events tln) i)" "rec_content ?rec = []"
    by (simp_all add: logged_record_def)
  have "record_of (tm_nodes tln) i = zero_record\<lparr>rec_state := if \<exists>ev\<in>set (tm_events tln). ev_type ev = ExecutionFinished
         then StateSkipped else StatePending\<rparr>" if "i \<notin> ev_node ` set (tm_events tln)"
    using m(1) [of i] that assms(3) by (simp add: record_of_def audited_def)
  moreover have "\<exists>content. record_of (tm_nodes tln) i = ?rec\<lparr>rec_content := content\<rparr> \<and>
       (if last_logged ''hash'' (tm_events tln) i \<in> {None, Some []} then content = []
        else get_artifact fault (str_or_empty (last_logged ''hash'' (tm_events tln) i)) st = Inr content)"
    if "i \<in> ev_node ` set (tm_events tln)"
  proof (cases "rec_hash ?rec = []")
    case True
    then have "last_logged ''hash'' (tm_events tln) i \<in> {None, Some []}"
      by (auto simp: hash str_or_empty_def split: option.splits)
    moreover have "record_of (tm_nodes tln) i = ?rec\<lparr>rec_content := []\<rparr>"
      using m(1) [of i] that assms(3,4) True by (simp add: record_of_def audited_def hash(2) flip: hash(2))
    ultimately show ?thesis by auto
  next
    case False
    then have "last_logged ''hash'' (tm_events tln) i \<notin> {None, Some []}"
      by (auto simp: hash str_or_empty_def split: option.splits)
    moreover have "\<exists>c. get_artifact fault (rec_hash ?rec) st = Inr c \<and> record_of (tm_nodes tln) i = ?rec\<lparr>rec_content := c\<rparr>"
      using m(1) [of i] that assms(3,4) False some
      by (auto simp: record_of_def audited_def split: sum.splits)
    ultimately show ?thesis by (auto simp: hash)
  qed
  ultimately show ?thesis using some m(3,4) by auto
qed

text \<open>C9. From a node's run to its audit: if a node's run succeeded and its events were written to
  the log, an audit reports the node as succeeded, with the hash, type, content, cost and tokens
  that its run returned.\<close>

theorem audited_node_as_run:
  assumes "execute_node nenv req n s = Some (s', Inr res)" and "node_ok (ne_sum256 nenv) s"
    and "\<And>b. hash_bytes (ne_sum256 nenv) b = hash_bytes (ne_sum256 nenv) (nr_content res) \<Longrightarrow> b = nr_content res"
    and "js_ok js" and "node_logged js n (nx_events s') (tm_events tln)"
    and "artifacts st (nr_hash res) = artifacts (nx_store s') (nr_hash res)" and "nr_hash res \<noteq> []"
    and "audit sdec edec no_faults lg st eid = Inr tln"
    and "distinct (map node_id (wf_nodes (tm_workflow tln)))"
    and "n \<in> node_id ` set (wf_nodes (tm_workflow tln))" and "n \<noteq> []"
  shows "\<exists>msg. map_of (tm_nodes tln) n = Some
    \<lparr>rec_state = StateSucceeded, rec_hash = nr_hash res, rec_type = nr_type res, rec_content = nr_content res,
     rec_cost = nr_cost res, rec_tokens = nr_tokens res, rec_err = msg\<rparr>"
proof -
  note log = success_logged [OF execute_node_ends [OF assms(1)] assms(4,5)]
  have "artifacts st (nr_hash res) = Some (nr_content res)"
    using execute_node_ok(3) [OF assms(2,1) refl] assms(3,6) by simp
  then have get: "get_artifact no_faults (nr_hash res) st = Inr (nr_content res)"
    by (rule get_artifact_stored) (simp add: reads_ok_def no_faults_def)
  have ev: "n \<in> ev_node ` set (tm_events tln)" using log(4) by (auto simp: finished_in_def)
  have "logged_record (tm_events tln) n = \<lparr>rec_state = StateSucceeded, rec_hash = nr_hash res,
      rec_type = nr_type res, rec_content = [], rec_cost = nr_cost res, rec_tokens = nr_tokens res,
      rec_err = str_or_empty (last_of (failure_text n) (tm_events tln))\<rparr>"
    using log by (simp add: logged_record_def str_or_empty_def)
  then show ?thesis
    using audit_map(1) [OF assms(8,9), of n] ev assms(7,10,11) get by (simp add: audited_def)
qed

section \<open>The bundle\<close>

definition logged_hash :: "event \<Rightarrow> string" where
  "logged_hash ev =
     (if ev_type ev = ArtifactCreated then str_or_empty (payload_string (ev_payload ev) ''hash'') else [])"

lemma bundle_artifacts_entries:
  "bundle_artifacts tar fault eid st evs seen a = Inr a' \<Longrightarrow>
     \<exists>hs. a' = a @ map (\<lambda>h. (artifact_entry h, projr (get_artifact fault h st))) hs \<and> distinct hs \<and>
       set hs = logged_hash ` set evs - {[]} - set seen \<and> (\<forall>h\<in>set hs. \<exists>c. get_artifact fault h st = Inr c)"
proof (induction evs arbitrary: seen a)
  case (Cons ev evs)
  let ?h = "str_or_empty (payload_string (ev_payload ev) ''hash'')"
  show ?case
  proof (cases "ev_type ev \<noteq> ArtifactCreated \<or> ?h = [] \<or> ?h \<in> set seen")
    case True
    then have "logged_hash ev \<in> insert [] (set seen)" by (auto simp: logged_hash_def)
    then have same: "logged_hash ` set (ev # evs) - {[]} - set seen = logged_hash ` set evs - {[]} - set seen" by auto
    have "bundle_artifacts tar fault eid st evs seen a = Inr a'" using Cons.prems True by simp
    from Cons.IH [OF this] show ?thesis unfolding same .
  next
    case False
    with Cons.prems obtain c where c: "get_artifact fault ?h st = Inr c"
      and rest: "bundle_artifacts tar fault eid st evs (?h # seen) (a @ [(artifact_entry ?h, c)]) = Inr a'"
      by (auto simp: Let_def write_entry_def split: sum.splits option.splits)
    from Cons.IH [OF rest] obtain hs where hs: "a' = (a @ [(artifact_entry ?h, c)]) @
        map (\<lambda>h. (artifact_entry h, projr (get_artifact fault h st))) hs" "distinct hs"
      "set hs = logged_hash ` set evs - {[]} - set (?h # seen)" "\<forall>h\<in>set hs. \<exists>c. get_artifact fault h st = Inr c"
      by blast
    have "logged_hash ev = ?h" using False by (simp add: logged_hash_def)
    then have set: "set (?h # hs) = logged_hash ` set (ev # evs) - {[]} - set seen" using False hs(3) by auto
    show ?thesis
    proof (intro exI [of _ "?h # hs"] conjI)
      show "a' = a @ map (\<lambda>h. (artifact_entry h, projr (get_artifact fault h st))) (?h # hs)"
        by (simp add: hs(1) c)
      have "?h \<notin> set hs" unfolding hs(3) by simp
      with hs(2) show "distinct (?h # hs)" by simp
      show "\<forall>h\<in>set (?h # hs). \<exists>c. get_artifact fault h st = Inr c" using hs(4) c by simp
    qed (rule set)
  qed
qed (auto intro: exI [of _ "[]"])

lemma artifact_entry_inject [simp]: "artifact_entry h = artifact_entry h' \<longleftrightarrow> h = h'"
  by (simp add: artifact_entry_def)

lemma artifact_entry_other [simp]: "artifact_entry h \<noteq> ''snapshot.json''" "artifact_entry h \<noteq> ''events.jsonl''"
  by (simp_all add: artifact_entry_def)

lemma export_bundle_entries:
  assumes "export_bundle tar edec fault lg st eid = Inr a"
  obtains snap events evs hs where "lg_snapshot lg eid = Some snap" "lg_events lg eid = Some events"
    "read_all edec eid lg = Inr evs"
    "a = [(''snapshot.json'', snap), (''events.jsonl'', events)] @
       map (\<lambda>h. (artifact_entry h, projr (get_artifact fault h st))) hs"
    "distinct hs" "set hs = logged_hash ` set evs - {[]}"
    "\<And>h. h \<in> set hs \<Longrightarrow> \<exists>c. get_artifact fault h st = Inr c"
proof -
  from assms obtain snap events evs where files: "lg_snapshot lg eid = Some snap" "lg_events lg eid = Some events"
    "read_all edec eid lg = Inr evs"
    and arts: "bundle_artifacts tar fault eid st evs [] [(''snapshot.json'', snap), (''events.jsonl'', events)] = Inr a"
    by (auto simp: export_bundle_def raw_snapshot_def raw_events_def write_entry_def split: sum.splits option.splits)
  from bundle_artifacts_entries [OF arts] that files show thesis by fastforce
qed

text \<open>A workspace in which the files of an archive were put in place.\<close>

definition unpacked :: "archive \<Rightarrow> string \<Rightarrow> log_state \<Rightarrow> art_store \<Rightarrow> bool" where
  "unpacked a eid lg st \<longleftrightarrow>
     lg_snapshot lg eid = map_of a ''snapshot.json'' \<and> lg_events lg eid = map_of a ''events.jsonl'' \<and>
     (\<forall>h. map_of a (artifact_entry h) \<noteq> None \<longrightarrow> artifacts st h = map_of a (artifact_entry h))"

lemma audit_nodes_cong:
  assumes "\<And>r. r \<in> ran (map_of rs) \<Longrightarrow> rec_hash r \<noteq> [] \<Longrightarrow> get_artifact f (rec_hash r) st' = get_artifact f (rec_hash r) st"
  shows "audit_nodes f eid fin st' ns (rs, c, t) = audit_nodes f eid fin st ns (rs, c, t)"
  using assms
proof (induction ns arbitrary: rs c t)
  case (Cons n ns)
  let ?i = "node_id n"
  have step: "audit_nodes f eid fin st' ns (AList.update ?i r rs, c', t') = audit_nodes f eid fin st ns (AList.update ?i r rs, c', t')"
    if "rec_hash r \<noteq> [] \<Longrightarrow> get_artifact f (rec_hash r) st' = get_artifact f (rec_hash r) st" for r c' t'
    using that Cons.prems by (intro Cons.IH) (auto simp: ran_def update_conv' split: if_splits)
  show ?case
  proof (cases "map_of rs ?i")
    case None
    let ?z = "zero_record\<lparr>rec_state := if fin then StateSkipped else StatePending\<rparr>"
    have "audit_nodes f eid fin st' ns (AList.update ?i ?z rs, c, t) = audit_nodes f eid fin st ns (AList.update ?i ?z rs, c, t)"
      by (rule step) (simp split del: if_split)
    with None show ?thesis by (simp add: Let_def split del: if_split)
  next
    case (Some r)
    then have get: "rec_hash r \<noteq> [] \<Longrightarrow> get_artifact f (rec_hash r) st' = get_artifact f (rec_hash r) st"
      using Cons.prems by (auto simp: ran_def)
    have keep: "audit_nodes f eid fin st' ns (rs, c', t') = audit_nodes f eid fin st ns (rs, c', t')" for c' t'
      using Cons.prems by (rule Cons.IH)
    from Some get show ?thesis
      by (auto simp: Let_def keep step split: sum.split)
  qed
qed simp

lemma decode_lines_path: "decode_lines dec p n toks = Inr evs \<Longrightarrow> decode_lines dec q n toks = Inr evs"
  by (induction toks arbitrary: n evs) (auto simp: Let_def split: if_splits sum.splits)

lemma read_all_moved:
  assumes "read_all dec i lg = Inr evs" and "lg_events lg' i = lg_events lg i"
  shows "read_all dec i lg' = Inr evs"
proof -
  from assms(1) obtain content toks where "lg_events lg i = Some content" "scan_tokens content = (toks, False)"
    and toks: "decode_lines dec (events_path lg i) 0 toks = Inr evs"
    by (auto simp: read_all_def split: option.splits sum.splits prod.splits if_splits)
  with decode_lines_path [OF toks, of "events_path lg' i"] assms(2) show ?thesis by (simp add: read_all_def)
qed

lemma verify_lines_path: "verify_lines H dec i p n prev raws = None \<longleftrightarrow> verify_lines H dec i q n prev raws = None"
  by (induction raws arbitrary: n prev) (auto simp: Let_def split: sum.splits)

lemma log_verify_None:
  "log_verify H dec i lg = None \<longleftrightarrow>
     (\<exists>content raws. lg_events lg i = Some content \<and> scan_raw content = (raws, False) \<and>
        verify_lines H dec i (events_path lg i) 0 (snapshot_hash H lg i) raws = None)"
  by (auto simp: log_verify_def split: option.splits prod.splits)

lemma log_verify_moved:
  assumes "lg_events lg' i = lg_events lg i" and "lg_snapshot lg' i = lg_snapshot lg i"
  shows "log_verify H dec i lg' = None \<longleftrightarrow> log_verify H dec i lg = None"
proof -
  have "snapshot_hash H lg' i = snapshot_hash H lg i" using assms(2) by (simp add: snapshot_hash_def)
  then show ?thesis
    by (simp add: log_verify_None assms(1) verify_lines_path [of H dec i "events_path lg' i" _ _ _ "events_path lg i"])
qed

text \<open>A bundle alone is enough: wherever an exported bundle is unpacked, an audit there gives
  what it gives here, and the copied log verifies exactly if the original does.\<close>

theorem bundle_audits_alike:
  assumes "export_bundle tar edec no_faults lg st eid = Inr a" and "unpacked a eid lg' st'"
  shows "audit sdec edec no_faults lg' st' eid = audit sdec edec no_faults lg st eid \<and>
    (log_verify H edec eid lg' = None \<longleftrightarrow> log_verify H edec eid lg = None)"
proof -
  from assms(1) obtain snap events evs hs where files: "lg_snapshot lg eid = Some snap" "lg_events lg eid = Some events"
    and evs: "read_all edec eid lg = Inr evs"
    and a: "a = [(''snapshot.json'', snap), (''events.jsonl'', events)] @
       map (\<lambda>h. (artifact_entry h, projr (get_artifact no_faults h st))) hs"
    and hs: "distinct hs" "set hs = logged_hash ` set evs - {[]}"
    and got: "\<And>h. h \<in> set hs \<Longrightarrow> \<exists>c. get_artifact no_faults h st = Inr c"
    by (rule export_bundle_entries) blast
  have same: "lg_events lg' eid = lg_events lg eid" "lg_snapshot lg' eid = lg_snapshot lg eid"
    using assms(2) files unfolding unpacked_def a by simp_all
  have entry: "map_of a (artifact_entry h) = (if h \<in> set hs then Some (projr (get_artifact no_faults h st)) else None)" for h
    unfolding a using artifact_entry_other [of h, symmetric] by (induction hs) auto
  have get: "get_artifact no_faults h st' = get_artifact no_faults h st" if "h \<in> set hs" for h
  proof -
    from got [OF that] obtain c where c: "get_artifact no_faults h st = Inr c" by blast
    with entry [of h] that assms(2) have "artifacts st' h = Some c" by (simp add: unpacked_def)
    then have "get_artifact no_faults h st' = Inr c"
      by (rule get_artifact_stored) (simp add: reads_ok_def no_faults_def)
    with c show ?thesis by simp
  qed
  have rec: "rec_hash r \<in> insert [] (set hs)" if "r \<in> ran (map_of (fold audit_event evs []))" for r
  proof -
    from that obtain n where "r = logged_record evs n" by (auto simp: ran_def audit_events_map split: if_splits)
    moreover have "str_or_empty (last_logged ''hash'' evs n) \<in> insert [] (set hs)"
    proof (cases "last_logged ''hash'' evs n")
      case (Some h)
      then obtain ev where "ev \<in> set evs" "artifact_field ''hash'' n ev = Some h" by (rule last_of_Some)
      then have "h \<in> logged_hash ` set evs"
        by (force simp: artifact_field_def logged_hash_def str_or_empty_def split: if_splits)
      with Some show ?thesis by (auto simp: hs(2) str_or_empty_def)
    qed (simp add: str_or_empty_def)
    ultimately show ?thesis by (simp add: logged_record_def)
  qed
  have "audit_nodes no_faults eid fin st' ns (fold audit_event evs [], 0, 0) =
      audit_nodes no_faults eid fin st ns (fold audit_event evs [], 0, 0)" for fin ns
    using rec get by (intro audit_nodes_cong) blast
  moreover have "read_snapshot sdec eid lg' = read_snapshot sdec eid lg"
    using same(2) by (simp add: read_snapshot_def)
  ultimately have "audit sdec edec no_faults lg' st' eid = audit sdec edec no_faults lg st eid"
    using evs read_all_moved [OF evs same(1)]
    by (cases "read_snapshot sdec eid lg") (simp_all add: audit_def)
  with log_verify_moved [OF same] show ?thesis by blast
qed

section \<open>Divergence and re-execution\<close>

lemma audit_nodes_distinct:
  "audit_nodes fault eid fin st ns (rs, c, t) = Inr (rs', c', t') \<Longrightarrow> distinct (map fst rs) \<Longrightarrow> distinct (map fst rs')"
proof (induction ns arbitrary: rs c t)
  case (Cons n ns)
  from Cons.prems(1) show ?case
    by (cases rule: audit_nodes_Cons) (use Cons in \<open>auto simp: distinct_update\<close>)
qed simp

lemma audit_distinct:
  assumes "audit sdec edec fault lg st eid = Inr tln"
  shows "distinct (map fst (tm_nodes tln))"
proof -
  from assms obtain sn rs where "read_snapshot sdec eid lg = Inr sn" "read_all edec eid lg = Inr (tm_events tln)"
    and "tm_workflow tln = sn_workflow sn" and rs: "tm_nodes tln = rs"
    and nodes: "audit_nodes fault eid (\<exists>ev\<in>set (tm_events tln). ev_type ev = ExecutionFinished) st
       (wf_nodes (sn_workflow sn)) (fold audit_event (tm_events tln) [], 0, 0) = Inr (rs, tm_cost tln, tm_tokens tln)"
    by (rule audit_cases)
  show ?thesis unfolding rs by (rule audit_nodes_distinct [OF nodes audit_events_distinct])
qed

lemma map_of_entry:
  assumes "distinct (map fst xs)" and "(k, v) \<in> set xs"
  shows "map_of xs k = Some v"
  using assms by simp

text \<open>The comparison of two audits lists every node of either exactly once: removed if only the
  original has it, added if only the new run has it, cached if both recorded the same artifact,
  and re-executed otherwise, with the hashes and contents both recorded.\<close>

theorem divergence_exact:
  assumes "audit sdec edec fault lg st old = Inr a" and "audit sdec edec fault lg st new = Inr b"
  shows "distinct (map dv_node (divergence a b)) \<and>
    dv_node ` set (divergence a b) = fst ` set (tm_nodes a) \<union> fst ` set (tm_nodes b) \<and>
    (\<forall>d\<in>set (divergence a b).
       let x = map_of (tm_nodes a) (dv_node d); y = map_of (tm_nodes b) (dv_node d);
           r = record_of (tm_nodes a) (dv_node d); r' = record_of (tm_nodes b) (dv_node d) in
       dv_status d = (if y = None then Removed else if x = None then Added
         else if rec_hash r = rec_hash r' \<and> rec_hash r \<noteq> [] then Cached else ReExecuted) \<and>
       (dv_old_hash d, dv_old_content d) = (rec_hash r, rec_content r) \<and>
       (dv_new_hash d, dv_new_content d) = (rec_hash r', rec_content r'))"
proof -
  let ?new = "filter (\<lambda>(i, n). i \<notin> fst ` set (tm_nodes a)) (tm_nodes b)"
  note da = audit_distinct [OF assms(1)] and db = audit_distinct [OF assms(2)]
  have node: "dv_node (diverge (tm_nodes b) p) = fst p" for p
    by (auto simp: diverge_def split: prod.splits option.splits)
  have names: "map dv_node (divergence a b) = map fst (tm_nodes a) @ map fst ?new"
    by (simp add: divergence_def node comp_def case_prod_unfold)
  have "distinct (map fst ?new)" using db by (simp add: distinct_map_filter)
  moreover have "set (map fst (tm_nodes a)) \<inter> set (map fst ?new) = {}" by force
  ultimately have "distinct (map dv_node (divergence a b))" using da by (simp only: names distinct_append)
  moreover have "dv_node ` set (divergence a b) = set (map fst (tm_nodes a) @ map fst ?new)"
    by (simp only: names [symmetric] set_map)
  then have "dv_node ` set (divergence a b) = fst ` set (tm_nodes a) \<union> fst ` set (tm_nodes b)" by force
  moreover have "let x = map_of (tm_nodes a) (dv_node d); y = map_of (tm_nodes b) (dv_node d);
           r = record_of (tm_nodes a) (dv_node d); r' = record_of (tm_nodes b) (dv_node d) in
       dv_status d = (if y = None then Removed else if x = None then Added
         else if rec_hash r = rec_hash r' \<and> rec_hash r \<noteq> [] then Cached else ReExecuted) \<and>
       (dv_old_hash d, dv_old_content d) = (rec_hash r, rec_content r) \<and>
       (dv_new_hash d, dv_new_content d) = (rec_hash r', rec_content r')" if "d \<in> set (divergence a b)" for d
  proof -
    from that consider (old) i r where "(i, r) \<in> set (tm_nodes a)" "d = diverge (tm_nodes b) (i, r)"
      | (added) i r where "(i, r) \<in> set (tm_nodes b)" "i \<notin> fst ` set (tm_nodes a)"
        "d = \<lparr>dv_node = i, dv_status = Added, dv_old_hash = [], dv_new_hash = rec_hash r,
              dv_old_content = [], dv_new_content = rec_content r\<rparr>"
      by (auto simp: divergence_def)
    then show ?thesis
    proof cases
      case old
      with map_of_entry [OF da old(1)] show ?thesis
        by (cases "map_of (tm_nodes b) i") (auto simp: diverge_def record_of_def zero_record_def Let_def)
    next
      case added
      then have "map_of (tm_nodes a) i = None" by (simp add: map_of_eq_None_iff)
      with added map_of_entry [OF db added(1)] show ?thesis
        by (simp add: record_of_def zero_record_def Let_def)
    qed
  qed
  ultimately show ?thesis by blast
qed

text \<open>A re-execution does not get the inputs of the original run: a required input without a
  default fails it, although the snapshot has the value the original run used.\<close>

theorem reexecute_loses_inputs:
  assumes "read_snapshot sdec old lg = Inr sn" and "d \<in> set (wf_inputs (sn_workflow sn))"
    and "in_required d" and "in_default d = []" and "distinct (map in_name (wf_inputs (sn_workflow sn)))"
    and "sn_inputs sn (in_name d) = Some v"
  shows "\<exists>env' r e. reexecute sdec lg env ws old new now parent = Inr (env', Inl (r, e))"
proof -
  from assms(2) obtain xs ys where d: "wf_inputs (sn_workflow sn) = xs @ d # ys" by (meson split_list)
  then have "in_name d \<notin> in_name ` set xs" using assms(5) by simp
  then have "in_name p \<noteq> in_name d" if "p \<in> set xs" for p using that by (metis image_eqI)
  with assms(3,4) have "unsatisfied Map.empty xs d" by (simp add: unsatisfied_def)
  with d obtain e where e: "resolve_workflow_inputs (wf_inputs (sn_workflow sn)) Map.empty = Inl e"
    using resolve_inputs_error_iff [of "wf_inputs (sn_workflow sn)" Map.empty] by blast
  let ?env = "env\<lparr>se_wf := sn_workflow sn, se_opts := reexecute_opts new sn\<rparr>"
  have "\<exists>r err. run_begin ?env ws [] True now parent = Inl (r, err)"
    using e by (simp add: run_begin_def reexecute_opts_def Let_def failed_early_def)
  then show ?thesis by (simp add: reexecute_def assms(1) Let_def)
qed

section \<open>A recorded run\<close>

text \<open>A log whose \<open>k\<close>-th line has \<open>k\<close> characters and decodes to the \<open>k\<close>-th event.\<close>

definition replay_dec :: "event list \<Rightarrow> bytes \<Rightarrow> err + event" where
  "replay_dec evs l =
     (if l \<noteq> [] \<and> length l \<le> length evs then Inr (evs ! (length l - 1)) else Inl (EMsg ''bad line''))"

definition replay_lines :: "nat \<Rightarrow> bytes list" where
  "replay_lines n = map (\<lambda>k. replicate (Suc k) CHR ''x'') [0..<n]"

definition replay_log :: "event list \<Rightarrow> log_state" where
  "replay_log evs = (new_log ''w'')\<lparr>lg_events := [''e'' \<mapsto> file_of (replay_lines (length evs))],
     lg_snapshot := [''e'' \<mapsto> ''s'']\<rparr>"

lemma replay_read:
  assumes "length evs < 100"
  shows "read_all (replay_dec evs) ''e'' (replay_log evs) = Inr evs"
proof -
  have "trim_space (CHR ''x'' # replicate k CHR ''x'') = CHR ''x'' # replicate k CHR ''x''" for k
    by (rule trim_space_id) (simp add: is_space_def)
  then have ok: "\<forall>l\<in>set (replay_lines (length evs)). line_ok l"
    using assms by (auto simp: replay_lines_def line_ok_def newline_def max_line_def)
  have "map (replay_dec evs) (replay_lines (length evs)) = map (\<lambda>k. Inr (evs ! k)) [0..<length evs]"
    by (simp add: replay_lines_def replay_dec_def)
  also have "\<dots> = map Inr (map (\<lambda>k. evs ! k) [0..<length evs])" by simp
  finally have dec: "map (replay_dec evs) (replay_lines (length evs)) = map Inr evs" by (simp only: map_nth)
  from scan_tokens_file [OF ok] decode_lines_file [OF ok dec] show ?thesis
    by (simp add: read_all_def replay_log_def)
qed

lemma replay_snapshot: "read_snapshot (\<lambda>_. Inr sn) ''e'' (replay_log evs) = Inr sn"
  by (simp add: read_snapshot_def replay_log_def)

definition replay_audit :: "event list \<Rightarrow> err + timeline" where
  "replay_audit evs =
     audit (\<lambda>_. Inr resume_snapshot) (replay_dec evs) no_faults (replay_log evs) resume_store ''e''"

definition replay_record :: audit_node where
  "replay_record = \<lparr>rec_state = StateSucceeded, rec_hash = ''616263'', rec_type = ''text'', rec_content = ''abc'',
     rec_cost = 1, rec_tokens = 2, rec_err = []\<rparr>"

definition replay_timeline :: timeline where
  "replay_timeline =
     \<lparr>tm_exec = ''e'', tm_workflow = sample_wf, tm_budget = wf_budget sample_wf, tm_events = resume_events,
      tm_nodes = [(''a'', replay_record), (''b'', zero_record)], tm_cost = 1, tm_tokens = 2,
      tm_hashes = Map.empty, tm_workers = Map.empty, tm_inputs = Map.empty, tm_connections = Map.empty\<rparr>"

lemma replay_audit_events: "fold audit_event resume_events [] =
    [(''a'', replay_record\<lparr>rec_content := []\<rparr>), (''b'', zero_record)]"
  by (simp add: resume_events_def audit_event_def audit_record_def record_of_def zero_record_def replay_record_def
      payload_string_def payload_float_def trunc_rat_def Let_def)

lemma replay_audit_sample: "replay_audit resume_events = Inr replay_timeline"
proof -
  have "length resume_events < 100" by (simp add: resume_events_def)
  note read = replay_read [OF this]
  have fin: "\<not> (\<exists>ev\<in>set resume_events. ev_type ev = ExecutionFinished)" by (simp add: resume_events_def)
  have wrap: "wrap64 2 = 2" by (simp add: int64_range_def)
  have nodes: "wf_nodes (sn_workflow resume_snapshot) = [sample_node ''a'', sample_node ''b'']"
    by (simp add: resume_snapshot_def sample_wf_def)
  have "audit_nodes no_faults ''e'' False resume_store [sample_node ''a'', sample_node ''b'']
      ([(''a'', replay_record\<lparr>rec_content := []\<rparr>), (''b'', zero_record)], 0, 0) =
      Inr ([(''a'', replay_record), (''b'', zero_record)], 1, 2)"
    by (simp add: sample_node_def replay_record_def resume_store_get zero_record_def wrap Let_def)
  then show ?thesis
    using read fin nodes
    by (simp add: replay_audit_def audit_def replay_snapshot replay_audit_events replay_timeline_def resume_snapshot_def)
qed

lemma replay_distinct: "distinct (map node_id (wf_nodes (tm_workflow replay_timeline)))"
  by (simp add: replay_timeline_def sample_wf_def sample_node_def)

theorem audit_reads_log_witness:
  "replay_audit resume_events = Inr replay_timeline \<and>
   rec_state (record_of (tm_nodes replay_timeline) ''a'') = StateSucceeded \<and>
   tm_tokens replay_timeline = wrap64 (\<Sum>n\<leftarrow>wf_nodes sample_wf. rec_tokens (record_of (tm_nodes replay_timeline) (node_id n)))"
proof -
  have "''a'' \<in> node_id ` set (wf_nodes (tm_workflow replay_timeline))"
    by (simp add: replay_timeline_def sample_wf_def sample_node_def)
  note facts = audit_reads_log [OF replay_audit_sample [unfolded replay_audit_def] replay_distinct this]
  have "rec_state (record_of (tm_nodes replay_timeline) ''a'') = StateSucceeded"
    by (simp add: replay_timeline_def record_of_def replay_record_def)
  moreover have "wf_nodes (tm_workflow replay_timeline) = wf_nodes sample_wf" by (simp add: replay_timeline_def)
  ultimately show ?thesis using facts replay_audit_sample by simp
qed

theorem divergence_exact_witness:
  "dv_node ` set (divergence replay_timeline replay_timeline) = {''a'', ''b''} \<and>
   map dv_status (divergence replay_timeline replay_timeline) = [Cached, ReExecuted]"
proof -
  note same = replay_audit_sample [unfolded replay_audit_def]
  have "map dv_status (divergence replay_timeline replay_timeline) = [Cached, ReExecuted]" by code_simp
  moreover have "fst ` set (tm_nodes replay_timeline) = {''a'', ''b''}" by (simp add: replay_timeline_def)
  ultimately show ?thesis using divergence_exact [OF same same] by simp
qed

text \<open>The bundle of the recorded run, unpacked into an empty workspace.\<close>

definition replay_bundle :: archive where
  "replay_bundle = [(''snapshot.json'', ''s''), (''events.jsonl'', file_of (replay_lines 3)),
     (''artifacts/616263'', ''abc'')]"

theorem bundle_audits_alike_witness:
  "export_bundle (\<lambda>_. None) (replay_dec resume_events) no_faults (replay_log resume_events) resume_store ''e'' =
     Inr replay_bundle \<and>
   audit (\<lambda>_. Inr resume_snapshot) (replay_dec resume_events) no_faults
     ((new_log ''elsewhere'')\<lparr>lg_events := [''e'' \<mapsto> file_of (replay_lines 3)], lg_snapshot := [''e'' \<mapsto> ''s'']\<rparr>)
     resume_store ''e'' = Inr replay_timeline"
proof -
  let ?lg = "(new_log ''elsewhere'')\<lparr>lg_events := [''e'' \<mapsto> file_of (replay_lines 3)], lg_snapshot := [''e'' \<mapsto> ''s'']\<rparr>"
  have len: "length resume_events = 3" by (simp add: resume_events_def)
  then have "length resume_events < 100" by simp
  note read = replay_read [OF this]
  have arts: "bundle_artifacts (\<lambda>_. None) no_faults ''e'' resume_store resume_events []
      [(''snapshot.json'', ''s''), (''events.jsonl'', file_of (replay_lines 3))] = Inr replay_bundle"
    by (simp add: resume_events_def Let_def payload_string_def str_or_empty_def resume_store_get write_entry_def
        artifact_entry_def replay_bundle_def)
  have exported: "export_bundle (\<lambda>_. None) (replay_dec resume_events) no_faults (replay_log resume_events) resume_store ''e'' =
      Inr replay_bundle"
    using read arts len
    by (simp add: export_bundle_def raw_snapshot_def raw_events_def write_entry_def replay_log_def)
  have stored: "artifacts resume_store ''616263'' = Some ''abc''"
    using resume_store_get by (auto simp: get_artifact_def artifacts_def no_faults_def is_tmp_def tmp_prefix_def
        has_prefix_def split: option.splits)
  have "unpacked replay_bundle ''e'' ?lg resume_store"
    using stored by (auto simp: unpacked_def replay_bundle_def artifact_entry_def)
  from bundle_audits_alike [OF exported this] replay_audit_sample exported show ?thesis
    by (simp add: replay_audit_def)
qed

section \<open>A recorded node\<close>

lemma sample_run_events:
  assumes "execute_node sample_node_env (sample_node_request ''n'') ''n'' sample_node_start = Some (s', r)"
  shows "map fst (nx_events s') = [WorkerStarted, CacheMiss, ArtifactCreated, WorkerFinished]"
proof -
  obtain st where st: "put (\<lambda>b. b) no_faults ''1'' 7 ''abc'' sample_store = (Inr ''616263'', st)"
    using sample_node_put by blast
  have start: "nx_cache sample_node_start = Some (new_cache DiskNone)" "nx_store sample_node_start = sample_store"
    "nx_world sample_node_start = 0" "nx_events sample_node_start = []"
    by (simp_all add: sample_node_start_def)
  have env: "ne_sum256 sample_node_env = (\<lambda>b. b)" "ne_write sample_node_env = (no_faults, ''1'', 7)"
    by (simp_all add: sample_node_env_def)
  let ?s1 = "node_emit CacheMiss [(''key'', JStr ''n'')] (node_emit WorkerStarted [] sample_node_start\<lparr>nx_cache :=
      Some \<lparr>ca_loaded = True, ca_index = [], ca_disk = DiskNone\<rparr>\<rparr>)"
  let ?s2 = "?s1\<lparr>nx_feedback := [], nx_world := 1,
      nx_result := zero_result\<lparr>nr_content := ''abc'', nr_cost := 1 / 50, nr_tokens := 9\<rparr>\<rparr>"
  have "execute_node sample_node_env (sample_node_request ''n'') ''n'' sample_node_start =
      Some (node_commit sample_node_env ''n'' ''n'' ?s2)"
    using start by (simp add: execute_node_def sample_node_key sample_node_miss sample_node_retry Let_def)
  with assms have "s' = fst (node_commit sample_node_env ''n'' ''n'' ?s2)" by simp
  moreover have "map fst (nx_events (fst (node_commit sample_node_env ''n'' ''n'' ?s2))) =
      [WorkerStarted, CacheMiss, ArtifactCreated, WorkerFinished]"
    using st start env
    by (simp add: node_commit_def node_record_def node_finished_def node_emit_def zero_result_def Let_def
        split: option.split)
  ultimately show ?thesis by simp
qed

definition one_node_snapshot :: snapshot where
  "one_node_snapshot = resume_snapshot\<lparr>sn_workflow := sample_wf\<lparr>wf_nodes := [sample_node ''n''], wf_edges := []\<rparr>\<rparr>"

theorem audited_node_as_run_witness:
  "\<exists>s' tln msg. execute_node sample_node_env (sample_node_request ''n'') ''n'' sample_node_start =
       Some (s', Inr sample_node_result) \<and>
     audit (\<lambda>_. Inr one_node_snapshot) (replay_dec (sample_logged ''n'' (nx_events s'))) no_faults
       (replay_log (sample_logged ''n'' (nx_events s'))) (nx_store s') ''e'' = Inr tln \<and>
     map_of (tm_nodes tln) ''n'' = Some \<lparr>rec_state = StateSucceeded, rec_hash = ''616263'', rec_type = [],
       rec_content = ''abc'', rec_cost = 1 / 50, rec_tokens = 9, rec_err = msg\<rparr>"
proof -
  obtain s' c1 where run: "execute_node sample_node_env (sample_node_request ''n'') ''n'' sample_node_start =
      Some (s', Inr sample_node_result)"
    by (rule sample_node_run)
  have sum: "ne_sum256 sample_node_env = (\<lambda>b. b)" by (simp add: sample_node_env_def)
  have res: "nr_content sample_node_result = ''abc''" "nr_hash sample_node_result = ''616263''"
    "nr_type sample_node_result = []" "nr_cost sample_node_result = 1 / 50" "nr_tokens sample_node_result = 9"
    by (simp_all add: sample_node_result_def zero_result_def)
  have coll: "b = nr_content sample_node_result"
    if "hash_bytes (ne_sum256 sample_node_env) b = hash_bytes (ne_sum256 sample_node_env) (nr_content sample_node_result)"
    for b using that sum by (simp add: hash_bytes_def)
  note ok = sample_node_ok [folded sum]
  let ?evs = "sample_logged ''n'' (nx_events s')"
  note log = success_logged [OF execute_node_ends [OF run] sample_logged_ok]
  have "artifacts (nx_store s') ''616263'' = Some ''abc''"
    using execute_node_ok(3) [OF ok run refl] coll unfolding res by blast
  then have get: "get_artifact no_faults ''616263'' (nx_store s') = Inr ''abc''"
    by (rule get_artifact_stored) (simp add: reads_ok_def no_faults_def)
  have "length ?evs = length (map fst (nx_events s'))" by (simp add: sample_logged_def)
  then have "length ?evs < 100" unfolding sample_run_events [OF run] by simp
  note read = replay_read [OF this]
  have "''n'' \<in> ev_node ` set ?evs" using log(4) [of "''n''"] unfolding finished_in_def by (metis image_eqI)
  then have rec: "map_of (fold audit_event ?evs []) ''n'' = Some (logged_record ?evs ''n'')"
    by (simp add: audit_events_map)
  have hash: "rec_hash (logged_record ?evs ''n'') = ''616263''"
    using log(1) [of "''n''"] res by (simp add: logged_record_def str_or_empty_def)
  have nodes: "wf_nodes (sn_workflow one_node_snapshot) = [sample_node ''n'']"
    by (simp add: one_node_snapshot_def)
  have "\<exists>rs c t. audit_nodes no_faults ''e'' (\<exists>ev\<in>set ?evs. ev_type ev = ExecutionFinished) (nx_store s')
      [sample_node ''n''] (fold audit_event ?evs [], 0, 0) = Inr (rs, c, t)"
    using rec hash get by (simp add: sample_node_def Let_def)
  then obtain tln where tln: "audit (\<lambda>_. Inr one_node_snapshot) (replay_dec ?evs) no_faults (replay_log ?evs)
      (nx_store s') ''e'' = Inr tln" "tm_events tln = ?evs" "tm_workflow tln = sn_workflow one_node_snapshot"
    using read by (auto simp: audit_def replay_snapshot nodes)
  have ids: "distinct (map node_id (wf_nodes (tm_workflow tln)))"
    "''n'' \<in> node_id ` set (wf_nodes (tm_workflow tln))"
    unfolding tln(3) nodes by (simp_all add: sample_node_def)
  have logged: "node_logged sample_js ''n'' (nx_events s') (tm_events tln)"
    unfolding tln(2) by (rule sample_logged_ok)
  have ne: "nr_hash sample_node_result \<noteq> []" "''n'' \<noteq> []" using res by simp_all
  from audited_node_as_run [OF run ok coll sample_logged_ok(1) logged refl ne(1) tln(1) ids ne(2)]
  obtain msg where "map_of (tm_nodes tln) ''n'' = Some \<lparr>rec_state = StateSucceeded, rec_hash = ''616263'', rec_type = [],
       rec_content = ''abc'', rec_cost = 1 / 50, rec_tokens = 9, rec_err = msg\<rparr>"
    unfolding res by blast
  with run tln(1) show ?thesis by blast
qed

end
