(* ===== verification/RunEvents.thy ===== *)
theory RunEvents
  imports ToolExec Replay BudgetTracker "HOL-Library.Sublist"
begin

text \<open>
  What the control plane (\<open>core/server\<close>) reads off an execution's log: the summary of a run, its
  progress, its approval checkpoints, the cache keys it touched, and the stream of its events to a
  client. All of these are folds over the list of events; where a log is read, its outcome is an
  argument. Where the code collects the keys of a Go map, the order is that of the events.
\<close>

section \<open>The summary of a run\<close>

record exec_summary =
  su_id :: string
  su_workflow :: string
  su_version :: string
  su_state :: string
  su_cost :: rat
  su_tokens :: int
  su_duration :: int

definition zero_summary :: "string \<Rightarrow> exec_summary" where
  "zero_summary i = \<lparr>su_id = i, su_workflow = [], su_version = [], su_state = [], su_cost = 0, su_tokens = 0,
     su_duration = 0\<rparr>"

text \<open>\<open>Time.Sub\<close> saturates at the ends of a \<open>Duration\<close>.\<close>

definition time_sub :: "int \<Rightarrow> int \<Rightarrow> int" where
  "time_sub a b = max (- (2 ^ 63)) (min (2 ^ 63 - 1) (a - b))"

text \<open>The loop's state: the summary, \<open>startedAt\<close> and \<open>finishedAt\<close>.\<close>

definition summarize_step :: "event \<Rightarrow> exec_summary \<times> int \<times> int \<Rightarrow> exec_summary \<times> int \<times> int" where
  "summarize_step ev acc =
     (case acc of (s, started, finished) \<Rightarrow>
        if ev_type ev = ExecutionStarted then
          (s\<lparr>su_workflow := string_payload (ev_payload ev) ''workflow'',
             su_version := string_payload (ev_payload ev) ''version''\<rparr>, ev_time ev, finished)
        else if ev_type ev = ExecutionFinished then
          ((case payload_string (ev_payload ev) ''state'' of Some st \<Rightarrow> s\<lparr>su_state := st\<rparr> | None \<Rightarrow> s),
           started, ev_time ev)
        else if ev_type ev = WorkerFinished then
          (let s = (case payload_float (ev_payload ev) ''costUsd'' of
                      Some c \<Rightarrow> s\<lparr>su_cost := su_cost s + c\<rparr> | None \<Rightarrow> s)
           in (case payload_float (ev_payload ev) ''tokens'' of
                 Some t \<Rightarrow> s\<lparr>su_tokens := wrap64 (su_tokens s + trunc_rat t)\<rparr> | None \<Rightarrow> s),
           started, finished)
        else (s, started, finished))"

definition summarize_events :: "string \<Rightarrow> event list \<Rightarrow> exec_summary" where
  "summarize_events i evs =
     (case fold summarize_step evs ((zero_summary i)\<lparr>su_state := ''running''\<rparr>, 0, 0) of
        (s, started, finished) \<Rightarrow>
          if started \<noteq> 0 \<and> finished \<noteq> 0
          then s\<lparr>su_duration := millis (time_sub finished started)\<rparr> else s)"

definition summarize_log :: "string \<Rightarrow> err + event list \<Rightarrow> exec_summary" where
  "summarize_log i history = (case history of Inl e \<Rightarrow> zero_summary i | Inr evs \<Rightarrow> summarize_events i evs)"

section \<open>Progress\<close>

record progress =
  pr_state :: string
  pr_running :: bool
  pr_total :: nat
  pr_completed :: nat
  pr_running_nodes :: "string list"
  pr_last_ms :: int

text \<open>Nanoseconds from Go's zero time to the Unix epoch.\<close>

definition unix_epoch :: int where
  "unix_epoch = 62135596800 * 1000000000"

definition node_starts :: "event \<Rightarrow> bool" where
  "node_starts ev \<longleftrightarrow> ev_node ev \<noteq> [] \<and> ev_type ev = WorkerStarted"

definition node_ends :: "event \<Rightarrow> bool" where
  "node_ends ev \<longleftrightarrow> ev_node ev \<noteq> [] \<and> (ev_type ev = WorkerFinished \<or> ev_type ev = Failure)"

definition progress_step ::
  "event \<Rightarrow> string list \<times> string list \<times> int \<Rightarrow> string list \<times> string list \<times> int" where
  "progress_step ev acc =
     (case acc of (started, term, last_t) \<Rightarrow>
        let last_t = max last_t (ev_time ev) in
        if node_starts ev then (List.insert (ev_node ev) started, term, last_t)
        else if node_ends ev then (started, List.insert (ev_node ev) term, last_t)
        else (started, term, last_t))"

definition derive_progress :: "event list \<Rightarrow> nat \<Rightarrow> progress" where
  "derive_progress evs n_nodes =
     (case fold progress_step evs ([], [], 0) of (started, term, last_t) \<Rightarrow>
        \<lparr>pr_state = [], pr_running = False, pr_total = n_nodes, pr_completed = length term,
         pr_running_nodes = filter (\<lambda>n. n \<notin> set term) started,
         pr_last_ms = (if last_t = 0 then 0 else (last_t - unix_epoch) div 1000000)\<rparr>)"

section \<open>Approval checkpoints\<close>

record approval =
  ap_checkpoint :: string
  ap_node :: string
  ap_tool :: string
  ap_status :: string
  ap_mutation :: "payload option"
  ap_input :: gval

definition zero_approval :: approval where
  "zero_approval = \<lparr>ap_checkpoint = [], ap_node = [], ap_tool = [], ap_status = [], ap_mutation = None,
     ap_input = JNull\<rparr>"

definition payload_map :: "payload \<Rightarrow> string \<Rightarrow> payload option" where
  "payload_map p k = (case map_of p k of Some (JObj m) \<Rightarrow> Some m | _ \<Rightarrow> None)"

text \<open>A nil interface, where a key is absent, is the same as a JSON null.\<close>

definition payload_any :: "payload \<Rightarrow> string \<Rightarrow> gval" where
  "payload_any p k = (case map_of p k of Some v \<Rightarrow> v | None \<Rightarrow> JNull)"

definition approvals_step :: "event \<Rightarrow> (string \<times> approval) list \<Rightarrow> (string \<times> approval) list" where
  "approvals_step ev m =
     (let i = string_payload (ev_payload ev) ''checkpointId'' in
      if ev_type ev = ApprovalRequested then
        if i = [] then m
        else AList.update i
          \<lparr>ap_checkpoint = i, ap_node = ev_node ev, ap_tool = string_payload (ev_payload ev) ''tool'',
           ap_status = ''pending'', ap_mutation = payload_map (ev_payload ev) ''mutation'',
           ap_input = payload_any (ev_payload ev) ''input''\<rparr> m
      else if ev_type ev = ApprovalGranted \<or> ev_type ev = ApprovalRejected then
        if i = [] then m
        else
          let a = (case map_of m i of None \<Rightarrow> zero_approval | Some a \<Rightarrow> a)
          in AList.update i
            (a\<lparr>ap_checkpoint := i, ap_node := ev_node ev, ap_tool := string_payload (ev_payload ev) ''tool'',
               ap_status := (if ev_type ev = ApprovalGranted then ''granted'' else ''rejected'')\<rparr>) m
      else m)"

definition approvals :: "err + event list \<Rightarrow> err + (string \<times> approval) list" where
  "approvals history = (case history of Inl e \<Rightarrow> Inl e | Inr evs \<Rightarrow> Inr (fold approvals_step evs []))"

section \<open>Cache keys of an execution\<close>

definition cache_keys_for_execution :: "err + event list \<Rightarrow> string \<Rightarrow> string list" where
  "cache_keys_for_execution history nid =
     (case history of
        Inl e \<Rightarrow> []
      | Inr evs \<Rightarrow>
          concat (map (\<lambda>ev.
            if ev_type ev \<noteq> CacheHit \<and> ev_type ev \<noteq> CacheMiss then []
            else if nid \<noteq> [] \<and> ev_node ev \<noteq> nid then []
            else case payload_string (ev_payload ev) ''key'' of
              Some k \<Rightarrow> if k \<noteq> [] then [k] else []
            | None \<Rightarrow> []) evs))"

section \<open>The event stream\<close>

text \<open>One tick of \<open>handleEvents\<close> on a connection whose writes succeed: \<open>sent\<close> events have been
  written; the tick writes the rest of what the log holds and closes after an \<open>ExecutionFinished\<close>
  unless the run is in flight at that moment (\<open>running\<close>, by the position of the event).\<close>

fun stream_rest :: "(nat \<Rightarrow> bool) \<Rightarrow> nat \<Rightarrow> event list \<Rightarrow> event list \<times> bool" where
  "stream_rest running i [] = ([], False)"
| "stream_rest running i (ev # evs) =
     (if ev_type ev = ExecutionFinished \<and> \<not> running i then ([ev], True)
      else case stream_rest running (Suc i) evs of (out, c) \<Rightarrow> (ev # out, c))"

definition stream_tick :: "err + event list \<Rightarrow> (nat \<Rightarrow> bool) \<Rightarrow> nat \<Rightarrow> event list \<times> bool" where
  "stream_tick history running sent =
     (case history of Inl e \<Rightarrow> ([], False) | Inr evs \<Rightarrow> stream_rest running sent (drop sent evs))"

text \<open>The connection over a sequence of ticks: everything written so far, and whether it was shut.\<close>

type_synonym tick = "(err + event list) \<times> (nat \<Rightarrow> bool)"

fun stream :: "tick \<Rightarrow> event list \<times> bool \<Rightarrow> event list \<times> bool" where
  "stream (history, running) (out, shut) =
     (if shut then (out, shut)
      else case stream_tick history running (length out) of (new, c) \<Rightarrow> (out @ new, c))"

section \<open>The stream is the log\<close>

text \<open>What the log reads as only grows; a tick that cannot read it tells nothing.\<close>

fun log_grows :: "event list \<Rightarrow> tick list \<Rightarrow> bool" where
  "log_grows evs [] = True"
| "log_grows evs ((Inl e, r) # ts) = log_grows evs ts"
| "log_grows evs ((Inr evs', r) # ts) = (prefix evs evs' \<and> log_grows evs' ts)"

fun last_read :: "event list \<Rightarrow> tick list \<Rightarrow> event list" where
  "last_read evs [] = evs"
| "last_read evs ((Inl e, r) # ts) = last_read evs ts"
| "last_read evs ((Inr evs', r) # ts) = last_read evs' ts"

lemma stream_rest_prefix:
  assumes "stream_rest running i evs = (out, c)"
  shows "prefix out evs \<and> (\<not> c \<longrightarrow> out = evs) \<and> (c \<longrightarrow> out \<noteq> [] \<and> ev_type (last out) = ExecutionFinished)"
  using assms
proof (induction evs arbitrary: i out c)
  case (Cons ev evs)
  show ?case
  proof (cases "ev_type ev = ExecutionFinished \<and> \<not> running i")
    case False
    with Cons.prems obtain out' where r: "stream_rest running (Suc i) evs = (out', c)" "out = ev # out'"
      by (auto split: prod.splits)
    with Cons.IH [OF r(1)] show ?thesis by auto
  qed (use Cons.prems in auto)
qed auto

lemma stream_closed: "fold stream ts (out, True) = (out, True)"
  by (induction ts) auto

lemma last_read_prefix: "log_grows evs ts \<Longrightarrow> prefix evs (last_read evs ts)"
  by (induction evs ts rule: log_grows.induct) (auto intro: prefix_order.trans)

lemma stream_from:
  assumes "log_grows out ts" and "fold stream ts (out, False) = (out', c)"
  shows "prefix out' (last_read out ts) \<and> (\<not> c \<longrightarrow> out' = last_read out ts) \<and>
    (c \<longrightarrow> out' \<noteq> [] \<and> ev_type (last out') = ExecutionFinished)"
  using assms
proof (induction out ts rule: log_grows.induct)
  case (3 out evs r ts)
  obtain new c1 where t: "stream_rest r (length out) (drop (length out) evs) = (new, c1)" by fastforce
  from 3 have grows: "prefix out evs" "log_grows evs ts" by simp_all
  then have evs: "out @ drop (length out) evs = evs" by (auto simp: prefix_def)
  note new = stream_rest_prefix [OF t]
  show ?case
  proof (cases c1)
    case True
    with t 3(3) have "out' = out @ new" "c" by (simp_all add: stream_tick_def stream_closed)
    moreover have "prefix (out @ new) evs" using new evs by (metis same_prefix_prefix)
    moreover have "prefix evs (last_read evs ts)" by (rule last_read_prefix [OF grows(2)])
    ultimately show ?thesis using new True by (auto intro: prefix_order.trans)
  next
    case False
    with t 3(3) new evs have "fold stream ts (evs, False) = (out', c)" by (simp add: stream_tick_def)
    from 3(1) [OF grows(2) this] show ?thesis by simp
  qed
qed (simp_all add: stream_tick_def)

text \<open>A client of the event stream sees the log: over any sequence of ticks, readable or not, what
  was written is the beginning of the log, every event once and in order; as long as the connection is
  open it is all of what was read; and it is closed only after an \<open>ExecutionFinished\<close>.\<close>

theorem stream_in_order:
  assumes "log_grows [] ts" and "fold stream ts ([], False) = (out, shut)"
  shows "prefix out (last_read [] ts) \<and> (\<not> shut \<longrightarrow> out = last_read [] ts) \<and>
    (shut \<longrightarrow> out \<noteq> [] \<and> ev_type (last out) = ExecutionFinished)"
  by (rule stream_from [OF assms])

definition logged_event :: "event_type \<Rightarrow> event" where
  "logged_event ty = \<lparr>ev_type = ty, ev_time = 1, ev_exec = ''e'', ev_node = [], ev_prev = [], ev_payload = []\<rparr>"

lemma stream_in_order_witness:
  "fst (fold stream [(Inr [logged_event ExecutionStarted], \<lambda>i. True), (Inl (ESentinel ErrNotExist), \<lambda>i. True),
      (Inr [logged_event ExecutionStarted, logged_event Cancelled], \<lambda>i. True)] ([], False)) =
    [logged_event ExecutionStarted, logged_event Cancelled]"
proof -
  let ?ts = "[(Inr [logged_event ExecutionStarted], \<lambda>i. True), (Inl (ESentinel ErrNotExist), \<lambda>i. True),
      (Inr [logged_event ExecutionStarted, logged_event Cancelled], \<lambda>i. True)] :: tick list"
  obtain out c where r: "fold stream ?ts ([], False) = (out, c)" by fastforce
  then have "\<not> c" by (auto simp: stream_tick_def logged_event_def)
  with stream_in_order [OF _ r] r show ?thesis by simp
qed

text \<open>A run that was resumed and is over again: its log holds the \<open>ExecutionFinished\<close> of both runs, and a
  client that connects now is cut off after the first.\<close>

lemma resumed_stream_cut:
  assumes "ev_type ev = ExecutionFinished" and "\<forall>e\<in>set pre. ev_type e \<noteq> ExecutionFinished"
  shows "stream (Inr (pre @ ev # post), \<lambda>i. False) ([], False) = (pre @ [ev], True)"
proof -
  have "stream_rest (\<lambda>i. False) i (pre @ ev # post) = (pre @ [ev], True)" for i
    using assms by (induction pre arbitrary: i) auto
  then show ?thesis by (simp add: stream_tick_def)
qed

section \<open>Two readers of the approval events\<close>

fun status_text :: "approval_status \<Rightarrow> string" where
  "status_text ApPending = ''pending''"
| "status_text ApGranted = ''granted''"
| "status_text ApRejected = ''rejected''"

definition same_record :: "approval_record \<Rightarrow> approval \<Rightarrow> bool" where
  "same_record r a \<longleftrightarrow> ap_checkpoint a = ar_checkpoint r \<and> ap_node a = ar_node r \<and> ap_tool a = ar_tool r \<and>
     ap_status a = status_text (ar_status r)"

lemma approvals_step_agree:
  assumes "\<And>i. rel_option same_record (m i) (map_of l i)"
  shows "rel_option same_record (approval_step ev m i) (map_of (approvals_step ev l) i)"
proof (cases "ev_type ev = ApprovalRequested \<or> ev_type ev = ApprovalGranted \<or> ev_type ev = ApprovalRejected")
  case True
  then show ?thesis
    using assms
    by (elim disjE) (simp_all add: approval_step_def approvals_step_def Let_def checkpoint_of_def update_conv'
        approval_rec_def same_record_def)
next
  case False
  then have "decision (ev_type ev) = None" by (cases "ev_type ev") simp_all
  with False assms show ?thesis by (simp add: approval_step_eq approvals_step_def Let_def)
qed

lemma fold_approvals_agree:
  assumes "\<And>i. rel_option same_record (m i) (map_of l i)"
  shows "rel_option same_record (fold approval_step evs m i) (map_of (fold approvals_step evs l) i)"
  using assms
proof (induction evs arbitrary: m l)
  case (Cons ev evs)
  show ?case using Cons.IH [OF approvals_step_agree [OF Cons.prems]] by simp
qed simp

text \<open>The control plane and the engine read the same decisions off a log: a checkpoint is listed
  exactly when the engine's gate knows it, with the same node, tool and status.\<close>

theorem approvals_agree:
  assumes "approvals (Inr evs) = Inr l"
  shows "rel_option same_record (approval_records (Inr evs) i) (map_of l i)"
  using assms fold_approvals_agree [of Map.empty "[]" evs i] by (simp add: approvals_def approval_records_def)

lemma approvals_agree_witness:
  "\<exists>l a. approvals (Inr [sample_approval ApprovalRequested ''c1'', sample_approval ApprovalGranted ''c1'']) = Inr l \<and>
    map_of l ''c1'' = Some a \<and> ap_status a = ''granted''"
proof -
  let ?evs = "[sample_approval ApprovalRequested ''c1'', sample_approval ApprovalGranted ''c1'']"
  obtain l where l: "approvals (Inr ?evs) = Inr l" by (simp add: approvals_def)
  have "map_option ar_status (approval_records (Inr ?evs) ''c1'') = Some ApGranted"
    by (simp add: approval_records_def approval_step_def sample_approval_def checkpoint_of_def string_payload_def
        payload_string_def approval_rec_def)
  with approvals_agree [OF l, of "''c1''"] l show ?thesis
    by (auto simp: option_rel_Some1 same_record_def)
qed

section \<open>Progress\<close>

lemma progress_fold:
  assumes "fold progress_step evs (s, t, l) = (s', t', l')" and "distinct s" and "distinct t"
  shows "distinct s' \<and> distinct t' \<and> set s' = set s \<union> ev_node ` {ev \<in> set evs. node_starts ev} \<and>
    set t' = set t \<union> ev_node ` {ev \<in> set evs. node_ends ev} \<and> l' = fold (\<lambda>ev m. max m (ev_time ev)) evs l"
  using assms
proof (induction evs arbitrary: s t l)
  case (Cons ev evs)
  have x: "\<not> (node_starts ev \<and> node_ends ev)" by (auto simp: node_starts_def node_ends_def)
  obtain s1 t1 l1 where st: "progress_step ev (s, t, l) = (s1, t1, l1)" by (metis prod.exhaust)
  then have r: "s1 = (if node_starts ev then List.insert (ev_node ev) s else s)"
    "t1 = (if node_ends ev then List.insert (ev_node ev) t else t)" "l1 = max l (ev_time ev)"
    using x by (auto simp: progress_step_def Let_def split: if_splits)
  from st Cons.prems(1) have f: "fold progress_step evs (s1, t1, l1) = (s', t', l')" by simp
  from r Cons.prems have d: "distinct s1" "distinct t1" by simp_all
  have "set s1 \<union> ev_node ` {ev \<in> set evs. node_starts ev} = set s \<union> ev_node ` {e \<in> set (ev # evs). node_starts e}"
    "set t1 \<union> ev_node ` {ev \<in> set evs. node_ends ev} = set t \<union> ev_node ` {e \<in> set (ev # evs). node_ends e}"
    by (auto simp: r)
  with Cons.IH [OF f d] show ?case by (simp add: r(3))
qed simp

text \<open>Progress counts each node that finished or failed once, and lists each node that started and did
  neither.\<close>

lemma progress_exact:
  "pr_completed (derive_progress evs n) = card (ev_node ` {ev \<in> set evs. node_ends ev}) \<and>
   distinct (pr_running_nodes (derive_progress evs n)) \<and>
   set (pr_running_nodes (derive_progress evs n)) =
     ev_node ` {ev \<in> set evs. node_starts ev} - ev_node ` {ev \<in> set evs. node_ends ev}"
proof -
  obtain s t l where f: "fold progress_step evs ([], [], 0) = (s, t, l)" by (metis prod.exhaust)
  from progress_fold [OF f] have p: "distinct s" "distinct t" "set s = ev_node ` {ev \<in> set evs. node_starts ev}"
    "set t = ev_node ` {ev \<in> set evs. node_ends ev}"
    by simp_all
  have "length t = card (set t)" using p(2) by (simp add: distinct_card)
  with p show ?thesis by (auto simp: derive_progress_def f)
qed

text \<open>A node that failed and was started again by a resume is never shown as running.\<close>

lemma progress_restarted:
  assumes "ev \<in> set evs" and "ev_type ev = Failure" and "ev_node ev = n"
  shows "n \<notin> set (pr_running_nodes (derive_progress evs total_nodes))"
  using assms progress_exact [of evs total_nodes] by (auto simp: node_starts_def node_ends_def)

end
