(* ===== verification/Settings.thy ===== *)
theory Settings
  imports ArtifactStore RunTypes
begin

text \<open>
  \<open>core/settings/settings.go\<close> and \<open>core/security/scan.go\<close>: the settings of the control plane and how
  they are written, and the scan of a directory for secrets. A directory is the map from the paths
  of its files to their bytes. Every system call can fail, as in \<open>ArtifactStore\<close>; the JSON codec of
  the settings is a parameter, and the mutex of the store is the atomicity of an operation.
\<close>

section \<open>The settings\<close>

record connection =
  cn_id :: string
  cn_label :: string
  cn_kind :: string
  cn_type :: string
  cn_base_url :: string
  cn_secret_env :: string
  cn_defaults :: "string \<rightharpoonup> string"

record notification_thresholds =
  nt_min_cost :: rat
  nt_min_duration :: int
  nt_on_failure_only :: bool

record notification_quiet_hours =
  nq_enabled :: bool
  nq_start :: string
  nq_end :: string

record notification_settings =
  no_enabled :: bool
  no_browser :: bool
  no_events :: "string \<rightharpoonup> bool"
  no_thresholds :: notification_thresholds
  no_quiet :: notification_quiet_hours

record settings =
  st_base_urls :: "string \<rightharpoonup> string"
  st_key_env :: "string \<rightharpoonup> string"
  st_budget :: rat
  st_cache_mode :: string
  st_workspace_root :: string
  st_template_paths :: "string list"
  st_connections :: "connection list"
  st_notifications :: notification_settings

definition zero_settings :: settings where
  "zero_settings =
     \<lparr>st_base_urls = Map.empty, st_key_env = Map.empty, st_budget = 0, st_cache_mode = [],
      st_workspace_root = [], st_template_paths = [], st_connections = [],
      st_notifications =
        \<lparr>no_enabled = False, no_browser = False, no_events = Map.empty,
         no_thresholds = \<lparr>nt_min_cost = 0, nt_min_duration = 0, nt_on_failure_only = False\<rparr>,
         no_quiet = \<lparr>nq_enabled = False, nq_start = [], nq_end = []\<rparr>\<rparr>\<rparr>"

section \<open>Committing a file\<close>

type_synonym files = "string \<rightharpoonup> bytes"

text \<open>A temporary file in the same directory, then a rename; the deferred removal of the temporary
  file comes last on every path. The result is the error, if any, and every state the directory
  passes through: a process that dies on the way leaves one of them.\<close>

definition remove_temp_file :: "faults \<Rightarrow> string \<Rightarrow> files \<Rightarrow> files" where
  "remove_temp_file fault tmp d = (case fault (OpRemove tmp) of Some e \<Rightarrow> d | None \<Rightarrow> d(tmp := None))"

definition writing :: "string \<Rightarrow> bytes \<Rightarrow> files \<Rightarrow> files list" where
  "writing tmp data d = map (\<lambda>k. d(tmp \<mapsto> take k data)) [0..<Suc (length data)]"

definition commit_file :: "string \<Rightarrow> faults \<Rightarrow> string \<Rightarrow> string \<Rightarrow> bytes \<Rightarrow> files \<Rightarrow> err option \<times> files list" where
  "commit_file pkg fault tmp path data d =
     (case fault OpCreateTemp of
        Some e \<Rightarrow> (Some (errorf (pkg @ '': temp file: '') e []), [d])
      | None \<Rightarrow>
     (case fault (OpWrite 0) of
        Some e \<Rightarrow>
          (Some (errorf (pkg @ '': write: '') e []), writing tmp data d @ [remove_temp_file fault tmp (d(tmp \<mapsto> []))])
      | None \<Rightarrow>
          let full = d(tmp \<mapsto> data) in
          (case fault OpClose of
             Some e \<Rightarrow> (Some (errorf (pkg @ '': close: '') e []), writing tmp data d @ [remove_temp_file fault tmp full])
           | None \<Rightarrow>
          (case fault OpRename of
             Some e \<Rightarrow> (Some (errorf (pkg @ '': commit: '') e []), writing tmp data d @ [remove_temp_file fault tmp full])
           | None \<Rightarrow>
               let new = (full(tmp := None))(path \<mapsto> data)
               in (None, writing tmp data d @ [new, remove_temp_file fault tmp new])))))"

definition load_settings :: "(bytes \<Rightarrow> err + settings) \<Rightarrow> faults \<Rightarrow> string \<Rightarrow> files \<Rightarrow> err + settings" where
  "load_settings dec fault path d =
     (case (case fault OpRead of
              Some e \<Rightarrow> Inl e
            | None \<Rightarrow> (case d path of None \<Rightarrow> Inl (ESentinel ErrNotExist) | Some b \<Rightarrow> Inr b)) of
        Inl e \<Rightarrow>
          if is_err ErrNotExist e then Inr zero_settings
          else Inl (errorf (''settings: read '' @ path @ '': '') e [])
      | Inr b \<Rightarrow>
          (case dec b of
             Inl e \<Rightarrow> Inl (errorf (''settings: decode '' @ path @ '': '') e [])
           | Inr v \<Rightarrow> Inr v))"

definition save_settings ::
  "(settings \<Rightarrow> err + bytes) \<Rightarrow> faults \<Rightarrow> string \<Rightarrow> string \<Rightarrow> settings \<Rightarrow> files \<Rightarrow> err option \<times> files list" where
  "save_settings enc fault tmp path v d =
     (case fault OpMkdir of
        Some e \<Rightarrow> (Some (errorf ''settings: create dir: '' e []), [d])
      | None \<Rightarrow>
          (case enc v of
             Inl e \<Rightarrow> (Some (errorf ''settings: encode: '' e []), [d])
           | Inr b \<Rightarrow> commit_file ''settings'' fault tmp path b d))"

section \<open>Scanning for secrets\<close>

record finding =
  fi_path :: string
  fi_value :: string

text \<open>\<open>WalkDir\<close> visits the entries in lexical order; one comes with the error of listing it, its kind
  and the outcome of reading it.\<close>

record walk_entry =
  we_path :: string
  we_error :: "err option"
  we_dir :: bool
  we_data :: "err + bytes"

fun scan_walk :: "string list \<Rightarrow> walk_entry list \<Rightarrow> err + finding list" where
  "scan_walk needles [] = Inr []"
| "scan_walk needles (e # es) =
     (case we_error e of
        Some x \<Rightarrow> Inl x
      | None \<Rightarrow>
          if we_dir e then scan_walk needles es
          else case we_data e of
            Inl x \<Rightarrow>
              if is_err ErrNotExist x then scan_walk needles es
              else Inl (errorf (''security: scan '' @ we_path e @ '': '') x [])
          | Inr b \<Rightarrow>
              (case scan_walk needles es of
                 Inl x \<Rightarrow> Inl x
               | Inr fs \<Rightarrow> Inr (map (\<lambda>v. \<lparr>fi_path = we_path e, fi_value = v\<rparr>) (filter (contains b) needles) @ fs)))"

definition scan_files_for_secrets :: "walk_entry list \<Rightarrow> string list \<Rightarrow> err + finding list" where
  "scan_files_for_secrets walk forbidden =
     (let needles = filter (\<lambda>v. v \<noteq> []) forbidden
      in if needles = [] then Inr [] else scan_walk needles walk)"

section \<open>A commit is atomic\<close>

lemma writing_last: "last (writing tmp data d) = d(tmp \<mapsto> data)"
  by (simp add: writing_def)

lemma writing_frame: "s \<in> set (writing tmp data d) \<Longrightarrow> p \<noteq> tmp \<Longrightarrow> s p = d p"
  by (auto simp: writing_def)

lemma remove_temp_frame: "p \<noteq> tmp \<Longrightarrow> remove_temp_file fault tmp d p = d p"
  by (simp add: remove_temp_file_def split: option.split)

lemma remove_temp_gone: "fault (OpRemove tmp) = None \<Longrightarrow> remove_temp_file fault tmp d tmp = None"
  by (simp add: remove_temp_file_def)

lemma commit_frame:
  assumes "p \<noteq> tmp" and "p \<noteq> path" and "s \<in> set (snd (commit_file pkg fault tmp path data d))"
  shows "s p = d p"
  using assms
  by (auto simp: commit_file_def Let_def writing_frame remove_temp_frame split: option.splits)

lemma commit_path:
  assumes "tmp \<noteq> path" and "s \<in> set (snd (commit_file pkg fault tmp path data d))"
  shows "s path = d path \<or> s path = Some data"
  using assms
  by (auto simp: commit_file_def Let_def writing_frame remove_temp_frame split: option.splits)

lemma commit_result:
  assumes "tmp \<noteq> path"
  shows "last (snd (commit_file pkg fault tmp path data d)) path =
    (if fst (commit_file pkg fault tmp path data d) = None then Some data else d path)"
  using assms by (simp add: commit_file_def Let_def remove_temp_frame split: option.splits)

lemma commit_clean:
  assumes "tmp \<noteq> path" and "d tmp = None" and "fault (OpRemove tmp) = None"
  shows "last (snd (commit_file pkg fault tmp path data d)) tmp = None"
  using assms by (simp add: commit_file_def Let_def remove_temp_gone split: option.splits)

text \<open>C33. Saving the settings is atomic: whichever system calls fail, and wherever the process dies,
  the settings file holds either what it held before or the whole new encoding, and no other file
  changes but the temporary one. Without an error the file holds the new settings, which the next
  load returns; with one it is untouched; and the temporary file is gone when it can be removed.\<close>

theorem settings_save_atomic:
  assumes "tmp \<noteq> path" and "d tmp = None" and "enc v = Inr b" and "dec b = Inr v"
    and "save_settings enc fault tmp path v d = (e, states)"
  shows "(\<forall>s\<in>set states. (s path = d path \<or> s path = Some b) \<and> (\<forall>p. p \<noteq> path \<longrightarrow> p \<noteq> tmp \<longrightarrow> s p = d p)) \<and>
    (case e of Some x \<Rightarrow> last states path = d path
     | None \<Rightarrow> \<forall>fault'. fault' OpRead = None \<longrightarrow> load_settings dec fault' path (last states) = Inr v) \<and>
    (fault (OpRemove tmp) = None \<longrightarrow> last states tmp = None)"
proof (cases "fault OpMkdir")
  case (Some x)
  with assms(2,5) show ?thesis by (auto simp: save_settings_def)
next
  case None
  let ?c = "commit_file ''settings'' fault tmp path b d"
  from None assms(3,5) have c: "?c = (e, states)" by (simp add: save_settings_def)
  note r = commit_result [OF assms(1), of "''settings''" fault b d]
  have "\<forall>s\<in>set states. (s path = d path \<or> s path = Some b) \<and> (\<forall>p. p \<noteq> path \<longrightarrow> p \<noteq> tmp \<longrightarrow> s p = d p)"
    using commit_path [OF assms(1)] commit_frame c by (metis snd_conv)
  moreover have "case e of Some x \<Rightarrow> last states path = d path
     | None \<Rightarrow> \<forall>fault'. fault' OpRead = None \<longrightarrow> load_settings dec fault' path (last states) = Inr v"
    using r assms(4) unfolding c by (cases e) (simp_all add: load_settings_def)
  moreover have "fault (OpRemove tmp) = None \<longrightarrow> last states tmp = None"
    using commit_clean [where d = d, OF assms(1) assms(2), of fault "''settings''" b] c by simp
  ultimately show ?thesis by blast
qed

definition sample_settings :: settings where
  "sample_settings = zero_settings\<lparr>st_cache_mode := ''readonly'', st_budget := 2\<rparr>"

lemma settings_save_atomic_witness:
  "\<exists>e states. save_settings (\<lambda>v. Inr ''new'') (\<lambda>op. None) ''t'' ''s'' sample_settings [''s'' \<mapsto> ''old''] = (e, states) \<and>
    load_settings (\<lambda>b. Inr sample_settings) (\<lambda>op. None) ''s'' (last states) = Inr sample_settings \<and>
    last states ''t'' = None"
proof -
  obtain e states where
    s: "save_settings (\<lambda>v. Inr ''new'') (\<lambda>op. None) ''t'' ''s'' sample_settings [''s'' \<mapsto> ''old''] = (e, states)"
    by (cases "save_settings (\<lambda>v. Inr ''new'') (\<lambda>op. None) ''t'' ''s'' sample_settings [''s'' \<mapsto> ''old'']")
  then have "e = None" by (simp add: save_settings_def commit_file_def Let_def)
  with settings_save_atomic [of "''t''" "''s''" "[''s'' \<mapsto> ''old'']" "\<lambda>v. Inr ''new''" sample_settings "''new''"
      "\<lambda>b. Inr sample_settings", OF _ _ _ _ s] s
  show ?thesis by simp
qed

section \<open>What the scan finds\<close>

lemma scan_walk_correct:
  assumes "scan_walk needles es = Inr fs"
  shows "set fs = {\<lparr>fi_path = we_path e, fi_value = v\<rparr> | e v b. e \<in> set es \<and> \<not> we_dir e \<and> we_data e = Inr b \<and>
    v \<in> set needles \<and> contains b v}"
  using assms
proof (induction es arbitrary: fs)
  case (Cons e es)
  from Cons.prems have ok: "we_error e = None" by (simp split: option.splits)
  show ?case
  proof (cases "we_dir e")
    case True
    with Cons ok show ?thesis by auto
  next
    case False
    show ?thesis
    proof (cases "we_data e")
      case (Inl x)
      with Cons ok False show ?thesis by (auto split: if_splits)
    next
      case (Inr b)
      with Cons.prems ok False obtain fs' where f: "scan_walk needles es = Inr fs'"
        "fs = map (\<lambda>v. \<lparr>fi_path = we_path e, fi_value = v\<rparr>) (filter (contains b) needles) @ fs'"
        by (auto split: sum.splits)
      from Cons.IH [OF f(1)] show ?thesis unfolding f(2) using False Inr by auto
    qed
  qed
qed simp

text \<open>A scan that returns reports a file and a value exactly when the value is one of the
  forbidden ones, not empty, and occurs in the bytes of the file: no findings means that no file
  that could be read contains a secret.\<close>

theorem scan_exact:
  assumes "scan_files_for_secrets walk forbidden = Inr fs"
  shows "f \<in> set fs \<longleftrightarrow> (\<exists>e b. e \<in> set walk \<and> \<not> we_dir e \<and> we_data e = Inr b \<and> fi_path f = we_path e \<and>
    fi_value f \<in> set forbidden \<and> fi_value f \<noteq> [] \<and> contains b (fi_value f))"
proof (cases "filter (\<lambda>v. v \<noteq> []) forbidden = []")
  case True
  with assms have "fs = []" by (simp add: scan_files_for_secrets_def)
  with True show ?thesis by (auto simp: filter_empty_conv)
next
  case False
  with assms have "scan_walk (filter (\<lambda>v. v \<noteq> []) forbidden) walk = Inr fs"
    by (simp add: scan_files_for_secrets_def Let_def)
  from scan_walk_correct [OF this] have "f \<in> set fs \<longleftrightarrow>
      (\<exists>e v b. f = \<lparr>fi_path = we_path e, fi_value = v\<rparr> \<and> e \<in> set walk \<and> \<not> we_dir e \<and> we_data e = Inr b \<and>
        v \<in> set (filter (\<lambda>v. v \<noteq> []) forbidden) \<and> contains b v)"
    by (simp only: mem_Collect_eq)
  also have "\<dots> \<longleftrightarrow> (\<exists>e b. e \<in> set walk \<and> \<not> we_dir e \<and> we_data e = Inr b \<and> fi_path f = we_path e \<and>
    fi_value f \<in> set forbidden \<and> fi_value f \<noteq> [] \<and> contains b (fi_value f))" (is "?l \<longleftrightarrow> ?r")
  proof
    assume ?l then show ?r by auto
  next
    assume ?r
    then obtain e b where "e \<in> set walk" "\<not> we_dir e" "we_data e = Inr b" "fi_path f = we_path e"
      "fi_value f \<in> set forbidden" "fi_value f \<noteq> []" "contains b (fi_value f)"
      by blast
    moreover from this(4) have "f = \<lparr>fi_path = we_path e, fi_value = fi_value f\<rparr>" by (cases f) simp
    ultimately show ?l by (intro exI [of _ e] exI [of _ "fi_value f"] exI [of _ b]) simp
  qed
  finally show ?thesis .
qed

definition sample_walk :: "walk_entry list" where
  "sample_walk =
     [\<lparr>we_path = ''d'', we_error = None, we_dir = True, we_data = Inr []\<rparr>,
      \<lparr>we_path = ''d/a'', we_error = None, we_dir = False, we_data = Inr ''xkeyx''\<rparr>,
      \<lparr>we_path = ''d/b'', we_error = None, we_dir = False, we_data = Inl (ESentinel ErrNotExist)\<rparr>]"

lemma scan_exact_witness:
  "\<exists>fs. scan_files_for_secrets sample_walk [''key'', ''''] = Inr fs \<and> \<lparr>fi_path = ''d/a'', fi_value = ''key''\<rparr> \<in> set fs"
proof -
  have c: "contains ''xkeyx'' ''key''" by code_simp
  have fs: "scan_files_for_secrets sample_walk [''key'', ''''] = Inr [\<lparr>fi_path = ''d/a'', fi_value = ''key''\<rparr>]"
    using c by (simp add: scan_files_for_secrets_def sample_walk_def Let_def)
  have "\<lparr>we_path = ''d/a'', we_error = None, we_dir = False, we_data = Inr ''xkeyx''\<rparr> \<in> set sample_walk"
    by (simp add: sample_walk_def)
  then have "\<lparr>fi_path = ''d/a'', fi_value = ''key''\<rparr> \<in> set [\<lparr>fi_path = ''d/a'', fi_value = ''key''\<rparr>]"
    using c by (intro scan_exact [OF fs, THEN iffD2]) (force simp: sample_walk_def)
  with fs show ?thesis by blast
qed

end
