(* ===== verification/Control.thy ===== *)
theory Control
  imports RunEvents Settings CacheStore EventLog "HOL-Library.List_Lexorder" "HOL-Library.Char_ord"
begin

text \<open>
  The control plane of \<open>core/server\<close> (\<open>server.go\<close>, \<open>controls.go\<close>, \<open>extras.go\<close>): the registry of the
  runs this process drives, starting, cancelling, resuming and re-executing runs, reconciliation after
  a restart, approval decisions, the cache and the settings over HTTP. The state holds what the server
  reaches: the logs, the files of the workspace, the artifact store, the cache, the registry and the
  goroutines it started. A handler is a function from the decoded request to the status, the body and
  the new state; routing, headers and the encoding of bodies are left out. A goroutine is its handle,
  the execution, the engine call it makes and whether its context was cancelled.
\<close>

section \<open>State and environment\<close>

record assembly =
  asm_workflow :: workflow
  asm_hashes :: "string \<rightharpoonup> string"
  asm_workers :: "string \<rightharpoonup> worker"
  asm_connections :: "string \<rightharpoonup> connection_ref"

datatype engine_call =
    CallRun workflow run_options
  | CallResume string
  | CallResumeFrom string string
  | CallReexecute string string

record run_task =
  rt_handle :: nat
  rt_exec :: string
  rt_assembly :: assembly
  rt_call :: engine_call
  rt_cancelled :: bool

record server =
  sv_log :: log_state
  sv_dirs :: "string list"
  sv_files :: files
  sv_store :: art_store
  sv_cache :: cache
  sv_env :: "string \<rightharpoonup> string"
  sv_runs :: "string \<rightharpoonup> nat"
  sv_tasks :: "run_task list"
  sv_next :: nat

record run_params =
  rp_workflow :: string
  rp_inputs :: "string \<rightharpoonup> string"
  rp_cache :: string
  rp_budget :: rat
  rp_allow_mutations :: bool

text \<open>What one call sees of its surroundings: the injected functions, which system calls fail, the time,
  the path a temporary file gets, and the codecs.\<close>

record server_env =
  sc_assemble :: "(string \<Rightarrow> err + assembly) option"
  sc_new_id :: "(string \<Rightarrow> string) option"
  sc_default_cache :: cache_mode
  sc_fault :: faults
  sc_now :: int
  sc_tmp :: string
  sc_hash :: "bytes \<Rightarrow> string"
  sc_enc_event :: "event \<Rightarrow> err + bytes"
  sc_dec_event :: "bytes \<Rightarrow> err + event"
  sc_dec_snapshot :: "bytes \<Rightarrow> err + snapshot"
  sc_enc_params :: "run_params \<Rightarrow> err + bytes"
  sc_dec_params :: "bytes \<Rightarrow> err + run_params"
  sc_enc_settings :: "settings \<Rightarrow> err + bytes"
  sc_dec_settings :: "bytes \<Rightarrow> err + settings"
  sc_tar :: "string \<Rightarrow> err option"

datatype reply_body =
    NoBody
  | ErrText string
  | RunBody string
  | ApprovalBody approval
  | ApprovalsBody "approval list"
  | RemovedBody int
  | SettingsBody settings
  | ProgressBody progress
  | SummariesBody "exec_summary list"
  | AuditBody timeline string
  | BundleBody archive
  | SecretsBody "(string \<times> bool) list"

type_synonym reply = "int \<times> reply_body"

definition settings_path :: "server \<Rightarrow> string" where
  "settings_path sv = lg_base (sv_log sv) @ ''/settings.json''"

definition server_settings :: "server_env \<Rightarrow> server \<Rightarrow> err + settings" where
  "server_settings env sv = load_settings (sc_dec_settings env) (sc_fault env) (settings_path sv) (sv_files sv)"

definition server_events :: "server_env \<Rightarrow> string \<Rightarrow> server \<Rightarrow> err + event list" where
  "server_events env i sv = read_all (sc_dec_event env) i (sv_log sv)"

text \<open>\<open>Log.Append\<close>; creating the file creates the directory of the execution.\<close>

definition server_append :: "server_env \<Rightarrow> string \<Rightarrow> event \<Rightarrow> server \<Rightarrow> err option \<times> server" where
  "server_append env i ev sv =
     (case log_append (sc_hash env) (sc_enc_event env) i ev (sv_log sv) of
        (lg, e) \<Rightarrow> (e, sv\<lparr>sv_log := lg, sv_dirs := (if e = None then List.insert i (sv_dirs sv) else sv_dirs sv)\<rparr>))"

section \<open>The registry of runs\<close>

definition running :: "string \<Rightarrow> server \<Rightarrow> bool" where
  "running i sv \<longleftrightarrow> sv_runs sv i \<noteq> None"

definition registry_cancel :: "string \<Rightarrow> server \<Rightarrow> bool \<times> server" where
  "registry_cancel i sv =
     (case sv_runs sv i of
        None \<Rightarrow> (False, sv)
      | Some h \<Rightarrow>
          (True, sv\<lparr>sv_tasks := map (\<lambda>t. if rt_handle t = h then t\<lparr>rt_cancelled := True\<rparr> else t) (sv_tasks sv)\<rparr>))"

definition launch :: "string \<Rightarrow> assembly \<Rightarrow> engine_call \<Rightarrow> server \<Rightarrow> server" where
  "launch i asm call sv =
     sv\<lparr>sv_runs := (sv_runs sv)(i \<mapsto> sv_next sv),
        sv_tasks := sv_tasks sv @
          [\<lparr>rt_handle = sv_next sv, rt_exec = i, rt_assembly = asm, rt_call = call, rt_cancelled = False\<rparr>],
        sv_next := Suc (sv_next sv)\<rparr>"

text \<open>The goroutine's deferred calls: the registry entry of the execution goes, then the goroutine.\<close>

definition run_done :: "run_task \<Rightarrow> server \<Rightarrow> server" where
  "run_done t sv =
     sv\<lparr>sv_runs := (sv_runs sv)(rt_exec t := None),
        sv_tasks := filter (\<lambda>u. rt_handle u \<noteq> rt_handle t) (sv_tasks sv)\<rparr>"

section \<open>Cache mode, budget, connections\<close>

definition cache_mode_from_string :: "string \<Rightarrow> cache_mode option" where
  "cache_mode_from_string s =
     (if s = ''on'' then Some CacheOn
      else if s = ''off'' then Some CacheOff
      else if s = ''readonly'' then Some CacheReadOnly else None)"

fun cache_mode_text :: "cache_mode \<Rightarrow> string" where
  "cache_mode_text CacheUnset = ''''"
| "cache_mode_text CacheOn = ''on''"
| "cache_mode_text CacheOff = ''off''"
| "cache_mode_text CacheReadOnly = ''readonly''"

definition effective_cache :: "server_env \<Rightarrow> server \<Rightarrow> string \<Rightarrow> cache_mode" where
  "effective_cache env sv req =
     (case cache_mode_from_string req of
        Some m \<Rightarrow> m
      | None \<Rightarrow>
     (case (case server_settings env sv of Inl e \<Rightarrow> None | Inr cfg \<Rightarrow> cache_mode_from_string (st_cache_mode cfg)) of
        Some m \<Rightarrow> m
      | None \<Rightarrow> if sc_default_cache env \<noteq> CacheUnset then sc_default_cache env else CacheOn))"

definition effective_budget :: "server_env \<Rightarrow> server \<Rightarrow> workflow \<Rightarrow> rat \<Rightarrow> budget" where
  "effective_budget env sv w override =
     (let b = wf_budget w in
      if 0 < override then b\<lparr>max_cost_usd := override\<rparr>
      else if max_cost_usd b = 0 then
        (case server_settings env sv of
           Inl e \<Rightarrow> b
         | Inr cfg \<Rightarrow> if 0 < st_budget cfg then b\<lparr>max_cost_usd := st_budget cfg\<rparr> else b)
      else b)"

definition connection_ref_of :: "connection \<Rightarrow> connection_ref" where
  "connection_ref_of c =
     \<lparr>cr_id = cn_id c, cr_label = cn_label c, cr_kind = cn_kind c, cr_type = cn_type c,
      cr_base_url = cn_base_url c, cr_secret_env = cn_secret_env c, cr_defaults = cn_defaults c\<rparr>"

fun add_connections ::
  "(string \<rightharpoonup> connection) \<Rightarrow> string list \<Rightarrow> (string \<rightharpoonup> connection_ref) \<Rightarrow> err + (string \<rightharpoonup> connection_ref)" where
  "add_connections by_id [] m = Inr m"
| "add_connections by_id (r # rs) m =
     (let i = trim_space r in
      if i = [] then add_connections by_id rs m
      else case by_id i of
        None \<Rightarrow> Inl (EMsg (''unknown connection '' @ quote i))
      | Some c \<Rightarrow> add_connections by_id rs (m(i \<mapsto> connection_ref_of c)))"

definition resolve_connection_refs ::
  "server_env \<Rightarrow> server \<Rightarrow> assembly \<Rightarrow> string list \<Rightarrow> err + (string \<rightharpoonup> connection_ref)" where
  "resolve_connection_refs env sv asm requested =
     (if requested = [] then Inr (asm_connections asm)
      else case server_settings env sv of
        Inl e \<Rightarrow> Inl e
      | Inr cfg \<Rightarrow>
          add_connections (map_of (rev (map (\<lambda>c. (cn_id c, c)) (st_connections cfg)))) requested (asm_connections asm))"

section \<open>Run parameters\<close>

definition params_path :: "string \<Rightarrow> server \<Rightarrow> string" where
  "params_path i sv = log_dir (sv_log sv) i @ ''/runparams.json''"

definition write_run_params :: "server_env \<Rightarrow> string \<Rightarrow> run_params \<Rightarrow> server \<Rightarrow> err option \<times> server" where
  "write_run_params env i rp sv =
     (case sc_fault env OpMkdir of
        Some e \<Rightarrow> (Some (errorf ''server: create execution dir: '' e []), sv)
      | None \<Rightarrow>
          let sv = sv\<lparr>sv_dirs := List.insert i (sv_dirs sv)\<rparr> in
          (case sc_enc_params env rp of
             Inl e \<Rightarrow> (Some (errorf ''server: encode run params: '' e []), sv)
           | Inr b \<Rightarrow>
               (case commit_file ''server'' (sc_fault env) (sc_tmp env) (params_path i sv) b (sv_files sv) of
                  (e, states) \<Rightarrow> (e, sv\<lparr>sv_files := last states\<rparr>))))"

definition read_run_params :: "server_env \<Rightarrow> string \<Rightarrow> server \<Rightarrow> err + run_params" where
  "read_run_params env i sv =
     (case sc_fault env OpRead of
        Some e \<Rightarrow> Inl e
      | None \<Rightarrow>
          (case sv_files sv (params_path i sv) of
             None \<Rightarrow> Inl (ESentinel ErrNotExist)
           | Some b \<Rightarrow>
               (case sc_dec_params env b of
                  Inl e \<Rightarrow> Inl (errorf (''server: decode run params for '' @ i @ '': '') e [])
                | Inr rp \<Rightarrow> Inr rp)))"

definition assembly_for ::
  "server_env \<Rightarrow> (string \<Rightarrow> err + assembly) \<Rightarrow> string \<Rightarrow> server \<Rightarrow> err + assembly \<times> run_params" where
  "assembly_for env assemble i sv =
     (case read_run_params env i sv of
        Inl e \<Rightarrow> Inl e
      | Inr rp \<Rightarrow> (case assemble (rp_workflow rp) of Inl e \<Rightarrow> Inl e | Inr asm \<Rightarrow> Inr (asm, rp)))"

definition assembly_error :: "err \<Rightarrow> reply" where
  "assembly_error e =
     (if is_err ErrNotExist e
      then (404, ErrText ''unknown execution or missing run parameters (started before this server version?)'')
      else (400, ErrText (err_msg e)))"

section \<open>Starting runs\<close>

record run_request =
  rr_workflow :: string
  rr_inputs :: "string \<rightharpoonup> string"
  rr_cache :: string
  rr_budget :: rat
  rr_connections :: "string list"
  rr_allow_mutations :: bool

definition run_opts ::
  "string \<Rightarrow> assembly \<Rightarrow> budget \<Rightarrow> cache_mode \<Rightarrow> (string \<rightharpoonup> connection_ref) \<Rightarrow> run_request \<Rightarrow> run_options" where
  "run_opts i asm b mode refs req =
     \<lparr>ro_execution_id = i, ro_concurrency = 0, ro_budget = b, ro_backoff = 0, ro_backoff_max = 0, ro_cache = mode,
      ro_definition_hashes = asm_hashes asm, ro_workers = asm_workers asm, ro_inputs = rr_inputs req,
      ro_connections = refs, ro_allow_mutations = rr_allow_mutations req\<rparr>"

definition handle_run :: "server_env \<Rightarrow> err + run_request \<Rightarrow> server \<Rightarrow> reply \<times> server" where
  "handle_run env request sv =
     (case (sc_assemble env, sc_new_id env) of
        (Some assemble, Some mint) \<Rightarrow>
          (case request of
             Inl e \<Rightarrow> ((400, ErrText ''invalid request body''), sv)
           | Inr req \<Rightarrow>
          (if rr_workflow req = [] then ((400, ErrText ''workflow is required''), sv)
           else case assemble (rr_workflow req) of
             Inl e \<Rightarrow> ((400, ErrText (err_msg e)), sv)
           | Inr asm \<Rightarrow>
               let mode = effective_cache env sv (rr_cache req);
                   b = effective_budget env sv (asm_workflow asm) (rr_budget req)
               in (case resolve_connection_refs env sv asm (rr_connections req) of
                     Inl e \<Rightarrow> ((400, ErrText (err_msg e)), sv)
                   | Inr refs \<Rightarrow>
                       let i = mint (wf_id (asm_workflow asm));
                           rp = \<lparr>rp_workflow = rr_workflow req, rp_inputs = rr_inputs req,
                                 rp_cache = cache_mode_text mode, rp_budget = max_cost_usd b,
                                 rp_allow_mutations = rr_allow_mutations req\<rparr>
                       in (case write_run_params env i rp sv of
                             (Some e, sv) \<Rightarrow> ((500, ErrText (err_msg e)), sv)
                           | (None, sv) \<Rightarrow>
                               ((200, RunBody i),
                                launch i asm (CallRun (asm_workflow asm) (run_opts i asm b mode refs req)) sv)))))
      | _ \<Rightarrow> ((501, ErrText ''run not configured on this server''), sv))"

section \<open>Run controls\<close>

definition handle_cancel :: "string \<Rightarrow> server \<Rightarrow> reply \<times> server" where
  "handle_cancel i sv =
     (case registry_cancel i sv of
        (True, sv) \<Rightarrow> ((202, NoBody), sv)
      | (False, sv) \<Rightarrow> ((409, ErrText ''execution is not running''), sv))"

text \<open>\<open>handleRetry\<close> up to the check that the run is not in flight, and the rest of it. The lock of the
  registry is held for the check and for the launch, not between them.\<close>

definition retry_check :: "server_env \<Rightarrow> string \<Rightarrow> server \<Rightarrow> reply option" where
  "retry_check env i sv =
     (if sc_assemble env = None then Some (501, ErrText ''run controls not configured on this server'')
      else if running i sv then Some (409, ErrText ''execution is already running'') else None)"

definition retry_launch :: "server_env \<Rightarrow> string \<Rightarrow> string \<Rightarrow> server \<Rightarrow> reply \<times> server" where
  "retry_launch env i from_text sv =
     (case sc_assemble env of
        None \<Rightarrow> ((501, ErrText ''run controls not configured on this server''), sv)
      | Some assemble \<Rightarrow>
          (case assembly_for env assemble i sv of
             Inl e \<Rightarrow> (assembly_error e, sv)
           | Inr (asm, rp) \<Rightarrow>
               let from_node = trim_space from_text
               in ((200, RunBody i),
                   launch i asm (if from_node \<noteq> [] then CallResumeFrom i from_node else CallResume i) sv)))"

definition handle_retry :: "server_env \<Rightarrow> string \<Rightarrow> string \<Rightarrow> server \<Rightarrow> reply \<times> server" where
  "handle_retry env i from_text sv =
     (case retry_check env i sv of Some r \<Rightarrow> (r, sv) | None \<Rightarrow> retry_launch env i from_text sv)"

definition handle_reexecute :: "server_env \<Rightarrow> string \<Rightarrow> server \<Rightarrow> reply \<times> server" where
  "handle_reexecute env i sv =
     (case (sc_assemble env, sc_new_id env) of
        (Some assemble, Some mint) \<Rightarrow>
          (case assembly_for env assemble i sv of
             Inl e \<Rightarrow> (assembly_error e, sv)
           | Inr (asm, rp) \<Rightarrow>
               let new = mint (wf_id (asm_workflow asm))
               in (case write_run_params env new rp sv of
                     (Some e, sv) \<Rightarrow> ((500, ErrText (err_msg e)), sv)
                   | (None, sv) \<Rightarrow> ((200, RunBody new), launch new asm (CallReexecute i new) sv)))
      | _ \<Rightarrow> ((501, ErrText ''run controls not configured on this server''), sv))"

section \<open>Reconciliation\<close>

text \<open>The entries of the executions directory, the greatest name first.\<close>

definition list_execution_ids :: "server_env \<Rightarrow> server \<Rightarrow> string list" where
  "list_execution_ids env sv = (case sc_fault env OpReadDir of Some e \<Rightarrow> [] | None \<Rightarrow> rev (sort (sv_dirs sv)))"

definition cancelled_event :: "server_env \<Rightarrow> string \<Rightarrow> event" where
  "cancelled_event env i =
     \<lparr>ev_type = Cancelled, ev_time = sc_now env, ev_exec = i, ev_node = [], ev_prev = [],
      ev_payload = [(''reason'', JStr ''interrupted: wee serve restarted'')]\<rparr>"

definition interrupted_event :: "server_env \<Rightarrow> string \<Rightarrow> event" where
  "interrupted_event env i =
     \<lparr>ev_type = ExecutionFinished, ev_time = sc_now env, ev_exec = i, ev_node = [], ev_prev = [],
      ev_payload = [(''state'', JStr (execution_state_str ExecutionCancelled)), (''reason'', JStr ''interrupted'')]\<rparr>"

definition unsettled :: "event list \<Rightarrow> bool" where
  "unsettled evs \<longleftrightarrow> (\<exists>ev\<in>set evs. ev_type ev = ExecutionStarted) \<and> \<not> (\<exists>ev\<in>set evs. ev_type ev = ExecutionFinished)"

definition reconcile_one :: "server_env \<Rightarrow> string \<Rightarrow> server \<Rightarrow> server" where
  "reconcile_one env i sv =
     (case server_events env i sv of
        Inl e \<Rightarrow> sv
      | Inr evs \<Rightarrow>
          if \<not> unsettled evs then sv
          else snd (server_append env i (interrupted_event env i) (snd (server_append env i (cancelled_event env i) sv))))"

definition reconcile :: "server_env \<Rightarrow> server \<Rightarrow> server" where
  "reconcile env sv = fold (reconcile_one env) (list_execution_ids env sv) sv"

section \<open>Approvals\<close>

definition approval_event :: "server_env \<Rightarrow> event_type \<Rightarrow> string \<Rightarrow> string \<Rightarrow> approval \<Rightarrow> string \<Rightarrow> event" where
  "approval_event env d i cp a status =
     \<lparr>ev_type = d, ev_time = sc_now env, ev_exec = i, ev_node = ap_node a, ev_prev = [],
      ev_payload = [(''checkpointId'', JStr cp), (''tool'', JStr (ap_tool a)), (''status'', JStr status)]\<rparr>"

definition append_approval_decision ::
  "server_env \<Rightarrow> string \<Rightarrow> string \<Rightarrow> event_type \<Rightarrow> server \<Rightarrow> (err + approval \<times> bool) \<times> server" where
  "append_approval_decision env i cp d sv =
     (case approvals (server_events env i sv) of
        Inl e \<Rightarrow> (Inl e, sv)
      | Inr l \<Rightarrow>
     (case map_of l cp of
        None \<Rightarrow> (Inl (ESentinel ErrNotExist), sv)
      | Some a \<Rightarrow>
          if ap_status a = ''granted'' then
            (if d = ApprovalGranted then Inr (a, False)
             else Inl (EMsg (''approval checkpoint '' @ cp @ '' was already granted'')), sv)
          else if ap_status a = ''rejected'' then
            (if d = ApprovalRejected then Inr (a, False)
             else Inl (EMsg (''approval checkpoint '' @ cp @ '' was already rejected'')), sv)
          else
            let status = (if d = ApprovalRejected then ''rejected'' else ''granted'')
            in (case server_append env i (approval_event env d i cp a status) sv of
                  (Some e, sv) \<Rightarrow> (Inl e, sv)
                | (None, sv) \<Rightarrow> (Inr (a\<lparr>ap_status := status\<rparr>, True), sv))))"

definition handle_approval :: "server_env \<Rightarrow> event_type \<Rightarrow> string \<Rightarrow> string \<Rightarrow> server \<Rightarrow> reply \<times> server" where
  "handle_approval env d i cp sv =
     (case sc_assemble env of
        None \<Rightarrow> ((501, ErrText ''run controls not configured on this server''), sv)
      | Some assemble \<Rightarrow>
          if running i sv then ((409, ErrText ''execution is already running''), sv)
          else case append_approval_decision env i cp d sv of
            (Inl e, sv) \<Rightarrow>
              ((409, ErrText (if is_err ErrNotExist e then ''unknown or stale approval checkpoint'' else err_msg e)), sv)
          | (Inr (a, appended), sv) \<Rightarrow>
              if \<not> appended then ((200, ApprovalBody a), sv)
              else (case assembly_for env assemble i sv of
                      Inl e \<Rightarrow> (assembly_error e, sv)
                    | Inr (asm, rp) \<Rightarrow> ((202, ApprovalBody a), launch i asm (CallResume i) sv)))"

definition handle_approve :: "server_env \<Rightarrow> string \<Rightarrow> string \<Rightarrow> server \<Rightarrow> reply \<times> server" where
  "handle_approve env = handle_approval env ApprovalGranted"

definition handle_reject :: "server_env \<Rightarrow> string \<Rightarrow> string \<Rightarrow> server \<Rightarrow> reply \<times> server" where
  "handle_reject env = handle_approval env ApprovalRejected"

definition handle_list_approvals :: "server_env \<Rightarrow> string \<Rightarrow> server \<Rightarrow> reply" where
  "handle_list_approvals env i sv =
     (case approvals (server_events env i sv) of
        Inl e \<Rightarrow> (404, ErrText ''unknown execution'')
      | Inr l \<Rightarrow> (200, ApprovalsBody (map snd l)))"

section \<open>Cache, settings, secrets\<close>

record clear_request =
  cq_all :: bool
  cq_keys :: "string list"
  cq_exec :: string
  cq_node :: string

text \<open>A body that ends before any value is the zero request.\<close>

definition handle_cache_clear :: "server_env \<Rightarrow> err + clear_request \<Rightarrow> server \<Rightarrow> reply \<times> server" where
  "handle_cache_clear env request sv =
     (case request of
        Inl e \<Rightarrow> ((400, ErrText ''invalid request body''), sv)
      | Inr req \<Rightarrow>
          if cq_all req then
            (case cache_list (sc_fault env) (sv_cache sv) of (listed, c) \<Rightarrow>
              (case cache_clear (sc_fault env) c of
                 (Some e, c) \<Rightarrow> ((500, ErrText (err_msg e)), sv\<lparr>sv_cache := c\<rparr>)
               | (None, c) \<Rightarrow>
                   ((200, RemovedBody (case listed of Inl e \<Rightarrow> 0 | Inr l \<Rightarrow> int (length l))), sv\<lparr>sv_cache := c\<rparr>)))
          else
            let keys = cq_keys req @
                  (if cq_exec req \<noteq> [] then cache_keys_for_execution (server_events env (cq_exec req) sv) (cq_node req)
                   else [])
            in if keys = [] then ((400, ErrText ''specify all, keys, or executionId''), sv)
               else (case cache_delete (sc_fault env) keys (sv_cache sv) of
                       (n, Some e, c) \<Rightarrow> ((500, ErrText (err_msg e)), sv\<lparr>sv_cache := c\<rparr>)
                     | (n, None, c) \<Rightarrow> ((200, RemovedBody n), sv\<lparr>sv_cache := c\<rparr>)))"

definition handle_get_settings :: "server_env \<Rightarrow> server \<Rightarrow> reply" where
  "handle_get_settings env sv =
     (case server_settings env sv of Inl e \<Rightarrow> (500, ErrText (err_msg e)) | Inr cfg \<Rightarrow> (200, SettingsBody cfg))"

definition handle_put_settings :: "server_env \<Rightarrow> err + settings \<Rightarrow> server \<Rightarrow> reply \<times> server" where
  "handle_put_settings env request sv =
     (case request of
        Inl e \<Rightarrow> ((400, ErrText ''invalid settings body''), sv)
      | Inr cfg \<Rightarrow>
          (case save_settings (sc_enc_settings env) (sc_fault env) (sc_tmp env) (settings_path sv) cfg (sv_files sv) of
             (Some e, states) \<Rightarrow> ((500, ErrText (err_msg e)), sv\<lparr>sv_files := last states\<rparr>)
           | (None, states) \<Rightarrow> ((200, SettingsBody cfg), sv\<lparr>sv_files := last states\<rparr>)))"

text \<open>\<open>os.Setenv\<close> refuses an empty name, an equals sign in it and a NUL byte anywhere.\<close>

definition setenv_error :: "string \<Rightarrow> string \<Rightarrow> err option" where
  "setenv_error name v =
     (if name = [] \<or> CHR ''='' \<in> set name \<or> CHR 0x00 \<in> set name \<or> CHR 0x00 \<in> set v
      then Some (EMsg ''setenv: invalid argument'') else None)"

definition handle_set_secret :: "err + string \<times> string \<Rightarrow> server \<Rightarrow> reply \<times> server" where
  "handle_set_secret request sv =
     (case request of
        Inl e \<Rightarrow> ((400, ErrText (''decode request: '' @ err_msg e)), sv)
      | Inr (name, v) \<Rightarrow>
          if name = [] then ((400, ErrText ''name is required''), sv)
          else case setenv_error name v of
            Some e \<Rightarrow> ((400, ErrText (''set '' @ name @ '': '' @ err_msg e)), sv)
          | None \<Rightarrow> ((204, NoBody), sv\<lparr>sv_env := (sv_env sv)(name \<mapsto> v)\<rparr>))"

definition handle_unset_secret :: "string \<Rightarrow> server \<Rightarrow> reply \<times> server" where
  "handle_unset_secret name sv =
     (if name = [] then ((400, ErrText ''name is required''), sv)
      else ((204, NoBody), sv\<lparr>sv_env := (sv_env sv)(name := None)\<rparr>))"

definition handle_secrets_status :: "string \<Rightarrow> server \<Rightarrow> reply" where
  "handle_secrets_status names sv =
     (200, SecretsBody (fold (\<lambda>n m. AList.update n (sv_env sv n \<noteq> None) m)
       (filter (\<lambda>n. n \<noteq> []) (map trim_space (split_on CHR '','' names))) []))"

section \<open>Reading executions\<close>

definition handle_list :: "server_env \<Rightarrow> server \<Rightarrow> reply" where
  "handle_list env sv =
     (200, SummariesBody (map (\<lambda>i. summarize_log i (server_events env i sv)) (list_execution_ids env sv)))"

definition handle_audit :: "server_env \<Rightarrow> string \<Rightarrow> server \<Rightarrow> reply" where
  "handle_audit env i sv =
     (case audit (sc_dec_snapshot env) (sc_dec_event env) (sc_fault env) (sv_log sv) (sv_store sv) i of
        Inl e \<Rightarrow> (404, ErrText ''unknown execution'')
      | Inr t \<Rightarrow> (200, AuditBody t (su_state (summarize_events i (tm_events t)))))"

definition handle_progress :: "server_env \<Rightarrow> string \<Rightarrow> server \<Rightarrow> reply" where
  "handle_progress env i sv =
     (case server_events env i sv of
        Inl e \<Rightarrow> (404, ErrText ''unknown execution'')
      | Inr evs \<Rightarrow>
          let n_nodes = (case read_snapshot (sc_dec_snapshot env) i (sv_log sv) of
                           Inl e \<Rightarrow> 0 | Inr sn \<Rightarrow> length (wf_nodes (sn_workflow sn)))
          in (200, ProgressBody ((derive_progress evs n_nodes)
               \<lparr>pr_state := su_state (summarize_events i evs), pr_running := running i sv\<rparr>)))"

definition handle_bundle :: "server_env \<Rightarrow> string \<Rightarrow> server \<Rightarrow> reply" where
  "handle_bundle env i sv =
     (case export_bundle (sc_tar env) (sc_dec_event env) (sc_fault env) (sv_log sv) (sv_store sv) i of
        Inl e \<Rightarrow> if is_err ErrNotExist e then (404, ErrText ''unknown execution'') else (500, ErrText (err_msg e))
      | Inr a \<Rightarrow> (200, BundleBody a))"

end
