(* ===== verification/ControlTheorems.thy ===== *)
theory ControlTheorems
  imports Control
begin

text \<open>
  What the control plane guarantees: at most one run drives an execution, a restart settles every
  interrupted execution, an approval given through the API is what the engine's gate reads, and a run
  can be resumed from the parameters recorded for it. The server is the step relation of its requests,
  each atomic, and of what its goroutines do; \<open>retry_race\<close> shows where that atomicity is needed.
\<close>

section \<open>The server as a step relation\<close>

datatype request =
    ReqRun "err + run_request"
  | ReqCancel string
  | ReqRetry string string
  | ReqReexecute string
  | ReqApprove string string
  | ReqReject string string
  | ReqClear "err + clear_request"
  | ReqSettings "err + settings"
  | ReqSetSecret "err + string \<times> string"
  | ReqUnsetSecret string

fun serve :: "server_env \<Rightarrow> request \<Rightarrow> server \<Rightarrow> reply \<times> server" where
  "serve env (ReqRun r) sv = handle_run env r sv"
| "serve env (ReqCancel i) sv = handle_cancel i sv"
| "serve env (ReqRetry i n) sv = handle_retry env i n sv"
| "serve env (ReqReexecute i) sv = handle_reexecute env i sv"
| "serve env (ReqApprove i cp) sv = handle_approve env i cp sv"
| "serve env (ReqReject i cp) sv = handle_reject env i cp sv"
| "serve env (ReqClear r) sv = handle_cache_clear env r sv"
| "serve env (ReqSettings r) sv = handle_put_settings env r sv"
| "serve env (ReqSetSecret r) sv = handle_set_secret r sv"
| "serve env (ReqUnsetSecret n) sv = handle_unset_secret n sv"

text \<open>The minted ids are timestamps with a random suffix; what is used of them is that they do not name a
  run in flight.\<close>

definition fresh_ids :: "server_env \<Rightarrow> server \<Rightarrow> bool" where
  "fresh_ids env sv \<longleftrightarrow> (\<forall>mint w. sc_new_id env = Some mint \<longrightarrow> \<not> running (mint w) sv)"

inductive server_step :: "server \<Rightarrow> server \<Rightarrow> bool" where
  Request: "fresh_ids env sv \<Longrightarrow> server_step sv (snd (serve env r sv))"
| Engine: "t \<in> set (sv_tasks sv) \<Longrightarrow> server_step sv (snd (server_append env (rt_exec t) ev sv))"
| Work: "t \<in> set (sv_tasks sv) \<Longrightarrow> server_step sv (sv\<lparr>sv_store := st, sv_cache := c\<rparr>)"
| Return: "t \<in> set (sv_tasks sv) \<Longrightarrow> server_step sv (run_done t sv)"

text \<open>The server starts with an empty registry, over whatever the workspace holds, and reconciles it.\<close>

definition server_start :: "server_env \<Rightarrow> server \<Rightarrow> server" where
  "server_start env sv = reconcile env (sv\<lparr>sv_runs := Map.empty, sv_tasks := [], sv_next := 0\<rparr>)"

section \<open>The registry is the goroutines\<close>

definition registry_ok :: "server \<Rightarrow> bool" where
  "registry_ok sv \<longleftrightarrow>
     distinct (map rt_handle (sv_tasks sv)) \<and> distinct (map rt_exec (sv_tasks sv)) \<and>
     (\<forall>t\<in>set (sv_tasks sv). rt_handle t < sv_next sv) \<and>
     (\<forall>i h. sv_runs sv i = Some h \<longleftrightarrow> (\<exists>t\<in>set (sv_tasks sv). rt_exec t = i \<and> rt_handle t = h))"

definition registry_of :: "server \<Rightarrow> (string \<rightharpoonup> nat) \<times> run_task list \<times> nat" where
  "registry_of sv = (sv_runs sv, sv_tasks sv, sv_next sv)"

lemma registry_ok_same: "registry_of sv' = registry_of sv \<Longrightarrow> registry_ok sv' = registry_ok sv"
  by (simp add: registry_ok_def registry_of_def)

lemma running_same: "registry_of sv' = registry_of sv \<Longrightarrow> running i sv' = running i sv"
  by (simp add: running_def registry_of_def)

lemma running_task:
  assumes "registry_ok sv"
  shows "running i sv \<longleftrightarrow> i \<in> rt_exec ` set (sv_tasks sv)"
proof -
  from assms have "sv_runs sv i = Some h \<longleftrightarrow> (\<exists>t\<in>set (sv_tasks sv). rt_exec t = i \<and> rt_handle t = h)" for h
    by (simp add: registry_ok_def)
  then show ?thesis unfolding running_def by (metis image_iff not_None_eq)
qed

lemma launch_ok:
  assumes ok: "registry_ok sv" and idle: "\<not> running i sv"
  shows "registry_ok (launch i asm call sv)"
proof -
  let ?t = "\<lparr>rt_handle = sv_next sv, rt_exec = i, rt_assembly = asm, rt_call = call, rt_cancelled = False\<rparr>"
  let ?sv = "launch i asm call sv"
  from idle running_task [OF ok] have new: "i \<notin> rt_exec ` set (sv_tasks sv)" by simp
  from ok have below: "\<forall>t\<in>set (sv_tasks sv). rt_handle t < sv_next sv" by (simp add: registry_ok_def)
  have tasks: "sv_tasks ?sv = sv_tasks sv @ [?t]" and next': "sv_next ?sv = Suc (sv_next sv)"
    and runs: "sv_runs ?sv = (sv_runs sv)(i \<mapsto> sv_next sv)"
    by (simp_all add: launch_def)
  have "distinct (map rt_handle (sv_tasks ?sv))" using ok below by (auto simp: tasks registry_ok_def)
  moreover have "distinct (map rt_exec (sv_tasks ?sv))" using ok new by (auto simp: tasks registry_ok_def)
  moreover have "\<forall>t\<in>set (sv_tasks ?sv). rt_handle t < sv_next ?sv" using below by (auto simp: tasks next')
  moreover have "sv_runs ?sv j = Some h \<longleftrightarrow> (\<exists>t\<in>set (sv_tasks ?sv). rt_exec t = j \<and> rt_handle t = h)" for j h
  proof (cases "j = i")
    case True
    with new show ?thesis by (auto simp: tasks runs)
  next
    case False
    with ok show ?thesis by (auto simp: tasks runs registry_ok_def)
  qed
  ultimately show ?thesis by (simp add: registry_ok_def)
qed

lemma cancel_tasks: "map rt_handle (sv_tasks (snd (registry_cancel i sv))) = map rt_handle (sv_tasks sv)"
  "map rt_exec (sv_tasks (snd (registry_cancel i sv))) = map rt_exec (sv_tasks sv)"
  "sv_runs (snd (registry_cancel i sv)) = sv_runs sv" "sv_next (snd (registry_cancel i sv)) = sv_next sv"
  by (simp_all add: registry_cancel_def split: option.split)

lemma ex_task_keys:
  "(\<exists>t\<in>set ts. rt_exec t = i \<and> rt_handle t = h) \<longleftrightarrow> (i, h) \<in> set (zip (map rt_exec ts) (map rt_handle ts))"
  by (induction ts) auto

lemma registry_ok_keys:
  "registry_ok sv \<longleftrightarrow>
     distinct (map rt_handle (sv_tasks sv)) \<and> distinct (map rt_exec (sv_tasks sv)) \<and>
     (\<forall>h\<in>set (map rt_handle (sv_tasks sv)). h < sv_next sv) \<and>
     (\<forall>i h. sv_runs sv i = Some h \<longleftrightarrow>
        (i, h) \<in> set (zip (map rt_exec (sv_tasks sv)) (map rt_handle (sv_tasks sv))))"
  unfolding registry_ok_def ex_task_keys by simp

lemma cancel_ok: "registry_ok sv \<Longrightarrow> registry_ok (snd (registry_cancel i sv))"
  unfolding registry_ok_keys cancel_tasks by assumption

lemma run_done_ok:
  assumes ok: "registry_ok sv" and t: "t \<in> set (sv_tasks sv)"
  shows "registry_ok (run_done t sv)"
proof -
  let ?ts = "filter (\<lambda>u. rt_handle u \<noteq> rt_handle t) (sv_tasks sv)"
  from ok have d: "distinct (map rt_handle (sv_tasks sv))" "distinct (map rt_exec (sv_tasks sv))"
    by (simp_all add: registry_ok_def)
  have same: "rt_handle u = rt_handle t \<longleftrightarrow> u = t" "rt_exec u = rt_exec t \<longleftrightarrow> u = t" if "u \<in> set (sv_tasks sv)" for u
    using that t d by (auto simp: distinct_map inj_on_def)
  have "sv_runs (run_done t sv) i = Some h \<longleftrightarrow> (\<exists>u\<in>set ?ts. rt_exec u = i \<and> rt_handle u = h)" for i h
  proof (cases "i = rt_exec t")
    case True
    then show ?thesis using same by (auto simp: run_done_def)
  next
    case False
    then have "sv_runs (run_done t sv) i = Some h \<longleftrightarrow> (\<exists>u\<in>set (sv_tasks sv). rt_exec u = i \<and> rt_handle u = h)"
      using ok by (simp add: run_done_def registry_ok_def)
    also have "\<dots> \<longleftrightarrow> (\<exists>u\<in>set ?ts. rt_exec u = i \<and> rt_handle u = h)" using False same by auto
    finally show ?thesis .
  qed
  moreover have "distinct (map rt_handle ?ts)" "distinct (map rt_exec ?ts)" using d by (simp_all add: distinct_map_filter)
  moreover have "\<forall>u\<in>set ?ts. rt_handle u < sv_next (run_done t sv)"
    using ok by (simp add: run_done_def registry_ok_def)
  ultimately show ?thesis by (simp add: registry_ok_def run_done_def)
qed

section \<open>What a handler does to the registry\<close>

text \<open>A handler leaves the registry alone or launches a run on an idle execution.\<close>

definition starts_idle :: "server \<Rightarrow> server \<Rightarrow> bool" where
  "starts_idle sv sv' \<longleftrightarrow> registry_of sv' = registry_of sv \<or>
     (\<exists>i asm call sv1. registry_of sv1 = registry_of sv \<and> \<not> running i sv \<and> sv' = launch i asm call sv1)"

lemma starts_idle_ok:
  assumes "starts_idle sv sv'" and "registry_ok sv"
  shows "registry_ok sv'"
proof (cases "registry_of sv' = registry_of sv")
  case True
  from registry_ok_same [OF this] assms(2) show ?thesis by simp
next
  case False
  with assms(1) obtain i asm call sv1 where l: "registry_of sv1 = registry_of sv" "\<not> running i sv"
    "sv' = launch i asm call sv1"
    unfolding starts_idle_def by blast
  have "registry_ok sv1" "\<not> running i sv1"
    using assms(2) l(2) registry_ok_same [OF l(1)] running_same [OF l(1), of i] by simp_all
  then show ?thesis unfolding l(3) by (rule launch_ok)
qed

lemma starts_same: "registry_of sv' = registry_of sv \<Longrightarrow> starts_idle sv sv'"
  by (simp add: starts_idle_def)

lemma starts_launch: "registry_of sv1 = registry_of sv \<Longrightarrow> \<not> running i sv \<Longrightarrow> starts_idle sv (launch i asm call sv1)"
  unfolding starts_idle_def by blast

lemma append_registry: "server_append env i ev sv = (e, sv') \<Longrightarrow> registry_of sv' = registry_of sv"
  by (auto simp: server_append_def registry_of_def split: prod.splits)

lemma write_params_registry: "write_run_params env i rp sv = (e, sv') \<Longrightarrow> registry_of sv' = registry_of sv"
  by (auto simp: write_run_params_def registry_of_def Let_def split: option.splits sum.splits prod.splits)

lemma decision_registry:
  "append_approval_decision env i cp d sv = (r, sv') \<Longrightarrow> registry_of sv' = registry_of sv"
  by (auto simp: append_approval_decision_def Let_def append_registry
      split: sum.splits option.splits if_splits prod.splits)

lemma fresh_idle: "fresh_ids env sv \<Longrightarrow> sc_new_id env = Some mint \<Longrightarrow> \<not> running (mint w) sv"
  by (simp add: fresh_ids_def)

lemma starts_refl: "starts_idle sv sv"
  by (simp add: starts_idle_def)

lemma handle_run_starts:
  assumes "fresh_ids env sv"
  shows "starts_idle sv (snd (handle_run env r sv))"
  unfolding handle_run_def Let_def
  by (simp add: starts_refl split: option.split sum.split prod.split)
    (intro allI impI conjI; (rule starts_same starts_launch; (erule write_params_registry | rule fresh_idle [OF assms])))

lemma handle_retry_starts: "starts_idle sv (snd (handle_retry env i n sv))"
  unfolding handle_retry_def retry_check_def retry_launch_def Let_def
  by (simp add: starts_refl split: option.split sum.split prod.split) (simp add: starts_launch)

lemma handle_reexecute_starts:
  assumes "fresh_ids env sv"
  shows "starts_idle sv (snd (handle_reexecute env i sv))"
  unfolding handle_reexecute_def Let_def
  by (simp add: starts_refl split: option.split sum.split prod.split)
    (intro allI impI conjI; (rule starts_same starts_launch; (erule write_params_registry | rule fresh_idle [OF assms])))

lemma handle_approval_starts: "starts_idle sv (snd (handle_approval env d i cp sv))"
  unfolding handle_approval_def
  by (simp add: starts_refl split: option.split sum.split prod.split)
    (intro allI impI conjI; (rule starts_same starts_launch; (erule decision_registry | assumption)))

lemma serve_ok:
  assumes "registry_ok sv" and "fresh_ids env sv"
  shows "registry_ok (snd (serve env r sv))"
proof -
  have same: "registry_ok (snd (serve env r sv))" if "registry_of (snd (serve env r sv)) = registry_of sv"
    using registry_ok_same [OF that] assms(1) by simp
  show ?thesis
  proof (cases r)
    case (ReqCancel i)
    have "snd (handle_cancel i sv) = snd (registry_cancel i sv)"
      by (simp add: handle_cancel_def split: prod.split bool.split)
    with ReqCancel cancel_ok [OF assms(1)] show ?thesis by simp
  next
    case (ReqClear q)
    then show ?thesis
      by (intro same) (auto simp: handle_cache_clear_def registry_of_def Let_def
          split: sum.splits option.splits prod.splits if_splits)
  next
    case (ReqSettings q)
    then show ?thesis
      by (intro same) (auto simp: handle_put_settings_def registry_of_def split: sum.splits option.splits prod.splits)
  next
    case (ReqSetSecret q)
    then show ?thesis
      by (intro same) (auto simp: handle_set_secret_def registry_of_def split: sum.splits option.splits prod.splits)
  next
    case (ReqUnsetSecret n)
    then show ?thesis by (intro same) (simp add: handle_unset_secret_def registry_of_def)
  qed (use assms in \<open>auto simp: handle_approve_def handle_reject_def intro: starts_idle_ok
      handle_run_starts handle_retry_starts handle_reexecute_starts handle_approval_starts\<close>)
qed

lemma server_step_ok:
  assumes "server_step sv sv'" and "registry_ok sv"
  shows "registry_ok sv'"
  using assms(1)
proof cases
  case (Request env r)
  with assms(2) show ?thesis by (simp add: serve_ok)
next
  case (Engine t env ev)
  then have "registry_of sv' = registry_of sv"
    using append_registry [of env "rt_exec t" ev sv "fst (server_append env (rt_exec t) ev sv)" sv'] by simp
  from registry_ok_same [OF this] assms(2) show ?thesis by simp
next
  case (Work t st c)
  then have "registry_of sv' = registry_of sv" by (simp add: registry_of_def)
  from registry_ok_same [OF this] assms(2) show ?thesis by simp
next
  case (Return t)
  with assms(2) show ?thesis by (simp add: run_done_ok)
qed

lemma reconcile_registry: "registry_of (reconcile env sv) = registry_of sv"
proof -
  have one: "registry_of (reconcile_one env i sv) = registry_of sv" for i sv
    by (auto simp: reconcile_one_def split: sum.split) (metis append_registry prod.collapse)
  have "registry_of (fold (reconcile_one env) is sv) = registry_of sv" for "is"
    by (induction "is" arbitrary: sv) (simp_all add: one)
  then show ?thesis by (simp add: reconcile_def)
qed

lemma server_reach_ok: "server_step\<^sup>*\<^sup>* (server_start env sv) sv' \<Longrightarrow> registry_ok sv'"
proof (induction rule: rtranclp_induct)
  case base
  have "registry_of (server_start env sv) = (Map.empty, [], 0)"
    by (simp add: server_start_def reconcile_registry) (simp add: registry_of_def)
  then show ?case by (simp add: registry_of_def registry_ok_def)
next
  case (step sv1 sv2)
  then show ?case by (simp add: server_step_ok)
qed


section \<open>Two retries at once\<close>

text \<open>The check of \<open>handleRetry\<close> and its launch are not one step: two requests that both passed the check
  before either launched drive the execution twice. The registry knows the second run only, so a cancel
  leaves the first one alone, and when the first returns the second is reported as not running.\<close>

lemma retry_race:
  assumes "retry_check env i sv = None" and "retry_launch env i n1 sv = ((200, RunBody i), sv1)"
    and "retry_launch env i n2 sv1 = ((200, RunBody i), sv2)" and "sv_tasks sv = []"
  shows "map rt_exec (sv_tasks sv2) = [i, i] \<and>
    map rt_cancelled (sv_tasks (snd (handle_cancel i sv2))) = [False, True] \<and>
    (let sv3 = run_done (hd (sv_tasks sv2)) sv2 in map rt_exec (sv_tasks sv3) = [i] \<and> \<not> running i sv3)"
proof -
  obtain asm call where l1: "sv1 = launch i asm call sv"
    using assms(2) by (auto simp: retry_launch_def Let_def assembly_error_def split: option.splits sum.splits if_splits)
  obtain asm' call' where l2: "sv2 = launch i asm' call' sv1"
    using assms(3) by (auto simp: retry_launch_def Let_def assembly_error_def split: option.splits sum.splits if_splits)
  show ?thesis
    unfolding l2 l1 using assms(4)
    by (simp add: launch_def handle_cancel_def registry_cancel_def run_done_def running_def Let_def)
qed

section \<open>The list of executions\<close>

text \<open>An id begins with the name of its workflow, so the greatest name is not the newest run.\<close>

lemma listing_not_newest_first:
  assumes "sc_fault env OpReadDir = None" and "sv_dirs sv = [''b-20260101T000000-000000'', ''a-20270101T000000-000000'']"
  shows "list_execution_ids env sv = [''b-20260101T000000-000000'', ''a-20270101T000000-000000'']"
proof -
  have "rev (sort [''b-20260101T000000-000000'', ''a-20270101T000000-000000'']) =
      [''b-20260101T000000-000000'', ''a-20270101T000000-000000'']"
    by code_simp
  with assms show ?thesis by (simp add: list_execution_ids_def)
qed

section \<open>Intact logs\<close>

text \<open>The log of execution \<open>i\<close> exists, is chained and holds the events \<open>evs\<close>.\<close>

definition intact :: "server_env \<Rightarrow> string \<Rightarrow> server \<Rightarrow> event list \<Rightarrow> bool" where
  "intact env i sv evs \<longleftrightarrow>
     (\<exists>ls. log_holds (sc_hash env) (sc_dec_event env) i ls (sv_log sv) \<and>
        map (sc_dec_event env) ls = map Inr evs \<and> lg_events (sv_log sv) i \<noteq> None)"

definition codec_ok :: "server_env \<Rightarrow> bool" where
  "codec_ok env \<longleftrightarrow> event_codec (sc_enc_event env) (sc_dec_event env) \<and> short_lines (sc_enc_event env)"

lemma intact_events: "intact env i sv evs \<Longrightarrow> server_events env i sv = Inr evs"
  unfolding intact_def server_events_def using read_all_holds by blast

lemma intact_verifies: "intact env i sv evs \<Longrightarrow> log_verify (sc_hash env) (sc_dec_event env) i (sv_log sv) = None"
  unfolding intact_def using log_verify_holds by blast

lemma intact_same:
  assumes "lg_events (sv_log sv') i = lg_events (sv_log sv) i" "lg_snapshot (sv_log sv') = lg_snapshot (sv_log sv)"
    "lg_last (sv_log sv') i = lg_last (sv_log sv) i"
  shows "intact env i sv' evs = intact env i sv evs"
  using assms by (simp add: intact_def log_holds_def snapshot_hash_def)

lemma append_other:
  assumes "server_append env i ev sv = (e, sv')" and "j \<noteq> i"
  shows "intact env' j sv' evs = intact env' j sv evs"
proof -
  obtain lg r where a: "log_append (sc_hash env) (sc_enc_event env) i ev (sv_log sv) = (lg, r)" by fastforce
  with assms(1) have "sv_log sv' = lg" by (auto simp: server_append_def)
  with log_append_other [OF a assms(2)] show ?thesis by (intro intact_same) simp_all
qed

lemma append_failed: "server_append env i ev sv = (Some e, sv') \<Longrightarrow> sv' = sv"
  by (auto simp: server_append_def log_append_def Let_def split: prod.splits sum.splits)

lemma append_intact:
  assumes "codec_ok env" and "intact env i sv evs" and "server_append env i ev sv = (None, sv')"
  obtains ev' where "unchained ev' = unchained ev" "intact env i sv' (evs @ [ev'])"
proof -
  from assms(2) obtain ls where ls: "log_holds (sc_hash env) (sc_dec_event env) i ls (sv_log sv)"
    "map (sc_dec_event env) ls = map Inr evs"
    unfolding intact_def by blast
  obtain lg r where a: "log_append (sc_hash env) (sc_enc_event env) i ev (sv_log sv) = (lg, r)" by fastforce
  with assms(3) have lg: "r = None" "sv_log sv' = lg" by (auto simp: server_append_def)
  let ?ev = "ev\<lparr>ev_prev := chain_head (sc_hash env) (snapshot_hash (sc_hash env) (sv_log sv) i) ls\<rparr>"
  have c: "event_codec (sc_enc_event env) (sc_dec_event env)"
    "\<And>l. sc_enc_event env ?ev = Inr l \<Longrightarrow> length l < max_line"
    using assms(1) by (auto simp: codec_ok_def short_lines_def)
  obtain l where l: "log_holds (sc_hash env) (sc_dec_event env) i (ls @ [l]) lg" "sc_dec_event env l = Inr ?ev"
    using log_append_holds [OF c(1) ls(1) a [unfolded lg(1)] c(2)] by blast
  then have "lg_events lg i \<noteq> None" by (auto simp: log_holds_def)
  with l ls(2) have "intact env i sv' (evs @ [?ev])"
    unfolding intact_def lg(2) by (intro exI [of _ "ls @ [l]"]) simp
  moreover have "unchained ?ev = unchained ev" by (simp add: unchained_def)
  ultimately show thesis using that by blast
qed

lemma unchained_fields:
  "unchained a = unchained b \<Longrightarrow>
     ev_type a = ev_type b \<and> ev_payload a = ev_payload b \<and> ev_node a = ev_node b \<and> ev_time a = ev_time b"
  by (cases a; cases b) (simp add: unchained_def)

section \<open>A restart settles what was interrupted\<close>

text \<open>The two closing events can be encoded, whatever line they are chained to.\<close>

definition closing_encodes :: "server_env \<Rightarrow> string \<Rightarrow> bool" where
  "closing_encodes env i \<longleftrightarrow>
     (\<forall>b. (\<exists>l. sc_enc_event env ((cancelled_event env i)\<lparr>ev_prev := sc_hash env b\<rparr>) = Inr l) \<and>
          (\<exists>l. sc_enc_event env ((interrupted_event env i)\<lparr>ev_prev := sc_hash env b\<rparr>) = Inr l))"

lemma append_encodes:
  assumes "intact env i sv evs" and "evs \<noteq> []" and "\<And>b. \<exists>l. sc_enc_event env (ev\<lparr>ev_prev := sc_hash env b\<rparr>) = Inr l"
  shows "fst (server_append env i ev sv) = None"
proof -
  from assms(1) obtain ls where ls: "log_holds (sc_hash env) (sc_dec_event env) i ls (sv_log sv)"
    "map (sc_dec_event env) ls = map Inr evs"
    unfolding intact_def by blast
  with assms(2) have "ls \<noteq> []" by auto
  with assms(3) [of "last ls"] show ?thesis
    by (auto simp: server_append_def log_append_result [OF ls(1)] chain_head_def)
qed

definition closing :: "server_env \<Rightarrow> string \<Rightarrow> event list \<Rightarrow> event list" where
  "closing env i evs = (if unsettled evs then [cancelled_event env i, interrupted_event env i] else [])"

lemma reconcile_one_settles:
  assumes codec: "codec_ok env" and enc: "closing_encodes env i" and log: "intact env i sv evs"
  obtains new where "intact env i (reconcile_one env i sv) (evs @ new)" "map unchained new = closing env i evs"
proof (cases "unsettled evs")
  case False
  then have "reconcile_one env i sv = sv" by (simp add: reconcile_one_def intact_events [OF log])
  with that [of "[]"] log False show thesis by (simp add: closing_def)
next
  case True
  then have ne: "evs \<noteq> []" by (auto simp: unsettled_def)
  let ?c = "cancelled_event env i" and ?f = "interrupted_event env i"
  obtain sv1 where a1: "server_append env i ?c sv = (None, sv1)"
    using append_encodes [OF log ne, of ?c] enc unfolding closing_encodes_def by (metis prod.collapse)
  obtain c' where c': "unchained c' = unchained ?c" "intact env i sv1 (evs @ [c'])"
    by (rule append_intact [OF codec log a1])
  obtain sv2 where a2: "server_append env i ?f sv1 = (None, sv2)"
    using append_encodes [OF c'(2), of ?f] enc unfolding closing_encodes_def
    by (metis Nil_is_append_conv not_Cons_self2 prod.collapse)
  obtain f' where f': "unchained f' = unchained ?f" "intact env i sv2 ((evs @ [c']) @ [f'])"
    by (rule append_intact [OF codec c'(2) a2])
  have "reconcile_one env i sv = sv2" using True a1 a2 by (simp add: reconcile_one_def intact_events [OF log])
  moreover have "unchained ?c = ?c" "unchained ?f = ?f"
    by (simp_all add: unchained_def cancelled_event_def interrupted_event_def)
  ultimately show thesis using that [of "[c', f']"] c'(1) f' True by (simp add: closing_def)
qed

lemma reconcile_one_other:
  assumes "j \<noteq> i"
  shows "intact env' i (reconcile_one env j sv) evs = intact env' i sv evs"
proof (cases "server_events env j sv")
  case (Inr es)
  obtain e1 sv1 where a1: "server_append env j (cancelled_event env j) sv = (e1, sv1)" by fastforce
  obtain e2 sv2 where a2: "server_append env j (interrupted_event env j) sv1 = (e2, sv2)" by fastforce
  have "i \<noteq> j" using assms by simp
  from append_other [OF a1 this] append_other [OF a2 this] a1 a2 Inr show ?thesis
    by (simp add: reconcile_one_def)
qed (simp add: reconcile_one_def)

lemma closing_settled:
  assumes "map unchained new = closing env i evs"
  shows "\<not> unsettled (evs @ new)"
proof (cases "unsettled evs")
  case True
  with assms obtain c f where "new = [c, f]" "unchained f = interrupted_event env i" by (auto simp: closing_def)
  then have "ev_type f = ExecutionFinished" "new = [c, f]"
    by (auto simp: unchained_def interrupted_event_def dest: arg_cong [of _ _ ev_type])
  then show ?thesis by (simp add: unsettled_def)
next
  case False
  with assms show ?thesis by (simp add: closing_def)
qed

lemma fold_reconcile:
  assumes "codec_ok env" and "closing_encodes env i" and "intact env i sv evs"
  obtains new where "intact env i (fold (reconcile_one env) is sv) (evs @ new)"
    "map unchained new = (if i \<in> set is then closing env i evs else [])"
  using assms(3)
proof (induction "is" arbitrary: sv evs thesis)
  case Nil
  from Nil(1) [of "[]"] Nil(2) show ?case by simp
next
  case (Cons j js)
  show ?case
  proof (cases "j = i")
    case False
    with Cons.prems(2) reconcile_one_other [OF False] have "intact env i (reconcile_one env j sv) evs" by simp
    from Cons.IH [OF _ this] Cons.prems(1) False show ?thesis by (metis fold_simps(2) set_ConsD list.set_intros(2))
  next
    case True
    obtain new where n: "intact env i (reconcile_one env i sv) (evs @ new)" "map unchained new = closing env i evs"
      by (rule reconcile_one_settles [OF assms(1,2) Cons.prems(2)])
    obtain new' where n': "intact env i (fold (reconcile_one env) js (reconcile_one env i sv)) ((evs @ new) @ new')"
      "map unchained new' = (if i \<in> set js then closing env i (evs @ new) else [])"
      using Cons.IH [OF _ n(1)] by blast
    have "new' = []" using n'(2) closing_settled [OF n(2)] by (simp add: closing_def split: if_splits)
    with n n' True Cons.prems(1) [of new] show ?thesis by simp
  qed
qed

lemma reconcile_intact:
  assumes "codec_ok env" and "closing_encodes env i" and "intact env i sv evs"
    and "sc_fault env OpReadDir = None" and "i \<in> set (sv_dirs sv)"
  obtains new where "intact env i (reconcile env sv) (evs @ new)" "map unchained new = closing env i evs"
proof -
  have "i \<in> set (list_execution_ids env sv)" using assms(4,5) by (simp add: list_execution_ids_def)
  with fold_reconcile [OF assms(1-3), of "list_execution_ids env sv"] that show thesis
    by (auto simp: reconcile_def)
qed

lemma append_dirs: "set (sv_dirs sv) \<subseteq> set (sv_dirs (snd (server_append env i ev sv)))"
  by (auto simp: server_append_def split: prod.split)

lemma reconcile_dirs: "set (sv_dirs sv) \<subseteq> set (sv_dirs (reconcile env sv))"
proof -
  have one: "set (sv_dirs sv) \<subseteq> set (sv_dirs (reconcile_one env i sv))" for i sv
  proof (cases "server_events env i sv")
    case (Inr evs)
    show ?thesis
      using append_dirs [of sv env i "cancelled_event env i"]
        append_dirs [of "snd (server_append env i (cancelled_event env i) sv)" env i "interrupted_event env i"]
      by (auto simp: reconcile_one_def Inr)
  qed (simp add: reconcile_one_def)
  have "set (sv_dirs sv) \<subseteq> set (sv_dirs (fold (reconcile_one env) is sv))" for "is"
    by (induction "is" arbitrary: sv) (use one in \<open>auto simp: subset_iff\<close>)
  then show ?thesis by (simp add: reconcile_def)
qed

lemma closed_state:
  assumes "map unchained new = closing env i evs"
  shows "su_state (summarize_events i (evs @ new)) =
    (if unsettled evs then ''cancelled'' else su_state (summarize_events i evs))"
proof (cases "unsettled evs")
  case True
  with assms obtain c f where nf: "new = [c, f]" "unchained c = cancelled_event env i"
    "unchained f = interrupted_event env i"
    by (auto simp: closing_def)
  have c: "ev_type c = Cancelled"
    using arg_cong [OF nf(2), of ev_type] by (simp add: unchained_def cancelled_event_def)
  have f: "ev_type f = ExecutionFinished" "payload_string (ev_payload f) ''state'' = Some ''cancelled''"
    using arg_cong [OF nf(3), of ev_type] arg_cong [OF nf(3), of ev_payload]
    by (simp_all add: unchained_def interrupted_event_def payload_string_def)
  obtain s a b where "fold summarize_step evs ((zero_summary i)\<lparr>su_state := ''running''\<rparr>, 0, 0) = (s, a, b)"
    by (metis prod.exhaust)
  with True c f show ?thesis by (simp add: summarize_events_def nf(1) summarize_step_def)
next
  case False
  with assms show ?thesis by (simp add: closing_def)
qed


section \<open>An approval reaches the gate\<close>

definition gate_status :: "event list \<Rightarrow> string \<Rightarrow> approval_status option" where
  "gate_status evs cp = map_option ar_status (approval_records (Inr evs) cp)"

lemma gate_status_snoc:
  "gate_status (evs @ [ev]) cp =
     (case decision (ev_type ev) of
        Some st \<Rightarrow> if checkpoint_of ev = cp \<and> cp \<noteq> [] then Some st else gate_status evs cp
      | None \<Rightarrow> gate_status evs cp)"
  by (auto simp: gate_status_def approval_records_def approval_step_eq approval_rec_def split: option.split)

lemma listed_status:
  assumes "approvals (Inr evs) = Inr l"
  shows "map_option ap_status (map_of l cp) = map_option status_text (gate_status evs cp)"
proof -
  have "rel_option same_record (approval_records (Inr evs) cp) (map_of l cp)"
    using assms fold_approvals_agree [of Map.empty "[]" evs cp] by (simp add: approvals_def approval_records_def)
  then show ?thesis by cases (simp_all add: gate_status_def same_record_def)
qed

lemma no_empty_checkpoint: "approvals (Inr evs) = Inr l \<Longrightarrow> map_of l [] = None"
proof -
  have "map_of (approvals_step ev m) [] = None" if "map_of m [] = None" for ev m
    using that by (simp add: approvals_step_def Let_def update_conv')
  then have "map_of (fold approvals_step evs m) [] = None" if "map_of m [] = None" for m
    using that by (induction evs arbitrary: m) simp_all
  then show "approvals (Inr evs) = Inr l \<Longrightarrow> map_of l [] = None" by (auto simp: approvals_def)
qed

lemma status_text_eq: "status_text st = ''granted'' \<longleftrightarrow> st = ApGranted"
  "status_text st = ''rejected'' \<longleftrightarrow> st = ApRejected"
  by (cases st; simp)+

lemma decision_cases:
  assumes "codec_ok env" and "intact env i sv evs" and d: "d = ApprovalGranted \<or> d = ApprovalRejected"
    and run: "append_approval_decision env i cp d sv = (r, sv')"
  obtains (unchanged) "sv' = sv" "\<And>a b. r = Inr (a, b) \<Longrightarrow> \<not> b \<and> gate_status evs cp = decision d"
  | (appended) ev a where "intact env i sv' (evs @ [ev])" "ev_type ev = d" "checkpoint_of ev = cp" "cp \<noteq> []"
      "gate_status evs cp = Some ApPending" "r = Inr (a, True)"
proof -
  obtain l where l: "approvals (server_events env i sv) = Inr l" "approvals (Inr evs) = Inr l"
    using intact_events [OF assms(2)] by (simp add: approvals_def)
  note st = listed_status [OF l(2), of cp]
  show thesis
  proof (cases "map_of l cp")
    case None
    with run l have "sv' = sv" "r = Inl (ESentinel ErrNotExist)" by (simp_all add: append_approval_decision_def)
    then show thesis using unchanged by simp
  next
    case (Some a)
    then obtain s where s: "gate_status evs cp = Some s" "ap_status a = status_text s"
      using st by (cases "gate_status evs cp") auto
    from Some no_empty_checkpoint [OF l(2)] have cp: "cp \<noteq> []" by auto
    show thesis
    proof (cases s)
      case ApGranted
      with run l Some s have "sv' = sv" "r = (if d = ApprovalGranted then Inr (a, False)
          else Inl (EMsg (''approval checkpoint '' @ cp @ '' was already granted'')))"
        by (simp_all add: append_approval_decision_def)
      then show thesis using unchanged s ApGranted by (auto split: if_splits)
    next
      case ApRejected
      with run l Some s have "sv' = sv" "r = (if d = ApprovalRejected then Inr (a, False)
          else Inl (EMsg (''approval checkpoint '' @ cp @ '' was already rejected'')))"
        by (simp_all add: append_approval_decision_def)
      then show thesis using unchanged s ApRejected by (auto split: if_splits)
    next
      case ApPending
      let ?s = "if d = ApprovalRejected then ''rejected'' else ''granted''"
      obtain e sv1 where ap: "server_append env i (approval_event env d i cp a ?s) sv = (e, sv1)" by fastforce
      show thesis
      proof (cases e)
        case (Some x)
        with append_failed ap have "sv1 = sv" by blast
        with run l \<open>map_of l cp = Some a\<close> s ApPending ap Some have "sv' = sv" "r = Inl x"
          by (simp_all add: append_approval_decision_def Let_def)
        then show thesis using unchanged by simp
      next
        case None
        with run l \<open>map_of l cp = Some a\<close> s ApPending ap
        have r: "sv' = sv1" "r = Inr (a\<lparr>ap_status := ?s\<rparr>, True)"
          by (simp_all add: append_approval_decision_def Let_def)
        obtain ev where ev: "unchained ev = unchained (approval_event env d i cp a ?s)"
          "intact env i sv1 (evs @ [ev])"
          by (rule append_intact [OF assms(1,2) ap [unfolded None]])
        from unchained_fields [OF ev(1)] have "ev_type ev = d" "checkpoint_of ev = cp"
          by (simp_all add: approval_event_def checkpoint_of_def string_payload_def payload_string_def)
        with ev(2) r cp s ApPending show thesis by (intro appended) simp_all
      qed
    qed
  qed
qed

lemma handle_approval_cases:
  assumes "handle_approval env d i cp sv = ((status, body), sv')"
  obtains (refused) "sv' = sv" "status \<noteq> 200" "status \<noteq> 202"
  | (decided) r sv1 where "append_approval_decision env i cp d sv = (r, sv1)" "sv_log sv' = sv_log sv1"
      "status = 200 \<or> status = 202 \<Longrightarrow> \<exists>a b. r = Inr (a, b)"
      "status = 202 \<Longrightarrow> \<exists>asm. sv' = launch i asm (CallResume i) sv1"
proof (cases "sc_assemble env = None \<or> running i sv")
  case True
  with assms have "sv' = sv \<and> (status = 501 \<or> status = 409)"
    by (auto simp: handle_approval_def split: option.splits)
  then show thesis using refused by auto
next
  case False
  then obtain assemble where as: "sc_assemble env = Some assemble" and idle: "\<not> running i sv" by auto
  obtain r sv1 where r: "append_approval_decision env i cp d sv = (r, sv1)" by fastforce
  show thesis
  proof (cases r)
    case (Inl e)
    with assms as idle r have "sv' = sv1" "status = 409" by (simp_all add: handle_approval_def)
    then show thesis using decided [OF r] by simp
  next
    case (Inr ab)
    obtain a b where ab: "ab = (a, b)" by fastforce
    show thesis
    proof (cases b)
      case False
      with assms as idle r Inr ab have "sv' = sv1" "status = 200" by (simp_all add: handle_approval_def)
      then show thesis using decided [OF r] Inr ab by simp
    next
      case True
      show thesis
      proof (cases "assembly_for env assemble i sv1")
        case (Inl e)
        with assms as idle r Inr ab True have "sv' = sv1" "(status, body) = assembly_error e"
          by (simp_all add: handle_approval_def)
        moreover have "status \<noteq> 200 \<and> status \<noteq> 202"
          using calculation(2) by (simp add: assembly_error_def split: if_splits)
        ultimately show thesis by (intro decided [OF r]) simp_all
      next
        case (Inr p)
        then obtain asm rp where "assembly_for env assemble i sv1 = Inr (asm, rp)" by (cases p) auto
        with assms as idle r \<open>r = Inr ab\<close> ab True have "sv' = launch i asm (CallResume i) sv1" "status = 202"
          by (simp_all add: handle_approval_def)
        then show thesis using \<open>r = Inr ab\<close> ab by (intro decided [OF r]) (simp_all add: launch_def exI)
      qed
    qed
  qed
qed


section \<open>A started run can be resumed\<close>

lemma written_params_read:
  assumes "write_run_params env i rp sv = (None, sv')" and "sc_tmp env \<noteq> params_path i sv"
    and "\<And>b. sc_enc_params env rp = Inr b \<Longrightarrow> dec b = Inr rp"
  obtains b where "sv_files sv' (params_path i sv) = Some b" "dec b = Inr rp" "sv_log sv' = sv_log sv"
proof -
  from assms(1) obtain b where b: "sc_enc_params env rp = Inr b" by (auto simp: write_run_params_def Let_def
        split: option.splits sum.splits)
  let ?c = "commit_file ''server'' (sc_fault env) (sc_tmp env) (params_path i sv) b (sv_files sv)"
  have pp: "params_path i (sv\<lparr>sv_dirs := ds\<rparr>) = params_path i sv" for ds by (simp add: params_path_def)
  from assms(1) b have "fst ?c = None" "sv_files sv' = last (snd ?c)" "sv_log sv' = sv_log sv"
    by (auto simp: write_run_params_def Let_def pp split: option.splits prod.splits)
  with commit_result [OF assms(2), of "''server''" "sc_fault env" b "sv_files sv"] assms(3) [OF b] that show thesis
    by simp
qed

lemma handle_run_accepted:
  assumes "handle_run env (Inr req) sv = ((200, body), sv')"
  obtains assemble asm i rp sv1 opts where "sc_assemble env = Some assemble" "assemble (rr_workflow req) = Inr asm"
    "body = RunBody i" "write_run_params env i rp sv = (None, sv1)" "rp_workflow rp = rr_workflow req"
    "ro_inputs opts = rr_inputs req" "sv' = launch i asm (CallRun (asm_workflow asm) opts) sv1"
proof -
  from assms obtain assemble mint where e: "sc_assemble env = Some assemble" "sc_new_id env = Some mint"
    by (auto simp: handle_run_def split: option.splits)
  with assms obtain asm where a: "rr_workflow req \<noteq> []" "assemble (rr_workflow req) = Inr asm"
    by (auto simp: handle_run_def split: sum.splits if_splits)
  with assms e obtain refs where c: "resolve_connection_refs env sv asm (rr_connections req) = Inr refs"
    by (auto simp: handle_run_def Let_def split: sum.splits)
  let ?i = "mint (wf_id (asm_workflow asm))"
  let ?mode = "effective_cache env sv (rr_cache req)"
  let ?b = "effective_budget env sv (asm_workflow asm) (rr_budget req)"
  let ?rp = "\<lparr>rp_workflow = rr_workflow req, rp_inputs = rr_inputs req, rp_cache = cache_mode_text ?mode,
      rp_budget = max_cost_usd ?b, rp_allow_mutations = rr_allow_mutations req\<rparr>"
  obtain x sv1 where w: "write_run_params env ?i ?rp sv = (x, sv1)" by fastforce
  with assms e a c have "x = None" by (cases x) (simp_all add: handle_run_def Let_def)
  with assms e a c w have f: "body = RunBody ?i"
    "sv' = launch ?i asm (CallRun (asm_workflow asm) (run_opts ?i asm ?b ?mode refs req)) sv1"
    by (simp_all add: handle_run_def Let_def)
  from w \<open>x = None\<close> have w: "write_run_params env ?i ?rp sv = (None, sv1)" by simp
  show thesis by (rule that [OF e(1) a(2) f(1) w _ _ f(2)]) (simp_all add: run_opts_def)
qed

text \<open>Nothing has to be supplied again: whenever later, when the run is over, its parameters file is
  still there and the workflow still loads, a resume or a retry of an execution that \<open>POST /api/run\<close>
  accepted launches it on the same assembly.\<close>

theorem started_run_resumable:
  assumes "handle_run env (Inr req) sv = ((200, RunBody i), sv')"
    and "sc_assemble env' = sc_assemble env" and "sc_tmp env \<noteq> params_path i sv"
    and "\<And>rp b. sc_enc_params env rp = Inr b \<Longrightarrow> sc_dec_params env' b = Inr rp"
    and "sc_fault env' OpRead = None" and "\<not> running i sv2"
    and "sv_files sv2 (params_path i sv2) = sv_files sv' (params_path i sv')"
  shows "\<exists>asm opts. (case sc_assemble env of None \<Rightarrow> False | Some assemble \<Rightarrow> assemble (rr_workflow req) = Inr asm) \<and>
    rt_call (last (sv_tasks sv')) = CallRun (asm_workflow asm) opts \<and> ro_inputs opts = rr_inputs req \<and>
    handle_retry env' i n sv2 = ((200, RunBody i),
      launch i asm (if trim_space n \<noteq> [] then CallResumeFrom i (trim_space n) else CallResume i) sv2)"
proof -
  obtain assemble asm i' rp sv1 opts where r': "sc_assemble env = Some assemble" "assemble (rr_workflow req) = Inr asm"
    "RunBody i = RunBody i'" "write_run_params env i' rp sv = (None, sv1)" "rp_workflow rp = rr_workflow req"
    "ro_inputs opts = rr_inputs req" "sv' = launch i' asm (CallRun (asm_workflow asm) opts) sv1"
    by (rule handle_run_accepted [OF assms(1)])
  then have r: "sc_assemble env = Some assemble" "assemble (rr_workflow req) = Inr asm"
    "write_run_params env i rp sv = (None, sv1)" "rp_workflow rp = rr_workflow req" "ro_inputs opts = rr_inputs req"
    "sv' = launch i asm (CallRun (asm_workflow asm) opts) sv1"
    by simp_all
  obtain b where b: "sv_files sv1 (params_path i sv) = Some b" "sc_dec_params env' b = Inr rp" "sv_log sv1 = sv_log sv"
    by (rule written_params_read [OF r(3) assms(3,4)])
  have "params_path i sv' = params_path i sv" "sv_files sv' = sv_files sv1"
    by (simp_all add: r(6) params_path_def launch_def b(3))
  with b(1) assms(7) have "sv_files sv2 (params_path i sv2) = Some b" by simp
  with b(2) assms(5) have "read_run_params env' i sv2 = Inr rp" by (simp add: read_run_params_def)
  with r(2,4) have "assembly_for env' assemble i sv2 = Inr (asm, rp)" by (simp add: assembly_for_def)
  then have "handle_retry env' i n sv2 = ((200, RunBody i),
      launch i asm (if trim_space n \<noteq> [] then CallResumeFrom i (trim_space n) else CallResume i) sv2)"
    using assms(2,6) r(1) by (simp add: handle_retry_def retry_check_def retry_launch_def Let_def)
  moreover have "rt_call (last (sv_tasks sv')) = CallRun (asm_workflow asm) opts" by (simp add: r(6) launch_def)
  ultimately show ?thesis using r by (intro exI [of _ asm] exI [of _ opts]) simp
qed

section \<open>A server to run the theorems on\<close>

text \<open>The codec knows five events; the lines are letters.\<close>

definition ctl_event :: "event_type \<Rightarrow> string \<Rightarrow> string \<Rightarrow> payload \<Rightarrow> event" where
  "ctl_event ty nid prev p =
     \<lparr>ev_type = ty, ev_time = 5, ev_exec = ''e'', ev_node = nid, ev_prev = prev, ev_payload = p\<rparr>"

definition ctl_started :: event where
  "ctl_started = ctl_event ExecutionStarted [] [] [(''workflow'', JStr ''w'')]"

definition ctl_requested :: event where
  "ctl_requested = ctl_event ApprovalRequested ''n'' ''h'' [(''checkpointId'', JStr ''c''), (''tool'', JStr ''git'')]"

definition ctl_table :: "(bytes \<times> event) list" where
  "ctl_table =
     [(''s'', ctl_started), (''r'', ctl_requested),
      (''c'', ctl_event Cancelled [] ''h'' [(''reason'', JStr ''interrupted: wee serve restarted'')]),
      (''f'', ctl_event ExecutionFinished [] ''h'' [(''state'', JStr ''cancelled''), (''reason'', JStr ''interrupted'')]),
      (''g'', ctl_event ApprovalGranted ''n'' ''h''
         [(''checkpointId'', JStr ''c''), (''tool'', JStr ''git''), (''status'', JStr ''granted'')])]"

definition ctl_enc :: "event \<Rightarrow> err + bytes" where
  "ctl_enc ev = (case find (\<lambda>p. snd p = ev) ctl_table of Some p \<Rightarrow> Inr (fst p) | None \<Rightarrow> Inl (EMsg ''unsupported event''))"

definition ctl_dec :: "bytes \<Rightarrow> err + event" where
  "ctl_dec l = (case map_of ctl_table l of Some ev \<Rightarrow> Inr ev | None \<Rightarrow> Inl (EMsg ''invalid character''))"

definition ctl_assembly :: assembly where
  "ctl_assembly = \<lparr>asm_workflow = sn_workflow one_node_snapshot, asm_hashes = Map.empty, asm_workers = Map.empty,
     asm_connections = Map.empty\<rparr>"

definition ctl_params :: run_params where
  "ctl_params = \<lparr>rp_workflow = ''w.yaml'', rp_inputs = Map.empty, rp_cache = ''on'', rp_budget = 1,
     rp_allow_mutations = False\<rparr>"

definition ctl_env :: server_env where
  "ctl_env =
     \<lparr>sc_assemble = Some (\<lambda>r. Inr ctl_assembly), sc_new_id = Some (\<lambda>w. ''new''), sc_default_cache = CacheUnset,
      sc_fault = no_faults, sc_now = 5, sc_tmp = ''tmp'', sc_hash = (\<lambda>b. ''h''), sc_enc_event = ctl_enc,
      sc_dec_event = ctl_dec, sc_dec_snapshot = (\<lambda>b. Inr one_node_snapshot), sc_enc_params = (\<lambda>rp. if rp = ctl_params
        then Inr ''p'' else Inl (EMsg ''unsupported'')), sc_dec_params = (\<lambda>b. Inr ctl_params),
      sc_enc_settings = (\<lambda>v. Inr ''v''), sc_dec_settings = (\<lambda>b. Inr zero_settings), sc_tar = (\<lambda>n. None)\<rparr>"

definition ctl_log :: "bytes list \<Rightarrow> log_state" where
  "ctl_log ls = \<lparr>lg_base = ''ws'', lg_events = [''e'' \<mapsto> file_of ls], lg_snapshot = Map.empty, lg_last = Map.empty\<rparr>"

definition ctl_server :: "bytes list \<Rightarrow> server" where
  "ctl_server ls =
     \<lparr>sv_log = ctl_log ls, sv_dirs = [''e''], sv_files = [''ws/executions/e/runparams.json'' \<mapsto> ''p''],
      sv_store = new_store [] [], sv_cache = new_cache DiskNone, sv_env = Map.empty, sv_runs = Map.empty,
      sv_tasks = [], sv_next = 0\<rparr>"

lemma ctl_codec: "codec_ok ctl_env"
proof -
  have "(l, ev) \<in> set ctl_table" if "ctl_enc ev = Inr l" for ev l
    using that by (auto simp: ctl_enc_def find_Some_iff split: option.splits intro: nth_mem)
  then have t: "l \<in> {''s'', ''r'', ''c'', ''f'', ''g''} \<and> ctl_dec l = Inr ev" if "ctl_enc ev = Inr l" for ev l
    using that by (fastforce simp: ctl_dec_def ctl_table_def)
  have "newline \<notin> set l \<and> trim_space l = l \<and> l \<noteq> [] \<and> length l < max_line"
    if "l \<in> {''s'', ''r'', ''c'', ''f'', ''g''}" for l
    using that by (auto simp: newline_def max_line_def is_space_def intro!: trim_space_id)
  with t show ?thesis unfolding codec_ok_def event_codec_def short_lines_def
    by (simp add: ctl_env_def)
qed

lemma ctl_line_ok: "\<forall>l\<in>set [''s'', ''r'']. line_ok l"
  by (auto simp: line_ok_def newline_def max_line_def is_space_def intro!: trim_space_id)

lemma ctl_intact: "intact ctl_env ''e'' (ctl_server [''s'']) [ctl_started]"
  "intact ctl_env ''e'' (ctl_server [''s'', ''r'']) [ctl_started, ctl_requested]"
proof -
  have d: "ctl_dec ''s'' = Inr ctl_started" "ctl_dec ''r'' = Inr ctl_requested"
    by (simp_all add: ctl_dec_def ctl_table_def)
  have c: "chained (\<lambda>b. ''h'') ctl_dec [] [''s'']" "chained (\<lambda>b. ''h'') ctl_dec [] [''s'', ''r'']"
    by (simp_all add: d) (simp_all add: ctl_started_def ctl_requested_def ctl_event_def)
  show "intact ctl_env ''e'' (ctl_server [''s'']) [ctl_started]"
    unfolding intact_def using ctl_line_ok c(1) d
    by (intro exI [of _ "[''s'']"]) (simp add: ctl_env_def ctl_server_def ctl_log_def log_holds_def
        snapshot_hash_def genesis_hash_def)
  show "intact ctl_env ''e'' (ctl_server [''s'', ''r'']) [ctl_started, ctl_requested]"
    unfolding intact_def using ctl_line_ok c(2) d
    by (intro exI [of _ "[''s'', ''r'']"]) (simp add: ctl_env_def ctl_server_def ctl_log_def log_holds_def
        snapshot_hash_def genesis_hash_def)
qed

lemma ctl_closing: "closing_encodes ctl_env ''e''"
  unfolding closing_encodes_def
  by (simp add: ctl_env_def ctl_enc_def ctl_table_def cancelled_event_def interrupted_event_def ctl_event_def
      ctl_started_def ctl_requested_def)


lemma ctl_resume:
  "handle_retry ctl_env ''e'' [] (ctl_server ls) = ((200, RunBody ''e''), launch ''e'' ctl_assembly (CallResume ''e'') (ctl_server ls))"
  by (simp add: handle_retry_def retry_check_def retry_launch_def assembly_for_def read_run_params_def ctl_env_def
      ctl_server_def running_def no_faults_def params_path_def log_dir_def ctl_log_def trim_space_def)



lemma started_run_resumable_witness:
  "\<exists>sv. handle_run ctl_env (Inr \<lparr>rr_workflow = ''w.yaml'', rr_inputs = Map.empty, rr_cache = [], rr_budget = 0,
      rr_connections = [], rr_allow_mutations = False\<rparr>) (ctl_server [''s'']) = ((200, RunBody ''new''), sv) \<and>
    fst (handle_retry ctl_env ''new'' ''n'' (run_done (last (sv_tasks sv)) sv)) = (200, RunBody ''new'')"
proof -
  let ?req = "\<lparr>rr_workflow = ''w.yaml'', rr_inputs = Map.empty, rr_cache = [], rr_budget = 0,
      rr_connections = [], rr_allow_mutations = False\<rparr>"
  let ?s0 = "ctl_server [''s'']"
  have m: "effective_cache ctl_env ?s0 [] = CacheOn"
    by (simp add: effective_cache_def cache_mode_from_string_def server_settings_def load_settings_def ctl_env_def
        ctl_server_def ctl_log_def no_faults_def zero_settings_def settings_path_def)
  have b: "max_cost_usd (effective_budget ctl_env ?s0 (asm_workflow ctl_assembly) 0) = 1"
    by (simp add: effective_budget_def server_settings_def load_settings_def ctl_env_def ctl_assembly_def
        ctl_server_def ctl_log_def no_faults_def zero_settings_def settings_path_def one_node_snapshot_def sample_wf_def Let_def)
  let ?c = "commit_file ''server'' no_faults ''tmp'' ''ws/executions/new/runparams.json'' ''p'' (sv_files ?s0)"
  have "fst ?c = None" by (simp add: commit_file_def no_faults_def Let_def)
  then obtain states where c: "?c = (None, states)" by (cases ?c) simp
  let ?sv1 = "?s0\<lparr>sv_dirs := [''new'', ''e''], sv_files := last states\<rparr>"
  have w: "write_run_params ctl_env ''new'' ctl_params ?s0 = (None, ?sv1)"
    using c by (simp add: write_run_params_def ctl_env_def ctl_server_def ctl_log_def no_faults_def params_path_def
        log_dir_def)
  then obtain sv where r: "handle_run ctl_env (Inr ?req) ?s0 = ((200, RunBody ''new''), sv)"
    "sv_runs (run_done (last (sv_tasks sv)) sv) ''new'' = None"
    using m b by (simp add: handle_run_def resolve_connection_refs_def ctl_params_def Let_def run_done_def launch_def
        ctl_env_def)
  have "\<And>rp b. sc_enc_params ctl_env rp = Inr b \<Longrightarrow> sc_dec_params ctl_env b = Inr rp"
    by (auto simp: ctl_env_def split: if_splits)
  moreover have "sc_tmp ctl_env \<noteq> params_path ''new'' ?s0"
    by (simp add: ctl_env_def params_path_def log_dir_def ctl_server_def ctl_log_def)
  moreover have "sc_fault ctl_env OpRead = None" by (simp add: ctl_env_def no_faults_def)
  moreover have "\<not> running ''new'' (run_done (last (sv_tasks sv)) sv)" using r(2) by (simp add: running_def)
  ultimately have "fst (handle_retry ctl_env ''new'' ''n'' (run_done (last (sv_tasks sv)) sv)) = (200, RunBody ''new'')"
    using started_run_resumable [OF r(1), of ctl_env "run_done (last (sv_tasks sv)) sv" "''n''"]
    by (auto simp: run_done_def params_path_def)
  with r(1) show ?thesis by blast
qed

end
