(* ===== verification/Backup.thy ===== *)
theory Backup
  imports Tools
begin

text \<open>
  Workspace backups (\<open>cli/cmd/backup.go\<close>): walking the workspace into a tar archive, reading one back under a
  root. The operating system fails where a fault says so. What \<open>archive/tar\<close> does is written out as far as it
  matters: a body longer than its header's size is an error at once, a shorter one at the next header, and when
  there is no next header only \<open>Close\<close> would tell. Permission bits are left out.
\<close>

section \<open>Archives\<close>

datatype entry_type = TarDir | TarReg | TarOther

record tar_entry =
  te_name :: string
  te_type :: entry_type
  te_body :: bytes
  te_err :: "err option"

text \<open>What a reader finds: the entries, then the end or an error.\<close>

record tar_archive =
  ar_entries :: "tar_entry list"
  ar_end :: "err option"

record tar_writer =
  tw_entries :: "tar_entry list"
  tw_left :: nat

definition header_entry :: "string \<Rightarrow> entry_type \<Rightarrow> tar_entry" where
  "header_entry n t = \<lparr>te_name = n, te_type = t, te_body = [], te_err = None\<rparr>"

definition write_header :: "string \<Rightarrow> entry_type \<Rightarrow> nat \<Rightarrow> tar_writer \<Rightarrow> err option \<times> tar_writer" where
  "write_header n t sz w =
     (if 0 < tw_left w
      then (Some (EMsg (''archive/tar: missed writing '' @ nat_str (tw_left w) @ '' bytes'')), w)
      else (None, \<lparr>tw_entries = tw_entries w @ [header_entry n t], tw_left = sz\<rparr>))"

definition write_body :: "bytes \<Rightarrow> tar_writer \<Rightarrow> err option \<times> tar_writer" where
  "write_body b w =
     (let k = min (length b) (tw_left w); e = last (tw_entries w) in
      (if tw_left w < length b then Some (EMsg ''archive/tar: write too long'') else None,
       \<lparr>tw_entries = butlast (tw_entries w) @ [e\<lparr>te_body := te_body e @ take k b\<rparr>], tw_left = tw_left w - k\<rparr>))"

text \<open>What is left on disk once the deferred closes ran. An unfinished last body ends the archive early; \<open>cut\<close>
  says where a failing close (a full disk, say) left it.\<close>

definition closed_archive :: "(nat \<times> err) option \<Rightarrow> tar_writer \<Rightarrow> tar_archive" where
  "closed_archive lost w =
     (let es = (if 0 < tw_left w
                then butlast (tw_entries w) @ [(last (tw_entries w))\<lparr>te_err := Some (EMsg ''unexpected EOF'')\<rparr>]
                else tw_entries w)
      in case lost of
           None \<Rightarrow> \<lparr>ar_entries = es, ar_end = None\<rparr>
         | Some (n, e) \<Rightarrow> \<lparr>ar_entries = take n es, ar_end = Some e\<rparr>)"

section \<open>Creating a backup\<close>

text \<open>A file has the size its \<open>Lstat\<close> reported and the bytes that reading it gives; a directory lists its
  entries in the order \<open>os.ReadDir\<close> does; a symbolic link has what reading through it gives.\<close>

datatype dtree =
    TFile nat bytes
  | TDir "(string \<times> dtree) list"
  | TLink "err + bytes"
  | TSocket

datatype walk_op = WReadDir | WInfo | WHeader | WOpen | WCopy | WClose

type_synonym walk_faults = "walk_op \<Rightarrow> string list \<Rightarrow> err option"

type_synonym walk_state = "nat \<times> tar_writer"

definition copy_file :: "walk_faults \<Rightarrow> string list \<Rightarrow> bytes \<Rightarrow> walk_state \<Rightarrow> err option \<times> walk_state" where
  "copy_file fault p b s =
     (case fault WOpen p of
        Some e \<Rightarrow> (Some e, s)
      | None \<Rightarrow>
     (case write_body b (snd s) of
        (Some e, w) \<Rightarrow> (Some e, fst s, w)
      | (None, w) \<Rightarrow>
     (case fault WCopy p of
        Some e \<Rightarrow> (Some e, fst s, w)
      | None \<Rightarrow>
     (case fault WClose p of
        Some e \<Rightarrow> (Some e, fst s, w)
      | None \<Rightarrow> (None, Suc (fst s), w)))))"

definition add_header :: "walk_faults \<Rightarrow> string list \<Rightarrow> entry_type \<Rightarrow> nat \<Rightarrow> walk_state \<Rightarrow> err option \<times> walk_state" where
  "add_header fault p t sz s =
     (case fault WInfo p of
        Some e \<Rightarrow> (Some e, s)
      | None \<Rightarrow>
     (case write_header (join ''/'' p) t sz (snd s) of
        (Some e, w) \<Rightarrow> (Some e, fst s, w)
      | (None, w) \<Rightarrow> (fault WHeader p, fst s, w)))"

fun walk_node :: "walk_faults \<Rightarrow> string list \<Rightarrow> dtree \<Rightarrow> walk_state \<Rightarrow> err option \<times> walk_state"
  and walk_children :: "walk_faults \<Rightarrow> string list \<Rightarrow> (string \<times> dtree) list \<Rightarrow> walk_state \<Rightarrow> err option \<times> walk_state" where
  "walk_node fault p (TFile sz b) s =
     (case add_header fault p TarReg sz s of
        (Some e, s) \<Rightarrow> (Some e, s)
      | (None, s) \<Rightarrow> copy_file fault p b s)"
| "walk_node fault p (TDir es) s =
     (case add_header fault p TarDir 0 s of
        (Some e, s) \<Rightarrow> (Some e, s)
      | (None, s) \<Rightarrow>
          (case fault WReadDir p of Some e \<Rightarrow> (Some e, s) | None \<Rightarrow> walk_children fault p es s))"
| "walk_node fault p (TLink r) s =
     (case add_header fault p TarOther 0 s of
        (Some e, s) \<Rightarrow> (Some e, s)
      | (None, s) \<Rightarrow> (case r of Inl e \<Rightarrow> (Some e, s) | Inr b \<Rightarrow> copy_file fault p b s))"
| "walk_node fault p TSocket s =
     (case fault WInfo p of
        Some e \<Rightarrow> (Some e, s)
      | None \<Rightarrow> (Some (EMsg ''archive/tar: sockets not supported''), s))"
| "walk_children fault p [] s = (None, s)"
| "walk_children fault p ((n, t) # es) s =
     (case walk_node fault (p @ [n]) t s of
        (Some e, s) \<Rightarrow> (Some e, s)
      | (None, s) \<Rightarrow> walk_children fault p es s)"

text \<open>\<open>filepath.WalkDir\<close> starts with \<open>Lstat\<close>: a root that is not itself a directory, a link to one included, is
  visited alone, and the visitor skips the root.\<close>

definition walk_root :: "walk_faults \<Rightarrow> dtree \<Rightarrow> walk_state \<Rightarrow> err option \<times> walk_state" where
  "walk_root fault t s =
     (case t of
        TDir es \<Rightarrow> (case fault WReadDir [] of Some e \<Rightarrow> (Some e, s) | None \<Rightarrow> walk_children fault [] es s)
      | _ \<Rightarrow> (None, s))"

definition abs_path :: "path \<Rightarrow> string \<Rightarrow> path" where
  "abs_path cwd p = join_clean (if has_prefix p ''/'' then [] else cwd) p"

definition path_inside :: "path \<Rightarrow> string \<Rightarrow> string \<Rightarrow> bool" where
  "path_inside cwd parent child \<longleftrightarrow> take 1 (rel_path (abs_path cwd parent) (abs_path cwd child)) \<noteq> [''..'']"

record backup_os =
  bo_cwd :: path
  bo_stat :: "err + bool"
  bo_create :: "err option"
  bo_walk :: walk_faults
  bo_lost :: "(nat \<times> err) option"

text \<open>The result, and the archive if one was created. \<open>bo_stat\<close> is \<open>os.Stat\<close> of the workspace: whether it leads to
  a directory.\<close>

definition create_backup :: "backup_os \<Rightarrow> string \<Rightarrow> string \<Rightarrow> dtree \<Rightarrow> (nat \<times> err option) \<times> tar_archive option" where
  "create_backup os ws arch t =
     (case bo_stat os of
        Inl e \<Rightarrow> ((0, Some (errorf (''workspace '' @ ws @ '' is not readable: '') e [])), None)
      | Inr d \<Rightarrow>
          if \<not> d then ((0, Some (EMsg (''workspace '' @ ws @ '' is not a directory''))), None)
          else if path_inside (bo_cwd os) ws arch
          then ((0, Some (EMsg (''backup archive must be outside workspace '' @ ws))), None)
          else
     (case bo_create os of
        Some e \<Rightarrow> ((0, Some (errorf (''create backup '' @ arch @ '': '') e [])), None)
      | None \<Rightarrow>
     (case walk_root (bo_walk os) t (0, \<lparr>tw_entries = [], tw_left = 0\<rparr>) of
        (r, n, w) \<Rightarrow>
          ((n, map_option (\<lambda>e. errorf ''write backup: '' e []) r), Some (closed_archive (bo_lost os) w)))))"

section \<open>Restoring one\<close>

datatype fnode = FDir | FFile bytes

type_synonym file_tree = "(path \<times> fnode) list"

text \<open>\<open>rs_follow\<close> is the file that a path leads to once symbolic links are followed.\<close>

record restore_os =
  rs_cwd :: path
  rs_follow :: "path \<Rightarrow> path"
  rs_open_dir :: "err option"
  rs_read_dir :: "err option"
  rs_mkdir :: "path \<Rightarrow> err option"
  rs_open :: "path \<Rightarrow> err option"
  rs_write :: "path \<Rightarrow> (nat \<times> err) option"
  rs_close :: "path \<Rightarrow> err option"

definition find_node :: "restore_os \<Rightarrow> path \<Rightarrow> file_tree \<Rightarrow> fnode option" where
  "find_node os p fs = map_of fs (rs_follow os p)"

function mkdir_all :: "restore_os \<Rightarrow> path \<Rightarrow> file_tree \<Rightarrow> err option \<times> file_tree" where
  "mkdir_all os p fs =
     (case find_node os p fs of
        Some FDir \<Rightarrow> (None, fs)
      | Some (FFile b) \<Rightarrow> (Some (EMsg ''not a directory''), fs)
      | None \<Rightarrow>
          if p = [] then (None, fs)
          else (case mkdir_all os (butlast p) fs of
                  (Some e, fs) \<Rightarrow> (Some e, fs)
                | (None, fs) \<Rightarrow>
               (case rs_mkdir os p of
                  Some e \<Rightarrow> (Some e, fs)
                | None \<Rightarrow> (None, (rs_follow os p, FDir) # fs))))"
  by pat_completeness auto
termination by (relation "measure (\<lambda>(os, p, fs). length p)") auto

declare mkdir_all.simps [simp del]

definition dir_empty :: "restore_os \<Rightarrow> string \<Rightarrow> path \<Rightarrow> file_tree \<Rightarrow> err + bool" where
  "dir_empty os ws p fs =
     (case find_node os p fs of
        None \<Rightarrow> Inr True
      | Some n \<Rightarrow>
     (case rs_open_dir os of
        Some e \<Rightarrow> Inl (errorf (''open workspace '' @ ws @ '': '') e [])
      | None \<Rightarrow>
     (case (case n of FFile b \<Rightarrow> Some (EMsg ''not a directory'') | FDir \<Rightarrow> rs_read_dir os) of
        Some e \<Rightarrow> Inl (errorf (''read workspace '' @ ws @ '': '') e [])
      | None \<Rightarrow> Inr (\<forall>(q, x)\<in>set fs. q = [] \<or> butlast q \<noteq> rs_follow os p))))"

fun clean_rel_step :: "path \<Rightarrow> string \<Rightarrow> path" where
  "clean_rel_step acc c =
     (if c = [] \<or> c = ''.'' then acc
      else if c = ''..'' then (if acc = [] \<or> last acc = ''..'' then acc @ [''..''] else butlast acc)
      else acc @ [c])"

text \<open>\<open>filepath.Clean\<close> of a relative path; the empty list is \<open>.\<close>.\<close>

definition clean_rel :: "string \<Rightarrow> path" where
  "clean_rel name = foldl clean_rel_step [] (split_on CHR ''/'' name)"

definition safe_restore_path :: "path \<Rightarrow> string \<Rightarrow> err + path" where
  "safe_restore_path base name =
     (let unsafe = EMsg (''unsafe backup entry '' @ quote name) in
      if name = [] \<or> has_prefix name ''/'' \<or> contains name [CHR 0x5C] then Inl unsafe
      else
        let c = clean_rel name in
        if c = [] \<or> take 1 c = [''..''] then Inl unsafe
        else
          let target = foldl clean_step base c in
          if take 1 (rel_path base target) = [''..''] then Inl unsafe else Inr target)"

definition put_entry :: "restore_os \<Rightarrow> path \<Rightarrow> bytes \<Rightarrow> err option \<Rightarrow> file_tree \<Rightarrow> err option \<times> file_tree" where
  "put_entry os p b r fs =
     (case (case rs_open os p of
              Some e \<Rightarrow> Some e
            | None \<Rightarrow> if find_node os p fs = Some FDir then Some (EMsg ''is a directory'') else None) of
        Some e \<Rightarrow> (Some e, fs)
      | None \<Rightarrow>
     (case rs_write os p of
        Some (k, e) \<Rightarrow> (Some e, (rs_follow os p, FFile (take k b)) # fs)
      | None \<Rightarrow>
          let fs = (rs_follow os p, FFile b) # fs in
          (case r of Some e \<Rightarrow> (Some e, fs) | None \<Rightarrow> (rs_close os p, fs))))"

definition restore_entry :: "restore_os \<Rightarrow> path \<Rightarrow> tar_entry \<Rightarrow> file_tree \<Rightarrow> (err + nat) \<times> file_tree" where
  "restore_entry os base e fs =
     (case safe_restore_path base (te_name e) of
        Inl x \<Rightarrow> (Inl x, fs)
      | Inr target \<Rightarrow>
     (case te_type e of
        TarDir \<Rightarrow> (case mkdir_all os target fs of (Some x, fs) \<Rightarrow> (Inl x, fs) | (None, fs) \<Rightarrow> (Inr 0, fs))
      | TarReg \<Rightarrow>
          (case mkdir_all os (butlast target) fs of
             (Some x, fs) \<Rightarrow> (Inl x, fs)
           | (None, fs) \<Rightarrow>
          (case put_entry os target (te_body e) (te_err e) fs of
             (Some x, fs) \<Rightarrow> (Inl x, fs)
           | (None, fs) \<Rightarrow> (Inr 1, fs)))
      | TarOther \<Rightarrow> (Inl (EMsg (''unsupported backup entry '' @ te_name e)), fs)))"

fun restore_entries :: "restore_os \<Rightarrow> path \<Rightarrow> nat \<Rightarrow> tar_entry list \<Rightarrow> err option \<Rightarrow> file_tree \<Rightarrow> (nat \<times> err option) \<times> file_tree" where
  "restore_entries os base n [] end_err fs = ((n, map_option (\<lambda>e. errorf ''read backup entry: '' e []) end_err), fs)"
| "restore_entries os base n (e # es) end_err fs =
     (case restore_entry os base e fs of
        (Inl x, fs) \<Rightarrow> ((n, Some x), fs)
      | (Inr k, fs) \<Rightarrow> restore_entries os base (n + k) es end_err fs)"

text \<open>\<open>src\<close> is what opening the archive and then its gzip header gives.\<close>

definition restore_backup ::
  "restore_os \<Rightarrow> string \<Rightarrow> err + err + tar_archive \<Rightarrow> string \<Rightarrow> bool \<Rightarrow> file_tree \<Rightarrow> (nat \<times> err option) \<times> file_tree" where
  "restore_backup os arch src ws force fs =
     (let base = abs_path (rs_cwd os) ws;
          go = (case src of
                  Inl e \<Rightarrow> ((0, Some (errorf (''open backup '' @ arch @ '': '') e [])), fs)
                | Inr (Inl e) \<Rightarrow> ((0, Some (errorf (''read backup '' @ arch @ '': '') e [])), fs)
                | Inr (Inr a) \<Rightarrow> restore_entries os base 0 (ar_entries a) (ar_end a) fs)
      in if force then go
         else (case dir_empty os ws base fs of
                 Inl e \<Rightarrow> ((0, Some e), fs)
               | Inr False \<Rightarrow>
                   ((0, Some (EMsg (''workspace '' @ ws @ '' is not empty; pass --force to restore over it''))), fs)
               | Inr True \<Rightarrow> go))"

section \<open>Where a restore writes\<close>

definition proper :: "path \<Rightarrow> bool" where
  "proper c \<longleftrightarrow> [] \<notin> set c \<and> ''.'' \<notin> set c \<and> ''..'' \<notin> set c"

lemma proper_simps [simp]: "proper []" "proper (a # c) \<longleftrightarrow> a \<noteq> [] \<and> a \<noteq> ''.'' \<and> a \<noteq> ''..'' \<and> proper c"
  "proper (c @ d) \<longleftrightarrow> proper c \<and> proper d"
  by (auto simp: proper_def)

lemma proper_butlast: "proper c \<Longrightarrow> proper (butlast c)"
  by (auto simp: proper_def dest: in_set_butlastD)

lemma clean_rel_proper: "proper c \<Longrightarrow> foldl clean_step p c = p @ c"
  by (induction c arbitrary: p) auto

lemma clean_rel_form:
  assumes "acc = replicate k ''..'' @ ys" and "proper ys"
  shows "\<exists>k ys. foldl clean_rel_step acc cs = replicate k ''..'' @ ys \<and> proper ys"
  using assms
proof (induction cs arbitrary: acc k ys)
  case (Cons c cs)
  have "\<exists>k' ys'. clean_rel_step acc c = replicate k' ''..'' @ ys' \<and> proper ys'"
  proof (cases "c = [] \<or> c = ''.''")
    case True
    with Cons.prems show ?thesis by auto
  next
    case no: False
    show ?thesis
    proof (cases "c = ''..''")
      case True
      show ?thesis
      proof (cases "ys = []")
        case True
        with Cons.prems(1) \<open>c = ''..''\<close> have "clean_rel_step acc c = replicate (Suc k) ''..'' @ []"
          by (cases k) (simp_all add: replicate_append_same)
        then show ?thesis by (metis proper_simps(1))
      next
        case False
        with Cons.prems have "last acc \<noteq> ''..''" "acc \<noteq> []" by (auto simp: proper_def dest: last_in_set)
        with True False Cons.prems(1) have "clean_rel_step acc c = replicate k ''..'' @ butlast ys"
          by (simp add: butlast_append)
        then show ?thesis using proper_butlast [OF Cons.prems(2)] by blast
      qed
    next
      case False
      with no Cons.prems have "clean_rel_step acc c = replicate k ''..'' @ (ys @ [c])" "proper (ys @ [c])" by auto
      then show ?thesis by blast
    qed
  qed
  then obtain k' ys' where "clean_rel_step acc c = replicate k' ''..'' @ ys'" "proper ys'" by blast
  from Cons.IH [OF this] show ?case by simp
qed auto

lemma clean_rel_inside:
  assumes "clean_rel n \<noteq> []" and "take 1 (clean_rel n) \<noteq> [''..'']"
  shows "proper (clean_rel n)"
proof -
  obtain k ys where k: "clean_rel n = replicate k ''..'' @ ys" "proper ys"
    using clean_rel_form [of "[]" 0 "[]"] unfolding clean_rel_def by fastforce
  with assms(2) have "k = 0" by (cases k) simp_all
  with k show ?thesis by simp
qed

text \<open>A name that is let through leads strictly below the root.\<close>

lemma safe_restore_below:
  assumes "safe_restore_path base n = Inr p"
  shows "\<exists>c. c \<noteq> [] \<and> proper c \<and> p = base @ c"
proof -
  from assms have c: "clean_rel n \<noteq> []" "take 1 (clean_rel n) \<noteq> [''..'']" "p = foldl clean_step base (clean_rel n)"
    by (auto simp: safe_restore_path_def Let_def split: if_splits)
  then show ?thesis using clean_rel_inside clean_rel_proper by blast
qed

text \<open>The files that differ are below the root, or directories made on the way to it.\<close>

definition confined :: "restore_os \<Rightarrow> path \<Rightarrow> file_tree \<Rightarrow> file_tree \<Rightarrow> bool" where
  "confined os base fs fs' \<longleftrightarrow>
     (\<forall>q. map_of fs' q = map_of fs q \<or>
          (\<exists>c. c \<noteq> [] \<and> proper c \<and> q = rs_follow os (base @ c)) \<or>
          (\<exists>p. prefix p base \<and> q = rs_follow os p \<and> map_of fs q = None \<and> map_of fs' q = Some FDir))"

lemma confined_refl [simp]: "confined os base fs fs"
  by (simp add: confined_def)

lemma confined_trans:
  assumes "confined os base fs fs1" and "confined os base fs1 fs2"
  shows "confined os base fs fs2"
  unfolding confined_def
proof
  fix q
  show "map_of fs2 q = map_of fs q \<or>
          (\<exists>c. c \<noteq> [] \<and> proper c \<and> q = rs_follow os (base @ c)) \<or>
          (\<exists>p. prefix p base \<and> q = rs_follow os p \<and> map_of fs q = None \<and> map_of fs2 q = Some FDir)"
    using assms [unfolded confined_def, THEN spec [of _ q]] by (elim disjE exE conjE) auto
qed

lemma confined_write: "c \<noteq> [] \<Longrightarrow> proper c \<Longrightarrow> confined os base fs ((rs_follow os (base @ c), x) # fs)"
  by (auto simp: confined_def)

lemma mkdir_all_adds:
  assumes "mkdir_all os p fs = (r, fs')"
  shows "map_of fs' q = map_of fs q \<or>
    (map_of fs q = None \<and> map_of fs' q = Some FDir \<and> (\<exists>p'. prefix p' p \<and> q = rs_follow os p'))"
  using assms
proof (induction os p fs arbitrary: r fs' rule: mkdir_all.induct)
  case (1 os p fs)
  show ?case
  proof (cases "find_node os p fs = None \<and> p \<noteq> []")
    case True
    obtain r1 fs1 where m: "mkdir_all os (butlast p) fs = (r1, fs1)" by fastforce
    have "map_of fs1 q = map_of fs q \<or>
        (map_of fs q = None \<and> map_of fs1 q = Some FDir \<and> (\<exists>p'. prefix p' p \<and> q = rs_follow os p'))"
      using 1(1) [OF _ _ m] True by (meson prefix_order.trans prefixeq_butlast)
    moreover have "fs' = fs1 \<or> fs' = (rs_follow os p, FDir) # fs1"
      using 1(2) True m by (subst (asm) mkdir_all.simps) (auto split: option.splits)
    moreover have "map_of fs (rs_follow os p) = None" using True by (simp add: find_node_def)
    ultimately show ?thesis by (cases "q = rs_follow os p") auto
  next
    case False
    with 1(2) have "fs' = fs" by (subst (asm) mkdir_all.simps) (auto split: option.splits fnode.splits)
    then show ?thesis by simp
  qed
qed

lemma mkdir_confined:
  assumes "mkdir_all os (base @ c) fs = (r, fs')" and "proper c"
  shows "confined os base fs fs'"
  unfolding confined_def
proof
  fix q
  from mkdir_all_adds [OF assms(1), of q] show "map_of fs' q = map_of fs q \<or>
          (\<exists>c. c \<noteq> [] \<and> proper c \<and> q = rs_follow os (base @ c)) \<or>
          (\<exists>p. prefix p base \<and> q = rs_follow os p \<and> map_of fs q = None \<and> map_of fs' q = Some FDir)"
  proof (elim disjE conjE exE)
    fix p' assume q: "map_of fs q = None" "map_of fs' q = Some FDir" "prefix p' (base @ c)" "q = rs_follow os p'"
    show ?thesis
    proof (cases "prefix p' base")
      case False
      with q(3) obtain c' where "p' = base @ c'" "prefix c' c" "c' \<noteq> []" by (auto simp: prefix_append)
      moreover from this(2) assms(2) have "proper c'" by (auto elim: prefixE)
      ultimately show ?thesis using q(4) by blast
    qed (use q in blast)
  qed simp
qed

lemma put_entry_confined:
  assumes "put_entry os (base @ c) b x fs = (r, fs')" and "c \<noteq> []" and "proper c"
  shows "confined os base fs fs'"
  using assms confined_write by (auto simp: put_entry_def Let_def split: option.splits if_splits)

lemma restore_entry_confined:
  assumes "restore_entry os base e fs = (r, fs')"
  shows "confined os base fs fs'"
proof (cases "safe_restore_path base (te_name e)")
  case (Inr p)
  then obtain c where c: "c \<noteq> []" "proper c" "p = base @ c" using safe_restore_below by blast
  obtain r1 fs1 where m: "mkdir_all os (base @ c) fs = (r1, fs1)" by fastforce
  obtain r2 fs2 where p: "mkdir_all os (base @ butlast c) fs = (r2, fs2)" by fastforce
  obtain r3 fs3 where w: "put_entry os (base @ c) (te_body e) (te_err e) fs2 = (r3, fs3)" by fastforce
  note mk = mkdir_confined [OF m c(2)] and pk = mkdir_confined [OF p proper_butlast [OF c(2)]]
    and wk = put_entry_confined [OF w c(1,2)]
  from assms Inr c m p w have "fs' \<in> {fs, fs1, fs2, fs3}"
    by (auto simp: restore_entry_def butlast_append split: entry_type.splits option.splits)
  with mk pk confined_trans [OF pk wk] show ?thesis by auto
qed (use assms in \<open>simp add: restore_entry_def\<close>)

lemma restore_entries_confined: "confined os base fs (snd (restore_entries os base n es x fs))"
proof (induction es arbitrary: n fs)
  case (Cons e es)
  obtain r fs1 where r: "restore_entry os base e fs = (r, fs1)" by fastforce
  note c = restore_entry_confined [OF r]
  with r Cons.IH [of fs1] show ?case by (auto split: sum.splits intro: confined_trans)
qed simp

lemma restore_backup_cases:
  assumes "restore_backup os arch src ws force fs = (r, fs')"
  obtains "fs' = fs"
  | a :: tar_archive where "restore_entries os (abs_path (rs_cwd os) ws) 0 (ar_entries a) (ar_end a) fs = (r, fs')"
      "force \<or> dir_empty os ws (abs_path (rs_cwd os) ws) fs = Inr True"
  using assms unfolding restore_backup_def Let_def by (auto split: sum.splits if_splits bool.splits)


definition tree_closed :: "file_tree \<Rightarrow> bool" where
  "tree_closed fs \<longleftrightarrow> (\<forall>q\<in>fst ` set fs. q \<noteq> [] \<longrightarrow> butlast q \<in> fst ` set fs)"

lemma nothing_below:
  assumes "tree_closed fs" and "find_node os p fs = None \<or> (\<forall>(q, x)\<in>set fs. q = [] \<or> butlast q \<noteq> p)"
    and "rs_follow os = (\<lambda>p. p)"
  shows "c \<noteq> [] \<Longrightarrow> p @ c \<notin> fst ` set fs"
proof (induction c rule: rev_induct)
  case (snoc a c)
  show ?case
  proof
    assume in_fs: "p @ c @ [a] \<in> fst ` set fs"
    with assms(1) have "butlast (p @ c @ [a]) \<in> fst ` set fs" unfolding tree_closed_def by blast
    then have parent: "p @ c \<in> fst ` set fs" by (simp add: butlast_append)
    then have "c = []" using snoc.IH by blast
    with parent have "find_node os p fs \<noteq> None" by (simp add: find_node_def assms(3) map_of_eq_None_iff)
    with assms(2) have "\<forall>(q, x)\<in>set fs. q = [] \<or> butlast q \<noteq> p" by blast
    moreover obtain b where "(p @ [a], b) \<in> set fs" using in_fs \<open>c = []\<close> by auto
    ultimately have "p @ [a] = [] \<or> butlast (p @ [a]) \<noteq> p" by fast
    then show False by simp
  qed
qed simp

text \<open>Without \<open>--force\<close>, on a file tree without links, everything that was on the disk is still there, unchanged,
  whatever the archive says and however far the restore gets.\<close>

theorem restore_keeps:
  assumes "restore_backup os arch src ws False fs = (r, fs')" and "rs_follow os = (\<lambda>p. p)" and "tree_closed fs"
    and "map_of fs p = Some x"
  shows "map_of fs' p = Some x"
proof -
  let ?base = "abs_path (rs_cwd os) ws"
  from assms(1) show ?thesis
  proof (rule restore_backup_cases)
    fix a :: tar_archive
    assume a: "restore_entries os ?base 0 (ar_entries a) (ar_end a) fs = (r, fs')"
      and "False \<or> dir_empty os ws ?base fs = Inr True"
    then have "find_node os ?base fs = None \<or> (\<forall>(q, x)\<in>set fs. q = [] \<or> butlast q \<noteq> ?base)"
      by (auto simp: dir_empty_def assms(2) split: option.splits fnode.splits)
    note none = nothing_below [OF assms(3) this assms(2)]
    have "p \<in> fst ` set fs" using assms(4) by (metis map_of_eq_None_iff option.distinct(1))
    with none have "\<nexists>c. c \<noteq> [] \<and> p = ?base @ c" by blast
    moreover have "confined os ?base fs fs'" using a restore_entries_confined by (metis snd_conv)
    ultimately show ?thesis using assms(4) unfolding confined_def assms(2) by (metis option.distinct(1))
  qed (use assms(4) in simp)
qed

section \<open>Back and forth\<close>

definition safe_name :: "string \<Rightarrow> bool" where
  "safe_name n \<longleftrightarrow> n \<noteq> [] \<and> n \<noteq> ''.'' \<and> n \<noteq> ''..'' \<and> CHR ''/'' \<notin> set n \<and> CHR 0x5C \<notin> set n"

text \<open>Only files and directories, read as \<open>Lstat\<close> measured them, under names the restore accepts.\<close>

fun plain_tree :: "dtree \<Rightarrow> bool" where
  "plain_tree (TFile sz b) \<longleftrightarrow> sz = length b"
| "plain_tree (TDir es) \<longleftrightarrow> distinct (map fst es) \<and> (\<forall>(n, t)\<in>set es. safe_name n \<and> plain_tree t)"
| "plain_tree t \<longleftrightarrow> False"

fun flatten :: "path \<Rightarrow> dtree \<Rightarrow> (path \<times> fnode) list" and flattens :: "path \<Rightarrow> (string \<times> dtree) list \<Rightarrow> (path \<times> fnode) list" where
  "flatten p (TFile sz b) = [(p, FFile b)]"
| "flatten p (TDir es) = (p, FDir) # flattens p es"
| "flatten p (TLink r) = []"
| "flatten p TSocket = []"
| "flattens p [] = []"
| "flattens p ((n, t) # es) = flatten (p @ [n]) t @ flattens p es"

fun as_entry :: "path \<times> fnode \<Rightarrow> tar_entry" where
  "as_entry (p, FDir) = \<lparr>te_name = join ''/'' p, te_type = TarDir, te_body = [], te_err = None\<rparr>"
| "as_entry (p, FFile b) = \<lparr>te_name = join ''/'' p, te_type = TarReg, te_body = b, te_err = None\<rparr>"

definition files_in :: "(path \<times> fnode) list \<Rightarrow> nat" where
  "files_in es = length (filter (\<lambda>(p, x). x \<noteq> FDir) es)"

lemma files_in_simps [simp]: "files_in [] = 0" "files_in ((p, FDir) # es) = files_in es"
  "files_in ((p, FFile b) # es) = Suc (files_in es)" "files_in (xs @ ys) = files_in xs + files_in ys"
  by (simp_all add: files_in_def)

lemma walk_plain:
  "plain_tree t \<Longrightarrow> walk_node (\<lambda>op p. None) p t (k, \<lparr>tw_entries = es, tw_left = 0\<rparr>) =
     (None, k + files_in (flatten p t), \<lparr>tw_entries = es @ map as_entry (flatten p t), tw_left = 0\<rparr>)"
  "\<forall>(n, t)\<in>set ts. plain_tree t \<Longrightarrow> walk_children (\<lambda>op p. None) p ts (k, \<lparr>tw_entries = es, tw_left = 0\<rparr>) =
     (None, k + files_in (flattens p ts), \<lparr>tw_entries = es @ map as_entry (flattens p ts), tw_left = 0\<rparr>)"
proof (induction p t and p ts arbitrary: k es and k es rule: flatten_flattens.induct)
  case (2 p ts)
  from "2.prems" have "\<forall>(n, t)\<in>set ts. plain_tree t" by auto
  from "2.IH" [OF this] show ?case by (simp add: add_header_def write_header_def header_entry_def)
qed (simp_all add: add_header_def write_header_def header_entry_def copy_file_def write_body_def)

lemma clean_rel_step_proper: "proper c \<Longrightarrow> foldl clean_rel_step p c = p @ c"
  by (induction c arbitrary: p) auto

definition safe_path_names :: "path \<Rightarrow> bool" where
  "safe_path_names c \<longleftrightarrow> c \<noteq> [] \<and> (\<forall>n\<in>set c. safe_name n)"

lemma safe_restore_accepts:
  assumes "safe_path_names c"
  shows "safe_restore_path base (join ''/'' c) = Inr (base @ c)"
proof -
  from assms have c: "c \<noteq> []" "proper c" "\<forall>n\<in>set c. CHR ''/'' \<notin> set n" "\<forall>n\<in>set c. CHR 0x5C \<notin> set n"
    by (auto simp: safe_path_names_def safe_name_def proper_def)
  then have clean: "clean_rel (join ''/'' c) = c" by (simp add: clean_rel_def split_on_join clean_rel_step_proper)
  obtain n r where n: "c = n # r" using c(1) by (cases c) auto
  then have hd: "join ''/'' c \<noteq> [] \<and> hd (join ''/'' c) = hd n" "n \<noteq> []" using c(2) by (cases r; auto)+
  with c(3) n have "\<not> has_prefix (join ''/'' c) ''/''" by (cases "join ''/'' c"; cases n) (auto simp: has_prefix_def)
  moreover have "\<not> contains (join ''/'' c) [CHR 0x5C]"
    using join_chars [of "CHR 0x5C" "''/''" c] c(4) by (auto simp: contains_def dest: set_mono_sublist)
  moreover have "take 1 c \<noteq> [''..'']" using c(2) n by simp
  moreover have "rel_path base (base @ c) = c" by (simp add: rel_path_prefix)
  ultimately show ?thesis using hd(1) c clean clean_rel_proper [OF c(2)]
    by (simp add: safe_restore_path_def Let_def)
qed

text \<open>Entries in an order in which every directory comes before what is in it, each path once.\<close>

fun grows :: "(path \<times> fnode) list \<Rightarrow> (path \<times> fnode) list \<Rightarrow> bool" where
  "grows old [] \<longleftrightarrow> True"
| "grows old ((c, x) # es) \<longleftrightarrow>
     safe_path_names c \<and> c \<notin> fst ` set old \<and>
     (\<forall>d. strict_prefix d c \<and> d \<noteq> [] \<longrightarrow> map_of old d = Some FDir) \<and> grows ((c, x) # old) es"

lemma grows_append: "grows old (xs @ ys) \<longleftrightarrow> grows old xs \<and> grows (rev xs @ old) ys"
proof (induction xs arbitrary: old)
  case (Cons x xs)
  then show ?case by (cases x) simp
qed simp

text \<open>A directory at \<open>p\<close> is there with its ancestors.\<close>

definition rooted :: "(path \<times> fnode) list \<Rightarrow> path \<Rightarrow> bool" where
  "rooted old p \<longleftrightarrow> (\<forall>n\<in>set p. safe_name n) \<and> (\<forall>d. prefix d p \<and> d \<noteq> [] \<longrightarrow> map_of old d = Some FDir)"

lemma flatten_below:
  "q \<in> fst ` set (flatten p t) \<Longrightarrow> prefix p q"
  "q \<in> fst ` set (flattens p ts) \<Longrightarrow> \<exists>n\<in>fst ` set ts. prefix (p @ [n]) q"
proof (induction p t and p ts arbitrary: q and q rule: flatten_flattens.induct)
  case (2 p ts)
  then show ?case by (auto simp: prefix_def)
next
  case (6 p n t ts)
  from "6.prems" consider "q \<in> fst ` set (flatten (p @ [n]) t)" | "q \<in> fst ` set (flattens p ts)" by auto
  then show ?case
  proof cases
    case 1
    from "6.IH"(1) [OF this] show ?thesis by auto
  next
    case 2
    from "6.IH"(2) [OF this] show ?thesis by auto
  qed
qed auto

lemma rooted_Cons: "rooted old p \<Longrightarrow> c \<notin> fst ` set old \<Longrightarrow> rooted ((c, x) # old) p"
  unfolding rooted_def by (metis map_of_key fun_upd_apply map_of.simps(2) fst_conv)

lemma rooted_append: "rooted old p \<Longrightarrow> \<forall>q\<in>fst ` set new. \<not> prefix q p \<Longrightarrow> rooted (new @ old) p"
proof -
  assume r: "rooted old p" and new: "\<forall>q\<in>fst ` set new. \<not> prefix q p"
  have "map_of (new @ old) d = map_of old d" if "prefix d p" for d
  proof -
    have "d \<notin> fst ` set new" using new that by blast
    then have "map_of new d = None" by (simp add: map_of_eq_None_iff)
    then show ?thesis by (simp add: map_add_def)
  qed
  with r show ?thesis by (simp add: rooted_def)
qed

lemma rooted_snoc:
  assumes "rooted old q" and "safe_name n" and "q @ [n] \<notin> fst ` set old"
  shows "rooted ((q @ [n], FDir) # old) (q @ [n])"
proof -
  have "map_of ((q @ [n], FDir) # old) d = Some FDir" if d: "prefix d (q @ [n])" "d \<noteq> []" for d
  proof (cases "d = q @ [n]")
    case False
    with d(1) have "prefix d q" by (simp add: prefix_snoc)
    with False d(2) assms(1) show ?thesis by (simp add: rooted_def)
  qed simp
  with assms(1,2) show ?thesis by (simp add: rooted_def)
qed

lemma flatten_grows:
  "plain_tree t \<Longrightarrow> p = q @ [n] \<Longrightarrow> rooted old q \<Longrightarrow> safe_name n \<Longrightarrow> \<forall>d\<in>fst ` set old. \<not> prefix p d \<Longrightarrow>
     grows old (flatten p t)"
  "\<forall>(n, t)\<in>set ts. safe_name n \<and> plain_tree t \<Longrightarrow> distinct (map fst ts) \<Longrightarrow> rooted old p \<Longrightarrow>
     \<forall>d\<in>fst ` set old. \<forall>n\<in>fst ` set ts. \<not> prefix (p @ [n]) d \<Longrightarrow> grows old (flattens p ts)"
proof (induction p t and p ts arbitrary: q n old and old rule: flatten_flattens.induct)
  case (1 p sz b)
  then show ?case by (auto simp: rooted_def safe_path_names_def strict_prefix_def)
next
  case (2 p ts)
  have fresh: "p \<notin> fst ` set old" using "2.prems"(5) by blast
  have r: "rooted ((p, FDir) # old) p"
    using rooted_snoc [OF "2.prems"(3,4)] fresh "2.prems"(2) by simp
  have "\<forall>d\<in>fst ` set ((p, FDir) # old). \<forall>n\<in>fst ` set ts. \<not> prefix (p @ [n]) d"
    using "2.prems"(5) by (simp add: prefix_snoc) (meson append_prefixD)
  then have "grows ((p, FDir) # old) (flattens p ts)" using "2.IH" [OF _ _ r] "2.prems"(1) by simp
  moreover have "safe_path_names p" using "2.prems"(2-4) by (auto simp: rooted_def safe_path_names_def)
  moreover have "\<forall>d. strict_prefix d p \<and> d \<noteq> [] \<longrightarrow> map_of old d = Some FDir"
    using "2.prems"(2,3) by (simp add: rooted_def strict_prefix_def) blast
  ultimately show ?case using fresh by simp
next
  case (6 p n t ts)
  have "grows old (flatten (p @ [n]) t)" using "6.IH"(1) [OF _ _ "6.prems"(3)] "6.prems"(1,4) by simp
  moreover have "grows (rev (flatten (p @ [n]) t) @ old) (flattens p ts)"
  proof (rule "6.IH"(2))
    show "\<forall>(n, t)\<in>set ts. safe_name n \<and> plain_tree t" "distinct (map fst ts)" using "6.prems"(1,2) by auto
    show "rooted (rev (flatten (p @ [n]) t) @ old) p"
    proof (rule rooted_append [OF "6.prems"(3)], rule ballI)
      fix d assume "d \<in> fst ` set (rev (flatten (p @ [n]) t))"
      then have "prefix (p @ [n]) d" using flatten_below(1) by simp
      then have "length p < length d" using prefix_length_le by fastforce
      then show "\<not> prefix d p" using prefix_length_le by fastforce
    qed
    show "\<forall>d\<in>fst ` set (rev (flatten (p @ [n]) t) @ old). \<forall>n\<in>fst ` set ts. \<not> prefix (p @ [n]) d"
    proof (intro ballI notI)
      fix d m assume d: "d \<in> fst ` set (rev (flatten (p @ [n]) t) @ old)" and m: "m \<in> fst ` set ts" "prefix (p @ [m]) d"
      show False
      proof (cases "d \<in> fst ` set old")
        case True
        with "6.prems"(4) m show False by auto
      next
        case False
        with d have "d \<in> fst ` set (flatten (p @ [n]) t)" by auto
        then have "prefix (p @ [n]) d" by (rule flatten_below(1))
        then obtain u v where "d = p @ [n] @ u" "d = p @ [m] @ v" using m(2) unfolding prefix_def by auto
        then have "n = m" by simp
        with m(1) "6.prems"(2) show False by auto
      qed
    qed
  qed
  ultimately show ?case by (simp add: grows_append)
qed simp_all

lemma grows_distinct: "grows old es \<Longrightarrow> distinct (map fst es) \<and> fst ` set es \<inter> fst ` set old = {}"
proof (induction es arbitrary: old)
  case (Cons e es)
  obtain c x where e: "e = (c, x)" by fastforce
  with Cons.prems have "grows ((c, x) # old) es" "c \<notin> fst ` set old" by simp_all
  with Cons.IH [of "(c, x) # old"] show ?case by (auto simp: e)
qed simp

definition calm :: "restore_os \<Rightarrow> bool" where
  "calm os \<longleftrightarrow> rs_follow os = (\<lambda>p. p) \<and> rs_open_dir os = None \<and> rs_read_dir os = None \<and> rs_mkdir os = (\<lambda>p. None) \<and>
     rs_open os = (\<lambda>p. None) \<and> rs_write os = (\<lambda>p. None) \<and> rs_close os = (\<lambda>p. None)"

lemma mkdir_calm:
  assumes "calm os" and "\<forall>d. prefix d p \<longrightarrow> map_of fs d \<in> {None, Some FDir}"
  shows "fst (mkdir_all os p fs) = None \<and> (p \<noteq> [] \<longrightarrow> map_of (snd (mkdir_all os p fs)) p = Some FDir)"
  using assms
proof (induction os p fs rule: mkdir_all.induct)
  case (1 os p fs)
  have follow: "rs_follow os = (\<lambda>p. p)" "rs_mkdir os = (\<lambda>p. None)" using "1.prems"(1) by (simp_all add: calm_def)
  show ?case
  proof (cases "map_of fs p")
    case None
    then have n: "find_node os p fs = None" by (simp add: find_node_def follow)
    have "\<forall>d. prefix d (butlast p) \<longrightarrow> map_of fs d \<in> {None, Some FDir}"
      using "1.prems"(2) by (meson prefix_order.trans prefixeq_butlast)
    then have "p \<noteq> [] \<Longrightarrow> fst (mkdir_all os (butlast p) fs) = None" using "1.IH" n "1.prems"(1) by blast
    then have "mkdir_all os p fs = (if p = [] then (None, fs) else (None, (p, FDir) # snd (mkdir_all os (butlast p) fs)))"
      using n by (cases "p = []"; subst mkdir_all.simps) (auto simp: follow split: prod.splits option.splits)
    then show ?thesis by simp
  next
    case (Some x)
    with "1.prems"(2) have "x = FDir" by auto
    with Some have "find_node os p fs = Some FDir" by (simp add: find_node_def follow)
    then have "mkdir_all os p fs = (None, fs)" by (subst mkdir_all.simps) simp
    with Some \<open>x = FDir\<close> show ?thesis by simp
  qed
qed

text \<open>The disk holds, below the root, exactly the entries restored so far.\<close>

definition restored :: "path \<Rightarrow> (path \<times> fnode) list \<Rightarrow> file_tree \<Rightarrow> bool" where
  "restored base old fs \<longleftrightarrow>
     (\<forall>c. c \<noteq> [] \<longrightarrow> map_of fs (base @ c) = map_of old c) \<and>
     (\<forall>d. prefix d base \<longrightarrow> map_of fs d \<in> {None, Some FDir})"

lemma mkdir_restored:
  assumes calm: "calm os" and old: "restored base old fs" and c: "\<forall>d. prefix d c \<and> d \<noteq> [] \<longrightarrow> map_of old d = Some FDir \<or> d = c \<and> map_of old d = None"
  shows "\<exists>fs1. mkdir_all os (base @ c) fs = (None, fs1) \<and> restored base ((c, FDir) # old) fs1"
proof -
  obtain r fs1 where m: "mkdir_all os (base @ c) fs = (r, fs1)" by fastforce
  have below: "map_of fs (base @ d) = map_of old d" if "d \<noteq> []" for d using old that by (simp add: restored_def)
  have "map_of fs d \<in> {None, Some FDir}" if "prefix d (base @ c)" for d
  proof (cases "prefix d base")
    case True
    with old show ?thesis unfolding restored_def by blast
  next
    case False
    with that obtain d' where d': "d = base @ d'" "prefix d' c" by (auto simp: prefix_append)
    with False have "d' \<noteq> []" by auto
    with d' below c show ?thesis by auto
  qed
  with mkdir_calm [OF calm, of "base @ c" fs] m have r: "r = None" "base @ c \<noteq> [] \<Longrightarrow> map_of fs1 (base @ c) = Some FDir"
    by auto
  note adds = mkdir_all_adds [OF m]
  have follow: "rs_follow os = (\<lambda>p. p)" using calm by (simp add: calm_def)
  have "map_of fs1 (base @ d) = map_of ((c, FDir) # old) d" if d: "d \<noteq> []" for d
  proof (cases "d = c")
    case True
    with r d show ?thesis by simp
  next
    case False
    have "\<not> (map_of fs (base @ d) = None \<and> (\<exists>p'. prefix p' (base @ c) \<and> base @ d = rs_follow os p'))"
      using c False d below by (auto simp: follow)
    with adds [of "base @ d"] below d False show ?thesis by auto
  qed
  moreover have "map_of fs1 d \<in> {None, Some FDir}" if "prefix d base" for d
    using adds [of d] old that by (auto simp: restored_def)
  ultimately show ?thesis using m r(1) by (auto simp: restored_def)
qed

lemma restore_entries_grows:
  assumes "calm os" and "restored base old fs" and "grows old es"
  shows "\<exists>fs1. restore_entries os base n (map as_entry es) None fs = ((n + files_in es, None), fs1) \<and> restored base (rev es @ old) fs1"
  using assms(2,3)
proof (induction es arbitrary: n old fs)
  case (Cons e es)
  obtain c x where e: "e = (c, x)" by fastforce
  have g: "safe_path_names c" "map_of old c = None" "\<forall>d. strict_prefix d c \<and> d \<noteq> [] \<longrightarrow> map_of old d = Some FDir"
    "grows ((c, x) # old) es"
    using Cons.prems(2) by (simp_all add: e map_of_eq_None_iff)
  have safe: "safe_restore_path base (te_name (as_entry e)) = Inr (base @ c)"
    using safe_restore_accepts [OF g(1)] by (cases x) (simp_all add: e)
  have ne: "c \<noteq> []" using g(1) by (simp add: safe_path_names_def)
  have "\<exists>fs1. restore_entry os base (as_entry e) fs = (Inr (files_in [e]), fs1) \<and> restored base ((c, x) # old) fs1"
  proof (cases x)
    case FDir
    have "\<forall>d. prefix d c \<and> d \<noteq> [] \<longrightarrow> map_of old d = Some FDir \<or> d = c \<and> map_of old d = None"
      using g(2,3) by (metis strict_prefix_def)
    from mkdir_restored [OF assms(1) Cons.prems(1) this] FDir safe show ?thesis by (auto simp: e restore_entry_def)
  next
    case (FFile b)
    have dirs: "map_of old d = Some FDir" if "prefix d (butlast c)" "d \<noteq> []" for d
    proof -
      have "strict_prefix d c" using that(1) ne
        by (metis append_butlast_last_id prefix_order.le_less_trans prefix_snoc strict_prefix_def prefixeq_butlast not_Cons_self2 snoc_eq_iff_butlast append_self_conv)
      with g(3) that(2) show ?thesis by blast
    qed
    then obtain fs1 where m: "mkdir_all os (base @ butlast c) fs = (None, fs1)" "restored base ((butlast c, FDir) # old) fs1"
      using mkdir_restored [OF assms(1) Cons.prems(1), of "butlast c"] by blast
    have r1: "restored base old fs1"
    proof -
      have "map_of ((butlast c, FDir) # old) d = map_of old d" if "d \<noteq> []" for d using dirs [of "butlast c"] that by auto
      with m(2) show ?thesis by (simp add: restored_def)
    qed
    then have "map_of fs1 (base @ c) = None" using ne g(2) by (simp add: restored_def)
    with assms(1) have w: "put_entry os (base @ c) b None fs1 = (None, (base @ c, FFile b) # fs1)"
      by (simp add: put_entry_def calm_def find_node_def)
    have "restored base ((c, x) # old) ((base @ c, FFile b) # fs1)"
      using r1 ne FFile by (auto simp: restored_def prefix_def)
    moreover have "restore_entry os base (as_entry e) fs = (Inr (files_in [e]), (base @ c, FFile b) # fs1)"
      using m(1) w FFile safe ne by (simp add: e restore_entry_def butlast_append)
    ultimately show ?thesis by blast
  qed
  then obtain fs1 where r: "restore_entry os base (as_entry e) fs = (Inr (files_in [e]), fs1)" "restored base ((c, x) # old) fs1"
    by blast
  from Cons.IH [OF r(2) g(4), of "n + files_in [e]"] r(1) show ?case
    using files_in_simps(4) [of "[e]" es] by (auto simp: e add.assoc)
qed simp


section \<open>What a backup can miss\<close>

definition calm_os :: restore_os where
  "calm_os = \<lparr>rs_cwd = [''w''], rs_follow = (\<lambda>p. p), rs_open_dir = None, rs_read_dir = None, rs_mkdir = (\<lambda>p. None),
     rs_open = (\<lambda>p. None), rs_write = (\<lambda>p. None), rs_close = (\<lambda>p. None)\<rparr>"

definition calm_backup :: backup_os where
  "calm_backup = \<lparr>bo_cwd = [''w''], bo_stat = Inr True, bo_create = None, bo_walk = (\<lambda>op p. None), bo_lost = None\<rparr>"

definition small_tree :: "(string \<times> dtree) list" where
  "small_tree = [(''cache'', TDir [(''index.json'', TFile 2 ''{}'')]), (''settings.json'', TFile 3 ''abc'')]"

text \<open>A workspace that is a symbolic link is backed up as an empty archive, without an error.\<close>

lemma linked_workspace_lost:
  "create_backup calm_backup ''.workflow'' ''../b.tar.gz'' (TLink r) =
     ((0, None), Some \<lparr>ar_entries = [], ar_end = None\<rparr>)"
  by (simp add: create_backup_def calm_backup_def walk_root_def closed_archive_def path_inside_def abs_path_def
      join_clean_def has_prefix_def)

text \<open>A failing close of the archive is not reported either: the backup that was announced cannot be restored.\<close>

lemma lost_close_unreported:
  "create_backup (calm_backup\<lparr>bo_lost := Some (0, EMsg ''unexpected EOF'')\<rparr>) ''.workflow'' ''../b.tar.gz'' (TDir small_tree) =
     ((2, None), Some \<lparr>ar_entries = [], ar_end = Some (EMsg ''unexpected EOF'')\<rparr>)"
  by (simp add: create_backup_def calm_backup_def walk_root_def closed_archive_def path_inside_def abs_path_def
      join_clean_def has_prefix_def small_tree_def add_header_def write_header_def header_entry_def copy_file_def
      write_body_def)

lemma backslash_contained: "contains [CHR ''a'', CHR 0x5C] [CHR 0x5C]"
  using sublist_append_leftI [of "[CHR 0x5C]" "[CHR ''a'']"] by (simp add: contains_def)

text \<open>A file whose name has a backslash is backed up, but its archive is then refused.\<close>

lemma backslash_unrestorable:
  "\<exists>a. create_backup calm_backup ''.workflow'' ''../b.tar.gz'' (TDir [([CHR ''a'', CHR 0x5C], TFile 0 [])]) = ((1, None), Some a) \<and>
     (\<exists>x fs. restore_backup calm_os arch (Inr (Inr a)) ws True [] = ((0, Some x), fs))"
  by (simp add: create_backup_def calm_backup_def walk_root_def closed_archive_def path_inside_def abs_path_def
      join_clean_def has_prefix_def add_header_def write_header_def header_entry_def copy_file_def write_body_def
      restore_backup_def restore_entry_def safe_restore_path_def backslash_contained Let_def)

lemma calm_os: "calm calm_os"
  by (simp add: calm_def calm_os_def)


lemma restore_keeps_witness:
  "map_of (snd (restore_backup calm_os ''b'' (Inr (Inr \<lparr>ar_entries = [header_entry ''a/b'' TarReg], ar_end = None\<rparr>)) ''new'' False
     [([], FDir), ([''w''], FDir), ([''w'', ''keep''], FFile ''x'')])) [''w'', ''keep''] = Some (FFile ''x'')"
proof -
  let ?fs = "[([], FDir), ([''w''], FDir), ([''w'', ''keep''], FFile ''x'')]"
  let ?r = "restore_backup calm_os ''b'' (Inr (Inr \<lparr>ar_entries = [header_entry ''a/b'' TarReg], ar_end = None\<rparr>)) ''new'' False ?fs"
  have r: "?r = (fst ?r, snd ?r)" by simp
  have "rs_follow calm_os = (\<lambda>p. p)" "tree_closed ?fs" by (simp_all add: calm_os_def tree_closed_def)
  from restore_keeps [OF r this] show ?thesis by simp
qed

end
