(* ===== verification/Locate.thy ===== *)
theory Locate
  imports Graph WorkerExec
begin

text \<open>
  Files and positions: loading and saving workflow files, the position-aware YAML tree and its JSON pointers
  (\<open>core/serialize/\<close>), and the two users of the JSON schema library (\<open>core/validate/schema.go\<close>,
  \<open>dynamic.go\<close>). The YAML and JSON codecs and the schema library are parameters.
\<close>

section \<open>Workflow files\<close>

text \<open>\<open>filepath.Ext\<close>: from the last dot of the last element on.\<close>

definition file_ext :: "string \<Rightarrow> string" where
  "file_ext p =
     (let base = rev (takeWhile (\<lambda>c. c \<noteq> CHR ''/'') (rev p)) in
      if CHR ''.'' \<in> set base then CHR ''.'' # rev (takeWhile (\<lambda>c. c \<noteq> CHR ''.'') (rev base)) else [])"

record file_codec =
  fc_yaml_dec :: "bytes \<Rightarrow> err + workflow"
  fc_json_dec :: "bytes \<Rightarrow> err + workflow"
  fc_yaml_enc :: "workflow \<Rightarrow> err + bytes"
  fc_json_enc :: "workflow \<Rightarrow> err + bytes"

definition unsupported_ext :: "string \<Rightarrow> err" where
  "unsupported_ext ext =
     EMsg (''serialize: unsupported workflow extension '' @ quote ext @ '' (want .yaml, .yml, or .json)'')"

definition load_workflow :: "file_codec \<Rightarrow> (string \<Rightarrow> err + bytes) \<Rightarrow> string \<Rightarrow> err + workflow" where
  "load_workflow fc read p =
     (case read p of
        Inl e \<Rightarrow> Inl e
      | Inr data \<Rightarrow>
          let ext = to_lower (file_ext p);
              load = (\<lambda>r. case r of Inl e \<Rightarrow> Inl (errorf (''serialize: loading '' @ p @ '': '') e []) | Inr w \<Rightarrow> Inr w)
          in if ext = ''.yaml'' \<or> ext = ''.yml'' then load (fc_yaml_dec fc data)
             else if ext = ''.json'' then load (fc_json_dec fc data)
             else Inl (unsupported_ext ext))"

definition save_workflow ::
  "file_codec \<Rightarrow> (string \<Rightarrow> err option) \<Rightarrow> workflow \<Rightarrow> string \<Rightarrow> (string \<rightharpoonup> bytes) \<Rightarrow> err option \<times> (string \<rightharpoonup> bytes)" where
  "save_workflow fc fault w p d =
     (let ext = to_lower (file_ext p);
          save = (\<lambda>r. case r of
            Inl e \<Rightarrow> (Some (errorf (''serialize: encoding '' @ p @ '': '') e []), d)
          | Inr b \<Rightarrow> (case fault p of Some e \<Rightarrow> (Some e, d) | None \<Rightarrow> (None, d(p \<mapsto> b))))
      in if ext = ''.yaml'' \<or> ext = ''.yml'' then save (fc_yaml_enc fc w)
         else if ext = ''.json'' then save (fc_json_enc fc w)
         else (Some (unsupported_ext ext), d))"

section \<open>The YAML tree\<close>

datatype ynode =
    YDocument int "ynode list"
  | YMapping int "ynode list"
  | YSequence int "ynode list"
  | YScalar int string
  | YAlias int string

fun y_line :: "ynode \<Rightarrow> int" where
  "y_line (YDocument k c) = k"
| "y_line (YMapping k c) = k"
| "y_line (YSequence k c) = k"
| "y_line (YScalar k v) = k"
| "y_line (YAlias k v) = k"

fun y_value :: "ynode \<Rightarrow> string" where
  "y_value (YScalar k v) = v"
| "y_value (YAlias k v) = v"
| "y_value n = []"

record source =
  src_path :: string
  src_doc :: "ynode option"

definition load_source :: "(bytes \<Rightarrow> err + ynode) \<Rightarrow> (string \<Rightarrow> err + bytes) \<Rightarrow> string \<Rightarrow> err + source" where
  "load_source parse read p =
     (case read p of
        Inl e \<Rightarrow> Inl e
      | Inr data \<Rightarrow>
          (case parse data of Inl e \<Rightarrow> Inl e | Inr doc \<Rightarrow> Inr \<lparr>src_path = p, src_doc = Some doc\<rparr>))"

definition source_file :: "source option \<Rightarrow> string" where
  "source_file s = (case s of None \<Rightarrow> [] | Some s \<Rightarrow> src_path s)"

text \<open>The content of a mapping alternates between keys and values.\<close>

fun child_by_key :: "ynode list \<Rightarrow> string \<Rightarrow> ynode option" where
  "child_by_key (k # v # c) key = (if y_value k = key then Some v else child_by_key c key)"
| "child_by_key c key = None"

definition decode_pointer_segment :: "string \<Rightarrow> string" where
  "decode_pointer_segment s = replace_all ''~0'' ''~'' (replace_all ''~1'' ''/'' s)"

fun child :: "ynode \<Rightarrow> string \<Rightarrow> ynode option" where
  "child (YMapping k c) seg = child_by_key c seg"
| "child (YSequence k c) seg =
     (case atoi seg of
        None \<Rightarrow> None
      | Some i \<Rightarrow> if i < 0 \<or> int (length c) \<le> i then None else Some (c ! nat i))"
| "child n seg = None"

fun follow_pointer :: "ynode \<Rightarrow> string list \<Rightarrow> ynode option" where
  "follow_pointer n [] = Some n"
| "follow_pointer n (s # ss) =
     (case child n (decode_pointer_segment s) of None \<Rightarrow> None | Some m \<Rightarrow> follow_pointer m ss)"

definition doc_root :: "ynode \<Rightarrow> ynode" where
  "doc_root n = (case n of YDocument k (c # cs) \<Rightarrow> c | _ \<Rightarrow> n)"

definition source_line :: "source option \<Rightarrow> string \<Rightarrow> int option" where
  "source_line s ptr =
     (case s of
        None \<Rightarrow> None
      | Some s \<Rightarrow>
     (case src_doc s of
        None \<Rightarrow> None
      | Some d \<Rightarrow>
          if ptr = [] \<or> ptr = ''/'' then Some (y_line (doc_root d))
          else map_option y_line (follow_pointer (doc_root d)
                 (split_on CHR ''/'' (case cut_prefix ptr ''/'' of None \<Rightarrow> ptr | Some r \<Rightarrow> r)))))"

definition source_resolver :: "source option \<Rightarrow> line_resolver" where
  "source_resolver s = \<lparr>lr_line = source_line s, lr_file = source_file s\<rparr>"

definition pointer_of :: "string list \<Rightarrow> string" where
  "pointer_of segs =
     (if segs = [] then []
      else ''/'' @ join ''/'' (map (\<lambda>s. replace_all ''/'' ''~1'' (replace_all ''~'' ''~0'' s)) segs))"

section \<open>Schemas\<close>

text \<open>A validation error of the library: where in the instance, the message, and what caused it.\<close>

datatype schema_violation = Violation "string list" string "schema_violation list"

datatype verdict = Valid | Invalid schema_violation | Failed err

type_synonym compiled = "gval \<Rightarrow> verdict"

record schema_lib =
  sl_parse :: "bytes \<Rightarrow> err + gval"
  sl_add :: "(string \<times> gval) list \<Rightarrow> string \<Rightarrow> gval \<Rightarrow> err option"
  sl_compile :: "(string \<times> gval) list \<Rightarrow> string \<Rightarrow> err + compiled"

definition schema_id :: "(string \<times> string) list" where
  "schema_id = map (\<lambda>k. (k, ''https://wee.dev/schemas/'' @ k @ ''.schema.json''))
     [''workflow'', ''worker'', ''contract'', ''context-policy'', ''artifact'', ''event'', ''execution'', ''budget'']"

definition doc_id :: "gval \<Rightarrow> string option" where
  "doc_id doc =
     (case doc of
        JObj m \<Rightarrow> (case map_of m ''$id'' of Some (JStr i) \<Rightarrow> if i = [] then None else Some i | _ \<Rightarrow> None)
      | _ \<Rightarrow> None)"

fun add_resources :: "schema_lib \<Rightarrow> (string \<times> bool \<times> (err + bytes)) list \<Rightarrow> (string \<times> gval) list \<Rightarrow> err + (string \<times> gval) list" where
  "add_resources lib [] rs = Inr rs"
| "add_resources lib ((name, is_dir, content) # es) rs =
     (if is_dir \<or> \<not> has_suffix name ''.schema.json'' then add_resources lib es rs
      else case content of
        Inl e \<Rightarrow> Inl e
      | Inr data \<Rightarrow>
     (case sl_parse lib data of
        Inl e \<Rightarrow> Inl (errorf (''validate: parsing '' @ name @ '': '') e [])
      | Inr doc \<Rightarrow>
     (case doc_id doc of
        None \<Rightarrow> Inl (EMsg (''validate: '' @ name @ '' has no $id''))
      | Some i \<Rightarrow>
     (case sl_add lib rs i doc of
        Some e \<Rightarrow> Inl (errorf (''validate: adding '' @ name @ '': '') e [])
      | None \<Rightarrow> add_resources lib es (rs @ [(i, doc)])))))"

text \<open>The code compiles the kinds in the order of a Go map; here in the order of \<open>schema_id\<close>.\<close>

fun compile_kinds :: "schema_lib \<Rightarrow> (string \<times> gval) list \<Rightarrow> (string \<times> string) list \<Rightarrow> (string \<times> compiled) list \<Rightarrow> err + (string \<times> compiled) list" where
  "compile_kinds lib rs [] v = Inr v"
| "compile_kinds lib rs ((k, i) # ks) v =
     (case sl_compile lib rs i of
        Inl e \<Rightarrow> Inl (errorf (''validate: compiling '' @ k @ '' schema: '') e [])
      | Inr c \<Rightarrow> compile_kinds lib rs ks ((k, c) # v))"

definition new_validator :: "schema_lib \<Rightarrow> err + (string \<times> bool \<times> (err + bytes)) list \<Rightarrow> err + (string \<times> compiled) list" where
  "new_validator lib embedded =
     (case embedded of
        Inl e \<Rightarrow> Inl e
      | Inr es \<Rightarrow> (case add_resources lib es [] of Inl e \<Rightarrow> Inl e | Inr rs \<Rightarrow> compile_kinds lib rs schema_id []))"

definition violation_problem :: "line_resolver option \<Rightarrow> schema_violation \<Rightarrow> problem" where
  "violation_problem src e = (case e of Violation loc msg causes \<Rightarrow> problem_at src (pointer_of loc) msg)"

fun leaf_problems :: "line_resolver option \<Rightarrow> schema_violation \<Rightarrow> problem list" where
  "leaf_problems src (Violation loc msg causes) =
     (if causes = [] then [violation_problem src (Violation loc msg causes)]
      else concat (map (leaf_problems src) causes))"

definition collect_problems :: "line_resolver option \<Rightarrow> schema_violation \<Rightarrow> problem list" where
  "collect_problems src e =
     (case leaf_problems src e of [] \<Rightarrow> [violation_problem src e] | ps \<Rightarrow> ps)"

datatype schema_error = SchemaError string "line_resolver option" "problem list" | OtherError err

fun schema_error_msg :: "schema_error \<Rightarrow> string" where
  "schema_error_msg (SchemaError kind src ps) = format_problems (kind @ '' failed schema validation'') src ps"
| "schema_error_msg (OtherError e) = err_msg e"

text \<open>The error as the engine's errors are: only its text matters, unless it is another error passed on.\<close>

definition schema_failure :: "schema_error \<Rightarrow> err" where
  "schema_failure e = (case e of OtherError x \<Rightarrow> x | SchemaError k src ps \<Rightarrow> EMsg (schema_error_msg e))"

definition verdict_error :: "string \<Rightarrow> line_resolver option \<Rightarrow> verdict \<Rightarrow> schema_error option" where
  "verdict_error kind src v =
     (case v of
        Valid \<Rightarrow> None
      | Invalid e \<Rightarrow> Some (SchemaError kind src (collect_problems src e))
      | Failed e \<Rightarrow> Some (OtherError e))"

definition validate_object ::
  "schema_lib \<Rightarrow> ('o \<Rightarrow> err + bytes) \<Rightarrow> (string \<times> compiled) list \<Rightarrow> string \<Rightarrow> 'o \<Rightarrow> line_resolver option \<Rightarrow> schema_error option" where
  "validate_object lib marshal v kind x src =
     (case map_of v kind of
        None \<Rightarrow> Some (OtherError (EMsg (''validate: unknown schema kind '' @ quote kind)))
      | Some sch \<Rightarrow>
     (case marshal x of
        Inl e \<Rightarrow> Some (OtherError (errorf (''validate: encoding '' @ kind @ '': '') e []))
      | Inr raw \<Rightarrow>
     (case sl_parse lib raw of
        Inl e \<Rightarrow> Some (OtherError (errorf (''validate: decoding '' @ kind @ '': '') e []))
      | Inr inst \<Rightarrow> verdict_error kind src (sch inst))))"

definition adhoc_schema_id :: string where
  "adhoc_schema_id = ''https://wee.dev/schemas/adhoc/output.schema.json''"

definition compile_schema_bytes :: "schema_lib \<Rightarrow> bytes \<Rightarrow> err + compiled" where
  "compile_schema_bytes lib raw =
     (case sl_parse lib raw of
        Inl e \<Rightarrow> Inl (errorf ''validate: parsing schema: '' e [])
      | Inr doc \<Rightarrow>
     (case sl_add lib [] adhoc_schema_id doc of
        Some e \<Rightarrow> Inl (errorf ''validate: adding schema: '' e [])
      | None \<Rightarrow>
     (case sl_compile lib [(adhoc_schema_id, doc)] adhoc_schema_id of
        Inl e \<Rightarrow> Inl (errorf ''validate: compiling schema: '' e [])
      | Inr c \<Rightarrow> Inr c)))"

definition compile_schema :: "schema_lib \<Rightarrow> (payload \<Rightarrow> err + bytes) \<Rightarrow> payload \<Rightarrow> err + compiled" where
  "compile_schema lib marshal schema =
     (case marshal schema of
        Inl e \<Rightarrow> Inl (errorf ''validate: encoding output schema: '' e [])
      | Inr raw \<Rightarrow> compile_schema_bytes lib raw)"

definition validate_bytes :: "schema_lib \<Rightarrow> compiled \<Rightarrow> bytes \<Rightarrow> schema_error option" where
  "validate_bytes lib c data =
     (case sl_parse lib data of
        Inl e \<Rightarrow> Some (SchemaError ''output'' None
          [\<lparr>pb_pointer = [], pb_line = 0, pb_message = ''output is not valid JSON: '' @ err_msg e\<rparr>])
      | Inr inst \<Rightarrow> verdict_error ''output'' None (c inst))"

text \<open>What the contract and the worker executor take as their schema check.\<close>

definition engine_schema_check :: "schema_lib \<Rightarrow> (payload \<Rightarrow> err + bytes) \<Rightarrow> schema_check" where
  "engine_schema_check lib marshal schema =
     (case compile_schema lib marshal schema of
        Inl e \<Rightarrow> Inl e
      | Inr c \<Rightarrow> Inr (\<lambda>out. map_option schema_error_msg (validate_bytes lib c out)))"

section \<open>A saved workflow is loaded back\<close>

text \<open>A workflow that was saved without an error is what loading the same path gives, whatever its extension's
  format, provided the two codecs read back what they wrote.\<close>

theorem saved_workflow_loads:
  assumes "save_workflow fc fault w p d = (None, d')"
    and "\<And>b. fc_yaml_enc fc w = Inr b \<Longrightarrow> fc_yaml_dec fc b = Inr w"
    and "\<And>b. fc_json_enc fc w = Inr b \<Longrightarrow> fc_json_dec fc b = Inr w"
  shows "load_workflow fc (\<lambda>q. case d' q of None \<Rightarrow> Inl (ESentinel ErrNotExist) | Some b \<Rightarrow> Inr b) p = Inr w \<and> (\<forall>q. q \<noteq> p \<longrightarrow> d' q = d q)"
proof -
  let ?ext = "to_lower (file_ext p)"
  have "\<exists>b. d' = d(p \<mapsto> b) \<and> (if ?ext = ''.yaml'' \<or> ?ext = ''.yml'' then fc_yaml_enc fc w = Inr b
      else ?ext = ''.json'' \<and> fc_json_enc fc w = Inr b)"
    using assms(1) by (auto simp: save_workflow_def Let_def split: if_splits sum.splits option.splits)
  then obtain b where "d' = d(p \<mapsto> b)" "if ?ext = ''.yaml'' \<or> ?ext = ''.yml'' then fc_yaml_enc fc w = Inr b
      else ?ext = ''.json'' \<and> fc_json_enc fc w = Inr b" by blast
  with assms(2,3) show ?thesis by (auto simp: load_workflow_def Let_def split: if_splits)
qed

section \<open>Pointers\<close>

definition escape_char :: "char \<Rightarrow> string" where
  "escape_char c = (if c = CHR ''~'' then ''~0'' else if c = CHR ''/'' then ''~1'' else [c])"

lemma escape_segment: "replace_all ''/'' ''~1'' (replace_all ''~'' ''~0'' s) = concat (map escape_char s)"
  unfolding replace_all_char by (induction s) (simp_all add: escape_char_def)

lemma unescape_slash:
  "replace_all ''~1'' ''/'' (concat (map escape_char s)) = concat (map (\<lambda>c. if c = CHR ''~'' then ''~0'' else [c]) s)"
proof (induction s)
  case (Cons c s)
  consider "c = CHR ''~''" | "c = CHR ''/''" | "c \<noteq> CHR ''~'' \<and> c \<noteq> CHR ''/''" by blast
  then show ?case
  proof cases
    case 1
    then show ?thesis using Cons
      by (simp add: escape_char_def) (subst replace_all.simps, simp add: has_prefix_def, subst replace_all.simps, simp add: has_prefix_def)
  next
    case 2
    then show ?thesis using Cons by (simp add: escape_char_def) (subst replace_all.simps, simp add: has_prefix_def)
  next
    case 3
    then show ?thesis using Cons by (simp add: escape_char_def) (subst replace_all.simps, simp add: has_prefix_def)
  qed
qed simp

lemma unescape_tilde: "replace_all ''~0'' ''~'' (concat (map (\<lambda>c. if c = CHR ''~'' then ''~0'' else [c]) s)) = s"
proof (induction s)
  case (Cons c s)
  then show ?case
    by (cases "c = CHR ''~''") (simp, subst replace_all.simps, simp add: has_prefix_def)+
qed simp

lemma decode_escaped: "decode_pointer_segment (replace_all ''/'' ''~1'' (replace_all ''~'' ''~0'' s)) = s"
  by (simp add: decode_pointer_segment_def escape_segment unescape_slash unescape_tilde)

lemma escaped_no_slash: "CHR ''/'' \<notin> set (replace_all ''/'' ''~1'' (replace_all ''~'' ''~0'' s))"
  unfolding escape_segment by (auto simp: escape_char_def split: if_splits)

text \<open>The reference: the segments themselves, key by key and index by index.\<close>

fun locate :: "ynode \<Rightarrow> string list \<Rightarrow> ynode option" where
  "locate n [] = Some n"
| "locate n (s # ss) = (case child n s of None \<Rightarrow> None | Some m \<Rightarrow> locate m ss)"

lemma follow_escaped: "follow_pointer n (map (\<lambda>s. replace_all ''/'' ''~1'' (replace_all ''~'' ''~0'' s)) segs) = locate n segs"
  by (induction segs arbitrary: n) (simp_all add: decode_escaped split: option.splits)

lemma join_Nil_iff: "join sep xs = [] \<longleftrightarrow> xs = [] \<or> xs = [[]] \<or> (sep = [] \<and> (\<forall>x\<in>set xs. x = []))"
  by (induction sep xs rule: join.induct) auto

text \<open>The line of a JSON pointer is the line of the node its segments lead to, whatever characters keys have:
  building the pointer, splitting and unescaping it find the value. The one exception is a top-level empty key, whose
  pointer is taken for the document.\<close>

theorem pointer_located:
  assumes "segs \<noteq> [[]]"
  shows "source_line (Some \<lparr>src_path = p, src_doc = Some d\<rparr>) (pointer_of segs) = map_option y_line (locate (doc_root d) segs)"
proof (cases "segs = []")
  case False
  let ?esc = "map (\<lambda>s. replace_all ''/'' ''~1'' (replace_all ''~'' ''~0'' s)) segs"
  have ptr: "pointer_of segs = ''/'' @ join ''/'' ?esc" using False by (simp add: pointer_of_def)
  have "?esc \<noteq> [[]]"
  proof
    assume "?esc = [[]]"
    then obtain s where "segs = [s]" "replace_all ''/'' ''~1'' (replace_all ''~'' ''~0'' s) = []" by auto
    moreover from this(2) have "s = []" using decode_escaped [of s] by (simp add: decode_pointer_segment_def)
    ultimately show False using assms by simp
  qed
  then have "join ''/'' ?esc \<noteq> []" using False by (simp add: join_Nil_iff)
  with ptr have "pointer_of segs \<noteq> [] \<and> pointer_of segs \<noteq> ''/''" by simp
  moreover have "cut_prefix (pointer_of segs) ''/'' = Some (join ''/'' ?esc)" unfolding ptr cut_prefix_Some by simp
  moreover have "split_on CHR ''/'' (join ''/'' ?esc) = ?esc"
    using False escaped_no_slash by (intro split_on_join) auto
  ultimately show ?thesis by (simp add: source_line_def follow_escaped)
qed (simp add: pointer_of_def source_line_def)

lemma empty_key_misplaced:
  "\<exists>d. source_line (Some \<lparr>src_path = p, src_doc = Some d\<rparr>) (pointer_of [[]]) \<noteq> map_option y_line (locate (doc_root d) [[]])"
  by (rule exI [of _ "YDocument 1 [YMapping 1 [YScalar 1 [], YScalar 2 ''v'']]"])
    (simp add: source_line_def pointer_of_def doc_root_def)

section \<open>Problems\<close>

lemma leaf_problems_nonempty: "leaf_problems src e \<noteq> []"
proof (induction e)
  case (Violation loc msg causes)
  show ?case
  proof (cases causes)
    case (Cons c cs)
    with Violation have "leaf_problems src c \<noteq> []" by simp
    with Cons show ?thesis by simp
  qed simp
qed

text \<open>The leaves in order; the code's fallback for an error without leaves is never taken.\<close>

lemma collect_is_leaves: "collect_problems src e = leaf_problems src e"
  using leaf_problems_nonempty [of src e] by (auto simp: collect_problems_def split: list.splits)

lemma compile_kinds_ok:
  "compile_kinds lib rs ks v = Inr v' \<Longrightarrow> k \<in> fst ` set ks \<union> fst ` set v \<Longrightarrow> \<exists>c. map_of v' k = Some c"
proof (induction lib rs ks v rule: compile_kinds.induct)
  case (1 lib rs v)
  then show ?case by (auto simp: map_of_eq_None_iff image_iff)  (metis fst_conv map_of_eq_None_iff not_None_eq image_eqI)
qed (auto split: sum.splits)

text \<open>A validator that was built knows every kind there is.\<close>

lemma validator_complete: "new_validator lib es = Inr v \<Longrightarrow> k \<in> fst ` set schema_id \<Longrightarrow> \<exists>c. map_of v k = Some c"
  unfolding new_validator_def by (auto split: sum.splits dest: compile_kinds_ok)

text \<open>What the engine accepts as a worker's output is valid: the contract's schema was encoded, parsed and compiled,
  the output is JSON, and the schema's verdict on it is positive; and everything of this kind is accepted.\<close>

theorem accepted_output_valid:
  "enforce (engine_schema_check lib marshal) c out = Conforms \<longleftrightarrow>
     (\<exists>raw doc sch inst. marshal (con_output_schema c) = Inr raw \<and> sl_parse lib raw = Inr doc \<and>
        sl_add lib [] adhoc_schema_id doc = None \<and> sl_compile lib [(adhoc_schema_id, doc)] adhoc_schema_id = Inr sch \<and>
        sl_parse lib out = Inr inst \<and> sch inst = Valid)"
  unfolding enforce_def engine_schema_check_def compile_schema_def compile_schema_bytes_def validate_bytes_def verdict_error_def
  by (auto split: sum.splits option.splits verdict.splits)

lemma pointer_located_witness:
  "source_line (Some \<lparr>src_path = ''w.yaml'', src_doc = Some (YDocument 1 [YMapping 1 [YScalar 1 ''a/b~'',
      YSequence 2 [YScalar 2 ''x'', YScalar 3 ''y'']]])\<rparr>) (pointer_of [''a/b~'', ''1'']) = Some 3"
  using pointer_located [of "[''a/b~'', ''1'']"]
  by (simp add: doc_root_def atoi_def parse_nat_def is_digit_def int64_range_def Let_def)

lemma saved_workflow_loads_witness:
  "\<exists>w d. save_workflow \<lparr>fc_yaml_dec = (\<lambda>b. Inr w), fc_json_dec = (\<lambda>b. Inl (EMsg [])), fc_yaml_enc = (\<lambda>w. Inr ''id: x''),
       fc_json_enc = (\<lambda>w. Inl (EMsg []))\<rparr> (\<lambda>q. None) w ''d/x.yaml'' Map.empty = (None, d) \<and>
     load_workflow \<lparr>fc_yaml_dec = (\<lambda>b. Inr w), fc_json_dec = (\<lambda>b. Inl (EMsg [])), fc_yaml_enc = (\<lambda>w. Inr ''id: x''),
       fc_json_enc = (\<lambda>w. Inl (EMsg []))\<rparr> (\<lambda>q. case d q of None \<Rightarrow> Inl (ESentinel ErrNotExist) | Some b \<Rightarrow> Inr b) ''d/x.yaml'' = Inr w"
proof -
  fix w :: workflow
  let ?fc = "\<lparr>fc_yaml_dec = (\<lambda>b. Inr w), fc_json_dec = (\<lambda>b. Inl (EMsg [])), fc_yaml_enc = (\<lambda>w. Inr ''id: x''),
       fc_json_enc = (\<lambda>w. Inl (EMsg []))\<rparr> :: file_codec"
  have s: "save_workflow ?fc (\<lambda>q. None) w ''d/x.yaml'' Map.empty = (None, [''d/x.yaml'' \<mapsto> ''id: x''])"
    by (simp add: save_workflow_def file_ext_def to_lower_def lower_char_def Let_def)
  have "load_workflow ?fc (\<lambda>q. case [''d/x.yaml'' \<mapsto> ''id: x''] q of None \<Rightarrow> Inl (ESentinel ErrNotExist) | Some b \<Rightarrow> Inr b) ''d/x.yaml'' = Inr w"
    by (rule saved_workflow_loads [OF s, THEN conjunct1]) simp_all
  with s show ?thesis by blast
qed

end
