(* ===== verification/ToolSet.thy ===== *)
theory ToolSet
  imports Tools
begin

text \<open>
  The four built-in tools as values of the tool interface: the schemas they declare, byte for byte, their
  constructors (\<open>core/tool/filesystem\<close>, \<open>git\<close>, \<open>terminal\<close>, \<open>http\<close>), and what a sandbox denies
  by default. The operating system, processes and the network are the fields of \<open>tool_os\<close>.
\<close>

section \<open>Schemas\<close>

definition text_lines :: "string list \<Rightarrow> bytes" where
  "text_lines ls = join [CHR 0x0A] ls"

definition filesystem_input_schema :: bytes where
  "filesystem_input_schema = text_lines
    [''{'',
     ''  \"type\": \"object\",'',
     ''  \"additionalProperties\": false,'',
     ''  \"required\": [\"op\", \"path\"],'',
     ''  \"properties\": {'',
     ''    \"op\": { \"enum\": [\"read\", \"write\", \"list\"] },'',
     ''    \"path\": { \"type\": \"string\" },'',
     ''    \"content\": { \"type\": \"string\" }'',
     ''  }'',
     ''}'']"

definition filesystem_output_schema :: bytes where
  "filesystem_output_schema = text_lines
    [''{'',
     ''  \"type\": \"object\",'',
     ''  \"additionalProperties\": true,'',
     ''  \"properties\": {'',
     ''    \"content\": { \"type\": \"string\" },'',
     ''    \"bytesWritten\": { \"type\": \"integer\" },'',
     ''    \"entries\": {'',
     ''      \"type\": \"array\",'',
     ''      \"items\": {'',
     ''        \"type\": \"object\",'',
     ''        \"required\": [\"name\", \"isDir\", \"size\"],'',
     ''        \"properties\": {'',
     ''          \"name\": { \"type\": \"string\" },'',
     ''          \"isDir\": { \"type\": \"boolean\" },'',
     ''          \"size\": { \"type\": \"integer\" }'',
     ''        }'',
     ''      }'',
     ''    }'',
     ''  }'',
     ''}'']"

definition git_input_schema :: bytes where
  "git_input_schema = text_lines
    [''{'',
     ''  \"type\": \"object\",'',
     ''  \"additionalProperties\": false,'',
     ''  \"required\": [\"op\"],'',
     ''  \"properties\": {'',
     ''    \"op\": { \"enum\": [\"status\", \"diff\", \"add\", \"commit\", \"branch\"] },'',
     ''    \"paths\": { \"type\": \"array\", \"items\": { \"type\": \"string\" } },'',
     ''    \"message\": { \"type\": \"string\", \"maxLength\": 2000 },'',
     ''    \"name\": { \"type\": \"string\" }'',
     ''  }'',
     ''}'']"

definition git_output_schema :: bytes where
  "git_output_schema = text_lines
    [''{'',
     ''  \"type\": \"object\",'',
     ''  \"additionalProperties\": false,'',
     ''  \"required\": [\"op\", \"output\"],'',
     ''  \"properties\": {'',
     ''    \"op\": { \"type\": \"string\" },'',
     ''    \"output\": { \"type\": \"string\" }'',
     ''  }'',
     ''}'']"

definition terminal_input_schema :: bytes where
  "terminal_input_schema = text_lines
    [''{'',
     ''  \"type\": \"object\",'',
     ''  \"additionalProperties\": false,'',
     ''  \"required\": [\"command\"],'',
     ''  \"properties\": {'',
     ''    \"command\": { \"type\": \"string\" },'',
     ''    \"args\": { \"type\": \"array\", \"items\": { \"type\": \"string\" } }'',
     ''  }'',
     ''}'']"

definition terminal_output_schema :: bytes where
  "terminal_output_schema = text_lines
    [''{'',
     ''  \"type\": \"object\",'',
     ''  \"additionalProperties\": false,'',
     ''  \"required\": [\"command\", \"exitCode\", \"passed\", \"stdout\", \"stderr\", \"durationMs\"],'',
     ''  \"properties\": {'',
     ''    \"command\": { \"type\": \"string\" },'',
     ''    \"exitCode\": { \"type\": \"integer\" },'',
     ''    \"passed\": { \"type\": \"boolean\" },'',
     ''    \"stdout\": { \"type\": \"string\" },'',
     ''    \"stderr\": { \"type\": \"string\" },'',
     ''    \"durationMs\": { \"type\": \"integer\" }'',
     ''  }'',
     ''}'']"

definition http_input_schema :: bytes where
  "http_input_schema = text_lines
    [''{'',
     ''  \"type\": \"object\",'',
     ''  \"additionalProperties\": false,'',
     ''  \"required\": [\"method\", \"url\"],'',
     ''  \"properties\": {'',
     ''    \"method\": { \"enum\": [\"GET\", \"POST\"] },'',
     ''    \"url\": { \"type\": \"string\" },'',
     ''    \"urlRewrite\": {'',
     ''      \"type\": \"array\",'',
     ''      \"items\": {'',
     ''        \"type\": \"object\",'',
     ''        \"additionalProperties\": false,'',
     ''        \"required\": [\"match\", \"replace\"],'',
     ''        \"properties\": {'',
     ''          \"match\": { \"type\": \"string\" },'',
     ''          \"replace\": { \"type\": \"string\" }'',
     ''        }'',
     ''      }'',
     ''    },'',
     ''    \"failOnStatus\": { \"type\": \"boolean\" },'',
     ''    \"headers\": { \"type\": \"object\", \"additionalProperties\": { \"type\": \"string\" } },'',
     ''    \"body\": { \"type\": \"string\" }'',
     ''  }'',
     ''}'']"

definition http_output_schema :: bytes where
  "http_output_schema = text_lines
    [''{'',
     ''  \"type\": \"object\",'',
     ''  \"additionalProperties\": false,'',
     ''  \"required\": [\"status\", \"body\"],'',
     ''  \"properties\": {'',
     ''    \"status\": { \"type\": \"integer\" },'',
     ''    \"body\": { \"type\": \"string\" }'',
     ''  }'',
     ''}'']"

section \<open>Constructors\<close>

record 'w tool_os =
  to_marshal :: "gval \<Rightarrow> bytes"
  to_fs_decode :: "bytes \<Rightarrow> err + fs_request"
  to_fs :: "'w fs_os"
  to_abs :: "string \<Rightarrow> path"
  to_git_decode :: "bytes \<Rightarrow> err + git_request"
  to_git :: "string \<Rightarrow> int \<Rightarrow> string list \<Rightarrow> 'w \<Rightarrow> proc_end \<times> 'w"
  to_term_decode :: "bytes \<Rightarrow> err + term_request"
  to_exit_error :: "err \<Rightarrow> bool"
  to_run :: "string \<Rightarrow> int \<Rightarrow> string \<Rightarrow> string list \<Rightarrow> 'w \<Rightarrow> run_result_proc \<times> 'w"
  to_http_decode :: "bytes \<Rightarrow> err + http_request"
  to_compile :: "string \<Rightarrow> err + regexp"
  to_parse_url :: "string \<Rightarrow> err + parsed_url"
  to_wire :: "(string \<times> string) list \<Rightarrow> 'w exchange"
  to_duration_text :: "int \<Rightarrow> string"

text \<open>Durations are nanoseconds; one that is not positive becomes thirty seconds.\<close>

definition tool_timeout :: "int \<Rightarrow> int" where
  "tool_timeout t = (if t \<le> 0 then 30000000000 else t)"

definition new_filesystem :: "'w tool_os \<Rightarrow> string \<Rightarrow> 'w tool" where
  "new_filesystem os dir =
     \<lparr>tl_name = ''filesystem'', tl_version = ''1.0.0'', tl_input_schema = filesystem_input_schema,
      tl_output_schema = filesystem_output_schema,
      tl_execute = fs_execute (to_fs_decode os) (to_marshal os) (to_fs os) (to_abs os dir),
      tl_describe = Some (fs_describe (to_fs_decode os)), tl_artifact_type = None\<rparr>"

definition new_git :: "'w tool_os \<Rightarrow> string \<Rightarrow> int \<Rightarrow> 'w tool" where
  "new_git os dir t =
     \<lparr>tl_name = ''git'', tl_version = ''1.0.0'', tl_input_schema = git_input_schema,
      tl_output_schema = git_output_schema,
      tl_execute = git_execute (to_git_decode os) (to_marshal os) (to_git os dir (tool_timeout t))
        (to_duration_text os (tool_timeout t)),
      tl_describe = Some (git_describe (to_git_decode os)), tl_artifact_type = None\<rparr>"

definition new_terminal :: "'w tool_os \<Rightarrow> string \<Rightarrow> string list \<Rightarrow> int \<Rightarrow> artifact_type \<Rightarrow> 'w tool" where
  "new_terminal os dir allow t ty =
     \<lparr>tl_name = ''terminal'', tl_version = ''1.0.0'', tl_input_schema = terminal_input_schema,
      tl_output_schema = terminal_output_schema,
      tl_execute = term_execute (to_term_decode os) (to_marshal os) (to_exit_error os) (to_run os dir (tool_timeout t))
        allow (to_duration_text os (tool_timeout t)),
      tl_describe = Some (term_describe (to_term_decode os)), tl_artifact_type = Some ty\<rparr>"

definition new_http :: "'w tool_os \<Rightarrow> string list \<Rightarrow> 'w tool" where
  "new_http os allow =
     \<lparr>tl_name = ''http'', tl_version = ''1.0.0'', tl_input_schema = http_input_schema,
      tl_output_schema = http_output_schema,
      tl_execute = http_execute (to_http_decode os) (to_marshal os) (to_compile os) (to_parse_url os) (to_wire os) allow,
      tl_describe = Some (http_describe (to_http_decode os) (to_compile os) (to_parse_url os)),
      tl_artifact_type = None\<rparr>"

section \<open>What is denied\<close>

text \<open>An empty allowlist denies every command and every host, and nothing happens.\<close>

lemma terminal_denies: "\<exists>e. tl_execute (new_terminal os dir [] t ty) input w = (Inl e, w)"
  by (auto simp: new_terminal_def term_execute_def split: sum.splits)

lemma http_denies: "\<exists>e. tl_execute (new_http os []) input w = (Inl e, w)"
  by (auto simp: new_http_def http_execute_def split: sum.splits)

text \<open>Two systems that differ in what a push does are the same for the git tool.\<close>

lemma git_never_pushes:
  assumes "\<And>args w. hd args \<noteq> ''push'' \<Longrightarrow> to_git os1 dir (tool_timeout t) args w = to_git os2 dir (tool_timeout t) args w"
    and "to_git_decode os1 = to_git_decode os2" and "to_marshal os1 = to_marshal os2"
    and "to_duration_text os1 = to_duration_text os2"
  shows "tl_execute (new_git os1 dir t) input w = tl_execute (new_git os2 dir t) input w"
proof (cases "to_git_decode os1 input")
  case (Inr req)
  show ?thesis
  proof (cases "git_args req")
    case args: (Inr args)
    from git_subcommands [OF args] have "hd args \<noteq> ''push''" by auto
    from assms(1) [OF this] show ?thesis using Inr args assms(2-4) by (simp add: new_git_def git_execute_def git_run_def)
  qed (use Inr assms(2) in \<open>simp add: new_git_def git_execute_def\<close>)
qed (use assms(2) in \<open>simp add: new_git_def git_execute_def\<close>)

end
