(* ===== verification/VersionRef.thy ===== *)
theory VersionRef
  imports GoErr
begin

text \<open>
  \<open>core/registry/version.go\<close>: semantic versions and \<open>id@version\<close> references, and the interface of a
  store of versioned definitions, from whose laws the immutability of a released version follows.
\<close>

section \<open>Semantic versions\<close>

text \<open>The regular expression \<open>semverRe\<close>, read off by cutting: build metadata begins at the first
  plus sign, the pre-release at the first hyphen before it, and the parts between dots have to be
  what the groups of the expression say. \<open>valid_version_grammar\<close> proves that this is the
  language of the expression.\<close>

definition ident_char :: "char \<Rightarrow> bool" where
  "ident_char c \<longleftrightarrow>
     (let n = (of_char c :: nat) in
      (48 \<le> n \<and> n \<le> 57) \<or> (65 \<le> n \<and> n \<le> 90) \<or> (97 \<le> n \<and> n \<le> 122) \<or> n = 45)"

definition num_ident :: "string \<Rightarrow> bool" where
  "num_ident s \<longleftrightarrow> s \<noteq> [] \<and> list_all is_digit s \<and> (s = ''0'' \<or> hd s \<noteq> CHR ''0'')"

definition build_ident :: "string \<Rightarrow> bool" where
  "build_ident s \<longleftrightarrow> s \<noteq> [] \<and> list_all ident_char s"

definition pre_ident :: "string \<Rightarrow> bool" where
  "pre_ident s \<longleftrightarrow> build_ident s \<and> (num_ident s \<or> \<not> list_all is_digit s)"

definition valid_core :: "string \<Rightarrow> bool" where
  "valid_core s \<longleftrightarrow> length (split_on CHR ''.'' s) = 3 \<and> list_all num_ident (split_on CHR ''.'' s)"

definition dotted :: "(string \<Rightarrow> bool) \<Rightarrow> string option \<Rightarrow> bool" where
  "dotted P s \<longleftrightarrow> (case s of None \<Rightarrow> True | Some t \<Rightarrow> list_all P (split_on CHR ''.'' t))"

definition cut_at :: "string \<Rightarrow> string \<Rightarrow> string \<times> string option" where
  "cut_at s sep = (case cut s sep of None \<Rightarrow> (s, None) | Some (a, b) \<Rightarrow> (a, Some b))"

definition valid_version :: "string \<Rightarrow> bool" where
  "valid_version v \<longleftrightarrow>
     (case cut_at v ''+'' of (main, build) \<Rightarrow>
        (case cut_at main ''-'' of (core, pre) \<Rightarrow>
           valid_core core \<and> dotted pre_ident pre \<and> dotted build_ident build))"

definition parse_ref :: "string \<Rightarrow> err + string \<times> string" where
  "parse_ref ref =
     (let bad = Inl (EMsg (''registry: '' @ quote ref @ '' is not a valid '' @ quote ''id@version'' @ '' reference'')) in
      case cut ref ''@'' of
        None \<Rightarrow> bad
      | Some (i, v) \<Rightarrow>
          if i = [] \<or> v = [] then bad
          else if \<not> valid_version v
          then Inl (EMsg (''registry: reference '' @ quote ref @ '' has an invalid semver version '' @ quote v))
          else Inr (i, v))"

section \<open>The grammar\<close>

text \<open>The shape of the expression: three numeric identifiers, optional pre-release and build parts.\<close>

definition semver :: "string list \<Rightarrow> string list \<Rightarrow> string list \<Rightarrow> string" where
  "semver core pre build =
     join ''.'' core @ (if pre = [] then [] else ''-'' @ join ''.'' pre) @
     (if build = [] then [] else ''+'' @ join ''.'' build)"

lemma digit_ident: "is_digit c \<Longrightarrow> ident_char c"
  by (simp add: is_digit_def ident_char_def Let_def)

lemma num_build_ident: "num_ident s \<Longrightarrow> build_ident s"
  by (auto simp: num_ident_def build_ident_def list_all_iff digit_ident)

lemma ident_char_not [simp]:
  "\<not> ident_char CHR ''.''" "\<not> ident_char CHR ''+''" "\<not> ident_char CHR ''@''" "\<not> is_digit CHR ''-''"
  by (simp_all add: ident_char_def is_digit_def)

lemma ident_free:
  "build_ident s \<Longrightarrow> CHR ''.'' \<notin> set s" "build_ident s \<Longrightarrow> CHR ''+'' \<notin> set s" "build_ident s \<Longrightarrow> CHR ''@'' \<notin> set s"
  "num_ident s \<Longrightarrow> CHR ''-'' \<notin> set s"
  by (auto simp: build_ident_def num_ident_def list_all_iff)

lemma set_join: "set (join sep xs) \<subseteq> set sep \<union> \<Union> (set ` set xs)"
  by (induction sep xs rule: join.induct) auto

lemma first_sep:
  "c \<notin> set xs \<Longrightarrow> c \<notin> set xs' \<Longrightarrow> xs @ c # ys = xs' @ c # ys' \<longleftrightarrow> xs = xs' \<and> ys = ys'"
proof (induction xs arbitrary: xs')
  case Nil
  then show ?case by (cases xs') auto
next
  case (Cons x xs)
  then show ?case by (cases xs') auto
qed

lemma cut_at_char:
  "cut_at s [c] = (a, b) \<longleftrightarrow>
     (case b of None \<Rightarrow> s = a \<and> c \<notin> set s | Some t \<Rightarrow> s = a @ c # t \<and> c \<notin> set a)"
proof (cases "c \<in> set s")
  case True
  then obtain x y where s: "s = x @ c # y" "c \<notin> set x" by (meson split_list_first)
  then have xy: "cut_at s [c] = (x, Some y)" by (simp add: cut_at_def cut_single_append)
  show ?thesis
  proof (cases b)
    case None
    then show ?thesis using True xy by simp
  next
    case (Some t)
    have "x @ c # y = a @ c # t \<and> c \<notin> set a \<longleftrightarrow> x = a \<and> y = t"
      using first_sep [of c x a y t] s(2) by (cases "c \<in> set a") auto
    then show ?thesis using Some xy s(1) by auto
  qed
next
  case False
  then have "cut_at s [c] = (s, None)" by (simp add: cut_at_def cut_single)
  then show ?thesis using False by (auto split: option.splits)
qed

lemma dotted_None [simp]: "dotted P None" and dotted_Some [simp]: "dotted P (Some t) = list_all P (split_on CHR ''.'' t)"
  by (simp_all add: dotted_def)

text \<open>The parts of a dotted text.\<close>

lemma dotted_join:
  assumes "\<And>x. P x \<Longrightarrow> build_ident x"
  shows "dotted P b \<longleftrightarrow> b = None \<or> (\<exists>xs. xs \<noteq> [] \<and> list_all P xs \<and> b = Some (join ''.'' xs))"
proof (cases b)
  case (Some t)
  have "list_all P (split_on CHR ''.'' t) \<longleftrightarrow> (\<exists>xs. xs \<noteq> [] \<and> list_all P xs \<and> t = join ''.'' xs)"
  proof
    assume "list_all P (split_on CHR ''.'' t)"
    then show "\<exists>xs. xs \<noteq> [] \<and> list_all P xs \<and> t = join ''.'' xs"
      using join_split_on [of "CHR ''.''" t] by (intro exI [of _ "split_on CHR ''.'' t"]) simp
  next
    assume "\<exists>xs. xs \<noteq> [] \<and> list_all P xs \<and> t = join ''.'' xs"
    then obtain xs where "xs \<noteq> []" "list_all P xs" "t = join ''.'' xs" by blast
    moreover from this have "\<forall>x\<in>set xs. CHR ''.'' \<notin> set x"
      using assms ident_free(1) by (auto simp: list_all_iff)
    ultimately show "list_all P (split_on CHR ''.'' t)" by (simp add: split_on_join)
  qed
  with Some show ?thesis by simp
qed simp

lemma dotted_list:
  assumes "dotted P b" and "\<And>x. P x \<Longrightarrow> build_ident x"
  obtains xs where "list_all P xs" "b = (if xs = [] then None else Some (join ''.'' xs))"
proof (cases b)
  case None
  then show thesis using that [of "[]"] by simp
next
  case (Some t)
  with assms(1) obtain xs where "xs \<noteq> []" "list_all P xs" "t = join ''.'' xs"
    using dotted_join [where P = P and b = b, OF assms(2)] by auto
  with Some show thesis using that [of xs] by simp
qed

lemma join_free:
  assumes "c \<noteq> CHR ''.''" and "\<And>x. x \<in> set xs \<Longrightarrow> c \<notin> set x"
  shows "c \<notin> set (join ''.'' xs)"
  using set_join [of "''.''" xs] assms by fastforce

lemma valid_core_iff: "valid_core s \<longleftrightarrow> (\<exists>xs. length xs = 3 \<and> list_all num_ident xs \<and> s = join ''.'' xs)"
proof
  assume "valid_core s"
  then show "\<exists>xs. length xs = 3 \<and> list_all num_ident xs \<and> s = join ''.'' xs"
    using join_split_on [of "CHR ''.''" s] by (intro exI [of _ "split_on CHR ''.'' s"]) (simp add: valid_core_def)
next
  assume "\<exists>xs. length xs = 3 \<and> list_all num_ident xs \<and> s = join ''.'' xs"
  then obtain xs where xs: "length xs = 3" "list_all num_ident xs" "s = join ''.'' xs" by blast
  then have "\<forall>x\<in>set xs. CHR ''.'' \<notin> set x" "xs \<noteq> []"
    using ident_free(1) num_build_ident by (auto simp: list_all_iff)
  with xs show "valid_core s" by (simp add: valid_core_def split_on_join)
qed

lemma valid_version_grammar:
  "valid_version v \<longleftrightarrow>
     (\<exists>core pre build. v = semver core pre build \<and> length core = 3 \<and> list_all num_ident core \<and>
        list_all pre_ident pre \<and> list_all build_ident build)"
proof
  assume "valid_version v"
  then obtain main build core pre where cuts: "cut_at v ''+'' = (main, build)" "cut_at main ''-'' = (core, pre)"
    and ok: "valid_core core" "dotted pre_ident pre" "dotted build_ident build"
    by (auto simp: valid_version_def split: prod.splits)
  from ok(1) obtain xs where xs: "length xs = 3" "list_all num_ident xs" "core = join ''.'' xs"
    by (auto simp: valid_core_iff)
  from ok(2) obtain ps where ps: "list_all pre_ident ps" "pre = (if ps = [] then None else Some (join ''.'' ps))"
    by (rule dotted_list) (simp add: pre_ident_def)
  from ok(3) obtain bs where bs: "list_all build_ident bs" "build = (if bs = [] then None else Some (join ''.'' bs))"
    by (rule dotted_list)
  have "v = semver xs ps bs"
    using cuts ps(2) bs(2) xs(3) unfolding cut_at_char semver_def
    by (auto split: option.splits if_splits)
  with xs ps bs show "\<exists>core pre build. v = semver core pre build \<and> length core = 3 \<and> list_all num_ident core \<and>
        list_all pre_ident pre \<and> list_all build_ident build" by blast
next
  assume "\<exists>core pre build. v = semver core pre build \<and> length core = 3 \<and> list_all num_ident core \<and>
        list_all pre_ident pre \<and> list_all build_ident build"
  then obtain core pre build where v: "v = semver core pre build" and len: "length core = 3" "list_all num_ident core"
    and pre: "list_all pre_ident pre" and build: "list_all build_ident build" by blast
  let ?main = "join ''.'' core @ (if pre = [] then [] else ''-'' @ join ''.'' pre)"
  let ?b = "if build = [] then None else Some (join ''.'' build)"
  let ?p = "if pre = [] then None else Some (join ''.'' pre)"
  have core_free: "CHR ''-'' \<notin> set (join ''.'' core)" "CHR ''+'' \<notin> set (join ''.'' core)"
    by (rule join_free; use len(2) ident_free(2,4) num_build_ident in \<open>auto simp: list_all_iff\<close>)+
  have "CHR ''+'' \<notin> set (join ''.'' pre)"
    by (rule join_free; use pre ident_free(2) in \<open>auto simp: list_all_iff pre_ident_def\<close>)
  with core_free have "cut_at v ''+'' = (?main, ?b)"
    by (simp add: cut_at_char v semver_def)
  moreover have "cut_at ?main ''-'' = (join ''.'' core, ?p)"
    using core_free by (simp add: cut_at_char)
  moreover have "valid_core (join ''.'' core)" using len by (auto simp: valid_core_iff)
  moreover have "dotted pre_ident ?p"
    using pre by (subst dotted_join) (auto simp: pre_ident_def)
  moreover have "dotted build_ident ?b"
    using build by (subst dotted_join) auto
  ultimately show "valid_version v" by (simp add: valid_version_def)
qed

section \<open>References\<close>

lemma valid_version_chars:
  assumes "valid_version v"
  shows "CHR ''@'' \<notin> set v" and "v \<noteq> []"
proof -
  from assms obtain core pre build where v: "v = semver core pre build" "length core = 3" "list_all num_ident core"
    "list_all pre_ident pre" "list_all build_ident build"
    by (auto simp: valid_version_grammar)
  have free: "CHR ''@'' \<notin> set (join ''.'' xs)" if "\<And>x. x \<in> set xs \<Longrightarrow> build_ident x" for xs
    using that ident_free(3) by (intro join_free) auto
  have "CHR ''@'' \<notin> set (join ''.'' core)" "CHR ''@'' \<notin> set (join ''.'' pre)" "CHR ''@'' \<notin> set (join ''.'' build)"
    using v(3-5) num_build_ident by (auto simp: list_all_iff pre_ident_def intro!: free)
  then show "CHR ''@'' \<notin> set v" by (simp add: v(1) semver_def)
  from v(2) obtain x xs where c: "core = x # xs" "xs \<noteq> []" by (cases core; cases "tl core") auto
  then show "v \<noteq> []" by (cases xs) (auto simp: v(1) semver_def)
qed

text \<open>An id that contains an at sign has a reference that \<open>ParseRef\<close> does not read.\<close>

lemma parse_ref_correct:
  assumes "valid_version v" and "i \<noteq> []"
  shows "parse_ref (i @ ''@'' @ v) = Inr (i, v) \<longleftrightarrow> CHR ''@'' \<notin> set i"
proof (cases "CHR ''@'' \<in> set i")
  case True
  then obtain x y where "i = x @ CHR ''@'' # y" "CHR ''@'' \<notin> set x" by (meson split_list_first)
  then have "cut (i @ ''@'' @ v) ''@'' = Some (x, y @ ''@'' @ v)" by (simp add: cut_single_append)
  with True show ?thesis by (auto simp: parse_ref_def Let_def)
next
  case False
  with assms valid_version_chars [OF assms(1)] show ?thesis
    by (simp add: parse_ref_def Let_def cut_single_append)
qed

lemma parse_ref_Inr: "parse_ref r = Inr (i, v) \<Longrightarrow> r = i @ ''@'' @ v \<and> i \<noteq> [] \<and> valid_version v"
  by (auto simp: parse_ref_def Let_def dest!: cut_Some split: option.splits if_splits)

text \<open>The coordinate of a definition determines its id and version, whatever the id is.\<close>

lemma ref_inject:
  assumes "valid_version v" and "valid_version v'"
  shows "i @ ''@'' @ v = i' @ ''@'' @ v' \<longleftrightarrow> i = i' \<and> v = v'"
proof
  assume "i @ ''@'' @ v = i' @ ''@'' @ v'"
  then have "rev v @ CHR ''@'' # rev i = rev v' @ CHR ''@'' # rev i'"
    by (metis append.assoc append_Cons append_Nil rev.simps(2) rev_append rev_singleton_conv)
  then show "i = i' \<and> v = v'"
    using first_sep [of "CHR ''@''" "rev v" "rev v'" "rev i" "rev i'"] valid_version_chars assms by simp
qed simp

section \<open>A store of versioned definitions\<close>

text \<open>What a caller relies on: publishing a definition at its coordinate either fails or makes it
  readable there with its digest, changes no other coordinate, and fails when the coordinate holds
  another digest.\<close>

locale versioned =
  fixes publish :: "'d \<Rightarrow> 'r \<Rightarrow> 'e + 'r"
    and lookup :: "'r \<Rightarrow> string \<Rightarrow> ('d \<times> string) option"
    and coord :: "'d \<Rightarrow> string"
    and digest :: "'d \<Rightarrow> string \<Rightarrow> bool"
  assumes published: "publish d r = Inr r' \<Longrightarrow> \<exists>h. digest d h \<and> lookup r' (coord d) = Some (d, h) \<and>
      (\<forall>x. lookup r (coord d) = Some x \<longrightarrow> snd x = h)"
    and others: "publish d r = Inr r' \<Longrightarrow> k \<noteq> coord d \<Longrightarrow> lookup r' k = lookup r k"
begin

definition released :: "'r \<Rightarrow> string \<Rightarrow> string \<Rightarrow> bool" where
  "released r k h \<longleftrightarrow> (\<exists>d. lookup r k = Some (d, h))"

lemma publish_keeps: "publish d r = Inr r' \<Longrightarrow> released r k h \<Longrightarrow> released r' k h"
  using published [of d r r'] others [of d r r' k] by (cases "k = coord d") (auto simp: released_def)

text \<open>Whatever is published later, also when some of it is refused, a released coordinate keeps its
  digest.\<close>

primrec publish_all :: "'d list \<Rightarrow> 'r \<Rightarrow> 'r" where
  "publish_all [] r = r"
| "publish_all (d # ds) r = publish_all ds (case publish d r of Inl e \<Rightarrow> r | Inr r' \<Rightarrow> r')"

lemma publish_all_keeps: "released r k h \<Longrightarrow> released (publish_all ds r) k h"
  by (induction ds arbitrary: r) (auto intro: publish_keeps split: sum.split)

end

end
