(* ===== verification/Registry.thy ===== *)
theory Registry
  imports VersionRef Canonical Tools "HOL-Library.AList"
begin

text \<open>
  \<open>core/registry\<close>: workflows and workers at immutable \<open>id@version\<close> coordinates, what a run pins of
  them, the portable bundle of a workflow and the facts a template gallery shows. The JSON
  encoding of a definition and its decoding are parameters (\<open>registry_codec\<close>); hashing and the
  canonical form are those of \<open>Canonical\<close>. An archive is the list of its entries.
\<close>

section \<open>The registry\<close>

record registry_codec =
  cd_worker :: "worker \<Rightarrow> err + cjson"
  cd_workflow :: "workflow \<Rightarrow> err + cjson"
  cd_read_worker :: "bytes \<Rightarrow> err + worker"
  cd_read_workflow :: "bytes \<Rightarrow> err + workflow"
  cd_sum256 :: "bytes \<Rightarrow> bytes"

datatype definition_kind = KindWorkflow | KindWorker

fun kind_str :: "definition_kind \<Rightarrow> string" where
  "kind_str KindWorkflow = ''workflow''"
| "kind_str KindWorker = ''worker''"

datatype registry_error =
    RegistryErr err
  | ConflictError definition_kind string string string

definition short :: "string \<Rightarrow> string" where
  "short h = (if length h > 12 then take 12 h @ [CHR 0xE2, CHR 0x80, CHR 0xA6] else h)"

definition conflict_msg :: "definition_kind \<Rightarrow> string \<Rightarrow> string \<Rightarrow> string \<Rightarrow> string" where
  "conflict_msg k ref existing incoming =
     ''registry: '' @ kind_str k @ '' '' @ quote ref @ '' is already registered with content hash '' @ short existing @
     ''; refusing to overwrite it with different content (hash '' @ short incoming @ '') '' @
     [CHR 0xE2, CHR 0x80, CHR 0x94] @ '' bump the version instead of mutating a released one''"

type_synonym 'd entries = "(string \<times> 'd \<times> string) list"

record registry =
  rg_workflows :: "workflow entries"
  rg_workers :: "worker entries"

definition new_registry :: registry where
  "new_registry = \<lparr>rg_workflows = [], rg_workers = []\<rparr>"

definition worker_ref :: "worker \<Rightarrow> string" where
  "worker_ref w = wk_id w @ ''@'' @ wk_version w"

definition workflow_ref :: "workflow \<Rightarrow> string" where
  "workflow_ref w = wf_id w @ ''@'' @ wf_version w"

definition register_worker :: "registry_codec \<Rightarrow> worker \<Rightarrow> registry \<Rightarrow> registry_error + registry" where
  "register_worker cd w r =
     (if wk_id w = [] then Inl (RegistryErr (EMsg ''registry: worker has no id''))
      else if \<not> valid_version (wk_version w)
      then Inl (RegistryErr (EMsg (''registry: worker '' @ quote (wk_id w) @ '' has an invalid semver version '' @
             quote (wk_version w))))
      else
        let ref = worker_ref w in
        case cd_worker cd w of
          Inl e \<Rightarrow> Inl (RegistryErr (errorf (''registry: hash worker '' @ quote ref @ '': '') e []))
        | Inr j \<Rightarrow>
            let h = canonical_hash (cd_sum256 cd) j in
            (case map_of (rg_workers r) ref of
               Some (d, h0) \<Rightarrow>
                 if h0 \<noteq> h then Inl (ConflictError KindWorker ref h0 h)
                 else Inr (r\<lparr>rg_workers := AList.update ref (w, h) (rg_workers r)\<rparr>)
             | None \<Rightarrow> Inr (r\<lparr>rg_workers := AList.update ref (w, h) (rg_workers r)\<rparr>)))"

definition register_workflow :: "registry_codec \<Rightarrow> workflow \<Rightarrow> registry \<Rightarrow> registry_error + registry" where
  "register_workflow cd w r =
     (if wf_id w = [] then Inl (RegistryErr (EMsg ''registry: workflow has no id''))
      else if \<not> valid_version (wf_version w)
      then Inl (RegistryErr (EMsg (''registry: workflow '' @ quote (wf_id w) @ '' has an invalid semver version '' @
             quote (wf_version w))))
      else
        let ref = workflow_ref w in
        case cd_workflow cd w of
          Inl e \<Rightarrow> Inl (RegistryErr (errorf (''registry: hash workflow '' @ quote ref @ '': '') e []))
        | Inr j \<Rightarrow>
            let h = canonical_hash (cd_sum256 cd) j in
            (case map_of (rg_workflows r) ref of
               Some (d, h0) \<Rightarrow>
                 if h0 \<noteq> h then Inl (ConflictError KindWorkflow ref h0 h)
                 else Inr (r\<lparr>rg_workflows := AList.update ref (w, h) (rg_workflows r)\<rparr>)
             | None \<Rightarrow> Inr (r\<lparr>rg_workflows := AList.update ref (w, h) (rg_workflows r)\<rparr>)))"

definition lookup_worker :: "registry \<Rightarrow> string \<Rightarrow> worker option" where
  "lookup_worker r ref = map_option fst (map_of (rg_workers r) ref)"

definition lookup_workflow :: "registry \<Rightarrow> string \<Rightarrow> workflow option" where
  "lookup_workflow r ref = map_option fst (map_of (rg_workflows r) ref)"

definition sole_workflow :: "registry \<Rightarrow> (string \<times> workflow) option" where
  "sole_workflow r = (case rg_workflows r of [(ref, d, h)] \<Rightarrow> Some (ref, d) | _ \<Rightarrow> None)"

definition content_hash :: "registry \<Rightarrow> string \<Rightarrow> string option" where
  "content_hash r ref =
     (case map_of (rg_workers r) ref of
        Some (d, h) \<Rightarrow> Some h
      | None \<Rightarrow> map_option snd (map_of (rg_workflows r) ref))"

fun definition_hashes :: "registry \<Rightarrow> node list \<Rightarrow> string \<rightharpoonup> string" where
  "definition_hashes r [] = Map.empty"
| "definition_hashes r (n # ns) =
     (if node_worker n = [] then definition_hashes r ns
      else case map_of (rg_workers r) (node_worker n) of
        None \<Rightarrow> definition_hashes r ns
      | Some (d, h) \<Rightarrow> (definition_hashes r ns)(node_worker n \<mapsto> h))"

fun pinned_workers :: "registry \<Rightarrow> node list \<Rightarrow> string \<rightharpoonup> worker" where
  "pinned_workers r [] = Map.empty"
| "pinned_workers r (n # ns) =
     (if node_worker n = [] then pinned_workers r ns
      else case map_of (rg_workers r) (node_worker n) of
        None \<Rightarrow> pinned_workers r ns
      | Some (d, h) \<Rightarrow> (pinned_workers r ns)(node_worker n \<mapsto> d))"

section \<open>Export and import\<close>

type_synonym bundle_entries = "(string \<times> bytes) list"

definition worker_entry_name :: "string \<Rightarrow> string" where
  "worker_entry_name ref = ''workers/'' @ ref @ ''.json''"

definition canonical_entry :: "string \<Rightarrow> err + cjson \<Rightarrow> bundle_entries \<Rightarrow> err + bundle_entries" where
  "canonical_entry name j a =
     (case j of
        Inl e \<Rightarrow> Inl (errorf (''registry: marshal '' @ name @ '': '') e [])
      | Inr v \<Rightarrow> Inr (a @ [(name, canonical_marshal v)]))"

fun export_workers ::
  "registry_codec \<Rightarrow> registry \<Rightarrow> string \<Rightarrow> node list \<Rightarrow> string list \<Rightarrow> bundle_entries \<Rightarrow> err + bundle_entries" where
  "export_workers cd r ref [] seen a = Inr a"
| "export_workers cd r ref (n # ns) seen a =
     (if node_worker n = [] \<or> node_worker n \<in> set seen then export_workers cd r ref ns seen a
      else case map_of (rg_workers r) (node_worker n) of
        None \<Rightarrow> Inl (EMsg (''registry: workflow '' @ quote ref @ '' references unregistered worker '' @
                 quote (node_worker n) @ '' '' @ [CHR 0xE2, CHR 0x80, CHR 0x94] @ '' cannot export a partial bundle''))
      | Some (d, h) \<Rightarrow>
          (case canonical_entry (worker_entry_name (node_worker n)) (cd_worker cd d) a of
             Inl e \<Rightarrow> Inl e
           | Inr a' \<Rightarrow> export_workers cd r ref ns (node_worker n # seen) a'))"

definition export_workflow :: "registry_codec \<Rightarrow> registry \<Rightarrow> string \<Rightarrow> string \<Rightarrow> err + bundle_entries" where
  "export_workflow cd r name version =
     (let ref = name @ ''@'' @ version in
      case map_of (rg_workflows r) ref of
        None \<Rightarrow> Inl (EMsg (''registry: no workflow '' @ quote ref @ '' registered to export''))
      | Some (d, h) \<Rightarrow>
          (case canonical_entry ''workflow.json'' (cd_workflow cd d) [] of
             Inl e \<Rightarrow> Inl e
           | Inr a \<Rightarrow> export_workers cd r ref (wf_nodes d) [] a))"

fun import_entries :: "registry_codec \<Rightarrow> bundle_entries \<Rightarrow> registry \<Rightarrow> registry_error + registry" where
  "import_entries cd [] r = Inr r"
| "import_entries cd ((name, data) # rest) r =
     (case (if name = ''workflow.json''
            then (case cd_read_workflow cd data of
                    Inl e \<Rightarrow> Inl (RegistryErr (errorf (''registry: decode '' @ name @ '': '') e []))
                  | Inr w \<Rightarrow> register_workflow cd w r)
            else if has_prefix name ''workers/''
            then (case cd_read_worker cd data of
                    Inl e \<Rightarrow> Inl (RegistryErr (errorf (''registry: decode '' @ name @ '': '') e []))
                  | Inr w \<Rightarrow> register_worker cd w r)
            else Inl (RegistryErr (EMsg (''registry: unexpected entry '' @ quote name @ '' in import archive'')))) of
        Inl e \<Rightarrow> Inl e
      | Inr r' \<Rightarrow> import_entries cd rest r')"

definition import_bundle :: "registry_codec \<Rightarrow> bundle_entries \<Rightarrow> registry_error + registry" where
  "import_bundle cd a = import_entries cd a new_registry"

section \<open>Template facts\<close>

record template_input =
  ti_name :: string
  ti_required :: bool
  ti_description :: string
  ti_default :: string

record template_facts =
  tf_tools :: "string list"
  tf_write_capable :: bool
  tf_expected_cost :: rat
  tf_expected_ms :: int
  tf_inputs :: "template_input list"

definition write_capable :: "tool_call \<Rightarrow> bool" where
  "write_capable t =
     (if tc_name t = ''git''
      then \<not> (payload_string (tc_input t) ''op'' = Some ''status'' \<or> payload_string (tc_input t) ''op'' = Some ''diff'')
      else if tc_name t = ''filesystem''
      then \<not> (payload_string (tc_input t) ''op'' = Some ''read'' \<or> payload_string (tc_input t) ''op'' = Some ''list'')
      else if tc_name t = ''http'' then payload_string (tc_input t) ''method'' \<noteq> Some ''GET''
      else True)"

fun template_tools :: "node list \<Rightarrow> string list \<Rightarrow> string list" where
  "template_tools [] seen = seen"
| "template_tools (n # ns) seen =
     (case node_tool n of
        None \<Rightarrow> template_tools ns seen
      | Some t \<Rightarrow> template_tools ns (if tc_name t \<in> set seen then seen else seen @ [tc_name t]))"

definition derive_template_facts :: "workflow \<Rightarrow> template_facts" where
  "derive_template_facts w =
     \<lparr>tf_tools = sort (template_tools (wf_nodes w) []),
      tf_write_capable = (\<exists>n\<in>set (wf_nodes w). case node_tool n of None \<Rightarrow> False | Some t \<Rightarrow> write_capable t),
      tf_expected_cost = max_cost_usd (wf_budget w), tf_expected_ms = max_duration_ms (wf_budget w),
      tf_inputs = map (\<lambda>d. \<lparr>ti_name = in_name d, ti_required = in_required d,
        ti_description = in_description d, ti_default = in_default d\<rparr>) (wf_inputs w)\<rparr>"

section \<open>Released versions\<close>

definition worker_digest :: "registry_codec \<Rightarrow> worker \<Rightarrow> string \<Rightarrow> bool" where
  "worker_digest cd w h \<longleftrightarrow> (\<exists>j. cd_worker cd w = Inr j \<and> h = canonical_hash (cd_sum256 cd) j)"

definition workflow_digest :: "registry_codec \<Rightarrow> workflow \<Rightarrow> string \<Rightarrow> bool" where
  "workflow_digest cd w h \<longleftrightarrow> (\<exists>j. cd_workflow cd w = Inr j \<and> h = canonical_hash (cd_sum256 cd) j)"

abbreviation worker_at :: "registry \<Rightarrow> string \<Rightarrow> (worker \<times> string) option" where
  "worker_at r \<equiv> map_of (rg_workers r)"

abbreviation workflow_at :: "registry \<Rightarrow> string \<Rightarrow> (workflow \<times> string) option" where
  "workflow_at r \<equiv> map_of (rg_workflows r)"

lemma register_worker_Inr:
  assumes "register_worker cd w r = Inr r'"
  obtains j h where "wk_id w \<noteq> []" "valid_version (wk_version w)" "cd_worker cd w = Inr j"
    "h = canonical_hash (cd_sum256 cd) j" "r' = r\<lparr>rg_workers := AList.update (worker_ref w) (w, h) (rg_workers r)\<rparr>"
    "\<And>x. worker_at r (worker_ref w) = Some x \<Longrightarrow> snd x = h"
  using assms by (auto simp: register_worker_def Let_def split: if_splits sum.splits option.splits)

lemma register_workflow_Inr:
  assumes "register_workflow cd w r = Inr r'"
  obtains j h where "wf_id w \<noteq> []" "valid_version (wf_version w)" "cd_workflow cd w = Inr j"
    "h = canonical_hash (cd_sum256 cd) j" "r' = r\<lparr>rg_workflows := AList.update (workflow_ref w) (w, h) (rg_workflows r)\<rparr>"
    "\<And>x. workflow_at r (workflow_ref w) = Some x \<Longrightarrow> snd x = h"
  using assms by (auto simp: register_workflow_def Let_def split: if_splits sum.splits option.splits)

interpretation workers: versioned "register_worker cd" worker_at worker_ref "worker_digest cd"
  for cd :: registry_codec
proof
  fix w r r' assume "register_worker cd w r = Inr r'"
  then show "\<exists>h. worker_digest cd w h \<and> worker_at r' (worker_ref w) = Some (w, h) \<and>
      (\<forall>x. worker_at r (worker_ref w) = Some x \<longrightarrow> snd x = h)"
    by (rule register_worker_Inr) (auto simp: worker_digest_def update_conv')
next
  fix w r r' k assume "register_worker cd w r = Inr r'" "k \<noteq> worker_ref w"
  then show "worker_at r' k = worker_at r k"
    by (elim register_worker_Inr) (simp add: update_conv')
qed

interpretation workflows: versioned "register_workflow cd" workflow_at workflow_ref "workflow_digest cd"
  for cd :: registry_codec
proof
  fix w r r' assume "register_workflow cd w r = Inr r'"
  then show "\<exists>h. workflow_digest cd w h \<and> workflow_at r' (workflow_ref w) = Some (w, h) \<and>
      (\<forall>x. workflow_at r (workflow_ref w) = Some x \<longrightarrow> snd x = h)"
    by (rule register_workflow_Inr) (auto simp: workflow_digest_def update_conv')
next
  fix w r r' k assume "register_workflow cd w r = Inr r'" "k \<noteq> workflow_ref w"
  then show "workflow_at r' k = workflow_at r k"
    by (elim register_workflow_Inr) (simp add: update_conv')
qed

datatype reg_op = PutWorker worker | PutWorkflow workflow

definition reg_apply :: "registry_codec \<Rightarrow> reg_op \<Rightarrow> registry \<Rightarrow> registry" where
  "reg_apply cd op r =
     (case (case op of PutWorker w \<Rightarrow> register_worker cd w r | PutWorkflow w \<Rightarrow> register_workflow cd w r) of
        Inl e \<Rightarrow> r
      | Inr r' \<Rightarrow> r')"

text \<open>Every entry stands at its own coordinate, with a valid version and its digest.\<close>

definition registry_ok :: "registry_codec \<Rightarrow> registry \<Rightarrow> bool" where
  "registry_ok cd r \<longleftrightarrow>
     distinct (map fst (rg_workers r)) \<and> distinct (map fst (rg_workflows r)) \<and>
     (\<forall>ref w h. worker_at r ref = Some (w, h) \<longrightarrow>
        ref = worker_ref w \<and> wk_id w \<noteq> [] \<and> valid_version (wk_version w) \<and> worker_digest cd w h) \<and>
     (\<forall>ref w h. workflow_at r ref = Some (w, h) \<longrightarrow>
        ref = workflow_ref w \<and> wf_id w \<noteq> [] \<and> valid_version (wf_version w) \<and> workflow_digest cd w h)"

lemma registry_ok_workerD:
  assumes "registry_ok cd r" and "worker_at r ref = Some (w, h)"
  obtains j where "cd_worker cd w = Inr j" "h = canonical_hash (cd_sum256 cd) j" "worker_ref w = ref"
    "wk_id w \<noteq> []" "valid_version (wk_version w)"
proof -
  have "ref = worker_ref w \<and> wk_id w \<noteq> [] \<and> valid_version (wk_version w) \<and> worker_digest cd w h"
    using assms unfolding registry_ok_def by blast
  with that show thesis unfolding worker_digest_def by blast
qed

lemma registry_ok_workflowD:
  assumes "registry_ok cd r" and "workflow_at r ref = Some (w, h)"
  obtains j where "cd_workflow cd w = Inr j" "h = canonical_hash (cd_sum256 cd) j" "workflow_ref w = ref"
    "wf_id w \<noteq> []" "valid_version (wf_version w)"
proof -
  have "ref = workflow_ref w \<and> wf_id w \<noteq> [] \<and> valid_version (wf_version w) \<and> workflow_digest cd w h"
    using assms unfolding registry_ok_def by blast
  with that show thesis unfolding workflow_digest_def by blast
qed

lemma registry_ok_new: "registry_ok cd new_registry"
  by (simp add: registry_ok_def new_registry_def)

lemma registry_ok_worker:
  assumes "registry_ok cd r" and "register_worker cd w r = Inr r'"
  shows "registry_ok cd r'" and "rg_workflows r' = rg_workflows r"
  using assms
  by (auto elim!: register_worker_Inr simp: registry_ok_def update_conv' distinct_update worker_digest_def split: if_splits)

lemma registry_ok_workflow:
  assumes "registry_ok cd r" and "register_workflow cd w r = Inr r'"
  shows "registry_ok cd r'" and "rg_workers r' = rg_workers r"
  using assms
  by (auto elim!: register_workflow_Inr simp: registry_ok_def update_conv' distinct_update workflow_digest_def split: if_splits)

lemma reg_apply_ok: "registry_ok cd r \<Longrightarrow> registry_ok cd (reg_apply cd op r)"
  by (auto simp: reg_apply_def split: sum.splits reg_op.splits intro: registry_ok_worker(1) registry_ok_workflow(1))

lemma reg_apply_keeps:
  assumes "registry_ok cd r"
  shows "workers.released r k h \<Longrightarrow> workers.released (reg_apply cd op r) k h"
    and "workflows.released r k h \<Longrightarrow> workflows.released (reg_apply cd op r) k h"
  using assms
  by (auto simp: reg_apply_def workers.released_def workflows.released_def registry_ok_worker(2) registry_ok_workflow(2)
      split: sum.split reg_op.split
      dest: workers.publish_keeps [unfolded workers.released_def] workflows.publish_keeps [unfolded workflows.released_def])

lemma reg_run_keeps:
  assumes "registry_ok cd r"
  shows "registry_ok cd (fold (reg_apply cd) ops r)"
    and "workers.released r k h \<Longrightarrow> workers.released (fold (reg_apply cd) ops r) k h"
    and "workflows.released r k h \<Longrightarrow> workflows.released (fold (reg_apply cd) ops r) k h"
proof -
  have "registry_ok cd (fold (reg_apply cd) ops r) \<and>
      (workers.released r k h \<longrightarrow> workers.released (fold (reg_apply cd) ops r) k h) \<and>
      (workflows.released r k h \<longrightarrow> workflows.released (fold (reg_apply cd) ops r) k h)"
    using assms
  proof (induction ops arbitrary: r)
    case (Cons op ops)
    note ok = reg_apply_ok [OF Cons.prems, of op]
    from Cons.IH [OF ok] reg_apply_keeps [OF Cons.prems, of _ _ op] show ?case by simp
  qed simp
  then show "registry_ok cd (fold (reg_apply cd) ops r)"
    and "workers.released r k h \<Longrightarrow> workers.released (fold (reg_apply cd) ops r) k h"
    and "workflows.released r k h \<Longrightarrow> workflows.released (fold (reg_apply cd) ops r) k h" by blast+
qed

lemma canonical_hash_same:
  "canonical_hash H j = canonical_hash H j' \<longleftrightarrow> H (canonical_marshal j) = H (canonical_marshal j')"
  by (simp add: canonical_hash_def hash_bytes_def)

text \<open>C10. A released version means one thing forever: in a registry built by any sequence of
  registrations, whatever is registered afterwards, in whatever order and also when some of it is
  refused, the coordinate of a worker or workflow keeps its content hash, and the definition found
  there has the same canonical form, as long as no other text has the same SHA-256.\<close>

theorem released_version_immutable:
  assumes "registry_ok cd r" and "r' = fold (reg_apply cd) ops r"
    and "\<And>b j. cd_worker cd w = Inr j \<or> cd_workflow cd f = Inr j \<Longrightarrow>
      cd_sum256 cd b = cd_sum256 cd (canonical_marshal j) \<Longrightarrow> b = canonical_marshal j"
  shows "(worker_at r ref = Some (w, h) \<longrightarrow>
      (\<exists>w' j j'. worker_at r' ref = Some (w', h) \<and> worker_ref w' = ref \<and>
         cd_worker cd w = Inr j \<and> cd_worker cd w' = Inr j' \<and> canonical_marshal j' = canonical_marshal j)) \<and>
    (workflow_at r ref = Some (f, h) \<longrightarrow>
      (\<exists>f' j j'. workflow_at r' ref = Some (f', h) \<and> workflow_ref f' = ref \<and>
         cd_workflow cd f = Inr j \<and> cd_workflow cd f' = Inr j' \<and> canonical_marshal j' = canonical_marshal j))"
proof (intro conjI impI)
  note ok = reg_run_keeps(1) [OF assms(1), of ops, folded assms(2)]
  {
    assume at: "worker_at r ref = Some (w, h)"
    then have "workers.released r ref h" by (auto simp: workers.released_def)
    then obtain w' where at': "worker_at r' ref = Some (w', h)"
      using reg_run_keeps(2) [OF assms(1)] unfolding assms(2) workers.released_def by blast
    from assms(1) at obtain j where j: "cd_worker cd w = Inr j" "h = canonical_hash (cd_sum256 cd) j"
      by (rule registry_ok_workerD)
    from ok at' obtain j' where j': "cd_worker cd w' = Inr j'" "h = canonical_hash (cd_sum256 cd) j'" "worker_ref w' = ref"
      by (rule registry_ok_workerD)
    have "cd_sum256 cd (canonical_marshal j') = cd_sum256 cd (canonical_marshal j)"
      using j(2) j'(2) canonical_hash_same [of "cd_sum256 cd" j' j] by simp
    then have "canonical_marshal j' = canonical_marshal j" by (rule assms(3) [OF disjI1 [OF j(1)]])
    with at' j j' show "\<exists>w' j j'. worker_at r' ref = Some (w', h) \<and> worker_ref w' = ref \<and>
         cd_worker cd w = Inr j \<and> cd_worker cd w' = Inr j' \<and> canonical_marshal j' = canonical_marshal j" by blast
  next
    assume at: "workflow_at r ref = Some (f, h)"
    then have "workflows.released r ref h" by (auto simp: workflows.released_def)
    then obtain f' where at': "workflow_at r' ref = Some (f', h)"
      using reg_run_keeps(3) [OF assms(1)] unfolding assms(2) workflows.released_def by blast
    from assms(1) at obtain j where j: "cd_workflow cd f = Inr j" "h = canonical_hash (cd_sum256 cd) j"
      by (rule registry_ok_workflowD)
    from ok at' obtain j' where j': "cd_workflow cd f' = Inr j'" "h = canonical_hash (cd_sum256 cd) j'" "workflow_ref f' = ref"
      by (rule registry_ok_workflowD)
    have "cd_sum256 cd (canonical_marshal j') = cd_sum256 cd (canonical_marshal j)"
      using j(2) j'(2) canonical_hash_same [of "cd_sum256 cd" j' j] by simp
    then have "canonical_marshal j' = canonical_marshal j" by (rule assms(3) [OF disjI2 [OF j(1)]])
    with at' j j' show "\<exists>f' j j'. workflow_at r' ref = Some (f', h) \<and> workflow_ref f' = ref \<and>
         cd_workflow cd f = Inr j \<and> cd_workflow cd f' = Inr j' \<and> canonical_marshal j' = canonical_marshal j" by blast
  }
qed

section \<open>A bundle travels\<close>

text \<open>What the code relies on of \<open>encoding/json\<close>: the canonical form of a definition decodes to one
  with the same coordinate and the same canonical form.\<close>

definition codec_ok :: "registry_codec \<Rightarrow> bool" where
  "codec_ok cd \<longleftrightarrow>
     (\<forall>w j. cd_worker cd w = Inr j \<longrightarrow> (\<exists>w' j'. cd_read_worker cd (canonical_marshal j) = Inr w' \<and>
        cd_worker cd w' = Inr j' \<and> canonical_marshal j' = canonical_marshal j \<and>
        wk_id w' = wk_id w \<and> wk_version w' = wk_version w)) \<and>
     (\<forall>w j. cd_workflow cd w = Inr j \<longrightarrow> (\<exists>w' j'. cd_read_workflow cd (canonical_marshal j) = Inr w' \<and>
        cd_workflow cd w' = Inr j' \<and> canonical_marshal j' = canonical_marshal j \<and>
        wf_id w' = wf_id w \<and> wf_version w' = wf_version w))"

definition used_workers :: "node list \<Rightarrow> string set" where
  "used_workers ns = node_worker ` set ns - {[]}"

lemma used_workers_Cons:
  "used_workers (n # ns) = (if node_worker n = [] then used_workers ns else insert (node_worker n) (used_workers ns))"
  by (auto simp: used_workers_def)

text \<open>The entry of one worker.\<close>

definition worker_entry :: "registry_codec \<Rightarrow> registry \<Rightarrow> string \<Rightarrow> string \<times> bytes" where
  "worker_entry cd r ref =
     (worker_entry_name ref, canonical_marshal (projr (cd_worker cd (fst (the (worker_at r ref))))))"

lemma export_workers_entries:
  "export_workers cd r ref ns seen a = Inr a' \<Longrightarrow>
     \<exists>refs. a' = a @ map (worker_entry cd r) refs \<and> distinct refs \<and> set refs = used_workers ns - set seen \<and>
       (\<forall>k\<in>set refs. \<exists>d h j. worker_at r k = Some (d, h) \<and> cd_worker cd d = Inr j)"
proof (induction ns arbitrary: seen a)
  case (Cons n ns)
  let ?k = "node_worker n"
  show ?case
  proof (cases "?k = [] \<or> ?k \<in> set seen")
    case True
    then have "used_workers (n # ns) - set seen = used_workers ns - set seen" by (auto simp: used_workers_Cons)
    moreover have "export_workers cd r ref ns seen a = Inr a'" using Cons.prems True by simp
    ultimately show ?thesis using Cons.IH by simp
  next
    case False
    with Cons.prems obtain d h j where at: "worker_at r ?k = Some (d, h)" "cd_worker cd d = Inr j"
      and rest: "export_workers cd r ref ns (?k # seen) (a @ [(worker_entry_name ?k, canonical_marshal j)]) = Inr a'"
      by (auto simp: canonical_entry_def split: option.splits sum.splits)
    from Cons.IH [OF rest] obtain refs where refs: "a' = (a @ [(worker_entry_name ?k, canonical_marshal j)]) @
        map (worker_entry cd r) refs" "distinct refs" "set refs = used_workers ns - set (?k # seen)"
      "\<forall>k\<in>set refs. \<exists>d h j. worker_at r k = Some (d, h) \<and> cd_worker cd d = Inr j"
      by blast
    show ?thesis
    proof (intro exI [of _ "?k # refs"] conjI)
      show "a' = a @ map (worker_entry cd r) (?k # refs)" using refs(1) at by (simp add: worker_entry_def)
      have "?k \<notin> set refs" unfolding refs(3) by simp
      with refs(2) show "distinct (?k # refs)" by simp
      show "set (?k # refs) = used_workers (n # ns) - set seen" using False refs(3) by (auto simp: used_workers_Cons)
      show "\<forall>k\<in>set (?k # refs). \<exists>d h j. worker_at r k = Some (d, h) \<and> cd_worker cd d = Inr j"
        using refs(4) at by auto
    qed
  qed
qed (auto simp: used_workers_def)

lemma import_worker_entry:
  assumes "codec_ok cd" and "registry_ok cd r" and "worker_at r k = Some (d, h)" and "worker_at s k = None"
  obtains d' where
    "import_entries cd (worker_entry cd r k # rest) s =
       import_entries cd rest (s\<lparr>rg_workers := AList.update k (d', h) (rg_workers s)\<rparr>)"
proof -
  from assms(2,3) obtain j where j: "cd_worker cd d = Inr j" "h = canonical_hash (cd_sum256 cd) j" "worker_ref d = k"
    "wk_id d \<noteq> []" "valid_version (wk_version d)"
    by (rule registry_ok_workerD)
  from assms(1) j(1) obtain d' j' where d': "cd_read_worker cd (canonical_marshal j) = Inr d'" "cd_worker cd d' = Inr j'"
    "canonical_marshal j' = canonical_marshal j" "wk_id d' = wk_id d" "wk_version d' = wk_version d"
    unfolding codec_ok_def by blast
  have ref: "worker_ref d' = k" using d'(4,5) j(3) by (simp add: worker_ref_def)
  have "canonical_hash (cd_sum256 cd) j' = h" using d'(3) j(2) by (simp add: canonical_hash_def)
  then have reg: "register_worker cd d' s = Inr (s\<lparr>rg_workers := AList.update k (d', h) (rg_workers s)\<rparr>)"
    using d'(2,4,5) j(4,5) ref assms(4) by (simp add: register_worker_def Let_def)
  have "worker_entry_name k \<noteq> ''workflow.json''" "has_prefix (worker_entry_name k) ''workers/''"
    by (simp_all add: worker_entry_name_def has_prefix_def)
  moreover have "worker_entry cd r k = (worker_entry_name k, canonical_marshal j)"
    using assms(3) j(1) by (simp add: worker_entry_def)
  ultimately show thesis using that [of d'] d'(1) reg by simp
qed

lemma import_workers:
  assumes "codec_ok cd" and "registry_ok cd r"
  shows "distinct refs \<Longrightarrow> (\<And>k. k \<in> set refs \<Longrightarrow> worker_at r k \<noteq> None \<and> worker_at s k = None) \<Longrightarrow>
    \<exists>s'. import_entries cd (map (worker_entry cd r) refs) s = Inr s' \<and> rg_workflows s' = rg_workflows s \<and>
      (\<forall>k. map_option snd (worker_at s' k) =
         (if k \<in> set refs then map_option snd (worker_at r k) else map_option snd (worker_at s k)))"
proof (induction refs arbitrary: s)
  case (Cons k refs)
  from Cons.prems(2) [of k] obtain d h where at: "worker_at r k = Some (d, h)" "worker_at s k = None" by auto
  obtain d' where step: "import_entries cd (worker_entry cd r k # map (worker_entry cd r) refs) s =
      import_entries cd (map (worker_entry cd r) refs) (s\<lparr>rg_workers := AList.update k (d', h) (rg_workers s)\<rparr>)"
    using assms at by (rule import_worker_entry)
  have "worker_at r k' \<noteq> None \<and> worker_at (s\<lparr>rg_workers := AList.update k (d', h) (rg_workers s)\<rparr>) k' = None"
    if "k' \<in> set refs" for k'
    using Cons.prems that by (auto simp: update_conv')
  with Cons.IH [of "s\<lparr>rg_workers := AList.update k (d', h) (rg_workers s)\<rparr>"] Cons.prems(1)
  obtain s' where s': "import_entries cd (map (worker_entry cd r) refs) (s\<lparr>rg_workers := AList.update k (d', h) (rg_workers s)\<rparr>) = Inr s'"
    "rg_workflows s' = rg_workflows s"
    "\<And>k'. map_option snd (worker_at s' k') = (if k' \<in> set refs then map_option snd (worker_at r k')
       else map_option snd (worker_at (s\<lparr>rg_workers := AList.update k (d', h) (rg_workers s)\<rparr>) k'))"
    by auto
  have "map_option snd (worker_at s' k') = (if k' \<in> set (k # refs) then map_option snd (worker_at r k')
       else map_option snd (worker_at s k'))" for k'
    using s'(3) [of k'] Cons.prems(1) at by (auto simp: update_conv')
  with s'(1,2) step show ?case by auto
qed simp

text \<open>C11. Exporting a workflow and importing the bundle elsewhere preserves every content hash: the
  import succeeds, and the new registry has exactly the exported workflow and the workers it
  references, each at its coordinate with the hash it had.\<close>

theorem bundle_preserves_hashes:
  assumes "codec_ok cd" and "registry_ok cd r" and "export_workflow cd r name version = Inr a"
  shows "\<exists>r' w h. import_bundle cd a = Inr r' \<and> workflow_at r (name @ ''@'' @ version) = Some (w, h) \<and>
    map_option fst (sole_workflow r') = Some (name @ ''@'' @ version) \<and>
    map_option snd (workflow_at r' (name @ ''@'' @ version)) = Some h \<and>
    (\<forall>ref. map_option snd (worker_at r' ref) =
       (if ref \<in> used_workers (wf_nodes w) then map_option snd (worker_at r ref) else None))"
proof -
  let ?ref = "name @ ''@'' @ version"
  from assms(3) obtain w h j where at: "workflow_at r ?ref = Some (w, h)" "cd_workflow cd w = Inr j"
    and rest: "export_workers cd r ?ref (wf_nodes w) [] [(''workflow.json'', canonical_marshal j)] = Inr a"
    by (auto simp: export_workflow_def canonical_entry_def Let_def split: option.splits sum.splits)
  from export_workers_entries [OF rest] obtain refs where
    a: "a = [(''workflow.json'', canonical_marshal j)] @ map (worker_entry cd r) refs"
    and refs: "distinct refs" "set refs = used_workers (wf_nodes w)"
    "\<forall>k\<in>set refs. \<exists>d h j. worker_at r k = Some (d, h) \<and> cd_worker cd d = Inr j"
    by auto
  from assms(2) at(1) obtain j0 where j0: "cd_workflow cd w = Inr j0" "h = canonical_hash (cd_sum256 cd) j0"
    "workflow_ref w = ?ref" "wf_id w \<noteq> []" "valid_version (wf_version w)"
    by (rule registry_ok_workflowD)
  then have h: "h = canonical_hash (cd_sum256 cd) j" using at(2) by simp
  from assms(1) at(2) obtain w' j' where w': "cd_read_workflow cd (canonical_marshal j) = Inr w'"
    "cd_workflow cd w' = Inr j'" "canonical_marshal j' = canonical_marshal j" "wf_id w' = wf_id w" "wf_version w' = wf_version w"
    unfolding codec_ok_def by blast
  let ?s = "new_registry\<lparr>rg_workflows := [(?ref, w', h)]\<rparr>"
  have "workflow_ref w' = ?ref" using w'(4,5) j0(3) by (simp add: workflow_ref_def)
  then have reg: "register_workflow cd w' new_registry = Inr ?s"
    using w' j0(4,5) h by (simp add: register_workflow_def new_registry_def canonical_hash_def Let_def)
  have start: "import_bundle cd a = import_entries cd (map (worker_entry cd r) refs) ?s"
    using w'(1) reg by (simp add: import_bundle_def a)
  have free: "worker_at r k \<noteq> None \<and> worker_at ?s k = None" if "k \<in> set refs" for k
    using refs(3) that by (auto simp: new_registry_def)
  from import_workers [OF assms(1,2) refs(1) free]
  obtain s' where s': "import_entries cd (map (worker_entry cd r) refs) ?s = Inr s'" "rg_workflows s' = rg_workflows ?s"
    "\<And>k. map_option snd (worker_at s' k) =
       (if k \<in> set refs then map_option snd (worker_at r k) else map_option snd (worker_at ?s k))"
    by blast
  have "map_option fst (sole_workflow s') = Some ?ref" "map_option snd (workflow_at s' ?ref) = Some h"
    using s'(2) by (simp_all add: sole_workflow_def)
  moreover have "map_option snd (worker_at s' k) =
       (if k \<in> used_workers (wf_nodes w) then map_option snd (worker_at r k) else None)" for k
    using s'(3) refs(2) by (simp add: new_registry_def)
  ultimately show ?thesis using start s'(1) at(1) by auto
qed

section \<open>Pins and shared coordinates\<close>

lemma definition_hashes_exact:
  "definition_hashes r ns ref = (if ref \<in> used_workers ns then map_option snd (worker_at r ref) else None)"
  by (induction ns) (auto simp: used_workers_Cons used_workers_def split: option.split)

lemma pinned_workers_exact:
  "pinned_workers r ns ref = (if ref \<in> used_workers ns then map_option fst (worker_at r ref) else None)"
  by (induction ns) (auto simp: used_workers_Cons used_workers_def split: option.split)

text \<open>A worker registered at the coordinate of a workflow takes over what \<open>ContentHash\<close> answers.\<close>

lemma content_hash_taken_over:
  assumes "workflow_at r ref = Some (f, h)" and "worker_at r ref = None"
    and "register_worker cd w r = Inr r'" and "worker_ref w = ref"
  shows "content_hash r ref = Some h \<and>
    (\<exists>j. cd_worker cd w = Inr j \<and> content_hash r' ref = Some (canonical_hash (cd_sum256 cd) j))"
  using assms(3)
proof (rule register_worker_Inr)
  fix j h' assume j: "cd_worker cd w = Inr j" "h' = canonical_hash (cd_sum256 cd) j"
    "r' = r\<lparr>rg_workers := AList.update (worker_ref w) (w, h') (rg_workers r)\<rparr>"
  then have "worker_at r' ref = Some (w, h')" using assms(4) by (simp add: update_conv')
  with j assms(1,2) show ?thesis by (simp add: content_hash_def)
qed

section \<open>Templates\<close>

text \<open>What a tool can describe a call as, on an input whose operation is the one the workflow has
  written in the call.\<close>

definition described :: "tool_call \<Rightarrow> mutation \<Rightarrow> bool" where
  "described t m \<longleftrightarrow>
     (tc_name t = ''git'' \<and> (\<exists>dec b q. dec b = Inr q \<and>
        payload_string (tc_input t) ''op'' = Some (gr_op q) \<and> git_describe dec b = Inr m)) \<or>
     (tc_name t = ''filesystem'' \<and> (\<exists>dec b q. dec b = Inr q \<and>
        payload_string (tc_input t) ''op'' = Some (fr_op q) \<and> fs_describe dec b = Inr m)) \<or>
     (tc_name t = ''http'' \<and> (\<exists>dec compile parse b q. dec b = Inr q \<and>
        payload_string (tc_input t) ''method'' = Some (hq_method q) \<and> http_describe dec compile parse b = Inr m)) \<or>
     (tc_name t = ''terminal'' \<and> (\<exists>dec b. term_describe dec b = Inr m))"

lemma write_capable_described:
  assumes "\<not> write_capable t" and "described t m"
  shows "\<not> mut_mutating m"
  using assms(2) unfolding described_def
proof (elim disjE conjE exE)
  fix dec b q assume "tc_name t = ''git''" "dec b = Inr q" "payload_string (tc_input t) ''op'' = Some (gr_op q)"
    "git_describe dec b = Inr m"
  with assms(1) show ?thesis by (auto simp: write_capable_def git_describe_def plain_mutation_def)
next
  fix dec b q assume "tc_name t = ''filesystem''" "dec b = Inr q" "payload_string (tc_input t) ''op'' = Some (fr_op q)"
    "fs_describe dec b = Inr m"
  with assms(1) show ?thesis by (auto simp: write_capable_def fs_describe_def plain_mutation_def)
next
  fix dec compile parse b q assume "tc_name t = ''http''" "dec b = Inr q"
    "payload_string (tc_input t) ''method'' = Some (hq_method q)" "http_describe dec compile parse b = Inr m"
  with assms(1) show ?thesis
    by (auto simp: write_capable_def http_describe_def plain_mutation_def split: sum.splits)
next
  fix dec b assume "tc_name t = ''terminal''" "term_describe dec b = Inr m"
  with assms(1) show ?thesis by (simp add: write_capable_def)
qed

lemma template_tools_set:
  "set (template_tools ns seen) = set seen \<union> {tc_name t | n t. n \<in> set ns \<and> node_tool n = Some t}"
  by (induction ns arbitrary: seen) (auto split: option.splits)

text \<open>A template that is not shown as able to write does not write: each of its tool calls is
  listed, is one of git, the file system and HTTP, and whatever its input is decoded to at run
  time, as long as it has the operation written in the template, the tool itself describes it as
  no mutation.\<close>

theorem template_read_only:
  assumes "\<not> tf_write_capable (derive_template_facts w)" and "n \<in> set (wf_nodes w)" and "node_tool n = Some t"
  shows "tc_name t \<in> set (tf_tools (derive_template_facts w)) \<inter> {''git'', ''filesystem'', ''http''} \<and>
    (\<forall>m. described t m \<longrightarrow> \<not> mut_mutating m)"
proof -
  have ro: "\<not> write_capable t"
    using assms by (auto simp: derive_template_facts_def split: option.splits)
  then have "tc_name t \<in> {''git'', ''filesystem'', ''http''}"
    unfolding write_capable_def by (auto split: if_splits)
  moreover have "tc_name t \<in> set (tf_tools (derive_template_facts w))"
    using assms(2,3) by (auto simp: derive_template_facts_def template_tools_set)
  ultimately show ?thesis using write_capable_described [OF ro] by blast
qed

section \<open>A registry to run the theorems on\<close>

definition reg_budget :: budget where
  "reg_budget = \<lparr>max_cost_usd = 0, max_tokens = 0, max_duration_ms = 0, max_retries_per_node = 0\<rparr>"

definition reg_node :: "string \<Rightarrow> string \<Rightarrow> tool_call option \<Rightarrow> node" where
  "reg_node i w t = \<lparr>node_id = i, node_worker = w, node_tool = t, node_policy = None, node_on_failure = None\<rparr>"

definition reg_workflow :: "string \<Rightarrow> node list \<Rightarrow> workflow" where
  "reg_workflow v ns = \<lparr>wf_id = ''f'', wf_version = v, wf_nodes = ns, wf_edges = [], wf_defaults = None,
     wf_inputs = [], wf_budget = reg_budget\<rparr>"

definition reg_worker :: "string \<Rightarrow> worker" where
  "reg_worker goal = \<lparr>wk_id = ''w'', wk_version = ''1.0.0'', wk_description = [], wk_objective = goal,
     wk_constraints = [], wk_tools = [], wk_context_policy = \<lparr>cp_mode = ContextFull, cp_params = None\<rparr>,
     wk_contract = \<lparr>con_goal = [], con_rules = [], con_output_schema = [], con_success_criteria = [], con_max_retries = 0\<rparr>,
     wk_model = \<lparr>mc_provider = [], mc_model = [], mc_params = []\<rparr>\<rparr>"

definition reg_flow :: workflow where
  "reg_flow = reg_workflow ''2.0.0-rc.1'' [reg_node ''a'' ''w@1.0.0'' None, reg_node ''b'' ''w@1.0.0'' None]"

text \<open>A codec that knows two workers and one workflow.\<close>

definition reg_codec :: registry_codec where
  "reg_codec =
     \<lparr>cd_worker = (\<lambda>w. if w = reg_worker ''x'' then Inr (JStr ''x'') else if w = reg_worker ''y'' then Inr (JStr ''y'')
        else Inl (EMsg ''unsupported'')),
      cd_workflow = (\<lambda>w. if w = reg_flow then Inr (JStr ''f'') else Inl (EMsg ''unsupported'')),
      cd_read_worker = (\<lambda>b. if b = canonical_marshal (JStr ''x'') then Inr (reg_worker ''x'')
        else if b = canonical_marshal (JStr ''y'') then Inr (reg_worker ''y'') else Inl (EMsg ''invalid'')),
      cd_read_workflow = (\<lambda>b. if b = canonical_marshal (JStr ''f'') then Inr reg_flow else Inl (EMsg ''invalid'')),
      cd_sum256 = (\<lambda>b. b)\<rparr>"

lemma reg_marshal: "canonical_marshal (JStr ''x'') \<noteq> canonical_marshal (JStr ''y'')"
  by code_simp

lemma reg_codec_ok: "codec_ok reg_codec"
  using reg_marshal by (auto simp: codec_ok_def reg_codec_def split: if_splits)

definition reg_hash :: "string \<Rightarrow> string" where
  "reg_hash s = canonical_hash (\<lambda>b. b) (JStr s)"

definition reg_sample :: registry where
  "reg_sample = \<lparr>rg_workflows = [(''f@2.0.0-rc.1'', reg_flow, reg_hash ''f'')],
     rg_workers = [(''w@1.0.0'', reg_worker ''x'', reg_hash ''x'')]\<rparr>"

lemma reg_versions: "valid_version ''1.0.0''" "valid_version ''2.0.0-rc.1''"
  by code_simp+

lemma reg_names: "worker_ref (reg_worker g) = ''w@1.0.0''" "workflow_ref reg_flow = ''f@2.0.0-rc.1''"
  by (simp_all add: worker_ref_def reg_worker_def workflow_ref_def reg_flow_def reg_workflow_def)

lemma reg_fields: "wk_id (reg_worker g) = ''w''" "wk_version (reg_worker g) = ''1.0.0''"
  "wf_id reg_flow = ''f''" "wf_version reg_flow = ''2.0.0-rc.1''"
  by (simp_all add: reg_worker_def reg_flow_def reg_workflow_def)

lemma reg_sample_ok: "registry_ok reg_codec reg_sample"
  using reg_versions
  by (auto simp: registry_ok_def reg_sample_def reg_names reg_fields worker_digest_def workflow_digest_def
      reg_codec_def reg_hash_def split: if_splits)

lemma reg_sample_refuses:
  "register_worker reg_codec (reg_worker ''y'') reg_sample =
     Inl (ConflictError KindWorker ''w@1.0.0'' (reg_hash ''x'') (reg_hash ''y''))"
proof -
  have w: "wk_id (reg_worker ''y'') \<noteq> []" "valid_version (wk_version (reg_worker ''y''))" "reg_worker ''y'' \<noteq> reg_worker ''x''"
    using reg_versions by (simp_all add: reg_worker_def)
  have "reg_hash ''x'' \<noteq> reg_hash ''y''"
    using reg_marshal by (simp add: reg_hash_def canonical_hash_same)
  with w show ?thesis
    by (simp add: register_worker_def reg_names reg_sample_def Let_def)
      (simp add: reg_codec_def reg_hash_def)
qed

theorem released_version_immutable_witness:
  "reg_apply reg_codec (PutWorker (reg_worker ''y'')) reg_sample = reg_sample \<and>
   (\<exists>w'. worker_at (fold (reg_apply reg_codec) [PutWorker (reg_worker ''y'')] reg_sample) ''w@1.0.0'' =
      Some (w', reg_hash ''x''))"
proof -
  have "worker_at reg_sample ''w@1.0.0'' = Some (reg_worker ''x'', reg_hash ''x'')"
    by (simp add: reg_sample_def)
  moreover have "b = canonical_marshal j" if "cd_sum256 reg_codec b = cd_sum256 reg_codec (canonical_marshal j)" for b j
    using that by (simp add: reg_codec_def)
  ultimately have "\<exists>w'. worker_at (fold (reg_apply reg_codec) [PutWorker (reg_worker ''y'')] reg_sample) ''w@1.0.0'' =
      Some (w', reg_hash ''x'')"
    using released_version_immutable [OF reg_sample_ok refl, where w = "reg_worker ''x''" and f = reg_flow] by blast
  moreover have "reg_apply reg_codec (PutWorker (reg_worker ''y'')) reg_sample = reg_sample"
    by (simp add: reg_apply_def reg_sample_refuses)
  ultimately show ?thesis by blast
qed

theorem bundle_preserves_hashes_witness:
  "\<exists>a r'. export_workflow reg_codec reg_sample ''f'' ''2.0.0-rc.1'' = Inr a \<and> length a = 2 \<and>
     import_bundle reg_codec a = Inr r' \<and> map_option snd (worker_at r' ''w@1.0.0'') = Some (reg_hash ''x'')"
proof -
  have nodes: "wf_nodes reg_flow = [reg_node ''a'' ''w@1.0.0'' None, reg_node ''b'' ''w@1.0.0'' None]"
    by (simp add: reg_flow_def reg_workflow_def)
  have enc: "cd_workflow reg_codec reg_flow = Inr (JStr ''f'')" "cd_worker reg_codec (reg_worker ''x'') = Inr (JStr ''x'')"
    by (simp_all add: reg_codec_def)
  have ex: "export_workflow reg_codec reg_sample ''f'' ''2.0.0-rc.1'' =
      Inr [(''workflow.json'', canonical_marshal (JStr ''f'')), (''workers/w@1.0.0.json'', canonical_marshal (JStr ''x''))]"
    by (simp add: export_workflow_def reg_sample_def nodes reg_node_def canonical_entry_def enc worker_entry_name_def)
  have used: "used_workers (wf_nodes reg_flow) = {''w@1.0.0''}" by (simp add: used_workers_def nodes reg_node_def)
  from bundle_preserves_hashes [OF reg_codec_ok reg_sample_ok ex] obtain r' w h where
    "import_bundle reg_codec [(''workflow.json'', canonical_marshal (JStr ''f'')), (''workers/w@1.0.0.json'', canonical_marshal (JStr ''x''))] = Inr r'"
    "workflow_at reg_sample (''f'' @ ''@'' @ ''2.0.0-rc.1'') = Some (w, h)"
    "\<forall>ref. map_option snd (worker_at r' ref) =
       (if ref \<in> used_workers (wf_nodes w) then map_option snd (worker_at reg_sample ref) else None)"
    by blast
  moreover from this(2) have "w = reg_flow" by (simp add: reg_sample_def)
  ultimately have "map_option snd (worker_at r' ''w@1.0.0'') = Some (reg_hash ''x'')"
    using used by (simp add: reg_sample_def)
  with ex \<open>import_bundle reg_codec _ = Inr r'\<close> show ?thesis by (intro exI conjI) auto
qed

theorem template_read_only_witness:
  "\<not> tf_write_capable (derive_template_facts (reg_workflow ''1.0.0''
      [reg_node ''s'' [] (Some \<lparr>tc_name = ''git'', tc_input = [(''op'', JStr ''status'')]\<rparr>)])) \<and>
   \<not> mut_mutating ((plain_mutation False ''git.status'')\<lparr>mut_paths := [''src'']\<rparr>)"
proof -
  let ?t = "\<lparr>tc_name = ''git'', tc_input = [(''op'', JStr ''status'')]\<rparr>"
  let ?w = "reg_workflow ''1.0.0'' [reg_node ''s'' [] (Some ?t)]"
  let ?q = "\<lparr>gr_op = ''status'', gr_paths = [''src''], gr_message = [], gr_name = []\<rparr>"
  have ro: "\<not> tf_write_capable (derive_template_facts ?w)"
    by (simp add: derive_template_facts_def reg_workflow_def reg_node_def write_capable_def payload_string_def)
  have n: "reg_node ''s'' [] (Some ?t) \<in> set (wf_nodes ?w)" "node_tool (reg_node ''s'' [] (Some ?t)) = Some ?t"
    by (simp_all add: reg_workflow_def reg_node_def)
  have "git_describe (\<lambda>_. Inr ?q) [] = Inr ((plain_mutation False ''git.status'')\<lparr>mut_paths := [''src'']\<rparr>)"
    by (simp add: git_describe_def)
  then have "described ?t ((plain_mutation False ''git.status'')\<lparr>mut_paths := [''src'']\<rparr>)"
    unfolding described_def
    by (intro disjI1 conjI exI [of _ "\<lambda>_. Inr ?q"] exI [of _ "[]"] exI [of _ ?q]) (simp_all add: payload_string_def)
  with template_read_only [OF ro n] ro show ?thesis by blast
qed

end
