(* ===== verification/WorkerVersions.thy ===== *)
theory WorkerVersions
  imports VersionRef Domain
begin

text \<open>
  The worker editor of the control plane (\<open>core/server/server.go\<close>): the versions of a worker found
  on disk, in the order \<open>semverLess\<close> gives, and the version an edit is saved as. A directory is the
  list of its entries with their bytes, \<open>None\<close> where a file cannot be read; YAML decoding and
  encoding are parameters.
\<close>

section \<open>Ordering versions\<close>

text \<open>\<open>strings.SplitN(v, ".", 3)\<close> with three parts.\<close>

definition split_three :: "string \<Rightarrow> (string \<times> string \<times> string) option" where
  "split_three v =
     (case cut v ''.'' of
        None \<Rightarrow> None
      | Some (a, r) \<Rightarrow> (case cut r ''.'' of None \<Rightarrow> None | Some (b, c) \<Rightarrow> Some (a, b, c)))"

definition parse_semver :: "string \<Rightarrow> (int \<times> int \<times> int) option" where
  "parse_semver v =
     (case split_three v of
        None \<Rightarrow> None
      | Some (a, b, c) \<Rightarrow>
          (case atoi a of
             None \<Rightarrow> None
           | Some major \<Rightarrow>
               (case atoi b of
                  None \<Rightarrow> None
                | Some minor \<Rightarrow> (case atoi c of None \<Rightarrow> None | Some patch \<Rightarrow> Some (major, minor, patch)))))"

definition semver_less :: "string \<Rightarrow> string \<Rightarrow> bool" where
  "semver_less a b =
     (case (parse_semver a, parse_semver b) of
        (Some (ma, na, pa), Some (mb, nb, pb)) \<Rightarrow>
          if ma \<noteq> mb then ma < mb else if na \<noteq> nb then na < nb else pa < pb
      | _ \<Rightarrow> a < b)"

text \<open>\<open>sort.Slice\<close>: for up to twelve elements it is insertion sort, each element moving left past
  those it is less than; the list here is the sorted prefix with its end first. For more elements
  the order of a consistent comparison is the same up to equal elements.\<close>

fun insert_slice :: "('a \<Rightarrow> 'a \<Rightarrow> bool) \<Rightarrow> 'a \<Rightarrow> 'a list \<Rightarrow> 'a list" where
  "insert_slice lt x [] = [x]"
| "insert_slice lt x (y # ys) = (if lt x y then y # insert_slice lt x ys else x # y # ys)"

definition sort_slice :: "('a \<Rightarrow> 'a \<Rightarrow> bool) \<Rightarrow> 'a list \<Rightarrow> 'a list" where
  "sort_slice lt xs = rev (fold (insert_slice lt) xs [])"

section \<open>Saving an edit\<close>

type_synonym dir_listing = "(string \<times> bool \<times> bytes option) list"

definition worker_file :: "string \<times> bool \<times> bytes option \<Rightarrow> bool" where
  "worker_file e = (case e of (name, is_dir, data) \<Rightarrow>
     \<not> is_dir \<and> (has_suffix name ''.worker.yaml'' \<or> has_suffix name ''.worker.yml''))"

definition read_worker :: "(bytes \<Rightarrow> err + worker) \<Rightarrow> string \<times> bool \<times> bytes option \<Rightarrow> worker list" where
  "read_worker dec e = (case e of (name, is_dir, data) \<Rightarrow>
     (case data of None \<Rightarrow> [] | Some b \<Rightarrow> (case dec b of Inl _ \<Rightarrow> [] | Inr w \<Rightarrow> [w])))"

definition scan_worker_versions ::
  "(bytes \<Rightarrow> err + worker) \<Rightarrow> string \<Rightarrow> err + dir_listing \<Rightarrow> string \<Rightarrow> err + worker list" where
  "scan_worker_versions dec dir listing i =
     (case listing of
        Inl e \<Rightarrow> if is_err ErrNotExist e then Inr [] else Inl (errorf (''read dir '' @ dir @ '': '') e [])
      | Inr es \<Rightarrow>
          Inr (sort_slice (\<lambda>a b. semver_less (wk_version a) (wk_version b))
            (filter (\<lambda>w. wk_id w = i) (concat (map (read_worker dec) (filter worker_file es))))))"

definition next_patch_version :: "worker list \<Rightarrow> string" where
  "next_patch_version existing =
     (if existing = [] then ''1.0.0''
      else case parse_semver (wk_version (last existing)) of
        None \<Rightarrow> ''1.0.0''
      | Some (major, minor, patch) \<Rightarrow> itoa major @ ''.'' @ itoa minor @ ''.'' @ itoa (wrap64 (patch + 1)))"

text \<open>\<open>handleSaveWorker\<close>: the status of an error, or the saved worker with the name and the bytes of
  its file. The request is what decoding its body gave; the directory it names is \<open>dir\<close>, with the
  entries \<open>listing\<close>; \<open>mkdir\<close> and \<open>write\<close> are the outcomes of creating it and of writing the file.\<close>

definition save_worker ::
  "(worker \<Rightarrow> err option) \<Rightarrow> (payload \<Rightarrow> err option) \<Rightarrow> (bytes \<Rightarrow> err + worker) \<Rightarrow> (worker \<Rightarrow> err + bytes) \<Rightarrow>
     err option \<Rightarrow> (string \<Rightarrow> err option) \<Rightarrow> string \<Rightarrow> err + dir_listing \<Rightarrow> err + worker \<Rightarrow>
     (int \<times> string) + worker \<times> string \<times> bytes" where
  "save_worker validate compile dec enc mkdir write dir listing request =
     (case request of
        Inl e \<Rightarrow> Inl (400, ''decode request: '' @ err_msg e)
      | Inr w \<Rightarrow>
     (if wk_id w = [] then Inl (400, ''worker.id is required'')
      else case validate w of
        Some e \<Rightarrow> Inl (400, ''worker failed schema validation: '' @ err_msg e)
      | None \<Rightarrow>
     (case compile (con_output_schema (wk_contract w)) of
        Some e \<Rightarrow> Inl (400, ''worker's output schema does not compile: '' @ err_msg e)
      | None \<Rightarrow>
     (case scan_worker_versions dec dir listing (wk_id w) of
        Inl e \<Rightarrow> Inl (500, err_msg e)
      | Inr existing \<Rightarrow>
          let w = w\<lparr>wk_version := next_patch_version existing\<rparr>;
              name = wk_id w @ ''@'' @ wk_version w @ ''.worker.yaml''
          in (case enc w of
                Inl e \<Rightarrow> Inl (500, ''marshal worker: '' @ err_msg e)
              | Inr b \<Rightarrow>
             (case mkdir of
                Some e \<Rightarrow> Inl (500, ''create directory: '' @ err_msg e)
              | None \<Rightarrow>
             (case write name of
                Some e \<Rightarrow> Inl (500, ''write '' @ name @ '': '' @ err_msg e)
              | None \<Rightarrow> Inr (w, name, b))))))))"

section \<open>The order is sorted\<close>

text \<open>A comparison that compares keys.\<close>

lemma insert_slice_set [simp]: "set (insert_slice lt x ys) = insert x (set ys)"
  by (induction ys) auto

lemma fold_insert_set: "set (fold (insert_slice lt) xs ys) = set xs \<union> set ys"
  by (induction xs arbitrary: ys) auto

lemma sort_slice_set [simp]: "set (sort_slice lt xs) = set xs"
  by (simp add: sort_slice_def fold_insert_set)

lemma insert_slice_sorted:
  fixes key :: "'a \<Rightarrow> 'k::linorder"
  assumes "\<And>x y. x \<in> insert a (set ys) \<Longrightarrow> y \<in> insert a (set ys) \<Longrightarrow> lt x y \<longleftrightarrow> key x < key y"
    and "sorted (rev (map key ys))"
  shows "sorted (rev (map key (insert_slice lt a ys)))"
  using assms
proof (induction ys)
  case (Cons y ys)
  then have IH: "sorted (rev (map key (insert_slice lt a ys)))"
    by (auto simp: sorted_append)
  show ?case
  proof (cases "lt a y")
    case True
    with Cons.prems have "key a < key y" "\<forall>z\<in>set ys. key z \<le> key y" by (auto simp: sorted_append)
    with IH True show ?thesis by (auto simp: sorted_append)
  next
    case False
    with Cons.prems have "key y \<le> key a" "\<forall>z\<in>set ys. key z \<le> key y" by (auto simp: sorted_append)
    with Cons.prems(2) False show ?thesis by (auto simp: sorted_append)
  qed
qed simp

lemma sort_slice_sorted:
  fixes key :: "'a \<Rightarrow> 'k::linorder"
  assumes "\<And>x y. x \<in> set xs \<Longrightarrow> y \<in> set xs \<Longrightarrow> lt x y \<longleftrightarrow> key x < key y"
  shows "sorted (map key (sort_slice lt xs))"
proof -
  have "sorted (rev (map key (fold (insert_slice lt) zs ys)))"
    if "sorted (rev (map key ys))" "set zs \<union> set ys \<subseteq> set xs" for zs ys
    using that
  proof (induction zs arbitrary: ys)
    case (Cons z zs)
    have "sorted (rev (map key (insert_slice lt z ys)))"
      using Cons.prems assms by (intro insert_slice_sorted) auto
    with Cons.IH [of "insert_slice lt z ys"] Cons.prems(2) show ?case by simp
  qed simp
  from this [of "[]" xs] show ?thesis by (simp add: sort_slice_def rev_map)
qed

lemma sorted_last: "sorted xs \<Longrightarrow> x \<in> set xs \<Longrightarrow> x \<le> last xs"
  by (induction xs rule: rev_induct) (auto simp: sorted_append)

section \<open>A saved version is new\<close>

definition version_key :: "string \<Rightarrow> int list" where
  "version_key v = (case parse_semver v of None \<Rightarrow> [] | Some (a, b, c) \<Rightarrow> [a, b, c])"

lemma semver_less_key:
  "parse_semver a \<noteq> None \<Longrightarrow> parse_semver b \<noteq> None \<Longrightarrow> semver_less a b \<longleftrightarrow> version_key a < version_key b"
  by (auto simp: semver_less_def version_key_def)

lemma dot_not_itoa: "CHR ''.'' \<notin> set (itoa i)"
proof -
  have "\<not> is_digit CHR ''.''" by (simp add: is_digit_def)
  then have "CHR ''.'' \<notin> set (nat_str n)" for n using nat_str_digits by blast
  then show ?thesis by (simp add: itoa_def)
qed

lemma parse_semver_itoa:
  assumes "int64_range a" and "int64_range b" and "int64_range c"
  shows "parse_semver (itoa a @ ''.'' @ itoa b @ ''.'' @ itoa c) = Some (a, b, c)"
  using assms by (simp add: parse_semver_def split_three_def cut_single_append dot_not_itoa atoi_itoa)

lemma atoi_range: "atoi s = Some i \<Longrightarrow> int64_range i"
  by (auto simp: atoi_def Let_def split: list.splits option.splits if_splits)

lemma parse_semver_range:
  assumes "parse_semver v = Some (a, b, c)"
  shows "int64_range a" and "int64_range b" and "int64_range c"
  using assms by (auto simp: parse_semver_def atoi_range split: option.splits prod.splits)

lemma next_patch_fresh:
  assumes "existing = sort_slice (\<lambda>a b. semver_less (wk_version a) (wk_version b)) ws"
    and "\<And>w. w \<in> set ws \<Longrightarrow> \<exists>a b c. parse_semver (wk_version w) = Some (a, b, c) \<and> c + 1 < 2 ^ 63"
    and "w \<in> set ws"
  shows "semver_less (wk_version w) (next_patch_version existing)"
proof -
  let ?key = "\<lambda>w. version_key (wk_version w)"
  have parse: "parse_semver (wk_version w) \<noteq> None" if "w \<in> set ws" for w
    using assms(2) [OF that] by auto
  have sorted: "sorted (map ?key existing)"
    unfolding assms(1) by (rule sort_slice_sorted) (simp add: semver_less_key parse)
  have set: "set existing = set ws" by (simp add: assms(1))
  then have ne: "existing \<noteq> []" using assms(3) by auto
  then have last: "last existing \<in> set ws" using set last_in_set by blast
  with assms(2) obtain a b c where l: "parse_semver (wk_version (last existing)) = Some (a, b, c)" "c + 1 < 2 ^ 63"
    by blast
  have c: "int64_range (c + 1)" using parse_semver_range(3) [OF l(1)] l(2) by (simp add: int64_range_def)
  have nv: "next_patch_version existing = itoa a @ ''.'' @ itoa b @ ''.'' @ itoa (c + 1)"
    using ne l(1) c by (simp add: next_patch_version_def)
  have pn: "parse_semver (next_patch_version existing) = Some (a, b, c + 1)"
    unfolding nv using parse_semver_range [OF l(1)] c by (intro parse_semver_itoa)
  have "?key w \<le> last (map ?key existing)"
    using sorted set assms(3) by (intro sorted_last) auto
  also have "last (map ?key existing) = [a, b, c]" using ne l(1) by (simp add: last_map version_key_def)
  also have "[a, b, c] < version_key (next_patch_version existing)" by (simp add: pn version_key_def)
  finally show ?thesis using parse [OF assms(3)] pn by (simp add: semver_less_key)
qed

lemma semver_less_irrefl: "\<not> semver_less a a"
  by (simp add: semver_less_def split: option.split)

text \<open>Saving an edit never touches a version there is: as long as all versions of the worker
  found on disk are plain \<open>major.minor.patch\<close>, the edited worker is saved under a version that is
  greater than each of them, in a file named after it.\<close>

theorem saved_version_fresh:
  assumes "save_worker validate compile dec enc mkdir write dir listing (Inr w) = Inr (w', name, b)"
    and "scan_worker_versions dec dir listing (wk_id w) = Inr existing"
    and "\<And>x. x \<in> set existing \<Longrightarrow> \<exists>a b c. parse_semver (wk_version x) = Some (a, b, c) \<and> c + 1 < 2 ^ 63"
  shows "w' = w\<lparr>wk_version := wk_version w'\<rparr> \<and> name = wk_id w @ ''@'' @ wk_version w' @ ''.worker.yaml'' \<and>
    (\<forall>x\<in>set existing. semver_less (wk_version x) (wk_version w') \<and> wk_version x \<noteq> wk_version w')"
proof -
  from assms(1,2) have w': "w' = w\<lparr>wk_version := next_patch_version existing\<rparr>"
    and name: "name = wk_id w @ ''@'' @ wk_version w' @ ''.worker.yaml''"
    by (auto simp: save_worker_def Let_def split: if_splits option.splits sum.splits)
  have "semver_less (wk_version x) (next_patch_version existing)" if x: "x \<in> set existing" for x
  proof -
    from assms(2) x obtain ws where ws: "existing = sort_slice (\<lambda>a b. semver_less (wk_version a) (wk_version b)) ws"
      by (auto simp: scan_worker_versions_def split: sum.splits if_splits)
    then have "set ws = set existing" by simp
    with next_patch_fresh [OF ws] assms(3) x show ?thesis by auto
  qed
  then have "semver_less (wk_version x) (wk_version w')" if "x \<in> set existing" for x
    using that w' by simp
  then have "semver_less (wk_version x) (wk_version w') \<and> wk_version x \<noteq> wk_version w'"
    if "x \<in> set existing" for x
    using that semver_less_irrefl by metis
  with w' name show ?thesis by auto
qed

definition edited_worker :: "string \<Rightarrow> worker" where
  "edited_worker v =
     \<lparr>wk_id = ''w'', wk_version = v, wk_description = '''', wk_objective = ''do'', wk_constraints = [], wk_tools = [],
      wk_context_policy = \<lparr>cp_mode = ContextUnset, cp_params = None\<rparr>,
      wk_contract = \<lparr>con_goal = ''g'', con_rules = [], con_output_schema = [], con_success_criteria = [],
                     con_max_retries = 0\<rparr>,
      wk_model = \<lparr>mc_provider = '''', mc_model = '''', mc_params = []\<rparr>\<rparr>"

definition worker_dir :: "err + dir_listing" where
  "worker_dir = Inr [(''a.worker.yaml'', False, Some []), (''b.worker.yml'', False, Some ''b''),
                     (''c.worker.yaml'', False, None), (''workflow.yaml'', False, Some ''y'')]"

definition decode_sample :: "bytes \<Rightarrow> err + worker" where
  "decode_sample b = Inr (edited_worker (if b = [] then ''1.0.10'' else ''1.0.9''))"

lemma worker_dir_scan:
  "scan_worker_versions decode_sample ''d'' worker_dir ''w'' = Inr [edited_worker ''1.0.9'', edited_worker ''1.0.10'']"
proof -
  have "semver_less ''1.0.9'' ''1.0.10''" "\<not> semver_less ''1.0.10'' ''1.0.9''" by code_simp+
  moreover have "worker_file (''a.worker.yaml'', False, Some [])" "worker_file (''b.worker.yml'', False, Some ''b'')"
    "worker_file (''c.worker.yaml'', False, None)" "\<not> worker_file (''workflow.yaml'', False, Some ''y'')"
    by code_simp+
  ultimately show ?thesis
    by (simp add: scan_worker_versions_def worker_dir_def read_worker_def decode_sample_def sort_slice_def
        edited_worker_def)
qed

lemma saved_version_fresh_witness:
  "\<exists>w'. save_worker (\<lambda>w. None) (\<lambda>s. None) decode_sample (\<lambda>w. Inr []) None (\<lambda>f. None) ''d'' worker_dir
      (Inr (edited_worker ''9.9.9'')) = Inr (w', ''w@1.0.11.worker.yaml'', []) \<and>
    wk_version w' = ''1.0.11'' \<and> semver_less ''1.0.10'' (wk_version w')"
proof -
  let ?w = "edited_worker ''9.9.9''"
  let ?w' = "edited_worker ''1.0.11''"
  have next_v: "next_patch_version [edited_worker ''1.0.9'', edited_worker ''1.0.10''] = ''1.0.11''"
    unfolding next_patch_version_def edited_worker_def by code_simp
  have scan: "scan_worker_versions decode_sample ''d'' worker_dir (wk_id ?w) =
      Inr [edited_worker ''1.0.9'', edited_worker ''1.0.10'']"
    using worker_dir_scan by (simp add: edited_worker_def)
  have save: "save_worker (\<lambda>w. None) (\<lambda>s. None) decode_sample (\<lambda>w. Inr []) None (\<lambda>f. None) ''d'' worker_dir (Inr ?w) =
      Inr (?w', ''w@1.0.11.worker.yaml'', [])"
    using scan next_v by (simp add: save_worker_def Let_def) (simp add: edited_worker_def)
  have plain: "\<exists>a b c. parse_semver (wk_version x) = Some (a, b, c) \<and> c + 1 < 2 ^ 63"
    if "x \<in> set [edited_worker ''1.0.9'', edited_worker ''1.0.10'']" for x
  proof -
    have "parse_semver ''1.0.9'' = Some (1, 0, 9)" "parse_semver ''1.0.10'' = Some (1, 0, 10)" by code_simp+
    with that show ?thesis by (auto simp: edited_worker_def)
  qed
  from saved_version_fresh [OF save scan plain] save show ?thesis by (auto simp: edited_worker_def)
qed

text \<open>A pre-release on disk breaks it: \<open>1.0.0-rc.1\<close> does not parse, is ordered after \<open>1.0.0\<close> as a text,
  and the edit is saved as \<open>1.0.0\<close> again, over the released version.\<close>

lemma prerelease_overwrites:
  assumes "wk_version a = ''1.0.0''" and "wk_version b = ''1.0.0-rc.1''"
  shows "next_patch_version (sort_slice (\<lambda>a b. semver_less (wk_version a) (wk_version b)) [a, b]) = ''1.0.0''"
proof -
  have "semver_less ''1.0.0'' ''1.0.0-rc.1''" "\<not> semver_less ''1.0.0-rc.1'' ''1.0.0''"
    "parse_semver ''1.0.0-rc.1'' = None"
    by code_simp+
  then show ?thesis using assms by (simp add: sort_slice_def next_patch_version_def)
qed

end
