(* ===== verification/Gallery.thy ===== *)
theory Gallery
  imports Registry WorkerVersions
begin

text \<open>
  The template gallery of the control plane (\<open>core/server/server.go\<close>): listing the bundles of a
  directory and importing one of them into the workspace as YAML files. Paths are absolute and clean,
  as in \<open>Tools\<close>; reading an archive and the YAML encoder are parameters. The order in which the code
  goes through the Go map of a workflow's workers is that of its nodes.
\<close>

section \<open>Listing\<close>

record template =
  tp_name :: string
  tp_workflow :: string
  tp_version :: string
  tp_nodes :: nat
  tp_required :: "string list"
  tp_facts :: template_facts

text \<open>\<open>reg.Workers\<close> as the list of its entries.\<close>

definition used_refs :: "registry \<Rightarrow> node list \<Rightarrow> string list" where
  "used_refs r ns = remdups (filter (\<lambda>ref. ref \<noteq> [] \<and> lookup_worker r ref \<noteq> None) (map node_worker ns))"

definition worker_list :: "registry \<Rightarrow> workflow \<Rightarrow> (string \<times> worker) list" where
  "worker_list r w = map (\<lambda>ref. (ref, the (lookup_worker r ref))) (used_refs r (wf_nodes w))"

definition required_model_connections :: "worker list \<Rightarrow> string list" where
  "required_model_connections ws =
     sort (remdups (map (\<lambda>w. if mc_provider (wk_model w) = [] then ''openai'' else mc_provider (wk_model w)) ws))"

text \<open>\<open>registry.Import\<close> of the bytes of an archive: the entries that were read and the error that ended
  the reading, if any.\<close>

type_synonym untar = "bytes \<Rightarrow> (string \<times> bytes) list \<times> err option"

definition import_archive :: "registry_codec \<Rightarrow> untar \<Rightarrow> bytes \<Rightarrow> registry_error + registry" where
  "import_archive cd untar data =
     (case untar data of (entries, e) \<Rightarrow>
        (case import_bundle cd entries of
           Inl x \<Rightarrow> Inl x
         | Inr r \<Rightarrow> (case e of Some x \<Rightarrow> Inl (RegistryErr x) | None \<Rightarrow> Inr r)))"

definition list_template :: "registry_codec \<Rightarrow> untar \<Rightarrow> string \<times> bool \<times> bytes option \<Rightarrow> template list" where
  "list_template cd untar e =
     (case e of (name, is_dir, data) \<Rightarrow>
        if is_dir \<or> \<not> has_suffix name ''.tar'' then []
        else case data of
          None \<Rightarrow> []
        | Some b \<Rightarrow>
            (case import_archive cd untar b of
               Inl x \<Rightarrow> []
             | Inr r \<Rightarrow>
                 (case sole_workflow r of
                    None \<Rightarrow> []
                  | Some (ref, w) \<Rightarrow>
                      [\<lparr>tp_name = trim_suffix name ''.tar'', tp_workflow = wf_id w, tp_version = wf_version w,
                        tp_nodes = length (wf_nodes w),
                        tp_required = required_model_connections (map snd (worker_list r w)),
                        tp_facts = derive_template_facts w\<rparr>])))"

definition handle_list_templates ::
  "registry_codec \<Rightarrow> untar \<Rightarrow> path option \<Rightarrow> err + dir_listing \<Rightarrow> template list" where
  "handle_list_templates cd untar templates_dir listing =
     (case templates_dir of
        None \<Rightarrow> []
      | Some d \<Rightarrow> (case listing of Inl e \<Rightarrow> [] | Inr es \<Rightarrow> concat (map (list_template cd untar) es)))"

section \<open>Importing\<close>

fun registry_msg :: "registry_error \<Rightarrow> string" where
  "registry_msg (RegistryErr e) = err_msg e"
| "registry_msg (ConflictError k ref old new) = conflict_msg k ref old new"

record gallery_env =
  ga_templates :: "path option"
  ga_dir :: path
  ga_workspace :: path
  ga_mkdir :: "err option"
  ga_read :: "path \<Rightarrow> err option"
  ga_write :: "path \<Rightarrow> err option"
  ga_codec :: registry_codec
  ga_untar :: untar
  ga_yaml_workflow :: "workflow \<Rightarrow> err + bytes"
  ga_yaml_worker :: "worker \<Rightarrow> err + bytes"

type_synonym tree = "path \<rightharpoonup> bytes"

definition read_tree :: "gallery_env \<Rightarrow> path \<Rightarrow> tree \<Rightarrow> err + bytes" where
  "read_tree env p d =
     (case ga_read env p of
        Some e \<Rightarrow> Inl e
      | None \<Rightarrow> (case d p of None \<Rightarrow> Inl (ESentinel ErrNotExist) | Some b \<Rightarrow> Inr b))"

definition write_tree :: "gallery_env \<Rightarrow> path \<Rightarrow> bytes \<Rightarrow> tree \<Rightarrow> err option \<times> tree" where
  "write_tree env p b d = (case ga_write env p of Some e \<Rightarrow> (Some e, d) | None \<Rightarrow> (None, d(p \<mapsto> b)))"

definition imported_template_dir :: "gallery_env \<Rightarrow> string \<Rightarrow> path" where
  "imported_template_dir env name = join_clean (ga_workspace env) (''imported-templates/'' @ name)"

definition worker_file_name :: "string \<Rightarrow> string" where
  "worker_file_name ref = (case cut ref ''@'' of None \<Rightarrow> ref | Some (i, v) \<Rightarrow> i) @ ''.worker.yaml''"

fun write_workers :: "gallery_env \<Rightarrow> path \<Rightarrow> (string \<times> worker) list \<Rightarrow> tree \<Rightarrow> string option \<times> tree" where
  "write_workers env dest [] d = (None, d)"
| "write_workers env dest ((ref, w) # ws) d =
     (case ga_yaml_worker env w of
        Inl e \<Rightarrow> (Some (''marshal worker '' @ ref @ '': '' @ err_msg e), d)
      | Inr b \<Rightarrow>
          (case write_tree env (join_clean dest (worker_file_name ref)) b d of
             (Some e, d) \<Rightarrow> (Some (''write '' @ worker_file_name ref @ '': '' @ err_msg e), d)
           | (None, d) \<Rightarrow> write_workers env dest ws d))"

definition copy_template_config :: "gallery_env \<Rightarrow> path \<Rightarrow> string \<Rightarrow> path \<Rightarrow> tree \<Rightarrow> err option \<times> tree" where
  "copy_template_config env templates_dir name dest d =
     (case read_tree env (join_clean (butlast templates_dir) (name @ ''/wee.yaml'')) d of
        Inr b \<Rightarrow> write_tree env (dest @ [''wee.yaml'']) b d
      | Inl e \<Rightarrow> if is_err ErrNotExist e then (None, d) else (Some e, d))"

definition import_files ::
  "gallery_env \<Rightarrow> path \<Rightarrow> string \<Rightarrow> registry \<Rightarrow> workflow \<Rightarrow> tree \<Rightarrow> string option \<times> tree" where
  "import_files env templates_dir name r w d =
     (let dest = imported_template_dir env name in
      case ga_mkdir env of
        Some e \<Rightarrow> (Some (''create destination directory: '' @ err_msg e), d)
      | None \<Rightarrow>
     (case ga_yaml_workflow env w of
        Inl e \<Rightarrow> (Some (''marshal workflow: '' @ err_msg e), d)
      | Inr b \<Rightarrow>
     (case write_tree env (dest @ [''workflow.yaml'']) b d of
        (Some e, d) \<Rightarrow> (Some (''write workflow.yaml: '' @ err_msg e), d)
      | (None, d) \<Rightarrow>
     (case write_workers env dest (worker_list r w) d of
        (Some m, d) \<Rightarrow> (Some m, d)
      | (None, d) \<Rightarrow>
     (case copy_template_config env templates_dir name dest d of
        (Some e, d) \<Rightarrow> (Some (''write wee.yaml: '' @ err_msg e), d)
      | (None, d) \<Rightarrow> (None, d))))))"

definition handle_import_template ::
  "gallery_env \<Rightarrow> string \<Rightarrow> tree \<Rightarrow> ((int \<times> string) + path \<times> workflow) \<times> tree" where
  "handle_import_template env name d =
     (case ga_templates env of
        None \<Rightarrow> (Inl (501, ''templates not configured on this server''), d)
      | Some templates_dir \<Rightarrow>
     (case read_tree env (join_clean templates_dir (name @ ''.tar'')) d of
        Inl e \<Rightarrow> (Inl (404, ''unknown template''), d)
      | Inr data \<Rightarrow>
     (case import_archive (ga_codec env) (ga_untar env) data of
        Inl e \<Rightarrow> (Inl (500, ''corrupt template bundle: '' @ registry_msg e), d)
      | Inr r \<Rightarrow>
     (case sole_workflow r of
        None \<Rightarrow> (Inl (500, ''template bundle does not contain exactly one workflow''), d)
      | Some (ref, w) \<Rightarrow>
     (case import_files env templates_dir name r w d of
        (Some m, d) \<Rightarrow> (Inl (500, m), d)
      | (None, d) \<Rightarrow>
          (Inr (rel_path (ga_dir env) (imported_template_dir env name @ [''workflow.yaml'']), w), d))))))"

section \<open>What an import leaves on disk\<close>

text \<open>Nothing but the files of the destination is written, as far as their names stay inside it.\<close>

lemma write_workers_frame:
  assumes "write_workers env dest ws d = (m, d')" and "p \<notin> (\<lambda>(ref, w). join_clean dest (worker_file_name ref)) ` set ws"
  shows "d' p = d p"
  using assms
proof (induction ws arbitrary: d)
  case (Cons a ws)
  obtain ref w where a: "a = (ref, w)" by fastforce
  show ?case
  proof (cases "ga_yaml_worker env w")
    case (Inl e)
    with Cons.prems show ?thesis by (simp add: a)
  next
    case (Inr b)
    obtain e d1 where w1: "write_tree env (join_clean dest (worker_file_name ref)) b d = (e, d1)" by fastforce
    with Cons.prems(2) have "d1 p = d p" by (auto simp: write_tree_def a split: option.splits)
    with Cons.prems Cons.IH [of d1] w1 Inr show ?thesis by (cases e) (auto simp: a)
  qed
qed simp

lemma write_workers_written:
  assumes "write_workers env dest ws d = (None, d')" and "(ref, w) \<in> set ws"
    and "inj_on worker_file_name (fst ` set ws)" and "inj_on (join_clean dest) (worker_file_name ` fst ` set ws)"
    and "distinct (map fst ws)"
  shows "\<exists>b. ga_yaml_worker env w = Inr b \<and> d' (join_clean dest (worker_file_name ref)) = Some b"
  using assms
proof (induction ws arbitrary: d)
  case (Cons a ws)
  obtain ref' w' where a: "a = (ref', w')" by fastforce
  from Cons.prems(1) a obtain b d1 where b: "ga_yaml_worker env w' = Inr b"
    "write_tree env (join_clean dest (worker_file_name ref')) b d = (None, d1)"
    "write_workers env dest ws d1 = (None, d')"
    by (auto split: sum.splits prod.splits option.splits)
  then have d1: "d1 (join_clean dest (worker_file_name ref')) = Some b"
    by (auto simp: write_tree_def split: option.splits)
  show ?case
  proof (cases "(ref, w) \<in> set ws")
    case True
    have "inj_on worker_file_name (fst ` set ws)" "inj_on (join_clean dest) (worker_file_name ` fst ` set ws)"
      using Cons.prems(3,4) by (auto simp: inj_on_def)
    with Cons.IH [OF b(3) True] Cons.prems(5) show ?thesis by simp
  next
    case False
    with Cons.prems(2) a have rw: "ref = ref'" "w = w'" by auto
    have new: "ref' \<notin> fst ` set ws" using Cons.prems(5) a by auto
    have "join_clean dest (worker_file_name ref') \<noteq> join_clean dest (worker_file_name (fst x))" if "x \<in> set ws" for x
    proof
      assume e: "join_clean dest (worker_file_name ref') = join_clean dest (worker_file_name (fst x))"
      have "worker_file_name ref' = worker_file_name (fst x)"
        using inj_onD [OF Cons.prems(4) e] that a by simp
      moreover have "ref' \<in> fst ` set (a # ws)" "fst x \<in> fst ` set (a # ws)" using that a by simp_all
      ultimately have "ref' = fst x" by (rule inj_onD [OF Cons.prems(3)])
      with new that show False by blast
    qed
    then have "d' (join_clean dest (worker_file_name ref')) = d1 (join_clean dest (worker_file_name ref'))"
      by (intro write_workers_frame [OF b(3)]) force
    with b(1) d1 rw show ?thesis by simp
  qed
qed simp

text \<open>Two versions of one worker in a template end up in one file: the second overwrites the first, and the
  imported workflow cannot be loaded any more.\<close>

lemma import_versions_collide:
  assumes "ga_yaml_worker env w1 = Inr b1" and "ga_yaml_worker env w2 = Inr b2" and "\<And>p. ga_write env p = None"
  shows "snd (write_workers env dest [(''w@1.0.0'', w1), (''w@2.0.0'', w2)] d) =
    d(join_clean dest ''w.worker.yaml'' \<mapsto> b2)"
proof -
  have "worker_file_name ''w@1.0.0'' = ''w.worker.yaml''" "worker_file_name ''w@2.0.0'' = ''w.worker.yaml''"
    by code_simp+
  with assms show ?thesis by (simp add: write_tree_def)
qed

text \<open>The schema of a worker allows any id, so the name of a saved or imported file can leave its directory.\<close>

lemma worker_file_escapes:
  "join_clean [''srv'', ''flows''] (''../evil'' @ ''@'' @ ''1.0.0'' @ ''.worker.yaml'') = [''srv'', ''evil@1.0.0.worker.yaml'']"
  by code_simp

end
