(* ===== verification/Runner.thy ===== *)
theory Runner
  imports Backup Locate ToolSet Gallery Providers Control
begin

text \<open>
  Assembling a run from files on disk: \<open>cli/internal/runner\<close>, the validation that \<open>wee validate\<close>, \<open>wee run\<close> and
  the control plane share (\<open>cli/cmd/validate.go\<close>), and the control plane's assembler (\<open>cli/cmd/serve.go\<close>).
  Paths are strings here; the files, the environment and the codecs are the fields of \<open>runner_env\<close>.
\<close>

section \<open>Paths\<close>

text \<open>\<open>filepath.Clean\<close>, \<open>Join\<close> and \<open>Dir\<close>.\<close>

definition clean_path :: "string \<Rightarrow> string" where
  "clean_path p =
     (if p = [] then ''.''
      else if has_prefix p ''/'' then ''/'' @ join ''/'' (join_clean [] p)
      else let c = clean_rel p in if c = [] then ''.'' else join ''/'' c)"

definition file_join :: "string \<Rightarrow> string \<Rightarrow> string" where
  "file_join a b =
     (if a = [] \<and> b = [] then [] else clean_path (join ''/'' (filter (\<lambda>x. x \<noteq> []) [a, b])))"

definition file_dir :: "string \<Rightarrow> string" where
  "file_dir p = clean_path (rev (dropWhile (\<lambda>c. c \<noteq> CHR ''/'') (rev p)))"

section \<open>Expanding the environment\<close>

definition name_start :: "char \<Rightarrow> bool" where
  "name_start c \<longleftrightarrow> (let n = (of_char c :: nat) in (65 \<le> n \<and> n \<le> 90) \<or> (97 \<le> n \<and> n \<le> 122) \<or> n = 95)"

definition name_char :: "char \<Rightarrow> bool" where
  "name_char c \<longleftrightarrow> name_start c \<or> is_digit c"

text \<open>A match of \<open>envDefaultRe\<close> at the head of a string: the name, the default and what follows.\<close>

definition match_default :: "string \<Rightarrow> (string \<times> string \<times> string) option" where
  "match_default s =
     (case cut_prefix s ''${'' of
        None \<Rightarrow> None
      | Some r \<Rightarrow>
          let name = takeWhile name_char r in
          if name = [] \<or> \<not> name_start (hd name) then None
          else (case cut_prefix (dropWhile name_char r) '':-'' of
                  None \<Rightarrow> None
                | Some d \<Rightarrow> map_option (\<lambda>(v, rest). (name, v, rest)) (cut d ''}'')))"

lemma match_default_shorter: "match_default s = Some (n, d, r) \<Longrightarrow> length r < length s"
proof -
  assume m: "match_default s = Some (n, d, r)"
  then obtain t u where t: "s = ''${'' @ t" and u: "dropWhile name_char t = '':-'' @ u" and "cut u ''}'' = Some (d, r)"
    by (auto simp: match_default_def Let_def cut_prefix_Some split: option.splits if_splits)
  then have "u = d @ ''}'' @ r" using cut_Some by blast
  then have "length r < length u" by simp
  also have "length u < length (dropWhile name_char t)" using u by simp
  also have "length (dropWhile name_char t) \<le> length t" by (rule length_dropWhile_le)
  finally show ?thesis using t by simp
qed

function expand_defaults :: "(string \<rightharpoonup> string) \<Rightarrow> string \<Rightarrow> string" where
  "expand_defaults env s =
     (case s of
        [] \<Rightarrow> []
      | c # cs \<Rightarrow>
          (case match_default s of
             Some (n, d, r) \<Rightarrow> (case env n of Some v \<Rightarrow> v | None \<Rightarrow> d) @ expand_defaults env r
           | None \<Rightarrow> c # expand_defaults env cs))"
  by pat_completeness auto
termination
  by (relation "measure (\<lambda>(env, s). length s)") (use match_default_shorter in fastforce)+

declare expand_defaults.simps [simp del]

definition shell_special :: "char \<Rightarrow> bool" where
  "shell_special c \<longleftrightarrow> c \<in> set ''*#$@!?-'' \<or> is_digit c"

text \<open>\<open>getShellName\<close> of package \<open>os\<close>: the name after a dollar sign and how many characters it takes.\<close>

definition shell_name :: "string \<Rightarrow> string \<times> nat" where
  "shell_name s =
     (case s of
        [] \<Rightarrow> ([], 0)
      | c # r \<Rightarrow>
          if c = CHR ''{'' then
            (if 2 < length s \<and> shell_special (s ! 1) \<and> s ! 2 = CHR ''}'' then ([s ! 1], 3)
             else if CHR ''}'' \<notin> set r then ([], 1)
             else let n = takeWhile (\<lambda>x. x \<noteq> CHR ''}'') r in
                  if n = [] then ([], 2) else (n, length n + 2))
          else if shell_special c then ([c], 1)
          else let n = takeWhile name_char s in (n, length n))"

text \<open>\<open>os.Expand\<close> with the lookup of \<open>expandRequiredEnv\<close>: the text and the names that are not set.\<close>

function expand_vars :: "(string \<rightharpoonup> string) \<Rightarrow> string \<Rightarrow> string \<times> string list" where
  "expand_vars env s =
     (case s of
        [] \<Rightarrow> ([], [])
      | c # cs \<Rightarrow>
          if c = CHR ''$'' \<and> cs \<noteq> [] then
            (case shell_name cs of
               (n, w) \<Rightarrow>
                 if n = [] \<and> 0 < w then expand_vars env (drop w cs)
                 else if n = [] then (case expand_vars env (drop w cs) of (t, ms) \<Rightarrow> (c # t, ms))
                 else (case expand_vars env (drop w cs) of
                         (t, ms) \<Rightarrow>
                           (case env n of Some v \<Rightarrow> (v @ t, ms) | None \<Rightarrow> (t, n # ms))))
          else (case expand_vars env cs of (t, ms) \<Rightarrow> (c # t, ms)))"
  by pat_completeness auto
termination
  by (relation "measure (\<lambda>(env, s). length s)") auto

declare expand_vars.simps [simp del]

definition expand_required_env :: "(string \<rightharpoonup> string) \<Rightarrow> string \<Rightarrow> err + string" where
  "expand_required_env env s =
     (case expand_vars env (expand_defaults env s) of
        (t, ms) \<Rightarrow>
          if ms = [] then Inr t
          else Inl (EMsg (''environment variable '' @ quote (join '', '' ms) @ '' is not set'')))"

section \<open>wee.yaml\<close>

record config =
  cf_workspace_root :: string
  cf_terminal_allow :: "string list"
  cf_timeout_ms :: int
  cf_http_allow :: "string list"

definition zero_config :: config where
  "zero_config = \<lparr>cf_workspace_root = [], cf_terminal_allow = [], cf_timeout_ms = 0, cf_http_allow = []\<rparr>"

definition finish_config :: "(string \<rightharpoonup> string) \<Rightarrow> string \<Rightarrow> bool \<Rightarrow> config \<Rightarrow> err + config" where
  "finish_config env dir has_config c =
     (let top = (if cf_workspace_root c = [] then ''.'' else cf_workspace_root c) in
      case expand_required_env env top of
        Inl e \<Rightarrow> Inl (errorf ''workspaceRoot: '' e [])
      | Inr p \<Rightarrow>
          Inr (c\<lparr>cf_workspace_root := (if has_config \<and> \<not> has_prefix p ''/'' then file_join dir p else p)\<rparr>))"

definition load_config ::
  "(bytes \<Rightarrow> err + config) \<Rightarrow> (string \<rightharpoonup> string) \<Rightarrow> (string \<Rightarrow> err + bytes) \<Rightarrow> string \<Rightarrow> err + config" where
  "load_config dec env read dir =
     (case read (file_join dir ''wee.yaml'') of
        Inr data \<Rightarrow> (case dec data of Inl e \<Rightarrow> Inl e | Inr c \<Rightarrow> finish_config env dir True c)
      | Inl e \<Rightarrow> if is_err ErrNotExist e then finish_config env dir False zero_config else Inl e)"

text \<open>A \<open>time.Duration\<close> is 64 bits of nanoseconds.\<close>

definition terminal_timeout :: "config \<Rightarrow> int" where
  "terminal_timeout c = (if 0 < cf_timeout_ms c then wrap64 (cf_timeout_ms c * 1000000) else 30000000000)"

definition build_tools :: "'w tool_os \<Rightarrow> config \<Rightarrow> (string \<times> 'w tool) list" where
  "build_tools os c =
     register (new_http os (cf_http_allow c))
       (register (new_git os (cf_workspace_root c) (terminal_timeout c))
         (register (new_terminal os (cf_workspace_root c) (cf_terminal_allow c) (terminal_timeout c) ArtifactTestResult)
           (register (new_filesystem os (cf_workspace_root c)) [])))"

section \<open>Loading\<close>

record runner_env =
  rn_codec :: registry_codec
  rn_files :: file_codec
  rn_read :: "string \<Rightarrow> err + bytes"
  rn_list :: "string \<Rightarrow> err + (string \<times> bool) list"
  rn_dec_worker :: "bytes \<Rightarrow> err + worker"
  rn_dec_config :: "bytes \<Rightarrow> err + config"
  rn_env :: "string \<rightharpoonup> string"
  rn_tree :: "bytes \<Rightarrow> err + ynode"
  rn_schema :: schema_lib
  rn_embedded :: "err + (string \<times> bool \<times> (err + bytes)) list"
  rn_marshal :: "workflow \<Rightarrow> err + bytes"

definition registry_err :: "registry_error \<Rightarrow> err" where
  "registry_err e = (case e of RegistryErr x \<Rightarrow> x | ConflictError k ref old new \<Rightarrow> EMsg (registry_msg e))"

fun load_worker_files :: "runner_env \<Rightarrow> string \<Rightarrow> (string \<times> bool) list \<Rightarrow> registry \<Rightarrow> err + registry" where
  "load_worker_files env dir [] r = Inr r"
| "load_worker_files env dir ((name, is_dir) # es) r =
     (if is_dir \<or> (\<not> has_suffix name ''.worker.yaml'' \<and> \<not> has_suffix name ''.worker.yml'')
      then load_worker_files env dir es r
      else case rn_read env (file_join dir name) of
        Inl e \<Rightarrow> Inl (errorf (''read worker '' @ name @ '': '') e [])
      | Inr data \<Rightarrow>
     (case rn_dec_worker env data of
        Inl e \<Rightarrow> Inl (errorf (''decode worker '' @ name @ '': '') e [])
      | Inr w \<Rightarrow>
     (case register_worker (rn_codec env) w r of
        Inl e \<Rightarrow> Inl (errorf (''register worker '' @ name @ '': '') (registry_err e) [])
      | Inr r \<Rightarrow> load_worker_files env dir es r)))"

definition load_workers :: "runner_env \<Rightarrow> string \<Rightarrow> registry \<Rightarrow> err + registry" where
  "load_workers env p r =
     (let dir = file_dir p in
      case rn_list env dir of
        Inl e \<Rightarrow> Inl (errorf (''read workflow dir '' @ dir @ '': '') e [])
      | Inr es \<Rightarrow> load_worker_files env dir es r)"

text \<open>What an assembly is made of; the log, store and cache are opened under \<open>ld_base\<close>.\<close>

record loaded =
  ld_workflow :: workflow
  ld_registry :: registry
  ld_config :: config
  ld_base :: string

definition load_with :: "runner_env \<Rightarrow> string \<Rightarrow> string \<Rightarrow> err + loaded" where
  "load_with env p base =
     (case load_workflow (rn_files env) (rn_read env) p of
        Inl e \<Rightarrow> Inl e
      | Inr w \<Rightarrow>
     (case register_workflow (rn_codec env) w new_registry of
        Inl e \<Rightarrow> Inl (errorf ''register workflow: '' (registry_err e) [])
      | Inr r \<Rightarrow>
     (case load_workers env p r of
        Inl e \<Rightarrow> Inl e
      | Inr r \<Rightarrow>
     (case load_config (rn_dec_config env) (rn_env env) (rn_read env) (file_dir p) of
        Inl e \<Rightarrow> Inl e
      | Inr c \<Rightarrow> Inr \<lparr>ld_workflow = w, ld_registry = r, ld_config = c, ld_base = base\<rparr>))))"

section \<open>Validating a file\<close>

text \<open>A source that cannot be loaded is a nil pointer in a non-nil interface: it resolves no line and names no file.\<close>

definition validate_workflow_file :: "runner_env \<Rightarrow> workflow \<Rightarrow> string \<Rightarrow> err option" where
  "validate_workflow_file env w p =
     (let src = Some (source_resolver
            (case load_source (rn_tree env) (rn_read env) p of Inl e \<Rightarrow> None | Inr s \<Rightarrow> Some s)) in
      case new_validator (rn_schema env) (rn_embedded env) of
        Inl e \<Rightarrow> Some (errorf ''build validator: '' e [])
      | Inr v \<Rightarrow>
     (case validate_object (rn_schema env) (rn_marshal env) v ''workflow'' w src of
        Some e \<Rightarrow> Some (schema_failure e)
      | None \<Rightarrow> graph_error src w))"

section \<open>The assembler of the control plane\<close>

definition connection_kind_model_provider :: string where
  "connection_kind_model_provider = ''model-provider''"

definition apply_connection :: "connection \<Rightarrow> provider_config \<Rightarrow> provider_config" where
  "apply_connection c pc =
     (if cn_kind c \<noteq> connection_kind_model_provider \<or> cn_id c = [] then pc
      else if cn_type c = ''openai'' then
        (if cn_id c = ''openai'' \<and> cn_base_url c \<noteq> [] then pc\<lparr>pc_openai := cn_base_url c\<rparr> else pc)
      else if cn_type c = ''anthropic'' then
        (if cn_id c = ''anthropic'' \<and> cn_base_url c \<noteq> [] then pc\<lparr>pc_anthropic := cn_base_url c\<rparr> else pc)
      else if cn_type c = ''openai-compatible'' then pc\<lparr>pc_compatible := (pc_compatible pc)(cn_id c \<mapsto> cn_base_url c)\<rparr>
      else pc)"

definition provider_settings :: "settings \<Rightarrow> provider_config" where
  "provider_settings s =
     fold apply_connection (st_connections s)
       \<lparr>pc_openai = (case st_base_urls s ''openai'' of Some u \<Rightarrow> u | None \<Rightarrow> []),
        pc_anthropic = (case st_base_urls s ''anthropic'' of Some u \<Rightarrow> u | None \<Rightarrow> []), pc_compatible = Map.empty\<rparr>"

fun connection_refs :: "(string \<rightharpoonup> connection) \<Rightarrow> worker list \<Rightarrow> string \<rightharpoonup> connection_ref" where
  "connection_refs by_id [] = Map.empty"
| "connection_refs by_id (w # ws) =
     (case by_id (mc_provider (wk_model w)) of
        None \<Rightarrow> connection_refs by_id ws
      | Some c \<Rightarrow> (connection_refs by_id ws)(cn_id c \<mapsto> connection_ref_of c))"

definition run_assembler ::
  "runner_env \<Rightarrow> err + settings \<Rightarrow> string \<Rightarrow> string \<Rightarrow> string \<Rightarrow> err + assembly \<times> provider_config \<times> config" where
  "run_assembler env loaded_settings dir base ref =
     (let p = file_join dir ref;
          s = (case loaded_settings of Inl e \<Rightarrow> zero_settings | Inr s \<Rightarrow> s)
      in case load_with env p base of
           Inl e \<Rightarrow> Inl e
         | Inr l \<Rightarrow>
        (case validate_workflow_file env (ld_workflow l) p of
           Some e \<Rightarrow> Inl e
         | None \<Rightarrow>
             let ns = wf_nodes (ld_workflow l);
                 pins = pinned_workers (ld_registry l) ns
             in Inr (\<lparr>asm_workflow = ld_workflow l, asm_hashes = definition_hashes (ld_registry l) ns, asm_workers = pins,
                      asm_connections = connection_refs (map_of (rev (map (\<lambda>c. (cn_id c, c)) (st_connections s))))
                        (List.map_filter (\<lambda>n. pins (node_worker n)) ns)\<rparr>,
                    provider_settings s, ld_config l)))"

section \<open>What the environment gives\<close>

lemma expand_defaults_plain: "CHR ''$'' \<notin> set s \<Longrightarrow> expand_defaults env s = s"
proof (induction s)
  case (Cons c s)
  from Cons.prems have "c \<noteq> CHR ''$''" by auto
  then have "match_default (c # s) = None" by (simp add: match_default_def cut_prefix_def has_prefix_def)
  with Cons show ?case by (subst expand_defaults.simps) simp
qed (simp add: expand_defaults.simps)

lemma expand_vars_plain: "CHR ''$'' \<notin> set s \<Longrightarrow> expand_vars env s = (s, [])"
proof (induction s)
  case (Cons c s)
  from Cons.prems have "c \<noteq> CHR ''$''" by auto
  with Cons show ?case by (subst expand_vars.simps) simp
qed (simp add: expand_vars.simps)

definition env_name :: "string \<Rightarrow> bool" where
  "env_name n \<longleftrightarrow> n \<noteq> [] \<and> name_start (hd n) \<and> (\<forall>c\<in>set n. name_char c)"

lemma name_char_plain: "name_char c \<Longrightarrow> c \<noteq> CHR ''$'' \<and> c \<noteq> CHR ''}'' \<and> c \<noteq> CHR ''{'' \<and> c \<noteq> CHR '':''"
  by (auto simp: name_char_def name_start_def is_digit_def)

lemma name_start_special: "name_start c \<Longrightarrow> \<not> shell_special c"
  by (auto simp: name_start_def shell_special_def is_digit_def Let_def)

lemma env_name_take:
  assumes "env_name n" and "r = [] \<or> \<not> name_char (hd r)"
  shows "takeWhile name_char (n @ r) = n" and "dropWhile name_char (n @ r) = r"
  using assms by (cases r; simp add: env_name_def takeWhile_append dropWhile_append)+

lemma name_char_punct: "\<not> name_char (CHR ''}'')" "\<not> name_char (CHR '':'')"
  by (simp_all add: name_char_def name_start_def is_digit_def)

lemma match_braced: "env_name n \<Longrightarrow> match_default (''${'' @ n @ ''}'') = None"
  using env_name_take [of n "''}''"] name_char_punct
  by (simp add: match_default_def cut_prefix_def has_prefix_def)

lemma match_with_default:
  assumes "env_name n" and "CHR ''}'' \<notin> set d"
  shows "match_default (''${'' @ n @ '':-'' @ d @ ''}'') = Some (n, d, [])"
proof -
  have "cut (d @ ''}'') ''}'' = Some (d, [])" using cut_single_append [OF assms(2), of "[]"] by simp
  moreover note env_name_take [OF assms(1), of "'':-'' @ d @ ''}''"]
  moreover have "name_start (hd n)" "n \<noteq> []" using assms(1) by (simp_all add: env_name_def)
  ultimately show ?thesis using name_char_punct
    by (simp add: match_default_def cut_prefix_def has_prefix_def Let_def)
qed

lemma shell_name_braced:
  assumes "env_name n"
  shows "shell_name (''{'' @ n @ ''}'') = (n, length n + 2)"
proof -
  obtain c r where n: "n = c # r" using assms by (cases n) (auto simp: env_name_def)
  have "\<not> shell_special c" using assms name_start_special by (simp add: env_name_def n)
  moreover have "CHR ''}'' \<notin> set n" using assms name_char_plain unfolding env_name_def by blast
  then have "takeWhile (\<lambda>x. x \<noteq> CHR ''}'') (n @ ''}'') = n" by (auto simp: takeWhile_append)
  ultimately show ?thesis by (simp add: shell_name_def n)
qed

lemma expand_braced:
  assumes "env_name n"
  shows "expand_defaults env (''${'' @ n @ ''}'') = ''${'' @ n @ ''}''"
    and "expand_vars env (''${'' @ n @ ''}'') = (case env n of Some v \<Rightarrow> (v, []) | None \<Rightarrow> ([], [n]))"
proof -
  have "CHR ''$'' \<notin> set (''{'' @ n @ ''}'')" using assms name_char_plain by (auto simp: env_name_def)
  then have "expand_defaults env (''{'' @ n @ ''}'') = ''{'' @ n @ ''}''" by (rule expand_defaults_plain)
  with match_braced [OF assms] show "expand_defaults env (''${'' @ n @ ''}'') = ''${'' @ n @ ''}''"
    by (subst expand_defaults.simps) simp
  have "n \<noteq> []" using assms by (simp add: env_name_def)
  moreover have "expand_vars env [] = ([], [])" by (simp add: expand_vars.simps)
  ultimately show "expand_vars env (''${'' @ n @ ''}'') = (case env n of Some v \<Rightarrow> (v, []) | None \<Rightarrow> ([], [n]))"
    using shell_name_braced [OF assms] by (subst expand_vars.simps) (simp split: option.splits)
qed

text \<open>A variable in braces is its value or, when it is not set, the error that names it; the form with a default
  gives the default then. A text without a dollar sign is left as it is.\<close>

theorem workspace_env_expanded:
  assumes "env_name n" and "CHR ''}'' \<notin> set d" and "CHR ''$'' \<notin> set d"
    and "\<And>v. env n = Some v \<Longrightarrow> CHR ''$'' \<notin> set v" and "CHR ''$'' \<notin> set s"
  shows "expand_required_env env (''${'' @ n @ ''}'') =
      (case env n of Some v \<Rightarrow> Inr v | None \<Rightarrow> Inl (EMsg (''environment variable '' @ quote n @ '' is not set''))) \<and>
    expand_required_env env (''${'' @ n @ '':-'' @ d @ ''}'') = Inr (case env n of Some v \<Rightarrow> v | None \<Rightarrow> d) \<and>
    expand_required_env env s = Inr s"
proof -
  have "expand_defaults env (''${'' @ n @ '':-'' @ d @ ''}'') = (case env n of Some v \<Rightarrow> v | None \<Rightarrow> d)"
    using match_with_default [OF assms(1,2)] by (subst expand_defaults.simps) (simp add: expand_defaults_plain)
  moreover have "CHR ''$'' \<notin> set (case env n of Some v \<Rightarrow> v | None \<Rightarrow> d)" using assms(3,4) by (simp split: option.splits)
  ultimately have "expand_required_env env (''${'' @ n @ '':-'' @ d @ ''}'') = Inr (case env n of Some v \<Rightarrow> v | None \<Rightarrow> d)"
    by (simp add: expand_required_env_def expand_vars_plain)
  moreover have "expand_required_env env s = Inr s"
    using assms(5) by (simp add: expand_required_env_def expand_vars_plain expand_defaults_plain)
  moreover have "expand_required_env env (''${'' @ n @ ''}'') =
      (case env n of Some v \<Rightarrow> Inr v | None \<Rightarrow> Inl (EMsg (''environment variable '' @ quote n @ '' is not set'')))"
    using expand_braced [OF assms(1)] by (simp add: expand_required_env_def split: option.splits)
  ultimately show ?thesis by blast
qed

text \<open>A value that the default form puts in is expanded once more: a dollar sign in it is taken for a variable.\<close>

lemma default_expanded_twice:
  "expand_required_env [''A'' \<mapsto> ''p$b''] ''${A:-x}'' = Inl (EMsg (''environment variable '' @ quote ''b'' @ '' is not set'')) \<and>
   expand_required_env [''A'' \<mapsto> ''p$b''] ''${A}'' = Inr ''p$b''"
proof -
  have a: "env_name ''A''" by (simp add: env_name_def name_char_def name_start_def)
  then have "expand_defaults [''A'' \<mapsto> ''p$b''] ''${A:-x}'' = ''p$b''"
    using match_with_default [OF a, of "''x''"] by (subst expand_defaults.simps) (simp add: expand_defaults.simps)
  moreover have "expand_vars [''A'' \<mapsto> ''p$b''] ''p$b'' = (''p'', [''b''])"
    by (simp add: expand_vars.simps shell_name_def shell_special_def is_digit_def name_char_def name_start_def)
  ultimately show ?thesis using expand_braced [OF a, of "[''A'' \<mapsto> ''p$b'']"] by (simp add: expand_required_env_def)
qed

section \<open>Denied by default\<close>

text \<open>A workflow directory without \<open>wee.yaml\<close> has tools that start no command and reach no host: whatever input the
  terminal and the HTTP tool are given, they fail and nothing happens.\<close>

theorem deny_without_config:
  assumes "load_config dec env read dir = Inr c" and "read (file_join dir ''wee.yaml'') = Inl e" and "is_err ErrNotExist e"
    and "name \<in> {''terminal'', ''http''}"
  shows "\<exists>t. registry_get (build_tools os c) name = Some t \<and> (\<forall>input w. \<exists>x. tl_execute t input w = (Inl x, w))"
proof -
  have c: "cf_terminal_allow c = []" "cf_http_allow c = []"
    using assms(1-3) by (auto simp: load_config_def finish_config_def zero_config_def Let_def split: sum.splits)
  have "registry_get (build_tools os c) ''terminal'' =
      Some (new_terminal os (cf_workspace_root c) [] (terminal_timeout c) ArtifactTestResult)"
    "registry_get (build_tools os c) ''http'' = Some (new_http os [])"
    by (simp_all add: registry_get_def build_tools_def c new_http_def new_git_def new_terminal_def new_filesystem_def)
  moreover from assms(4) have "name = ''terminal'' \<or> name = ''http''" by blast
  moreover have "\<forall>input w. \<exists>x. tl_execute (new_terminal os (cf_workspace_root c) [] (terminal_timeout c) ArtifactTestResult) input w = (Inl x, w)"
    "\<forall>input w. \<exists>x. tl_execute (new_http os []) input w = (Inl x, w)"
    by (intro allI, rule terminal_denies) (intro allI, rule http_denies)
  ultimately show ?thesis by (elim disjE) simp_all
qed

lemma deny_without_config_witness:
  "\<forall>os w. \<exists>c t. load_config (\<lambda>b. Inl (EMsg [])) Map.empty (\<lambda>p. Inl (ESentinel ErrNotExist)) ''d'' = Inr c \<and>
     registry_get (build_tools os c) ''http'' = Some t \<and> (\<exists>x. tl_execute t [] w = (Inl x, w))"
proof (intro allI)
  fix os w
  have c: "load_config (\<lambda>b. Inl (EMsg [])) Map.empty (\<lambda>p. Inl (ESentinel ErrNotExist)) ''d'' = Inr (zero_config\<lparr>cf_workspace_root := ''.''\<rparr>)"
    by (simp add: load_config_def finish_config_def zero_config_def expand_required_env_def expand_vars_plain
        expand_defaults_plain is_err_def)
  from deny_without_config [OF c refl, of "''http''" os] obtain t where
    "registry_get (build_tools os (zero_config\<lparr>cf_workspace_root := ''.''\<rparr>)) ''http'' = Some t"
    "\<forall>input w. \<exists>x. tl_execute t input w = (Inl x, w)" by (auto simp: is_err_def)
  with c show "\<exists>c t. load_config (\<lambda>b. Inl (EMsg [])) Map.empty (\<lambda>p. Inl (ESentinel ErrNotExist)) ''d'' = Inr c \<and>
     registry_get (build_tools os c) ''http'' = Some t \<and> (\<exists>x. tl_execute t [] w = (Inl x, w))" by blast
qed

section \<open>What is assembled\<close>

lemma load_worker_files_ok:
  assumes "load_worker_files env dir es r = Inr r'" and "registry_ok (rn_codec env) r"
  shows "registry_ok (rn_codec env) r' \<and> rg_workflows r' = rg_workflows r"
  using assms
proof (induction env dir es r rule: load_worker_files.induct)
  case (2 env dir name is_dir es r)
  show ?case
  proof (cases "is_dir \<or> (\<not> has_suffix name ''.worker.yaml'' \<and> \<not> has_suffix name ''.worker.yml'')")
    case True
    with 2 show ?thesis by simp
  next
    case False
    with "2.prems"(1) obtain data w r1 where l: "rn_read env (file_join dir name) = Inr data" "rn_dec_worker env data = Inr w"
      "register_worker (rn_codec env) w r = Inr r1" "load_worker_files env dir es r1 = Inr r'"
      by (auto split: sum.splits)
    with registry_ok_worker [OF "2.prems"(2) l(3)] "2.IH"(2) [OF False l(1-4)] show ?thesis by simp
  qed
qed simp

lemma load_with_registry:
  assumes "load_with env p base = Inr l"
  shows "registry_ok (rn_codec env) (ld_registry l)"
proof -
  from assms obtain w r r' where r: "register_workflow (rn_codec env) w new_registry = Inr r" "load_workers env p r = Inr r'"
    "ld_registry l = r'"
    by (auto simp: load_with_def split: sum.splits)
  have "registry_ok (rn_codec env) r" using registry_ok_workflow(1) [OF registry_ok_new r(1)] .
  with r(2,3) load_worker_files_ok show ?thesis by (auto simp: load_workers_def Let_def split: sum.splits)
qed

lemma graph_error_None: "graph_error src w = None \<longleftrightarrow> valid_workflow w"
  using graph_problems_Nil [of src w] by (auto simp: graph_error_def split: list.splits)

text \<open>What the assembler hands to the control plane passed both validators, and it pins exactly the workers its
  nodes reference, each under its own \<open>id@version\<close> and with the content hash of the pinned definition.\<close>

theorem assembled_pinned:
  assumes "run_assembler env s dir base ref = Inr (asm, pc, c)"
  shows "graph_problems src (asm_workflow asm) = [] \<and>
    (\<exists>v src. new_validator (rn_schema env) (rn_embedded env) = Inr v \<and>
       validate_object (rn_schema env) (rn_marshal env) v ''workflow'' (asm_workflow asm) src = None) \<and>
    dom (asm_hashes asm) = dom (asm_workers asm) \<and>
    (\<forall>k w. asm_workers asm k = Some w \<longrightarrow> k \<in> used_workers (wf_nodes (asm_workflow asm)) \<and> worker_ref w = k \<and>
       worker_digest (rn_codec env) w (the (asm_hashes asm k)))"
proof -
  let ?p = "file_join dir ref"
  from assms obtain l where l: "load_with env ?p base = Inr l" "validate_workflow_file env (ld_workflow l) ?p = None"
    and asm: "asm_workflow asm = ld_workflow l" "asm_hashes asm = definition_hashes (ld_registry l) (wf_nodes (ld_workflow l))"
      "asm_workers asm = pinned_workers (ld_registry l) (wf_nodes (ld_workflow l))"
    by (auto simp: run_assembler_def Let_def split: sum.splits option.splits)
  note ok = load_with_registry [OF l(1)]
  have v: "\<exists>v src. new_validator (rn_schema env) (rn_embedded env) = Inr v \<and>
      validate_object (rn_schema env) (rn_marshal env) v ''workflow'' (ld_workflow l) src = None \<and> graph_error src (ld_workflow l) = None"
    using l(2) by (auto simp: validate_workflow_file_def Let_def split: sum.splits option.splits)
  then have "graph_problems src (ld_workflow l) = []" by (auto simp: graph_error_None graph_problems_Nil)
  moreover have "k \<in> used_workers (wf_nodes (ld_workflow l)) \<and> worker_ref w = k \<and> worker_digest (rn_codec env) w (the (asm_hashes asm k))"
    if "asm_workers asm k = Some w" for k w
  proof -
    from that obtain h where h: "worker_at (ld_registry l) k = Some (w, h)" "k \<in> used_workers (wf_nodes (ld_workflow l))"
      "asm_hashes asm k = Some h"
      by (auto simp: asm pinned_workers_exact definition_hashes_exact split: if_splits)
    from ok h(1) have "k = worker_ref w" "worker_digest (rn_codec env) w h" unfolding registry_ok_def by blast+
    with h show ?thesis by simp
  qed
  moreover have "dom (asm_hashes asm) = dom (asm_workers asm)"
    by (auto simp: asm pinned_workers_exact definition_hashes_exact split: if_splits)
  ultimately show ?thesis using v by (auto simp: asm)
qed

section \<open>A workflow directory to run the theorems on\<close>

definition run_flow :: workflow where
  "run_flow = reg_workflow ''1.0.0'' [reg_node ''a'' ''w@1.0.0'' None]"

definition run_dir :: runner_env where
  "run_dir =
     \<lparr>rn_codec = reg_codec\<lparr>cd_workflow := (\<lambda>w. if w = run_flow then Inr (JStr ''g'') else Inl (EMsg ''unsupported''))\<rparr>,
      rn_files = \<lparr>fc_yaml_dec = (\<lambda>b. Inr run_flow), fc_json_dec = (\<lambda>b. Inl (EMsg [])),
        fc_yaml_enc = (\<lambda>w. Inl (EMsg [])), fc_json_enc = (\<lambda>w. Inl (EMsg []))\<rparr>,
      rn_read = (\<lambda>p. if p = ''d/wee.yaml'' then Inl (ESentinel ErrNotExist) else Inr ''x''),
      rn_list = (\<lambda>d. Inr [(''f.yaml'', False), (''w.worker.yaml'', False)]),
      rn_dec_worker = (\<lambda>b. Inr (reg_worker ''x'')), rn_dec_config = (\<lambda>b. Inr zero_config), rn_env = Map.empty,
      rn_tree = (\<lambda>b. Inl (EMsg [])),
      rn_schema = \<lparr>sl_parse = (\<lambda>b. Inr JNull), sl_add = (\<lambda>rs i d. None), sl_compile = (\<lambda>rs i. Inr (\<lambda>g. Valid))\<rparr>,
      rn_embedded = Inr [], rn_marshal = (\<lambda>w. Inr [])\<rparr>"

lemma run_flow_valid: "graph_error src run_flow = None"
proof -
  have "graph_problems None run_flow = []" by code_simp
  then show ?thesis by (simp add: graph_error_None graph_problems_Nil)
qed

lemma run_dir_paths: "file_join ''d'' ''f.yaml'' = ''d/f.yaml''" "file_dir ''d/f.yaml'' = ''d''"
  "file_join ''d'' ''w.worker.yaml'' = ''d/w.worker.yaml''" "file_join ''d'' ''wee.yaml'' = ''d/wee.yaml''"
  by code_simp+

lemma run_dir_loads:
  "\<exists>l. load_with run_dir ''d/f.yaml'' base = Inr l \<and> ld_workflow l = run_flow \<and>
     ld_registry l = \<lparr>rg_workflows = [(''f@1.0.0'', run_flow, reg_hash ''g'')], rg_workers = [(''w@1.0.0'', reg_worker ''x'', reg_hash ''x'')]\<rparr> \<and>
     validate_workflow_file run_dir run_flow p = None"
proof -
  have w: "load_workflow (rn_files run_dir) (rn_read run_dir) ''d/f.yaml'' = Inr run_flow"
    by (simp add: load_workflow_def run_dir_def file_ext_def to_lower_def lower_char_def Let_def)
  have f: "wf_id run_flow = ''f''" "wf_version run_flow = ''1.0.0''" "workflow_ref run_flow = ''f@1.0.0''"
    by (simp_all add: run_flow_def reg_workflow_def workflow_ref_def)
  have r: "register_workflow (rn_codec run_dir) run_flow new_registry =
      Inr \<lparr>rg_workflows = [(''f@1.0.0'', run_flow, reg_hash ''g'')], rg_workers = []\<rparr>"
    using reg_versions by (simp add: register_workflow_def f new_registry_def run_dir_def reg_codec_def reg_hash_def Let_def)
  have k: "register_worker (rn_codec run_dir) (reg_worker ''x'') \<lparr>rg_workflows = [(''f@1.0.0'', run_flow, reg_hash ''g'')], rg_workers = []\<rparr> =
      Inr \<lparr>rg_workflows = [(''f@1.0.0'', run_flow, reg_hash ''g'')], rg_workers = [(''w@1.0.0'', reg_worker ''x'', reg_hash ''x'')]\<rparr>"
    using reg_versions
    by (simp add: register_worker_def reg_fields reg_names run_dir_def reg_codec_def reg_hash_def Let_def)
  have ws: "load_workers run_dir ''d/f.yaml'' \<lparr>rg_workflows = [(''f@1.0.0'', run_flow, reg_hash ''g'')], rg_workers = []\<rparr> =
      Inr \<lparr>rg_workflows = [(''f@1.0.0'', run_flow, reg_hash ''g'')], rg_workers = [(''w@1.0.0'', reg_worker ''x'', reg_hash ''x'')]\<rparr>"
    using k by (simp add: load_workers_def run_dir_paths Let_def) (simp add: run_dir_def run_dir_paths has_suffix_def)
  have c: "load_config (rn_dec_config run_dir) (rn_env run_dir) (rn_read run_dir) ''d'' = Inr (zero_config\<lparr>cf_workspace_root := ''.''\<rparr>)"
    by (simp add: load_config_def run_dir_paths) (simp add: run_dir_def is_err_def finish_config_def zero_config_def
        expand_required_env_def expand_vars_plain expand_defaults_plain)
  have "validate_workflow_file run_dir run_flow p = None"
    using run_flow_valid by (simp add: validate_workflow_file_def Let_def run_dir_def new_validator_def schema_id_def
        validate_object_def verdict_error_def)
  with w r ws c show ?thesis by (simp add: load_with_def run_dir_paths)
qed

lemma assembled_pinned_witness:
  "\<exists>asm pc c. run_assembler run_dir (Inr zero_settings) ''d'' ''.workflow'' ''f.yaml'' = Inr (asm, pc, c) \<and>
     asm_workers asm ''w@1.0.0'' = Some (reg_worker ''x'') \<and> graph_problems None (asm_workflow asm) = [] \<and>
     worker_digest (rn_codec run_dir) (reg_worker ''x'') (the (asm_hashes asm ''w@1.0.0''))"
proof -
  obtain l where l: "load_with run_dir ''d/f.yaml'' ''.workflow'' = Inr l" "ld_workflow l = run_flow"
    "rg_workers (ld_registry l) = [(''w@1.0.0'', reg_worker ''x'', reg_hash ''x'')]"
    "validate_workflow_file run_dir run_flow ''d/f.yaml'' = None"
    using run_dir_loads [of "''.workflow''" "''d/f.yaml''"] by auto
  obtain asm pc c where a: "run_assembler run_dir (Inr zero_settings) ''d'' ''.workflow'' ''f.yaml'' = Inr (asm, pc, c)"
    "asm_workers asm = pinned_workers (ld_registry l) (wf_nodes run_flow)"
    using l by (simp add: run_assembler_def run_dir_paths Let_def)
  have w: "asm_workers asm ''w@1.0.0'' = Some (reg_worker ''x'')"
    by (simp add: a(2) l(3) run_flow_def reg_workflow_def reg_node_def)
  with a(1) assembled_pinned [OF a(1), of None] show ?thesis by blast
qed

lemma workspace_env_expanded_witness:
  "expand_required_env [''ROOT_1'' \<mapsto> ''/srv''] ''${ROOT_1}'' = Inr ''/srv'' \<and>
   expand_required_env [''ROOT_1'' \<mapsto> ''/srv''] ''${ROOT_1:-x}'' = Inr ''/srv'' \<and>
   expand_required_env [''ROOT_1'' \<mapsto> ''/srv''] ''a/b'' = Inr ''a/b''"
  using workspace_env_expanded [of "''ROOT_1''" "''x''" "[''ROOT_1'' \<mapsto> ''/srv'']" "''a/b''"]
  by (simp add: env_name_def name_char_def name_start_def is_digit_def)

end
