(* ===== verification/Cli.thy ===== *)
theory Cli
  imports Runner ControlTheorems
begin

text \<open>
  The commands of \<open>wee\<close> (\<open>cli/cmd\<close>) without the text they print: exit codes, \<open>run\<close> with its live stream, \<open>validate\<close>,
  \<open>export\<close>, \<open>replay\<close>, \<open>inspect\<close>, \<open>list\<close> and \<open>init\<close>. A command gives the error it returns, if any, and what it did.
\<close>

section \<open>Exit codes\<close>

datatype cli_error = Coded int err | Uncoded err

definition exit_ok :: int where "exit_ok = 0"
definition exit_node_failure :: int where "exit_node_failure = 1"
definition exit_budget :: int where "exit_budget = 2"
definition exit_validation :: int where "exit_validation = 3"
definition exit_cancelled :: int where "exit_cancelled = 130"

lemmas exit_defs = exit_ok_def exit_node_failure_def exit_budget_def exit_validation_def exit_cancelled_def

definition coded :: "int \<Rightarrow> err option \<Rightarrow> cli_error option" where
  "coded code e = map_option (Coded code) e"

text \<open>The code, and what is printed on standard error.\<close>

definition process_exit_code :: "cli_error option \<Rightarrow> int \<times> string" where
  "process_exit_code r =
     (case r of
        None \<Rightarrow> (exit_ok, [])
      | Some (Coded code e) \<Rightarrow> (code, ''wee: '' @ err_msg e)
      | Some (Uncoded e) \<Rightarrow> (exit_node_failure, ''wee: '' @ err_msg e))"

definition exit_for_run :: "err option \<Rightarrow> cli_error option" where
  "exit_for_run r =
     (case r of
        None \<Rightarrow> None
      | Some e \<Rightarrow>
          if is_err ErrBudgetExceeded e then coded exit_budget r
          else if is_err ErrCancelled e \<or> is_err CtxCanceled e then coded exit_cancelled r
          else if is_err ErrMissingInput e then coded exit_validation r
          else coded exit_node_failure r)"

section \<open>run\<close>

record run_flags =
  rf_cache :: string
  rf_concurrency :: int
  rf_resume :: string
  rf_budget :: rat
  rf_workspace :: string
  rf_inputs :: "string \<rightharpoonup> string"
  rf_allow_mutations :: bool

definition parse_cache_mode :: "string \<Rightarrow> err + cache_mode" where
  "parse_cache_mode s =
     (if s = ''on'' \<or> s = [] then Inr CacheOn
      else if s = ''off'' then Inr CacheOff
      else if s = ''readonly'' then Inr CacheReadOnly
      else Inl (EMsg (''invalid --cache '' @ quote s @ '' (want on, off, or readonly)'')))"

definition budget_for :: "workflow \<Rightarrow> rat \<Rightarrow> budget" where
  "budget_for w override = (let b = wf_budget w in if 0 < override then b\<lparr>max_cost_usd := override\<rparr> else b)"

definition cli_run_options :: "run_flags \<Rightarrow> cache_mode \<Rightarrow> loaded \<Rightarrow> string \<Rightarrow> run_options" where
  "cli_run_options f mode l i =
     \<lparr>ro_execution_id = i, ro_concurrency = rf_concurrency f, ro_budget = budget_for (ld_workflow l) (rf_budget f),
      ro_backoff = 0, ro_backoff_max = 0, ro_cache = mode,
      ro_definition_hashes = definition_hashes (ld_registry l) (wf_nodes (ld_workflow l)),
      ro_workers = pinned_workers (ld_registry l) (wf_nodes (ld_workflow l)), ro_inputs = rf_inputs f,
      ro_connections = Map.empty, ro_allow_mutations = rf_allow_mutations f\<rparr>"

text \<open>The call of the engine, if it comes to one, and the error; \<open>engine\<close> gives what the call returns, \<open>mint\<close> is
  \<open>NewExecutionID\<close>.\<close>

definition run_command ::
  "runner_env \<Rightarrow> (string \<Rightarrow> string) \<Rightarrow> (engine_call \<Rightarrow> run_result option \<times> err option) \<Rightarrow> run_flags \<Rightarrow> string \<Rightarrow>
     engine_call option \<times> cli_error option" where
  "run_command env mint engine f p =
     (case parse_cache_mode (rf_cache f) of
        Inl e \<Rightarrow> (None, coded exit_validation (Some e))
      | Inr mode \<Rightarrow>
     (case load_with env p (rf_workspace f) of
        Inl e \<Rightarrow> (None, coded exit_validation (Some e))
      | Inr l \<Rightarrow>
     (case validate_workflow_file env (ld_workflow l) p of
        Some e \<Rightarrow> (None, coded exit_validation (Some e))
      | None \<Rightarrow>
          let call = (if rf_resume f = []
                then CallRun (ld_workflow l) (cli_run_options f mode l (mint (wf_id (ld_workflow l))))
                else CallResume (rf_resume f))
          in (Some call, exit_for_run (snd (engine call))))))"

text \<open>The streamer: how many events it emitted and what the renderer was given. A tick reads the log or fails to.\<close>

type_synonym 'e streamer = "nat \<times> 'e list"

definition streamer_tick :: "err + 'e list \<Rightarrow> 'e streamer \<Rightarrow> 'e streamer" where
  "streamer_tick r s =
     (case r of
        Inl e \<Rightarrow> s
      | Inr es \<Rightarrow> (max (fst s) (length es), snd s @ drop (fst s) es))"

section \<open>validate and export\<close>

definition validate_command :: "runner_env \<Rightarrow> string \<Rightarrow> cli_error option" where
  "validate_command env p =
     (case load_workflow (rn_files env) (rn_read env) p of
        Inl e \<Rightarrow> coded exit_validation (Some e)
      | Inr w \<Rightarrow> coded exit_validation (validate_workflow_file env w p))"

text \<open>The path and the entries of the archive that is written, or the error.\<close>

definition export_command ::
  "runner_env \<Rightarrow> (string \<Rightarrow> err option) \<Rightarrow> string \<Rightarrow> string \<Rightarrow> cli_error + string \<times> bundle_entries \<times> template_facts" where
  "export_command env write_fault p out =
     (case load_workflow (rn_files env) (rn_read env) p of
        Inl e \<Rightarrow> Inl (Coded exit_validation e)
      | Inr w \<Rightarrow>
     (case register_workflow (rn_codec env) w new_registry of
        Inl e \<Rightarrow> Inl (Coded exit_validation (registry_err e))
      | Inr r \<Rightarrow>
     (case load_workers env p r of
        Inl e \<Rightarrow> Inl (Coded exit_validation e)
      | Inr r \<Rightarrow>
     (case export_workflow (rn_codec env) r (wf_id w) (wf_version w) of
        Inl e \<Rightarrow> Inl (Coded exit_validation e)
      | Inr es \<Rightarrow>
          let dest = (if out = [] then wf_id w @ ''-'' @ wf_version w @ ''.tar'' else out)
          in (case write_fault dest of
                Some e \<Rightarrow> Inl (Uncoded (errorf ''write bundle: '' e []))
              | None \<Rightarrow> Inr (dest, es, derive_template_facts w))))))"

section \<open>replay, inspect and list\<close>

definition replay_audit_command :: "(string \<Rightarrow> err + timeline) \<Rightarrow> string \<Rightarrow> cli_error + timeline" where
  "replay_audit_command audit_fn i =
     (case audit_fn i of Inl e \<Rightarrow> Inl (Coded exit_validation e) | Inr t \<Rightarrow> Inr t)"

text \<open>\<open>reexec\<close> re-executes under a new id and gives its error; \<open>audit_new\<close> audits afterwards.\<close>

definition replay_execute_command ::
  "runner_env \<Rightarrow> (string \<Rightarrow> string) \<Rightarrow> (string \<Rightarrow> err + timeline) \<Rightarrow> (string \<Rightarrow> string \<Rightarrow> err option) \<Rightarrow>
   (string \<Rightarrow> err + timeline) \<Rightarrow> string \<Rightarrow> string \<Rightarrow> string \<Rightarrow> cli_error + node_divergence list" where
  "replay_execute_command env mint audit_old reexec audit_new wf_path ws i =
     (if wf_path = []
      then Inl (Coded exit_validation (EMsg
        ''--execute needs --workflow <path> to load the Workers any re-executed node requires''))
      else case load_with env wf_path ws of
        Inl e \<Rightarrow> Inl (Coded exit_validation e)
      | Inr l \<Rightarrow>
     (case audit_old i of
        Inl e \<Rightarrow> Inl (Coded exit_validation e)
      | Inr original \<Rightarrow>
          let new = mint (wf_id (tm_workflow original)) in
          (case exit_for_run (reexec i new) of
             Some e \<Rightarrow> Inl e
           | None \<Rightarrow>
               (case audit_new new of
                  Inl e \<Rightarrow> Inl (Uncoded (errorf ''audit re-execution: '' e []))
                | Inr again \<Rightarrow> Inr (divergence original again)))))"

definition inspect_node :: "timeline \<Rightarrow> string \<Rightarrow> cli_error + audit_node" where
  "inspect_node tln i =
     (case map_of (tm_nodes tln) i of
        None \<Rightarrow> Inl (Coded exit_validation (EMsg (''no node '' @ quote i @ '' in execution '' @ tm_exec tln)))
      | Some rec \<Rightarrow> Inr rec)"

text \<open>The last start and the last finish of a node; the zero time is 0 here.\<close>

fun node_times :: "string \<Rightarrow> event list \<Rightarrow> int \<times> int \<Rightarrow> int \<times> int" where
  "node_times i [] t = t"
| "node_times i (ev # evs) t =
     (if ev_node ev \<noteq> i then node_times i evs t
      else if ev_type ev = WorkerStarted then node_times i evs (ev_time ev, snd t)
      else if ev_type ev = WorkerFinished then node_times i evs (fst t, ev_time ev)
      else node_times i evs t)"

definition node_duration :: "event list \<Rightarrow> string \<Rightarrow> int option" where
  "node_duration evs i =
     (case node_times i evs (0, 0) of (s, f) \<Rightarrow> if s = 0 \<or> f = 0 then None else Some (f - s))"

definition find_workflows :: "runner_env \<Rightarrow> string \<Rightarrow> string list" where
  "find_workflows env dir =
     (case rn_list env dir of
        Inl e \<Rightarrow> []
      | Inr es \<Rightarrow>
          sort (concat (map (\<lambda>(name, is_dir).
            if is_dir \<or> (file_ext name \<noteq> ''.yaml'' \<and> file_ext name \<noteq> ''.yml'') then []
            else case load_workflow (rn_files env) (rn_read env) (file_join dir name) of
              Inl e \<Rightarrow> []
            | Inr w \<Rightarrow>
                if wf_id w = [] \<or> wf_nodes w = [] then []
                else [name @ ''  ('' @ wf_id w @ ''@'' @ wf_version w @ '')'']) es)))"

definition list_executions :: "(string \<Rightarrow> err + (string \<times> bool) list) \<Rightarrow> string \<Rightarrow> string list" where
  "list_executions listing ws =
     (case listing (file_join ws ''executions'') of
        Inl e \<Rightarrow> []
      | Inr es \<Rightarrow> sort (map fst (filter snd es)))"

section \<open>init\<close>

text \<open>\<open>Stat\<close>, \<open>MkdirAll\<close> and \<open>WriteFile\<close> can fail; files are what they hold, directories are not kept.\<close>

datatype init_op = InitStat string | InitMkdir string | InitWrite string

definition write_if_absent ::
  "(init_op \<Rightarrow> err option) \<Rightarrow> string \<Rightarrow> bytes \<Rightarrow> files \<Rightarrow> (err + bool) \<times> files" where
  "write_if_absent fault p b d =
     (case (case fault (InitStat p) of Some e \<Rightarrow> Some e | None \<Rightarrow> if d p = None then Some (ESentinel ErrNotExist) else None) of
        None \<Rightarrow> (Inr False, d)
      | Some e \<Rightarrow>
          if \<not> is_err ErrNotExist e then (Inl (errorf (''stat '' @ p @ '': '') e []), d)
          else (case fault (InitWrite p) of
                  Some e \<Rightarrow> (Inl (errorf (''write '' @ p @ '': '') e []), d)
                | None \<Rightarrow> (Inr True, d(p \<mapsto> b))))"

fun init_files :: "(init_op \<Rightarrow> err option) \<Rightarrow> (string \<times> bytes) list \<Rightarrow> files \<Rightarrow> err option \<times> files" where
  "init_files fault [] d = (None, d)"
| "init_files fault ((p, b) # fs) d =
     (case write_if_absent fault p b d of
        (Inl e, d) \<Rightarrow> (Some e, d)
      | (Inr wrote, d) \<Rightarrow> init_files fault fs d)"

definition hello_workflow :: bytes where
  "hello_workflow = text_lines
    [''# The smallest runnable workflow: one Worker, no tools, no inputs.'',
     ''# Run it with:  wee run examples/hello.yaml   (needs OPENAI_API_KEY)'',
     ''id: hello'',
     ''version: 1.0.0'',
     ''nodes:'',
     ''  - id: greet'',
     ''    worker: greeter@1.0.0'',
     ''edges: []'',
     ''budget:'',
     ''  maxCostUsd: 0.05'',
     ''  maxTokens: 500'',
     ''  maxDurationMs: 30000'',
     ''  maxRetriesPerNode: 1'',
     '''']"

definition greeter_worker :: bytes where
  "greeter_worker = text_lines
    [''# The Worker greet@1.0.0 references. A tight output contract (one bounded'',
     ''# string) keeps the model on task '' @ em_dash @ '' see examples/pr-review for a richer one.'',
     ''id: greeter'',
     ''version: 1.0.0'',
     ''objective: Greet the user warmly in one short sentence.'',
     ''constraints:'',
     ''  - Keep it to a single friendly sentence.'',
     ''tools: []'',
     ''contextPolicy:'',
     ''  mode: none'',
     ''contract:'',
     ''  goal: Produce a short, friendly greeting.'',
     ''  rules:'',
     ''    - One sentence, warm and concise.'',
     ''  successCriteria:'',
     ''    - The greeting is a single sentence.'',
     ''  maxRetries: 1'',
     ''  outputSchema:'',
     ''    type: object'',
     ''    additionalProperties: false'',
     ''    required: [greeting]'',
     ''    properties:'',
     ''      greeting:'',
     ''        type: string'',
     ''        maxLength: 200'',
     ''model:'',
     ''  provider: openai'',
     ''  model: gpt-4o-mini'',
     ''  params:'',
     ''    temperature: 0'',
     '''']"

definition init_command :: "(init_op \<Rightarrow> err option) \<Rightarrow> files \<Rightarrow> cli_error option \<times> files" where
  "init_command fault d =
     (case fault (InitMkdir ''.workflow'') of
        Some e \<Rightarrow> (Some (Uncoded (errorf ''create .workflow: '' e [])), d)
      | None \<Rightarrow>
     (case fault (InitMkdir ''examples'') of
        Some e \<Rightarrow> (Some (Uncoded (errorf ''create examples/: '' e [])), d)
      | None \<Rightarrow>
     (case init_files fault [(''examples/hello.yaml'', hello_workflow), (''examples/greeter.worker.yaml'', greeter_worker)] d of
        (e, d) \<Rightarrow> (map_option Uncoded e, d))))"

section \<open>What the exit code says\<close>



text \<open>A run whose node failed under the policy to continue is reported as failed and exits with zero.\<close>

definition continue_env :: sched_env where
  "continue_env = sample_env\<lparr>se_wf := sample_wf\<lparr>wf_nodes := [(sample_node ''a'')
     \<lparr>node_on_failure := Some \<lparr>fp_mode = FailContinue, fp_fallback = []\<rparr>\<rparr>], wf_edges := []\<rparr>\<rparr>"

definition continue_done :: sched where
  "continue_done =
     (case run_begin continue_env (\<lambda>_. None) [] True 0 None of
        Inl x \<Rightarrow> init_sched continue_env [] 0 None
      | Inr s \<Rightarrow>
          (case sched_run continue_env [ActDispatch, ActComplete 0 (Inl (EMsg ''boom''))] s of
             Some s \<Rightarrow> s | None \<Rightarrow> s))"

lemma continued_failure_exits_zero:
  "state_of continue_done ''a'' = StateFailed \<and> \<not> loop_guard continue_done \<and>
   rr_state (fst (snd (run_finish continue_env [''a''] continue_done))) = ExecutionFailed \<and>
   fst (process_exit_code (exit_for_run (snd (snd (run_finish continue_env [''a''] continue_done))))) = exit_ok"
  by code_simp

section \<open>Nothing runs that was not validated\<close>


definition plain_flags :: run_flags where
  "plain_flags = \<lparr>rf_cache = ''on'', rf_concurrency = 0, rf_resume = [], rf_budget = 0, rf_workspace = ''.workflow'',
     rf_inputs = Map.empty, rf_allow_mutations = False\<rparr>"


section \<open>The stream shows the log\<close>

text \<open>The renderer is given the whole log, each event once and in order, if the last tick reads it: whatever the ticks
  before it read of it, and whichever of them failed.\<close>

lemma streamer_complete:
  assumes "\<forall>es. Inr es \<in> set ticks \<longrightarrow> prefix es full"
  shows "streamer_tick (Inr full) (fold streamer_tick ticks (0, [])) = (length full, full)"
proof -
  have "fst (fold streamer_tick ticks s) \<le> length full \<and>
      snd (fold streamer_tick ticks s) = take (fst (fold streamer_tick ticks s)) full"
    if "fst s \<le> length full \<and> snd s = take (fst s) full" for s
    using assms that
  proof (induction ticks arbitrary: s)
    case (Cons r ticks)
    have "fst (streamer_tick r s) \<le> length full \<and> snd (streamer_tick r s) = take (fst (streamer_tick r s)) full"
    proof (cases r)
      case (Inr es)
      with Cons.prems(1) have "prefix es full" by simp
      then obtain zs where full: "full = es @ zs" by (auto simp: prefix_def)
      show ?thesis
      proof (cases "fst s \<le> length es")
        case True
        have "take (fst s) es @ drop (fst s) es = es" by simp
        with True Cons.prems(2) Inr show ?thesis by (simp add: streamer_tick_def full max_def del: append_take_drop_id)
      next
        case False
        with Cons.prems(2) Inr show ?thesis by (simp add: streamer_tick_def full max_def)
      qed
    qed (use Cons.prems(2) in \<open>simp add: streamer_tick_def\<close>)
    with Cons.IH [of "streamer_tick r s"] Cons.prems(1) show ?case by simp
  qed simp
  from this [of "(0, [])"] show ?thesis
    by (cases "fold streamer_tick ticks (0, [])") (auto simp: streamer_tick_def max_def)
qed

section \<open>init never overwrites\<close>

text \<open>Whatever fails, a file that was there is unchanged, unless \<open>Stat\<close> denies it, and no file but the two examples appears.\<close>

lemma init_keeps_files:
  assumes "init_command fault d = (r, d')" and "\<And>p e. fault (InitStat p) = Some e \<Longrightarrow> \<not> is_err ErrNotExist e"
  shows "(d q \<noteq> None \<longrightarrow> d' q = d q) \<and> (d' q \<noteq> d q \<longrightarrow> q = ''examples/hello.yaml'' \<or> q = ''examples/greeter.worker.yaml'')"
proof -
  have one: "(d q \<noteq> None \<longrightarrow> d' q = d q) \<and> (d' q \<noteq> d q \<longrightarrow> q = p)" if "write_if_absent fault p b d = (r, d')" for p b d d' r
    using that assms(2) [of p] by (auto simp: write_if_absent_def split: option.splits if_splits)
  obtain r1 d1 where w: "write_if_absent fault ''examples/hello.yaml'' hello_workflow d = (r1, d1)" by fastforce
  obtain r2 d2 where x: "write_if_absent fault ''examples/greeter.worker.yaml'' greeter_worker d1 = (r2, d2)" by fastforce
  have "d' = d \<or> d' = d1 \<or> d' = d2"
    using assms(1) w x by (auto simp: init_command_def split: option.splits prod.splits sum.splits)
  with one [OF w] one [OF x] show ?thesis by metis
qed

end
