(* ===== verification/Router.thy ===== *)
theory Router
  imports Cli
begin

text \<open>
  The HTTP front of the control plane (\<open>core/server/server.go\<close>): the routes \<open>New\<close> registers, the multiplexer of
  \<open>net/http\<close> as far as they use it, the cross-origin wrapper, the files of the web interface, and the whole server as one
  function from a request to the reply and the new state. A request that is not for a route's path or method is
  answered by the multiplexer. \<open>CONNECT\<close>, which no route takes, is left out; \<open>ListenAndServe\<close> is not modelled. \<open>wee serve\<close>
  (\<open>cli/cmd/serve.go\<close>) starts this server.
\<close>

section \<open>Paths of requests\<close>

definition is_hex :: "char \<Rightarrow> bool" where
  "is_hex c \<longleftrightarrow> (let n = (of_char c :: nat) in (48 \<le> n \<and> n \<le> 57) \<or> (65 \<le> n \<and> n \<le> 70) \<or> (97 \<le> n \<and> n \<le> 102))"

definition hex_num :: "char \<Rightarrow> nat" where
  "hex_num c = (let n = (of_char c :: nat) in if n \<le> 57 then n - 48 else if n \<le> 70 then n - 55 else n - 87)"

text \<open>\<open>url.PathUnescape\<close>; an invalid escape leaves the segment as it is.\<close>

fun pct_decode :: "string \<Rightarrow> string option" where
  "pct_decode [] = Some []"
| "pct_decode (c # cs) =
     (if c = CHR ''%'' then
        (case cs of
           a # b # r \<Rightarrow>
             if is_hex a \<and> is_hex b then map_option (Cons (char_of (16 * hex_num a + hex_num b))) (pct_decode r) else None
         | _ \<Rightarrow> None)
      else map_option (Cons c) (pct_decode cs))"

definition path_unescape :: "string \<Rightarrow> string" where
  "path_unescape s = (case pct_decode s of None \<Rightarrow> s | Some t \<Rightarrow> t)"

text \<open>\<open>cleanPath\<close>: the clean form, with the trailing slash.\<close>

definition clean_url :: "string \<Rightarrow> string" where
  "clean_url p =
     (let np = ''/'' @ join ''/'' (join_clean [] p)
      in if p \<noteq> [] \<and> last p = CHR ''/'' \<and> np \<noteq> ''/'' then np @ ''/'' else np)"

text \<open>The segments of a clean path, unescaped one by one; a trailing slash is a segment of its own.\<close>

definition url_segments :: "string \<Rightarrow> string list" where
  "url_segments p = map (\<lambda>s. if s = [] then ''/'' else path_unescape s) (split_on CHR ''/'' (tl p))"

section \<open>Routes\<close>

datatype endpoint =
    EpHealth | EpList | EpAudit | EpEvents | EpProgress | EpBundle | EpRun | EpCancel | EpRetry | EpReexecute
  | EpApprovals | EpApprove | EpReject | EpCacheClear | EpGetSettings | EpPutSettings | EpTemplates | EpImport
  | EpWorkerVersions | EpSaveWorker | EpSecretsStatus | EpSetSecret | EpUnsetSecret | EpUI

definition routes :: "(string \<times> string \<times> endpoint) list" where
  "routes =
    [(''GET'', ''/healthz'', EpHealth),
     (''GET'', ''/api/executions'', EpList),
     (''GET'', ''/api/executions/{id}'', EpAudit),
     (''GET'', ''/api/executions/{id}/events'', EpEvents),
     (''GET'', ''/api/executions/{id}/progress'', EpProgress),
     (''GET'', ''/api/executions/{id}/bundle'', EpBundle),
     (''POST'', ''/api/run'', EpRun),
     (''POST'', ''/api/executions/{id}/cancel'', EpCancel),
     (''POST'', ''/api/executions/{id}/resume'', EpRetry),
     (''POST'', ''/api/executions/{id}/retry'', EpRetry),
     (''POST'', ''/api/executions/{id}/reexecute'', EpReexecute),
     (''GET'', ''/api/executions/{id}/approvals'', EpApprovals),
     (''POST'', ''/api/executions/{id}/approvals/{checkpoint}/approve'', EpApprove),
     (''POST'', ''/api/executions/{id}/approvals/{checkpoint}/reject'', EpReject),
     (''POST'', ''/api/cache/clear'', EpCacheClear),
     (''GET'', ''/api/settings'', EpGetSettings),
     (''PUT'', ''/api/settings'', EpPutSettings),
     (''GET'', ''/api/templates'', EpTemplates),
     (''POST'', ''/api/templates/{name}/import'', EpImport),
     (''GET'', ''/api/workers/{id}'', EpWorkerVersions),
     (''POST'', ''/api/workers'', EpSaveWorker),
     (''GET'', ''/api/secrets'', EpSecretsStatus),
     (''POST'', ''/api/secrets'', EpSetSecret),
     (''DELETE'', ''/api/secrets'', EpUnsetSecret)]"

text \<open>A pattern's segments: a name in braces stands for one segment that is not the trailing slash.\<close>

definition is_wild :: "string \<Rightarrow> bool" where
  "is_wild p \<longleftrightarrow> has_prefix p ''{''"

fun match_segments :: "string list \<Rightarrow> string list \<Rightarrow> string list option" where
  "match_segments [] [] = Some []"
| "match_segments (p # ps) (s # ss) =
     (if is_wild p then (if s = ''/'' then None else map_option (Cons s) (match_segments ps ss))
      else if p = s then match_segments ps ss else None)"
| "match_segments ps ss = None"

definition match_route :: "string list \<Rightarrow> string \<times> string \<times> endpoint \<Rightarrow> string list option" where
  "match_route ss r = match_segments (split_on CHR ''/'' (tl (fst (snd r)))) ss"

text \<open>No path matches two routes of one method (\<open>routes_unambiguous\<close>), so the order does not matter. The pattern of the
  web interface, \<open>GET /\<close>, takes what no other route of the method takes.\<close>

definition find_route :: "bool \<Rightarrow> string \<Rightarrow> string list \<Rightarrow> (endpoint \<times> string list) option" where
  "find_route ui m ss =
     (case List.map_filter (\<lambda>r. if fst r = m then map_option (Pair (snd (snd r))) (match_route ss r) else None) routes of
        x # xs \<Rightarrow> Some x
      | [] \<Rightarrow> if ui \<and> m = ''GET'' then Some (EpUI, []) else None)"

text \<open>\<open>HEAD\<close> falls back to the routes of \<open>GET\<close>.\<close>

definition mux_match :: "bool \<Rightarrow> string \<Rightarrow> string list \<Rightarrow> (endpoint \<times> string list) option" where
  "mux_match ui m ss = find_route ui (if m = ''HEAD'' then ''GET'' else m) ss"

definition allowed_methods :: "bool \<Rightarrow> string list \<Rightarrow> string list" where
  "allowed_methods ui ss = filter (\<lambda>m. mux_match ui m ss \<noteq> None) [''DELETE'', ''GET'', ''HEAD'', ''POST'', ''PUT'']"

datatype routed =
    Preflight
  | RedirectTo string
  | MethodNotAllowed "string list"
  | NoRoute
  | To endpoint "string list"

definition route_request :: "bool \<Rightarrow> string \<Rightarrow> string \<Rightarrow> routed" where
  "route_request ui m p =
     (if m = ''OPTIONS'' then Preflight
      else if clean_url p \<noteq> p then RedirectTo (clean_url p)
      else let ss = url_segments p in
        case mux_match ui m ss of
          Some (ep, vs) \<Rightarrow> To ep vs
        | None \<Rightarrow> if allowed_methods ui ss = [] then NoRoute else MethodNotAllowed (allowed_methods ui ss))"

section \<open>The web interface\<close>

text \<open>\<open>handleUI\<close> finds the file: what the clean path names below the directory, or the index for what is no file there.\<close>

definition ui_file :: "(path \<Rightarrow> err + bool) \<Rightarrow> path \<Rightarrow> string \<Rightarrow> path" where
  "ui_file stat dir p =
     (let c = join_clean [] (''/'' @ p);
          f = dir @ (if c = [] then [''index.html''] else c)
      in case stat f of Inr False \<Rightarrow> f | _ \<Rightarrow> dir @ [''index.html''])"

text \<open>\<open>http.ServeFile\<close>: paths with a parent element are refused, and those of an index page are redirected.\<close>

definition dot_dot :: "string \<Rightarrow> bool" where
  "dot_dot p \<longleftrightarrow> ''..'' \<in> set (concat (map (split_on CHR 0x5C) (split_on CHR ''/'' p)))"

datatype ui_reply = UiInvalid | UiRedirect string | UiServe path

definition handle_ui :: "(path \<Rightarrow> err + bool) \<Rightarrow> path \<Rightarrow> string \<Rightarrow> ui_reply" where
  "handle_ui stat dir p =
     (if dot_dot p then UiInvalid
      else if has_suffix p ''/index.html'' then UiRedirect ''./''
      else UiServe (ui_file stat dir p))"

section \<open>The server\<close>

record web_request =
  wq_method :: string
  wq_path :: string
  wq_query :: "string \<Rightarrow> string"
  wq_body :: bytes

text \<open>The decoders of the bodies, what listing a directory gives, and the environments of the two halves of the server.
  \<open>hs_dec_from\<close> is the node named in the body of a retry, empty when the body does not decode.\<close>

record router_env =
  hs_cwd :: path
  hs_server :: server_env
  hs_gallery :: gallery_env
  hs_ui :: "path option"
  hs_stat :: "path \<Rightarrow> err + bool"
  hs_list :: "path \<Rightarrow> tree \<Rightarrow> err + dir_listing"
  hs_mkdir :: "path \<Rightarrow> err option"
  hs_dec_run :: "bytes \<Rightarrow> err + Control.run_request"
  hs_dec_from :: "bytes \<Rightarrow> string"
  hs_dec_clear :: "bytes \<Rightarrow> err + clear_request"
  hs_dec_settings :: "bytes \<Rightarrow> err + settings"
  hs_dec_secret :: "bytes \<Rightarrow> err + string \<times> string"
  hs_dec_save :: "bytes \<Rightarrow> err + worker \<times> string"
  hs_dec_worker :: "bytes \<Rightarrow> err + worker"
  hs_schema :: schema_lib
  hs_validator :: "(string \<times> compiled) list"
  hs_json_worker :: "worker \<Rightarrow> err + bytes"
  hs_json_schema :: "payload \<Rightarrow> err + bytes"

datatype http_reply =
    HttpStatus int
  | HttpRedirect string
  | HttpText string
  | HttpError int string
  | HttpApi reply
  | HttpStream string
  | HttpTemplates "template list"
  | HttpImported path workflow
  | HttpVersions "worker list"
  | HttpSaved worker
  | HttpUi ui_reply

type_synonym site = "server \<times> tree"

definition path_text :: "path \<Rightarrow> string" where
  "path_text p = ''/'' @ join ''/'' p"

definition handle_list_worker_versions :: "router_env \<Rightarrow> string \<Rightarrow> string \<Rightarrow> tree \<Rightarrow> http_reply" where
  "handle_list_worker_versions env i dir d =
     (let scan = join_clean (ga_dir (hs_gallery env)) dir in
      case scan_worker_versions (hs_dec_worker env) (path_text scan) (hs_list env scan d) i of
        Inl e \<Rightarrow> HttpError 500 (err_msg e)
      | Inr ws \<Rightarrow> HttpVersions ws)"

definition handle_save_worker :: "router_env \<Rightarrow> err + worker \<times> string \<Rightarrow> tree \<Rightarrow> http_reply \<times> tree" where
  "handle_save_worker env request d =
     (let dir = (case request of Inl e \<Rightarrow> [] | Inr (w, dir) \<Rightarrow> dir);
          scan = join_clean (ga_dir (hs_gallery env)) dir
      in case save_worker
            (\<lambda>w. map_option schema_failure
               (validate_object (hs_schema env) (hs_json_worker env) (hs_validator env) ''worker'' w None))
            (\<lambda>sch. case compile_schema (hs_schema env) (hs_json_schema env) sch of Inl e \<Rightarrow> Some e | Inr c \<Rightarrow> None)
            (hs_dec_worker env) (ga_yaml_worker (hs_gallery env)) (hs_mkdir env scan)
            (\<lambda>name. ga_write (hs_gallery env) (join_clean scan name)) (path_text scan) (hs_list env scan d)
            (map_sum id fst request) of
           Inl (code, m) \<Rightarrow> (HttpError code m, d)
         | Inr (w, name, b) \<Rightarrow> (HttpSaved w, d(join_clean scan name \<mapsto> b)))"

text \<open>The endpoints that act on the runs, the cache, the settings or the environment, as requests of \<open>ControlTheorems\<close>.\<close>

fun control_request :: "router_env \<Rightarrow> web_request \<Rightarrow> endpoint \<Rightarrow> string list \<Rightarrow> request option" where
  "control_request env q EpRun vs = Some (ReqRun (hs_dec_run env (wq_body q)))"
| "control_request env q EpCancel [i] = Some (ReqCancel i)"
| "control_request env q EpRetry [i] = Some (ReqRetry i (hs_dec_from env (wq_body q)))"
| "control_request env q EpReexecute [i] = Some (ReqReexecute i)"
| "control_request env q EpApprove [i, cp] = Some (ReqApprove i cp)"
| "control_request env q EpReject [i, cp] = Some (ReqReject i cp)"
| "control_request env q EpCacheClear vs = Some (ReqClear (hs_dec_clear env (wq_body q)))"
| "control_request env q EpPutSettings vs = Some (ReqSettings (hs_dec_settings env (wq_body q)))"
| "control_request env q EpSetSecret vs = Some (ReqSetSecret (hs_dec_secret env (wq_body q)))"
| "control_request env q EpUnsetSecret vs = Some (ReqUnsetSecret (wq_query q ''name''))"
| "control_request env q ep vs = None"

fun read_endpoint :: "router_env \<Rightarrow> web_request \<Rightarrow> endpoint \<Rightarrow> string list \<Rightarrow> site \<Rightarrow> http_reply" where
  "read_endpoint env q EpHealth vs st = HttpText ''ok''"
| "read_endpoint env q EpList vs st = HttpApi (handle_list (hs_server env) (fst st))"
| "read_endpoint env q EpAudit [i] st = HttpApi (handle_audit (hs_server env) i (fst st))"
| "read_endpoint env q EpEvents [i] st = HttpStream i"
| "read_endpoint env q EpProgress [i] st = HttpApi (handle_progress (hs_server env) i (fst st))"
| "read_endpoint env q EpBundle [i] st = HttpApi (handle_bundle (hs_server env) i (fst st))"
| "read_endpoint env q EpApprovals [i] st = HttpApi (handle_list_approvals (hs_server env) i (fst st))"
| "read_endpoint env q EpGetSettings vs st = HttpApi (handle_get_settings (hs_server env) (fst st))"
| "read_endpoint env q EpTemplates vs st =
     HttpTemplates (handle_list_templates (ga_codec (hs_gallery env)) (ga_untar (hs_gallery env)) (ga_templates (hs_gallery env))
       (case ga_templates (hs_gallery env) of None \<Rightarrow> Inr [] | Some dir \<Rightarrow> hs_list env dir (snd st)))"
| "read_endpoint env q EpWorkerVersions [i] st = handle_list_worker_versions env i (wq_query q ''dir'') (snd st)"
| "read_endpoint env q EpSecretsStatus vs st = HttpApi (handle_secrets_status (wq_query q ''names'') (fst st))"
| "read_endpoint env q EpUI vs st =
     (case hs_ui env of None \<Rightarrow> HttpStatus 404
      | Some dir \<Rightarrow> HttpUi (handle_ui (hs_stat env) dir (path_unescape (wq_path q))))"
| "read_endpoint env q ep vs st = HttpStatus 404"

definition serve_endpoint :: "router_env \<Rightarrow> web_request \<Rightarrow> endpoint \<Rightarrow> string list \<Rightarrow> site \<Rightarrow> http_reply \<times> site" where
  "serve_endpoint env q ep vs st =
     (case control_request env q ep vs of
        Some r \<Rightarrow> (case serve (hs_server env) r (fst st) of (rp, sv) \<Rightarrow> (HttpApi rp, (sv, snd st)))
      | None \<Rightarrow>
          if ep = EpImport then
            (case handle_import_template (hs_gallery env) (hd vs) (snd st) of
               (Inl (code, m), d) \<Rightarrow> (HttpError code m, (fst st, d))
             | (Inr (p, w), d) \<Rightarrow> (HttpImported p w, (fst st, d)))
          else if ep = EpSaveWorker then
            (case handle_save_worker env (hs_dec_save env (wq_body q)) (snd st) of (rp, d) \<Rightarrow> (rp, (fst st, d)))
          else (read_endpoint env q ep vs st, st))"

definition http_serve :: "router_env \<Rightarrow> web_request \<Rightarrow> site \<Rightarrow> http_reply \<times> site" where
  "http_serve env q st =
     (case route_request (hs_ui env \<noteq> None) (wq_method q) (wq_path q) of
        Preflight \<Rightarrow> (HttpStatus 204, st)
      | RedirectTo p \<Rightarrow> (HttpRedirect p, st)
      | MethodNotAllowed ms \<Rightarrow> (HttpStatus 405, st)
      | NoRoute \<Rightarrow> (HttpStatus 404, st)
      | To ep vs \<Rightarrow> serve_endpoint env q ep vs st)"

section \<open>Starting it\<close>

text \<open>The flags of \<open>wee serve\<close> but the address. \<open>serve_assembler\<close> reads files and settings anew on each call.\<close>

record serve_flags =
  sf_workspace :: string
  sf_dir :: string
  sf_cache :: string
  sf_templates :: string
  sf_ui :: string

definition serve_assembler :: "runner_env \<Rightarrow> err + settings \<Rightarrow> serve_flags \<Rightarrow> string \<Rightarrow> err + assembly" where
  "serve_assembler renv s f ref = map_sum id fst (run_assembler renv s (sf_dir f) (sf_workspace f) ref)"

text \<open>\<open>New\<close>: the server, or the message of its panic.\<close>

definition new_server ::
  "runner_env \<Rightarrow> err + settings \<Rightarrow> (string \<Rightarrow> string) \<Rightarrow> serve_flags \<Rightarrow> cache_mode \<Rightarrow> router_env \<Rightarrow> string + router_env" where
  "new_server renv s mint f mode env =
     (case new_validator (rn_schema renv) (rn_embedded renv) of
        Inl e \<Rightarrow> Inl (''core/server: embedded schemas failed to compile: '' @ err_msg e)
      | Inr v \<Rightarrow>
          let absolute = abs_path (hs_cwd env);
              opt = (\<lambda>p. if p = [] then None else Some (absolute p))
          in Inr (env\<lparr>hs_server := (hs_server env)\<lparr>sc_assemble := Some (serve_assembler renv s f), sc_new_id := Some mint,
                                                sc_default_cache := mode\<rparr>,
                      hs_gallery := (hs_gallery env)\<lparr>ga_templates := opt (sf_templates f),
                                                  ga_dir := absolute (if sf_dir f = [] then ''.'' else sf_dir f),
                                                  ga_workspace := absolute (sf_workspace f)\<rparr>,
                      hs_ui := opt (sf_ui f), hs_schema := rn_schema renv, hs_validator := v\<rparr>))"

datatype serve_result = ServeError cli_error | ServePanic string | Listening router_env server

text \<open>\<open>stat\<close> is \<open>os.Stat\<close>: the error, if any. What follows \<open>Listening\<close> is \<open>http_serve\<close>.\<close>

definition serve_command ::
  "runner_env \<Rightarrow> err + settings \<Rightarrow> (string \<Rightarrow> err option) \<Rightarrow> (string \<Rightarrow> string) \<Rightarrow> serve_flags \<Rightarrow> router_env \<Rightarrow> server \<Rightarrow>
     serve_result" where
  "serve_command renv s stat mint f env sv =
     (case parse_cache_mode (sf_cache f) of
        Inl e \<Rightarrow> ServeError (Coded exit_validation e)
      | Inr mode \<Rightarrow>
     (case (if sf_ui f = [] then None else stat (file_join (sf_ui f) ''index.html'')) of
        Some e \<Rightarrow> ServeError (Coded exit_validation
          (errorf (''--ui-dir '' @ sf_ui f @ '' does not contain index.html: '') e []))
      | None \<Rightarrow>
     (case new_server renv s mint f mode env of
        Inl m \<Rightarrow> ServePanic m
      | Inr env \<Rightarrow> Listening env (server_start (hs_server env) sv))))"

section \<open>No path has two routes\<close>

fun overlap :: "string list \<Rightarrow> string list \<Rightarrow> bool" where
  "overlap [] [] = True"
| "overlap (p # ps) (q # qs) = ((is_wild p \<or> is_wild q \<or> p = q) \<and> overlap ps qs)"
| "overlap ps qs = False"

lemma match_overlap: "match_segments ps ss = Some vs \<Longrightarrow> match_segments qs ss = Some us \<Longrightarrow> overlap ps qs"
proof (induction ps ss arbitrary: qs vs us rule: match_segments.induct)
  case 1
  then show ?case by (cases qs) auto
next
  case (2 p ps s ss)
  show ?case
  proof (cases qs)
    case (Cons q qs')
    from 2 show ?thesis by (auto simp: Cons split: if_splits)
  qed (use 2 in simp)
qed auto

definition apart :: "string \<times> string \<times> endpoint \<Rightarrow> string \<times> string \<times> endpoint \<Rightarrow> bool" where
  "apart r s \<longleftrightarrow> fst r \<noteq> fst s \<or>
     \<not> overlap (split_on CHR ''/'' (tl (fst (snd r)))) (split_on CHR ''/'' (tl (fst (snd s))))"

lemma routes_apart: "sorted_wrt apart routes"
  by code_simp

lemma apart_sym: "apart r s = apart s r"
proof -
  have "overlap ps qs = overlap qs ps" for ps qs by (induction ps qs rule: overlap.induct) auto
  then show ?thesis by (auto simp: apart_def)
qed

lemma routes_unambiguous:
  assumes "r \<in> set routes" and "s \<in> set routes" and "fst r = fst s" and "match_route ss r = Some vs" and "match_route ss s = Some us"
  shows "r = s"
proof (rule ccontr)
  assume "r \<noteq> s"
  obtain i j where "i < length routes" "j < length routes" "r = routes ! i" "s = routes ! j"
    using assms(1,2) by (metis in_set_conv_nth)
  with \<open>r \<noteq> s\<close> have "apart r s" using routes_apart apart_sym
    by (metis linorder_neqE_nat sorted_wrt_nth_less)
  moreover have "overlap (split_on CHR ''/'' (tl (fst (snd r)))) (split_on CHR ''/'' (tl (fst (snd s))))"
    using match_overlap assms(4,5) unfolding match_route_def by blast
  ultimately show False using assms(3) by (simp add: apart_def)
qed

definition declared :: "string \<Rightarrow> string list \<Rightarrow> endpoint \<Rightarrow> string list \<Rightarrow> bool" where
  "declared m ss ep vs \<longleftrightarrow> (\<exists>pat. (m, pat, ep) \<in> set routes \<and> match_route ss (m, pat, ep) = Some vs)"

lemma declared_unique: "declared m ss ep vs \<Longrightarrow> declared m ss ep' vs' \<Longrightarrow> ep = ep' \<and> vs = vs'"
  unfolding declared_def using routes_unambiguous by fastforce

lemma map_filter_iff: "x \<in> set (List.map_filter f xs) \<longleftrightarrow> (\<exists>r\<in>set xs. f r = Some x)"
  by (induction xs) (auto simp: List.map_filter_simps split: option.splits)

lemma find_route_exact:
  "find_route ui m ss = Some (ep, vs) \<longleftrightarrow>
     declared m ss ep vs \<or> (ui \<and> m = ''GET'' \<and> ep = EpUI \<and> vs = [] \<and> (\<nexists>e v. declared m ss e v))"
proof -
  let ?found = "List.map_filter (\<lambda>r. if fst r = m then map_option (Pair (snd (snd r))) (match_route ss r) else None) routes"
  have found: "(e, v) \<in> set ?found \<longleftrightarrow> declared m ss e v" for e v
    unfolding map_filter_iff declared_def by (auto split: if_splits) (metis fst_conv snd_conv)
  show ?thesis
  proof (cases ?found)
    case Nil
    with found have "\<not> declared m ss e v" for e v by (metis empty_iff empty_set)
    with Nil show ?thesis by (auto simp: find_route_def)
  next
    case (Cons x xs)
    obtain e v where x: "x = (e, v)" by fastforce
    with Cons found have d: "declared m ss e v" by (metis list.set_intros(1))
    with Cons x show ?thesis using declared_unique by (auto simp: find_route_def)
  qed
qed

section \<open>What a request can change\<close>

lemma routes_methods: "(m, pat, ep) \<in> set routes \<Longrightarrow> m \<in> {''GET'', ''POST'', ''PUT'', ''DELETE''}"
  by (auto simp: routes_def)

lemma routed_endpoint:
  assumes "route_request ui m p = To ep vs"
  shows "declared (if m = ''HEAD'' then ''GET'' else m) (url_segments p) ep vs \<or> ep = EpUI"
proof -
  from assms have "mux_match ui m (url_segments p) = Some (ep, vs)"
    unfolding route_request_def Let_def by (simp split: if_splits option.splits prod.splits)
  then show ?thesis unfolding mux_match_def find_route_exact by blast
qed

lemma get_reads:
  "(''GET'', pat, ep) \<in> set routes \<Longrightarrow> control_request env q ep vs = None \<and> ep \<noteq> EpImport \<and> ep \<noteq> EpSaveWorker"
  by (auto simp: routes_def)

text \<open>C40. The multiplexer and the handlers together: a request whose method is not \<open>POST\<close>, \<open>PUT\<close> or \<open>DELETE\<close>, on whatever path,
  leaves the logs, the runs, the cache, the settings, the environment and the files as they are.\<close>

theorem reads_change_nothing:
  assumes "wq_method q \<notin> {''POST'', ''PUT'', ''DELETE''}"
  shows "snd (http_serve env q st) = st"
proof (cases "route_request (hs_ui env \<noteq> None) (wq_method q) (wq_path q)")
  case (To ep vs)
  let ?m = "if wq_method q = ''HEAD'' then ''GET'' else wq_method q"
  from routed_endpoint [OF To] have "control_request env q ep vs = None \<and> ep \<noteq> EpImport \<and> ep \<noteq> EpSaveWorker"
  proof
    assume "declared ?m (url_segments (wq_path q)) ep vs"
    then obtain pat where r: "(?m, pat, ep) \<in> set routes" unfolding declared_def by blast
    from routes_methods [OF this] assms have "?m = ''GET''" by (simp split: if_splits)
    with r have "(''GET'', pat, ep) \<in> set routes" by simp
    then show ?thesis by (rule get_reads)
  qed simp
  then show ?thesis unfolding http_serve_def To by (simp add: serve_endpoint_def)
qed (simp_all add: http_serve_def del: not_None_eq)

lemma http_server_change:
  obtains "fst (snd (http_serve env q st)) = fst st"
  | r where "fst (snd (http_serve env q st)) = snd (serve (hs_server env) r (fst st))"
proof (cases "route_request (hs_ui env \<noteq> None) (wq_method q) (wq_path q)")
  case (To ep vs)
  have h: "http_serve env q st = serve_endpoint env q ep vs st" unfolding http_serve_def To by simp
  show thesis
  proof (cases "control_request env q ep vs")
    case (Some r)
    show thesis by (rule that(2) [of r]) (simp add: h serve_endpoint_def Some split: prod.splits)
  next
    case None
    show thesis by (rule that(1)) (simp add: h serve_endpoint_def None split: prod.splits sum.splits)
  qed
qed (auto simp: http_serve_def that(1) simp del: not_None_eq)

text \<open>Whatever request comes in, the control plane's state makes a step of \<open>server_step\<close> or none.\<close>

lemma http_is_step:
  assumes "fresh_ids (hs_server env) (fst st)"
  shows "fst (snd (http_serve env q st)) = fst st \<or> server_step (fst st) (fst (snd (http_serve env q st)))"
  by (rule http_server_change [of env q st]) (use server_step.Request [OF assms] in simp_all)

section \<open>Only validated workflows are driven\<close>

definition starts_assembled :: "server_env \<Rightarrow> server \<Rightarrow> server \<Rightarrow> bool" where
  "starts_assembled env sv sv' \<longleftrightarrow> sv_tasks sv' = sv_tasks sv \<or>
     (\<exists>i asm call sv1 assemble ref. sv_tasks sv1 = sv_tasks sv \<and> sc_assemble env = Some assemble \<and>
        assemble ref = Inr asm \<and> sv' = launch i asm call sv1)"

lemma starts_launched:
  "sv_tasks sv1 = sv_tasks sv \<Longrightarrow> sc_assemble env = Some assemble \<Longrightarrow> assemble ref = Inr asm \<Longrightarrow>
     starts_assembled env sv (launch i asm call sv1)"
  unfolding starts_assembled_def by blast

lemma registry_tasks: "registry_of sv' = registry_of sv \<Longrightarrow> sv_tasks sv' = sv_tasks sv"
  by (simp add: registry_of_def)

lemma assembly_for_assembled: "assembly_for env assemble i sv = Inr (asm, rp) \<Longrightarrow> assemble (rp_workflow rp) = Inr asm"
  by (auto simp: assembly_for_def split: sum.splits)

lemma handle_run_assembled: "starts_assembled env sv (snd (handle_run env r sv))"
proof (cases "\<exists>assemble mint req asm refs. sc_assemble env = Some assemble \<and> sc_new_id env = Some mint \<and> r = Inr req \<and>
    assemble (rr_workflow req) = Inr asm \<and> resolve_connection_refs env sv asm (rr_connections req) = Inr refs")
  case True
  then obtain assemble mint req asm refs where e: "sc_assemble env = Some assemble" "sc_new_id env = Some mint" "r = Inr req"
    "assemble (rr_workflow req) = Inr asm" "resolve_connection_refs env sv asm (rr_connections req) = Inr refs" by blast
  have launched: "starts_assembled env sv (launch i asm call sv1)" if "write_run_params env i rp sv = (x, sv1)" for i rp x sv1 call
    using starts_launched [where assemble = assemble, OF registry_tasks [OF write_params_registry [OF that]] e(1,4)] .
  have kept: "starts_assembled env sv sv1" if "write_run_params env i rp sv = (x, sv1)" for i rp x sv1
    using registry_tasks [OF write_params_registry [OF that]] by (simp add: starts_assembled_def)
  show ?thesis using launched kept
    by (simp add: handle_run_def e Let_def starts_assembled_def [of env sv sv] split: option.split prod.split)
next
  case False
  then have "snd (handle_run env r sv) = sv" by (auto simp: handle_run_def Let_def split: option.splits sum.splits)
  then show ?thesis by (simp add: starts_assembled_def)
qed

lemma handle_retry_assembled: "starts_assembled env sv (snd (handle_retry env i n sv))"
  by (auto simp: handle_retry_def retry_check_def retry_launch_def Let_def starts_assembled_def [of env sv sv]
      intro!: starts_launched dest: assembly_for_assembled split: option.splits sum.splits)

lemma handle_reexecute_assembled: "starts_assembled env sv (snd (handle_reexecute env i sv))"
proof (cases "\<exists>assemble mint asm rp. sc_assemble env = Some assemble \<and> sc_new_id env = Some mint \<and>
    assembly_for env assemble i sv = Inr (asm, rp)")
  case True
  then obtain assemble mint asm rp where e: "sc_assemble env = Some assemble" "sc_new_id env = Some mint"
    "assembly_for env assemble i sv = Inr (asm, rp)" by blast
  obtain x sv1 where w: "write_run_params env (mint (wf_id (asm_workflow asm))) rp sv = (x, sv1)" by fastforce
  note same = registry_tasks [OF write_params_registry [OF w]]
  have "starts_assembled env sv (launch i' asm call sv1)" for i' call
    using starts_launched [where assemble = assemble, OF same e(1) assembly_for_assembled [OF e(3)]] .
  with same show ?thesis
    by (simp add: handle_reexecute_def e w Let_def starts_assembled_def [of env sv sv1] split: option.split)
next
  case False
  then have "snd (handle_reexecute env i sv) = sv"
    by (auto simp: handle_reexecute_def Let_def split: option.splits sum.splits)
  then show ?thesis by (simp add: starts_assembled_def)
qed

lemma handle_approval_assembled: "starts_assembled env sv (snd (handle_approval env d i cp sv))"
proof (cases "sc_assemble env")
  case (Some assemble)
  obtain r sv1 where a: "append_approval_decision env i cp d sv = (r, sv1)" by fastforce
  note same = registry_tasks [OF decision_registry [OF a]]
  have launched: "starts_assembled env sv (launch i asm call sv1)" if "assembly_for env assemble i sv1 = Inr (asm, rp)" for asm rp call
    using starts_launched [where assemble = assemble, OF same Some assembly_for_assembled [OF that]] .
  have kept: "starts_assembled env sv sv1" "starts_assembled env sv sv" using same by (simp_all add: starts_assembled_def)
  show ?thesis
    by (simp add: handle_approval_def Some a kept split: sum.split prod.split) (auto intro: launched kept)
qed (simp add: handle_approval_def starts_assembled_def)

definition assembled_tasks :: "serve_flags \<Rightarrow> server \<Rightarrow> bool" where
  "assembled_tasks f sv \<longleftrightarrow>
     (\<forall>t\<in>set (sv_tasks sv). \<exists>renv s ref. serve_assembler renv s f ref = Inr (rt_assembly t))"

lemma starts_assembled_keeps:
  assumes "starts_assembled env sv sv'" and "sc_assemble env = Some (serve_assembler renv s f)" and "assembled_tasks f sv"
  shows "assembled_tasks f sv'"
  using assms(1) unfolding starts_assembled_def
proof
  assume "sv_tasks sv' = sv_tasks sv"
  with assms(3) show ?thesis by (simp add: assembled_tasks_def)
next
  assume "\<exists>i asm call sv1 assemble ref. sv_tasks sv1 = sv_tasks sv \<and> sc_assemble env = Some assemble \<and>
      assemble ref = Inr asm \<and> sv' = launch i asm call sv1"
  then obtain i asm call sv1 ref where "sv_tasks sv1 = sv_tasks sv" "serve_assembler renv s f ref = Inr asm"
    "sv' = launch i asm call sv1" using assms(2) by auto
  with assms(3) show ?thesis by (auto simp: assembled_tasks_def launch_def)
qed

lemma cancel_assembled: "assembled_tasks f sv \<Longrightarrow> assembled_tasks f (snd (registry_cancel i sv))"
  by (auto simp: assembled_tasks_def registry_cancel_def split: option.splits)

lemma serve_assembled:
  assumes "sc_assemble env = Some (serve_assembler renv s f)" and "assembled_tasks f sv"
  shows "assembled_tasks f (snd (serve env r sv))"
proof -
  have same: "assembled_tasks f (snd (serve env r sv))" if "sv_tasks (snd (serve env r sv)) = sv_tasks sv"
    using that assms(2) by (simp add: assembled_tasks_def)
  note keeps = starts_assembled_keeps [OF _ assms]
  show ?thesis
  proof (cases r)
    case (ReqCancel i)
    have "snd (handle_cancel i sv) = snd (registry_cancel i sv)"
      by (simp add: handle_cancel_def split: prod.split bool.split)
    with ReqCancel cancel_assembled [OF assms(2)] show ?thesis by simp
  next
    case (ReqClear q)
    then show ?thesis
      by (intro same) (auto simp: handle_cache_clear_def Let_def split: sum.splits option.splits prod.splits if_splits)
  next
    case (ReqSettings q)
    then show ?thesis
      by (intro same) (auto simp: handle_put_settings_def split: sum.splits option.splits prod.splits)
  next
    case (ReqSetSecret q)
    then show ?thesis
      by (intro same) (auto simp: handle_set_secret_def split: sum.splits option.splits prod.splits)
  next
    case (ReqUnsetSecret n)
    then show ?thesis by (intro same) (simp add: handle_unset_secret_def)
  qed (auto simp: handle_approve_def handle_reject_def intro: keeps
      handle_run_assembled handle_retry_assembled handle_reexecute_assembled handle_approval_assembled)
qed

text \<open>The server at work: a request, under whatever environment it is served, with the files and settings the assembler
  finds then; what the engines write; a run that returns; and the files that others change.\<close>

inductive site_step :: "serve_flags \<Rightarrow> site \<Rightarrow> site \<Rightarrow> bool" for f where
  Http: "sc_assemble (hs_server env) = Some (serve_assembler renv s f) \<Longrightarrow> site_step f st (snd (http_serve env q st))"
| Engine: "t \<in> set (sv_tasks sv) \<Longrightarrow> site_step f (sv, d) (snd (server_append env (rt_exec t) ev sv), d)"
| Work: "t \<in> set (sv_tasks sv) \<Longrightarrow> site_step f (sv, d) (sv\<lparr>sv_store := st, sv_cache := c\<rparr>, d')"
| Return: "t \<in> set (sv_tasks sv) \<Longrightarrow> site_step f (sv, d) (run_done t sv, d)"
| Files: "site_step f (sv, d) (sv\<lparr>sv_files := fs\<rparr>, d')"

inductive_cases site_stepE: "site_step f st st'"

lemma site_step_assembled:
  assumes "site_step f st st'" and "assembled_tasks f (fst st)"
  shows "assembled_tasks f (fst st')"
  using assms(1)
proof (cases rule: site_step.cases)
  case (Http env renv s q)
  show ?thesis unfolding Http(1)
    by (rule http_server_change [of env q st]) (use assms(2) serve_assembled [OF Http(2) assms(2)] in simp_all)
next
  case (Engine t sv d env ev)
  then show ?thesis using assms(2) registry_tasks [OF append_registry]
    by (simp add: assembled_tasks_def) (metis prod.collapse)
qed (use assms(2) in \<open>auto simp: assembled_tasks_def run_done_def\<close>)


section \<open>Which files the web interface gives out\<close>

lemma join_clean_proper: "proper acc \<Longrightarrow> proper (foldl clean_step acc cs)"
proof (induction cs arbitrary: acc)
  case (Cons c cs)
  have "proper (clean_step acc c)" using Cons.prems by (simp add: proper_butlast)
  with Cons.IH show ?case by simp
qed simp

lemma join_clean_slashes: "(\<forall>a\<in>set acc. CHR ''/'' \<notin> set a) \<Longrightarrow> \<forall>a\<in>set (foldl clean_step acc (split_on CHR ''/'' p)). CHR ''/'' \<notin> set a"
proof -
  assume acc: "\<forall>a\<in>set acc. CHR ''/'' \<notin> set a"
  have "\<forall>a\<in>set (foldl clean_step acc cs). CHR ''/'' \<notin> set a" if "\<forall>c\<in>set cs. CHR ''/'' \<notin> set c" for cs
    using acc that
  proof (induction cs arbitrary: acc)
    case (Cons c cs)
    have "\<forall>a\<in>set (clean_step acc c). CHR ''/'' \<notin> set a" using Cons.prems by (auto dest: in_set_butlastD)
    with Cons.IH [of "clean_step acc c"] Cons.prems(2) show ?case by simp
  qed simp
  then show ?thesis using split_on_no_sep by blast
qed

text \<open>Whatever path is asked for, with escapes and parent elements, the web interface serves a file strictly below its
  directory, or refuses or redirects; and it serves the file that is there under the path, or else the index page.\<close>

theorem ui_confined:
  assumes "handle_ui stat dir p = UiServe f"
  shows "(\<exists>c. c \<noteq> [] \<and> f = dir @ c \<and> proper c \<and> (\<forall>a\<in>set c. CHR ''/'' \<notin> set a)) \<and>
    (f = dir @ [''index.html''] \<or> (f = dir @ join_clean [] (''/'' @ p) \<and> stat f = Inr False))"
proof -
  let ?c = "join_clean [] (''/'' @ p)"
  have "f = ui_file stat dir p" using assms by (auto simp: handle_ui_def split: if_splits)
  then have "f = dir @ [''index.html''] \<or> (?c \<noteq> [] \<and> f = dir @ ?c \<and> stat f = Inr False)"
    by (auto simp: ui_file_def Let_def split: sum.splits bool.splits if_splits)
  moreover have "proper ?c" "\<forall>a\<in>set ?c. CHR ''/'' \<notin> set a"
    unfolding join_clean_def by (rule join_clean_proper, simp) (rule join_clean_slashes, simp)
  ultimately show ?thesis by (elim disjE) (auto intro: exI [of _ "[''index.html'']"])
qed

lemma ui_confined_witness:
  "handle_ui (\<lambda>f. if f = [''ui'', ''app.js''] then Inr False else Inl (ESentinel ErrNotExist)) [''ui''] ''/x/../app.js'' = UiInvalid \<and>
   (\<exists>c. c \<noteq> [] \<and> [''ui'', ''app.js''] = [''ui''] @ c \<and> proper c)"
proof -
  let ?stat = "\<lambda>f. if f = [''ui'', ''app.js''] then Inr False else Inl (ESentinel ErrNotExist)"
  have "handle_ui ?stat [''ui''] ''//./app.js'' = UiServe [''ui'', ''app.js'']"
    by (simp add: handle_ui_def ui_file_def dot_dot_def has_suffix_def join_clean_def Let_def)
  from ui_confined [OF this] have "\<exists>c. c \<noteq> [] \<and> [''ui'', ''app.js''] = [''ui''] @ c \<and> proper c" by blast
  then show ?thesis by (simp add: handle_ui_def dot_dot_def)
qed

section \<open>Identifiers in paths\<close>

definition exec_dir :: "path \<Rightarrow> string \<Rightarrow> path" where
  "exec_dir workspace i = join_clean workspace (''executions/'' @ i)"

text \<open>An escaped slash is part of a segment, so an execution's id can climb out of the workspace: nothing between the route
  and the log looks at it.\<close>

lemma escaped_id_leaves_workspace:
  "route_request ui ''GET'' ''/api/executions/..%2F..%2Fother'' = To EpAudit [''../../other''] \<and>
   exec_dir [''srv'', ''ws''] ''../../other'' = [''srv'', ''other'']"
  by (cases ui) code_simp+

section \<open>A server to run the theorems on\<close>

definition site_flags :: serve_flags where
  "site_flags = \<lparr>sf_workspace = ''ws'', sf_dir = ''d'', sf_cache = ''on'', sf_templates = [], sf_ui = []\<rparr>"

definition site_env :: router_env where
  "site_env =
     \<lparr>hs_cwd = [''srv''],
      hs_server = ctl_env\<lparr>sc_dec_params := (\<lambda>b. Inr (ctl_params\<lparr>rp_workflow := ''f.yaml''\<rparr>))\<rparr>,
      hs_gallery = \<lparr>ga_templates = None, ga_dir = [], ga_workspace = [], ga_mkdir = None, ga_read = (\<lambda>p. None),
        ga_write = (\<lambda>p. None), ga_codec = reg_codec, ga_untar = (\<lambda>b. ([], None)),
        ga_yaml_workflow = (\<lambda>w. Inl (EMsg [])), ga_yaml_worker = (\<lambda>w. Inl (EMsg []))\<rparr>,
      hs_ui = None, hs_stat = (\<lambda>p. Inl (ESentinel ErrNotExist)), hs_list = (\<lambda>p d. Inr []), hs_mkdir = (\<lambda>p. None),
      hs_dec_run = (\<lambda>b. Inl (EMsg [])), hs_dec_from = (\<lambda>b. []), hs_dec_clear = (\<lambda>b. Inl (EMsg [])),
      hs_dec_settings = (\<lambda>b. Inl (EMsg [])), hs_dec_secret = (\<lambda>b. Inl (EMsg [])), hs_dec_save = (\<lambda>b. Inl (EMsg [])),
      hs_dec_worker = (\<lambda>b. Inl (EMsg [])), hs_schema = rn_schema run_dir, hs_validator = [],
      hs_json_worker = (\<lambda>w. Inl (EMsg [])), hs_json_schema = (\<lambda>x. Inl (EMsg []))\<rparr>"

definition site_request :: "string \<Rightarrow> string \<Rightarrow> web_request" where
  "site_request m p = \<lparr>wq_method = m, wq_path = p, wq_query = (\<lambda>k. []), wq_body = []\<rparr>"

lemma reads_change_nothing_witness:
  "\<forall>st. snd (http_serve site_env (site_request ''GET'' ''/api/executions/e'') st) = st"
  using reads_change_nothing [of "site_request ''GET'' ''/api/executions/e''" site_env] by (simp add: site_request_def)

lemma site_routes: "route_request False ''POST'' ''/api/executions/e/resume'' = To EpRetry [''e'']"
  by code_simp


end
