(* ===== verification/Sdk.thy ===== *)
theory Sdk
  imports Graph Registry RunTypes ArtifactStore "HOL-Library.Sublist"
begin

text \<open>
  The authoring SDK (\<open>sdk/\<close>): the builder with its frontier, what \<open>Build\<close> compiles, the run options it
  starts the engine with, and reading an artifact back. A chain of builder calls is a list of steps.
\<close>

section \<open>The builder\<close>

record spec =
  sp_id :: string
  sp_node :: node
  sp_worker :: "worker option"

definition plain_node :: "string \<Rightarrow> string \<Rightarrow> tool_call option \<Rightarrow> node" where
  "plain_node i wk t =
     \<lparr>node_id = i, node_worker = wk, node_tool = t, node_policy = None, node_on_failure = None\<rparr>"

definition worker_spec :: "string \<Rightarrow> worker \<Rightarrow> spec" where
  "worker_spec i w = \<lparr>sp_id = i, sp_node = plain_node i (wk_id w @ ''@'' @ wk_version w) None, sp_worker = Some w\<rparr>"

definition tool_spec :: "string \<Rightarrow> tool_call \<Rightarrow> spec" where
  "tool_spec i tc = \<lparr>sp_id = i, sp_node = plain_node i [] (Some tc), sp_worker = None\<rparr>"

definition describe_worker :: "worker \<Rightarrow> string \<Rightarrow> worker" where
  "describe_worker w d = w\<lparr>wk_description := d\<rparr>"

record builder =
  bd_id :: string
  bd_version :: string
  bd_budget :: budget
  bd_nodes :: "node list"
  bd_edges :: "edge list"
  bd_workers :: "string \<rightharpoonup> worker"
  bd_frontier :: "string list"
  bd_seen :: "string set"
  bd_err :: "err option"

definition new_builder :: "string \<Rightarrow> string \<Rightarrow> builder" where
  "new_builder i v =
     \<lparr>bd_id = i, bd_version = v,
      bd_budget = \<lparr>max_cost_usd = 0, max_tokens = 0, max_duration_ms = 0, max_retries_per_node = 0\<rparr>,
      bd_nodes = [], bd_edges = [], bd_workers = Map.empty, bd_frontier = [], bd_seen = {}, bd_err = None\<rparr>"

definition plain_edge :: "string \<Rightarrow> string \<Rightarrow> edge" where
  "plain_edge a b = \<lparr>edge_from = a, edge_to = b, edge_cond = None\<rparr>"

definition builder_add :: "spec \<Rightarrow> string list \<Rightarrow> builder \<Rightarrow> builder" where
  "builder_add s ps b =
     (if bd_err b \<noteq> None then b
      else if sp_id s \<in> bd_seen b
      then b\<lparr>bd_err := Some (EMsg (''sdk: duplicate node id '' @ quote (sp_id s)))\<rparr>
      else b\<lparr>bd_seen := insert (sp_id s) (bd_seen b),
             bd_workers := (case sp_worker s of None \<Rightarrow> bd_workers b
               | Some w \<Rightarrow> (bd_workers b)(node_worker (sp_node s) \<mapsto> w)),
             bd_nodes := bd_nodes b @ [sp_node s],
             bd_edges := bd_edges b @ map (\<lambda>p. plain_edge p (sp_id s)) ps,
             bd_frontier := [sp_id s]\<rparr>)"

fun add_specs :: "string list \<Rightarrow> spec list \<Rightarrow> string list \<Rightarrow> builder \<Rightarrow> builder" where
  "add_specs ps [] nxt b = b\<lparr>bd_frontier := nxt\<rparr>"
| "add_specs ps (s # ss) nxt b =
     (let b = builder_add s ps b in if bd_err b \<noteq> None then b else add_specs ps ss (nxt @ [sp_id s]) b)"

datatype step =
    StepBudget budget
  | StepWorker string worker
  | StepTool string tool_call
  | StepParallel "spec list"
  | StepMerge string worker "string list"

fun builder_step :: "step \<Rightarrow> builder \<Rightarrow> builder" where
  "builder_step (StepBudget x) b = b\<lparr>bd_budget := x\<rparr>"
| "builder_step (StepWorker i w) b = builder_add (worker_spec i w) (bd_frontier b) b"
| "builder_step (StepTool i tc) b = builder_add (tool_spec i tc) (bd_frontier b) b"
| "builder_step (StepParallel ss) b =
     (if bd_err b \<noteq> None then b
      else if ss = [] then b\<lparr>bd_err := Some (EMsg ''sdk: Parallel needs at least one node'')\<rparr>
      else add_specs (bd_frontier b) ss [] b)"
| "builder_step (StepMerge i w from_ids) b =
     builder_add (worker_spec i w) (if from_ids = [] then bd_frontier b else from_ids) b"

definition build :: "builder \<Rightarrow> err + workflow \<times> (string \<rightharpoonup> worker)" where
  "build b =
     (case bd_err b of
        Some e \<Rightarrow> Inl e
      | None \<Rightarrow>
          if bd_nodes b = [] then Inl (EMsg (''sdk: workflow '' @ quote (bd_id b) @ '' has no nodes''))
          else Inr (\<lparr>wf_id = bd_id b, wf_version = bd_version b, wf_nodes = bd_nodes b, wf_edges = bd_edges b,
                     wf_defaults = None, wf_inputs = [], wf_budget = bd_budget b\<rparr>, bd_workers b))"

definition author :: "string \<Rightarrow> string \<Rightarrow> step list \<Rightarrow> err + workflow \<times> (string \<rightharpoonup> worker)" where
  "author i v steps = build (fold builder_step steps (new_builder i v))"

section \<open>Running and reading\<close>

record sdk_options =
  so_concurrency :: int
  so_cache :: cache_mode
  so_inputs :: "string \<rightharpoonup> string"
  so_allow_mutations :: bool

datatype sdk_error = RegisterWorkflowErr registry_error | RegisterWorkerErr registry_error

fun register_workers :: "registry_codec \<Rightarrow> worker list \<Rightarrow> registry \<Rightarrow> registry_error + registry" where
  "register_workers cd [] r = Inr r"
| "register_workers cd (w # ws) r =
     (case register_worker cd w r of Inl e \<Rightarrow> Inl e | Inr r' \<Rightarrow> register_workers cd ws r')"

text \<open>What \<open>Run\<close> assembles before it starts the engine; \<open>ws\<close> are the values of the map of workers, in the
  order the code happens to go through them.\<close>

definition sdk_prepare ::
  "registry_codec \<Rightarrow> string \<Rightarrow> sdk_options \<Rightarrow> workflow \<Rightarrow> worker list \<Rightarrow> sdk_error + registry \<times> run_options" where
  "sdk_prepare cd eid opts w ws =
     (case register_workflow cd w new_registry of
        Inl e \<Rightarrow> Inl (RegisterWorkflowErr e)
      | Inr r \<Rightarrow>
     (case register_workers cd ws r of
        Inl e \<Rightarrow> Inl (RegisterWorkerErr e)
      | Inr r \<Rightarrow>
          Inr (r, \<lparr>ro_execution_id = eid, ro_concurrency = so_concurrency opts, ro_budget = wf_budget w, ro_backoff = 0,
            ro_backoff_max = 0, ro_cache = so_cache opts, ro_definition_hashes = definition_hashes r (wf_nodes w),
            ro_workers = Map.empty, ro_inputs = so_inputs opts, ro_connections = Map.empty,
            ro_allow_mutations = so_allow_mutations opts\<rparr>)))"

text \<open>The stream of an execution: a buffered channel, how much of the log was offered to it, and what the consumer
  took. A send that finds the buffer full drops the event.\<close>

record 'e sdk_stream =
  ss_emitted :: nat
  ss_buffer :: "'e list"
  ss_taken :: "'e list"

definition stream_buffer :: nat where "stream_buffer = 256"

fun offer :: "'e list \<Rightarrow> 'e sdk_stream \<Rightarrow> 'e sdk_stream" where
  "offer [] s = s"
| "offer (e # es) s =
     offer es (s\<lparr>ss_emitted := Suc (ss_emitted s),
                ss_buffer := (if length (ss_buffer s) < stream_buffer then ss_buffer s @ [e] else ss_buffer s)\<rparr>)"

text \<open>A tick reads the whole log, or fails to; the consumer takes from the front.\<close>

datatype 'e stream_event = Tick "err + 'e list" | Take

fun stream_step :: "'e stream_event \<Rightarrow> 'e sdk_stream \<Rightarrow> 'e sdk_stream" where
  "stream_step (Tick (Inl x)) s = s"
| "stream_step (Tick (Inr es)) s = offer (drop (ss_emitted s) es) s"
| "stream_step Take s =
     (case ss_buffer s of [] \<Rightarrow> s | e # b \<Rightarrow> s\<lparr>ss_buffer := b, ss_taken := ss_taken s @ [e]\<rparr>)"

definition stream_run :: "'e stream_event list \<Rightarrow> 'e sdk_stream" where
  "stream_run sts = fold stream_step sts \<lparr>ss_emitted = 0, ss_buffer = [], ss_taken = []\<rparr>"

definition node_state_text :: "node_state \<Rightarrow> string" where
  "node_state_text st =
     (case st of StateUnset \<Rightarrow> '''' | StatePending \<Rightarrow> ''pending'' | StateRunning \<Rightarrow> ''running''
      | StateSucceeded \<Rightarrow> ''succeeded'' | StateFailed \<Rightarrow> ''failed'' | StateSkipped \<Rightarrow> ''skipped'')"

definition sdk_artifact ::
  "(bytes \<Rightarrow> err + 'a) \<Rightarrow> string \<Rightarrow> faults \<Rightarrow> art_store \<Rightarrow> string \<Rightarrow> run_result option \<Rightarrow> string \<Rightarrow> err + 'a" where
  "sdk_artifact dec ty fault st eid res nid =
     (case res of
        None \<Rightarrow> Inl (EMsg (''sdk: execution '' @ eid @ '' produced no result''))
      | Some r \<Rightarrow>
     (case rr_nodes r nid of
        None \<Rightarrow> Inl (EMsg (''sdk: no node '' @ quote nid @ '' in execution '' @ eid))
      | Some out \<Rightarrow>
          if no_state out \<noteq> StateSucceeded \<or> no_hash out = []
          then Inl (EMsg (''sdk: node '' @ quote nid @ '' did not produce an artifact (state '' @
                 node_state_text (no_state out) @ '')''))
          else (case get_artifact fault (no_hash out) st of
                  Inl e \<Rightarrow> Inl (errorf (''sdk: load artifact for node '' @ quote nid @ '': '') e [])
                | Inr content \<Rightarrow>
               (case dec content of
                  Inl e \<Rightarrow> Inl (errorf (''sdk: decode node '' @ quote nid @ '' artifact into '' @ ty @ '': '') e [])
                | Inr v \<Rightarrow> Inr v))))"

section \<open>What the builder keeps\<close>

text \<open>The specs the constructors make, with an id and, for a tool, no reference to a workflow input: the
  builder has no way to declare one.\<close>

definition tool_ok :: "tool_call \<Rightarrow> bool" where
  "tool_ok tc \<longleftrightarrow> walk_input_refs (JObj (tc_input tc)) [] = []"

definition spec_ok :: "spec \<Rightarrow> bool" where
  "spec_ok s \<longleftrightarrow> sp_id s \<noteq> [] \<and>
     ((\<exists>w. s = worker_spec (sp_id s) w) \<or> (\<exists>tc. s = tool_spec (sp_id s) tc \<and> tool_ok tc))"

definition node_made :: "(string \<rightharpoonup> worker) \<Rightarrow> node \<Rightarrow> bool" where
  "node_made ws n \<longleftrightarrow> node_id n \<noteq> [] \<and> node_policy n = None \<and>
     ((node_tool n = None \<and> node_worker n \<noteq> [] \<and> (\<exists>w. ws (node_worker n) = Some w \<and> worker_ref w = node_worker n)) \<or>
      (node_worker n = [] \<and> (\<exists>tc. node_tool n = Some tc \<and> tool_ok tc)))"

abbreviation node_ids :: "builder \<Rightarrow> string list" where
  "node_ids b \<equiv> map node_id (bd_nodes b)"

text \<open>\<open>p\<close> orders the nodes: every edge goes up.\<close>

definition edges_forward :: "builder \<Rightarrow> (string \<Rightarrow> nat) \<Rightarrow> bool" where
  "edges_forward b p \<longleftrightarrow> (\<forall>i\<in>set (node_ids b). p i < length (bd_nodes b)) \<and>
     (\<forall>e\<in>set (bd_edges b). p (edge_from e) < p (edge_to e))"

definition builder_ok :: "builder \<Rightarrow> bool" where
  "builder_ok b \<longleftrightarrow>
     bd_seen b = set (node_ids b) \<and> distinct (node_ids b) \<and>
     (\<forall>n\<in>set (bd_nodes b). node_made (bd_workers b) n) \<and>
     (\<forall>e\<in>set (bd_edges b). {edge_from e, edge_to e} \<subseteq> set (node_ids b)) \<and>
     (\<exists>p. edges_forward b p)"

lemma spec_node: "spec_ok s \<Longrightarrow> node_id (sp_node s) = sp_id s"
  by (auto simp: spec_ok_def worker_spec_def tool_spec_def plain_node_def dest: arg_cong [of _ _ sp_node])

lemma spec_made:
  assumes "spec_ok s"
  shows "node_made (case sp_worker s of None \<Rightarrow> ws | Some w \<Rightarrow> ws(node_worker (sp_node s) \<mapsto> w)) (sp_node s)"
proof -
  from assms have i: "sp_id s \<noteq> []" by (simp add: spec_ok_def)
  from assms consider w where "s = worker_spec (sp_id s) w" | tc where "s = tool_spec (sp_id s) tc" "tool_ok tc"
    by (auto simp: spec_ok_def)
  then show ?thesis
  proof cases
    case 1
    then have "sp_node s = plain_node (sp_id s) (worker_ref w) None" "sp_worker s = Some w"
      by (metis worker_spec_def worker_ref_def spec.simps(2), metis worker_spec_def spec.simps(3))
    with i show ?thesis by (simp add: node_made_def plain_node_def) (simp add: worker_ref_def)
  next
    case 2
    then have "sp_node s = plain_node (sp_id s) [] (Some tc)" "sp_worker s = None"
      by (metis tool_spec_def spec.simps(2), metis tool_spec_def spec.simps(3))
    with i 2(2) show ?thesis by (simp add: node_made_def plain_node_def)
  qed
qed

text \<open>A later worker of the same reference replaces the earlier one; the reference still resolves.\<close>

lemma made_mono:
  assumes "node_made ws n" and "spec_ok s"
  shows "node_made (case sp_worker s of None \<Rightarrow> ws | Some w \<Rightarrow> ws(node_worker (sp_node s) \<mapsto> w)) n"
proof (cases "sp_worker s")
  case (Some w)
  from assms(2) Some obtain wa where wa: "s = worker_spec (sp_id s) wa"
    by (auto simp: spec_ok_def tool_spec_def dest: arg_cong [of _ _ sp_worker])
  then have "sp_worker s = Some wa" by (metis worker_spec_def spec.simps(3))
  with Some wa have "s = worker_spec (sp_id s) w" by simp
  then have "node_worker (sp_node s) = worker_ref w"
    by (metis worker_spec_def worker_ref_def plain_node_def spec.simps(2) node.simps(2))
  with assms(1) Some show ?thesis by (auto simp: node_made_def)
qed (use assms in simp)

lemma add_no_error:
  assumes "bd_err (builder_add s ps b) = None"
  shows "bd_err b = None" and "sp_id s \<notin> bd_seen b"
  using assms by (auto simp: builder_add_def split: if_splits)

lemma add_ok:
  assumes ok: "builder_ok b" and s: "spec_ok s" and ps: "set ps \<subseteq> set (node_ids b)"
    and err: "bd_err (builder_add s ps b) = None"
  shows "builder_ok (builder_add s ps b)"
    and "bd_nodes (builder_add s ps b) = bd_nodes b @ [sp_node s]"
    and "bd_edges (builder_add s ps b) = bd_edges b @ map (\<lambda>p. plain_edge p (sp_id s)) ps"
    and "bd_frontier (builder_add s ps b) = [sp_id s]"
proof -
  let ?b = "builder_add s ps b"
  note new = add_no_error [OF err]
  then have b: "?b = b\<lparr>bd_seen := insert (sp_id s) (bd_seen b),
             bd_workers := (case sp_worker s of None \<Rightarrow> bd_workers b
               | Some w \<Rightarrow> (bd_workers b)(node_worker (sp_node s) \<mapsto> w)),
             bd_nodes := bd_nodes b @ [sp_node s],
             bd_edges := bd_edges b @ map (\<lambda>p. plain_edge p (sp_id s)) ps,
             bd_frontier := [sp_id s]\<rparr>"
    by (simp add: builder_add_def)
  show "bd_nodes ?b = bd_nodes b @ [sp_node s]" "bd_edges ?b = bd_edges b @ map (\<lambda>p. plain_edge p (sp_id s)) ps"
    "bd_frontier ?b = [sp_id s]"
    by (simp_all add: b)
  note i = spec_node [OF s]
  from ok obtain p where p: "edges_forward b p" by (auto simp: builder_ok_def)
  from ok new(2) have fresh: "sp_id s \<notin> set (node_ids b)" by (simp add: builder_ok_def)
  let ?p = "p(sp_id s := length (bd_nodes b))"
  have old: "edge_from e \<noteq> sp_id s \<and> edge_to e \<noteq> sp_id s" if "e \<in> set (bd_edges b)" for e
  proof -
    have "{edge_from e, edge_to e} \<subseteq> set (node_ids b)" using ok that unfolding builder_ok_def by blast
    with fresh show ?thesis by auto
  qed
  have "?p j < length (bd_nodes ?b)" if "j \<in> set (node_ids ?b)" for j
    using p that i by (auto simp: b edges_forward_def less_Suc_eq)
  moreover have "?p (edge_from e) < ?p (edge_to e)" if e: "e \<in> set (bd_edges ?b)" for e
  proof (cases "e \<in> set (bd_edges b)")
    case True
    with old p show ?thesis by (simp add: edges_forward_def)
  next
    case False
    with e obtain q where q: "q \<in> set ps" "e = plain_edge q (sp_id s)" by (auto simp: b)
    with ps have "q \<in> set (node_ids b)" by blast
    with fresh have "q \<noteq> sp_id s" by blast
    moreover have "p q < length (bd_nodes b)" using p \<open>q \<in> set (node_ids b)\<close> unfolding edges_forward_def by blast
    ultimately have "q \<noteq> sp_id s" "p q < length (bd_nodes b)" by simp_all
    with q(2) show ?thesis by (simp add: plain_edge_def)
  qed
  ultimately have fwd: "edges_forward ?b ?p" by (simp add: edges_forward_def)
  have made: "node_made (bd_workers ?b) n" if n: "n \<in> set (bd_nodes ?b)" for n
  proof (cases "n \<in> set (bd_nodes b)")
    case True
    with ok made_mono [OF _ s] show ?thesis by (simp add: builder_ok_def b)
  next
    case False
    with n have "n = sp_node s" by (simp add: b)
    with spec_made [OF s] show ?thesis by (simp add: b)
  qed
  have ends: "{edge_from e, edge_to e} \<subseteq> set (node_ids ?b)" if e: "e \<in> set (bd_edges ?b)" for e
  proof (cases "e \<in> set (bd_edges b)")
    case True
    then have "{edge_from e, edge_to e} \<subseteq> set (node_ids b)" using ok unfolding builder_ok_def by blast
    then show ?thesis by (auto simp: b)
  next
    case False
    with e ps show ?thesis by (auto simp: b plain_edge_def i)
  qed
  have "bd_seen ?b = set (node_ids ?b)" "distinct (node_ids ?b)"
    using ok fresh i by (auto simp: builder_ok_def b)
  with fwd made ends show "builder_ok ?b" unfolding builder_ok_def by blast
qed

lemma add_specs_err: "bd_err (add_specs ps ss nxt b) = None \<Longrightarrow> bd_err b = None \<or> ss = []"
  by (cases ss) (auto simp: Let_def builder_add_def split: if_splits)

lemma add_specs_ok:
  assumes "builder_ok b" and "\<forall>s\<in>set ss. spec_ok s" and "set ps \<subseteq> set (node_ids b)"
    and "bd_err (add_specs ps ss nxt b) = None" and "bd_err b = None"
  shows "builder_ok (add_specs ps ss nxt b) \<and> bd_err b = None \<and>
    bd_nodes (add_specs ps ss nxt b) = bd_nodes b @ map sp_node ss \<and>
    bd_edges (add_specs ps ss nxt b) = bd_edges b @ concat (map (\<lambda>s. map (\<lambda>p. plain_edge p (sp_id s)) ps) ss) \<and>
    bd_frontier (add_specs ps ss nxt b) = nxt @ map sp_id ss"
  using assms
proof (induction ss arbitrary: nxt b)
  case Nil
  then show ?case by (simp add: builder_ok_def edges_forward_def)
next
  case (Cons s ss)
  let ?b = "builder_add s ps b"
  have err: "bd_err ?b = None" using Cons.prems(4) by (auto simp: Let_def split: if_splits)
  have s: "spec_ok s" using Cons.prems(2) by simp
  note a = add_ok [OF Cons.prems(1) s Cons.prems(3) err]
  have "set ps \<subseteq> set (node_ids ?b)" using Cons.prems(3) a(2) by auto
  moreover have "add_specs ps (s # ss) nxt b = add_specs ps ss (nxt @ [sp_id s]) ?b" using err by (simp add: Let_def)
  ultimately show ?case using Cons.IH [OF a(1), of "nxt @ [sp_id s]"] Cons.prems(2,4,5) err a(2,3) by simp
qed

section \<open>What a chain builds\<close>

text \<open>The specs a step adds; \<open>implicit\<close>: it depends on the frontier, not on ids the caller names.\<close>

fun step_specs :: "step \<Rightarrow> spec list" where
  "step_specs (StepBudget x) = []"
| "step_specs (StepWorker i w) = [worker_spec i w]"
| "step_specs (StepTool i tc) = [tool_spec i tc]"
| "step_specs (StepParallel ss) = ss"
| "step_specs (StepMerge i w from_ids) = [worker_spec i w]"

definition implicit :: "step \<Rightarrow> bool" where
  "implicit st \<longleftrightarrow> (case st of StepMerge i w from_ids \<Rightarrow> from_ids = [] | _ \<Rightarrow> True)"

definition is_budget :: "step \<Rightarrow> bool" where
  "is_budget st \<longleftrightarrow> (case st of StepBudget x \<Rightarrow> True | _ \<Rightarrow> False)"

definition step_ok :: "step \<Rightarrow> bool" where
  "step_ok st \<longleftrightarrow> implicit st \<and> (\<forall>s\<in>set (step_specs st). spec_ok s)"

lemma builder_step_specs:
  assumes "implicit st" and "\<not> is_budget st" and "bd_err (builder_step st b) = None"
  shows "builder_step st b = add_specs (bd_frontier b) (step_specs st) [] b \<and> step_specs st \<noteq> [] \<and> bd_err b = None"
proof -
  have one: "builder_add s ps b = add_specs ps [s] [] b \<and> bd_err b = None" if "bd_err (builder_add s ps b) = None" for s ps
    using that by (auto simp: builder_add_def Let_def split: if_splits)
  from assms show ?thesis
    by (cases st) (use one in \<open>auto simp: implicit_def is_budget_def split: if_splits\<close>)
qed

text \<open>After \<open>k\<close> adding steps: nothing is left behind without an outgoing edge, and from the second step on
  the frontier has incoming ones.\<close>

definition chain_ok :: "nat \<Rightarrow> builder \<Rightarrow> bool" where
  "chain_ok k b \<longleftrightarrow> builder_ok b \<and> set (bd_frontier b) \<subseteq> set (node_ids b) \<and>
     (k = 0 \<longleftrightarrow> bd_nodes b = []) \<and> (bd_frontier b = [] \<longleftrightarrow> bd_nodes b = []) \<and>
     (\<forall>i\<in>set (node_ids b). i \<in> set (bd_frontier b) \<or> i \<in> edge_from ` set (bd_edges b)) \<and>
     (2 \<le> k \<longrightarrow> set (bd_frontier b) \<subseteq> edge_to ` set (bd_edges b))"

lemma chain_start: "chain_ok 0 (new_builder i v)"
  by (simp add: chain_ok_def new_builder_def builder_ok_def edges_forward_def)

lemma chain_step:
  assumes ok: "chain_ok k b" and st: "step_ok st" and err: "bd_err (builder_step st b) = None"
  shows "chain_ok (if is_budget st then k else Suc k) (builder_step st b)"
proof (cases "is_budget st")
  case True
  then obtain x where "st = StepBudget x" by (cases st) (auto simp: is_budget_def)
  with ok show ?thesis by (simp add: chain_ok_def builder_ok_def edges_forward_def is_budget_def)
next
  case False
  let ?ss = "step_specs st" and ?b = "builder_step st b"
  from st have imp: "implicit st" and specs: "\<forall>s\<in>set ?ss. spec_ok s" by (simp_all add: step_ok_def)
  note bs = builder_step_specs [OF imp False err]
  have "bd_err (add_specs (bd_frontier b) ?ss [] b) = None" using bs err by simp
  with add_specs_ok [of b ?ss "bd_frontier b" "[]"] ok specs bs
  have r: "builder_ok ?b" "bd_nodes ?b = bd_nodes b @ map sp_node ?ss" "bd_frontier ?b = map sp_id ?ss"
    "bd_edges ?b = bd_edges b @ concat (map (\<lambda>s. map (\<lambda>p. plain_edge p (sp_id s)) (bd_frontier b)) ?ss)"
    by (simp_all add: chain_ok_def)
  have ids: "map node_id (map sp_node ?ss) = map sp_id ?ss"
    using specs by (auto simp: spec_node)
  have new_from: "i \<in> edge_from ` set (bd_edges ?b)" if i: "i \<in> set (bd_frontier b)" for i
  proof -
    obtain s where "s \<in> set ?ss" using bs by (meson list.set_sel(1))
    with i have "plain_edge i (sp_id s) \<in> set (bd_edges ?b)" by (auto simp: r(4))
    then show ?thesis by (metis plain_edge_def edge.simps(1) image_eqI)
  qed
  have new_to: "i \<in> edge_to ` set (bd_edges ?b)" if i: "i \<in> set (map sp_id ?ss)" and ne: "bd_frontier b \<noteq> []" for i
  proof -
    obtain q where "q \<in> set (bd_frontier b)" using ne by (meson list.set_sel(1))
    with i have "plain_edge q i \<in> set (bd_edges ?b)" by (auto simp: r(4))
    then show ?thesis by (metis plain_edge_def edge.simps(2) image_eqI)
  qed
  have "\<forall>i\<in>set (node_ids ?b). i \<in> set (bd_frontier ?b) \<or> i \<in> edge_from ` set (bd_edges ?b)"
  proof
    fix i assume "i \<in> set (node_ids ?b)"
    then have "i \<in> set (node_ids b) \<or> i \<in> set (map sp_id ?ss)" using r(2) ids by auto
    then show "i \<in> set (bd_frontier ?b) \<or> i \<in> edge_from ` set (bd_edges ?b)"
    proof
      assume "i \<in> set (node_ids b)"
      with ok have "i \<in> set (bd_frontier b) \<or> i \<in> edge_from ` set (bd_edges b)" unfolding chain_ok_def by blast
      with new_from show ?thesis by (auto simp: r(4))
    qed (simp add: r(3))
  qed
  moreover have "2 \<le> Suc k \<longrightarrow> set (bd_frontier ?b) \<subseteq> edge_to ` set (bd_edges ?b)"
  proof
    assume "2 \<le> Suc k"
    then have "bd_frontier b \<noteq> []" using ok by (auto simp: chain_ok_def)
    with new_to show "set (bd_frontier ?b) \<subseteq> edge_to ` set (bd_edges ?b)" using r(3) by auto
  qed
  moreover have "set (bd_frontier ?b) \<subseteq> set (node_ids ?b)" using r(2,3) ids by auto
  moreover have "bd_nodes ?b \<noteq> []" "bd_frontier ?b \<noteq> []" using r(2,3) bs by simp_all
  ultimately show ?thesis using r(1) False by (simp add: chain_ok_def)
qed

lemma builder_error_stays: "bd_err b \<noteq> None \<Longrightarrow> bd_err (builder_step st b) \<noteq> None"
  by (cases st) (simp_all add: builder_add_def)

lemma fold_error_stays: "bd_err b \<noteq> None \<Longrightarrow> bd_err (fold builder_step sts b) \<noteq> None"
  by (induction sts arbitrary: b) (simp_all del: not_None_eq add: builder_error_stays)

lemma chain_fold:
  assumes "chain_ok k b" and "\<forall>st\<in>set sts. step_ok st" and "bd_err (fold builder_step sts b) = None"
  shows "chain_ok (k + length (filter (\<lambda>st. \<not> is_budget st) sts)) (fold builder_step sts b)"
  using assms
proof (induction sts arbitrary: k b)
  case (Cons st sts)
  from Cons.prems(3) have "bd_err (builder_step st b) = None"
    using fold_error_stays [of "builder_step st b" sts] by (cases "bd_err (builder_step st b)") auto
  with Cons.prems(1,2) have "chain_ok (if is_budget st then k else Suc k) (builder_step st b)"
    by (intro chain_step) simp_all
  from Cons.IH [OF this] Cons.prems(2,3) show ?case by (cases "is_budget st") simp_all
qed simp

lemma built_acyclic:
  assumes "edges_forward b p" and "wf_edges w = bd_edges b"
  shows "acyclic (wf_rel w)"
proof -
  have "wf_rel w \<subseteq> measure p" using assms by (auto simp: wf_rel_def edges_forward_def)
  then show ?thesis using wf_acyclic wf_measure acyclic_subset by blast
qed


text \<open>\<open>Build\<close> does not look at the parents a \<open>Merge\<close> names: a node can be its own.\<close>

lemma merge_builds_cycle:
  "\<exists>w ws. author ''f'' ''1.0.0'' [StepMerge ''a'' (reg_worker ''x'') [''a'']] = Inr (w, ws) \<and> \<not> acyclic (wf_rel w)"
proof -
  let ?r = "author ''f'' ''1.0.0'' [StepMerge ''a'' (reg_worker ''x'') [''a'']]"
  obtain w ws where r: "?r = Inr (w, ws)" "wf_edges w = [plain_edge ''a'' ''a'']"
    by (simp add: author_def build_def new_builder_def builder_add_def worker_spec_def)
  then have "(''a'', ''a'') \<in> wf_rel w" by (auto simp: wf_rel_def plain_edge_def)
  then have "\<not> acyclic (wf_rel w)" by (auto simp: acyclic_def)
  with r(1) show ?thesis by blast
qed

text \<open>An SDK run pins no worker definitions in its snapshot.\<close>

lemma sdk_run_pins_no_workers: "sdk_prepare cd eid opts w ws = Inr (r, ro) \<Longrightarrow> ro_workers ro = Map.empty"
  by (auto simp: sdk_prepare_def split: sum.splits)

definition sdk_chain :: "step list" where
  "sdk_chain = [StepBudget reg_budget, StepParallel [worker_spec ''r1'' (reg_worker ''x''), worker_spec ''r2'' (reg_worker ''x'')],
     StepMerge ''fix'' (reg_worker ''x'') [], StepTool ''test'' \<lparr>tc_name = ''terminal'', tc_input = []\<rparr>]"


section \<open>The stream of an execution\<close>

abbreviation delivered :: "'e sdk_stream \<Rightarrow> 'e list" where
  "delivered s \<equiv> ss_taken s @ ss_buffer s"

text \<open>What was delivered, out of the part of \<open>full\<close> offered so far.\<close>

definition stream_ok :: "'e list \<Rightarrow> 'e sdk_stream \<Rightarrow> bool" where
  "stream_ok full s \<longleftrightarrow> ss_emitted s \<le> length full \<and> subseq (delivered s) (take (ss_emitted s) full) \<and>
     length (ss_buffer s) \<le> stream_buffer \<and>
     (length full \<le> stream_buffer \<longrightarrow> delivered s = take (ss_emitted s) full)"

lemma offer_emitted: "ss_emitted (offer es s) = ss_emitted s + length es"
  by (induction es arbitrary: s) simp_all

lemma offer_ok:
  assumes "stream_ok full s" and "es = drop (ss_emitted s) (take k full)"
  shows "stream_ok full (offer es s)"
  using assms
proof (induction es arbitrary: s)
  case (Cons e es)
  let ?n = "ss_emitted s"
  have lt: "?n < length (take k full)" using Cons.prems(2) by (metis drop_all list.distinct(1) not_le)
  then have n: "?n < length full" by simp
  have "e # es = take k full ! ?n # drop (Suc ?n) (take k full)"
    using Cons.prems(2) lt by (metis Cons_nth_drop_Suc)
  with lt have e: "full ! ?n = e" "es = drop (Suc ?n) (take k full)" by simp_all
  have tk: "take (Suc ?n) full = take ?n full @ [e]" using n e by (simp add: take_Suc_conv_app_nth)
  let ?s = "s\<lparr>ss_emitted := Suc ?n,
      ss_buffer := (if length (ss_buffer s) < stream_buffer then ss_buffer s @ [e] else ss_buffer s)\<rparr>"
  have room: "length (ss_buffer s) < stream_buffer" if "length full \<le> stream_buffer"
  proof -
    have "length (delivered s) = ?n" using Cons.prems(1) that n by (simp add: stream_ok_def)
    then show ?thesis using n that by simp
  qed
  have "subseq (delivered s) (take ?n full)" using Cons.prems(1) by (simp add: stream_ok_def)
  then have "subseq (delivered s @ [e]) (take ?n full @ [e])" "subseq (delivered s) (take ?n full @ [e])"
    using subseq_append [of _ "[e]"] by (blast intro: subseq_append, metis append_Nil2 list_emb_append_mono list_emb_Nil)
  then have "stream_ok full ?s"
    using Cons.prems(1) n tk room by (auto simp: stream_ok_def)
  moreover have "es = drop (ss_emitted ?s) (take k full)" using e(2) by simp
  ultimately show ?case using Cons.IH [of ?s] by simp
qed simp

lemma stream_step_ok:
  assumes "stream_ok full s" and "\<And>es. st = Tick (Inr es) \<Longrightarrow> prefix es full"
  shows "stream_ok full (stream_step st s)"
proof (cases st)
  case (Tick r)
  show ?thesis
  proof (cases r)
    case (Inr es)
    with assms(2) Tick have "es = take (length es) full" by (auto elim: prefixE)
    then show ?thesis using offer_ok [OF assms(1)] Tick Inr by (metis stream_step.simps(2))
  qed (use Tick assms in simp)
next
  case Take
  with assms(1) show ?thesis by (auto simp: stream_ok_def split: list.splits)
qed

text \<open>Whatever the interleaving of ticks and reads: if every tick reads a prefix of the final log, what the
  consumer gets is the log with events left out, in the log's order, and all of it when the log fits the buffer.\<close>

lemma sdk_stream_in_order:
  assumes "\<And>es. Tick (Inr es) \<in> set sts \<Longrightarrow> prefix es full"
  shows "stream_ok full (stream_run sts)"
proof -
  have "stream_ok full s \<Longrightarrow> \<forall>es. Tick (Inr es) \<in> set sts \<longrightarrow> prefix es full \<Longrightarrow> stream_ok full (fold stream_step sts s)" for s
  proof (induction sts arbitrary: s)
    case (Cons st sts)
    then show ?case using stream_step_ok [OF Cons.prems(1), of st] by simp
  qed simp
  moreover have "stream_ok full \<lparr>ss_emitted = 0, ss_buffer = [], ss_taken = []\<rparr>" by (simp add: stream_ok_def)
  ultimately show ?thesis using assms unfolding stream_run_def by blast
qed

text \<open>The final drain offers what is left: a tick on the full log leaves nothing behind.\<close>

lemma sdk_stream_drained:
  assumes "stream_ok full s"
  shows "ss_emitted (stream_step (Tick (Inr full)) s) = length full"
  using assms by (simp add: stream_ok_def offer_emitted)

end
