(* ===== verification/Report.thy ===== *)
theory Report
  imports Cli Sdk
begin

text \<open>
  What the commands print: the live view of a run (\<open>cli/internal/render\<close>), timelines (\<open>cli/cmd/timeline.go\<close>), \<open>inspect\<close>, \<open>list\<close>,
  \<open>export\<close> and the cache commands (\<open>cli/cmd\<close>), and the smoke run of \<open>wee cli\<close>. The terminal styles of \<open>lipgloss\<close> are the
  argument \<open>paint\<close>, which leaves the text alone when the output is no terminal.
\<close>

section \<open>Numbers and columns\<close>

text \<open>\<open>%.4f\<close> rounds to the nearest, and a tie to the even digit; it writes the sign of a number that rounds to zero.\<close>

definition round_even :: "rat \<Rightarrow> int" where
  "round_even q =
     (let n = \<lfloor>q\<rfloor>; r = q - of_int n in if r < 1 / 2 \<or> (r = 1 / 2 \<and> even n) then n else n + 1)"

definition pad_zeros :: "nat \<Rightarrow> string \<Rightarrow> string" where
  "pad_zeros k s = replicate (k - length s) (CHR ''0'') @ s"

definition fixed_text :: "nat \<Rightarrow> rat \<Rightarrow> string" where
  "fixed_text k q =
     (let m = round_even (\<bar>q\<bar> * 10 ^ k)
      in (if q < 0 then ''-'' else []) @ itoa (m div 10 ^ k) @ ''.'' @ pad_zeros k (itoa (m mod 10 ^ k)))"

definition money :: "rat \<Rightarrow> string" where
  "money q = CHR ''$'' # fixed_text 4 q"

text \<open>Widths count runes: the bytes of UTF-8 text that do not continue a rune.\<close>

definition rune_count :: "string \<Rightarrow> nat" where
  "rune_count s = length (filter (\<lambda>c. (of_char c :: nat) < 128 \<or> 192 \<le> (of_char c :: nat)) s)"

definition pad_right :: "nat \<Rightarrow> string \<Rightarrow> string" where
  "pad_right k s = s @ replicate (k - rune_count s) (CHR '' '')"

definition pad_left :: "nat \<Rightarrow> string \<Rightarrow> string" where
  "pad_left k s = replicate (k - rune_count s) (CHR '' '') @ s"

definition line :: "string \<Rightarrow> string" where
  "line s = s @ [CHR 0x0A]"

section \<open>The live view\<close>

datatype style = StyleHeader | StyleOK | StyleFail | StyleWarn | StyleDim | StyleCacheHit | StyleBold style

definition glyph_start :: string where "glyph_start = [CHR 0xE2, CHR 0x96, CHR 0xB6]"
definition glyph_dot :: string where "glyph_dot = [CHR 0xC2, CHR 0xB7]"
definition glyph_hit :: string where "glyph_hit = [CHR 0xE2, CHR 0xA4, CHR 0xBF]"
definition glyph_tool :: string where "glyph_tool = [CHR 0xE2, CHR 0x9A, CHR 0x99]"
definition glyph_retry :: string where "glyph_retry = [CHR 0xE2, CHR 0x86, CHR 0xBB]"
definition glyph_done :: string where "glyph_done = [CHR 0xE2, CHR 0x9C, CHR 0x93]"
definition glyph_warn :: string where "glyph_warn = [CHR 0xE2, CHR 0x9A, CHR 0xA0]"
definition glyph_fail :: string where "glyph_fail = [CHR 0xE2, CHR 0x9C, CHR 0x97]"
definition glyph_stop :: string where "glyph_stop = [CHR 0xE2, CHR 0x8F, CHR 0xB9]"
definition glyph_arrow :: string where "glyph_arrow = [CHR 0xE2, CHR 0x86, CHR 0x92]"
definition glyph_at_most :: string where "glyph_at_most = [CHR 0xE2, CHR 0x89, CHR 0xA4]"

record human =
  hm_cost :: rat
  hm_tokens :: int
  hm_out :: string

definition new_human :: human where
  "new_human = \<lparr>hm_cost = 0, hm_tokens = 0, hm_out = []\<rparr>"

definition payload_num :: "payload \<Rightarrow> string \<Rightarrow> rat" where
  "payload_num p k = (case payload_float p k of Some q \<Rightarrow> q | None \<Rightarrow> 0)"

definition say :: "string \<Rightarrow> human \<Rightarrow> human" where
  "say s r = r\<lparr>hm_out := hm_out r @ line s\<rparr>"

definition human_event :: "(style \<Rightarrow> string \<Rightarrow> string) \<Rightarrow> event \<Rightarrow> human \<Rightarrow> human" where
  "human_event paint ev r =
     (let p = ev_payload ev; str = string_payload p; nd = ev_node ev in
      case ev_type ev of
        ExecutionStarted \<Rightarrow>
          say (paint StyleHeader (glyph_start @ '' '' @ str ''workflow'' @ ''@'' @ str ''version'')) r
      | WorkerStarted \<Rightarrow> say (''  '' @ paint StyleDim glyph_dot @ '' '' @ nd) r
      | CacheHit \<Rightarrow>
          say (''  '' @ paint StyleOK glyph_hit @ '' '' @ nd @ ''  '' @ paint StyleCacheHit '' CACHE HIT '' @
            paint StyleDim ('' saved '' @ money (payload_num p ''savedCostUsd''))) r
      | ToolCalled \<Rightarrow> say (''  '' @ glyph_tool @ '' '' @ nd @ ''  '' @ paint StyleDim ''tool call'') r
      | Retry \<Rightarrow>
          say (''  '' @ paint StyleWarn glyph_retry @ '' '' @ nd @ ''  '' @ paint StyleDim (''retry ('' @ str ''reason'' @ '')'')) r
      | WorkerFinished \<Rightarrow>
          (let c = payload_num p ''costUsd'';
               tk = trunc_rat (payload_num p ''tokens'');
               r = r\<lparr>hm_cost := hm_cost r + c, hm_tokens := wrap64 (hm_tokens r + tk)\<rparr>
           in say (''  '' @ paint StyleOK glyph_done @ '' '' @ nd @ ''  '' @
                paint StyleDim (money c @ ''  '' @ itoa tk @ '' tok  (running '' @ money (hm_cost r) @ '')'')) r)
      | ContractViolated \<Rightarrow>
          say (''  '' @ paint StyleWarn glyph_warn @ '' '' @ nd @ ''  '' @ paint StyleDim ''contract violation'') r
      | Failure \<Rightarrow> say (''  '' @ paint StyleFail glyph_fail @ '' '' @ nd @ ''  '' @ str ''error'') r
      | BudgetWarning \<Rightarrow> say (paint StyleWarn ''  ! budget warning'') r
      | BudgetExceeded \<Rightarrow> say (paint StyleFail ''  ! budget exceeded'') r
      | Cancelled \<Rightarrow> say (paint StyleWarn (''  '' @ glyph_stop @ '' cancelled'')) r
      | _ \<Rightarrow> r)"

definition human_finish :: "(style \<Rightarrow> string \<Rightarrow> string) \<Rightarrow> run_result option \<Rightarrow> human \<Rightarrow> human" where
  "human_finish paint res r =
     (case res of
        None \<Rightarrow> r
      | Some x \<Rightarrow>
          let text = execution_state_str (rr_state x) @ '' '' @ em_dash @ '' '' @ nat_str (card (dom (rr_nodes x))) @
                '' node(s), '' @ money (rr_spent_cost x) @ '', '' @ itoa (rr_spent_tokens x) @ '' tokens'';
              st = (if rr_state x = ExecutionSucceeded then StyleOK else StyleFail)
          in r\<lparr>hm_out := hm_out r @ line [] @ line (paint (StyleBold st) text)\<rparr>)"

section \<open>Timelines and nodes\<close>

definition short_hash :: "string \<Rightarrow> string" where
  "short_hash h = (if 12 < length h then take 12 h else if h = [] then em_dash else h)"

definition node_line :: "timeline \<Rightarrow> node \<Rightarrow> string" where
  "node_line t n =
     (let r = (case map_of (tm_nodes t) (node_id n) of Some r \<Rightarrow> r | None \<Rightarrow> zero_record);
          kind = (case node_tool n of None \<Rightarrow> ''worker:'' @ node_worker n | Some tc \<Rightarrow> ''tool:'' @ tc_name tc)
      in line (''  '' @ pad_right 16 (node_id n) @ '' '' @ pad_right 11 (node_state_text (rec_state r)) @ '' '' @
            money (rec_cost r) @ ''  '' @ pad_left 6 (itoa (rec_tokens r)) @ '' tok  '' @ short_hash (rec_hash r) @
            ''  ['' @ kind @ '']'') @
         (if rec_err r \<noteq> [] then line (''      error: '' @ rec_err r) else []))"

definition timeline_text :: "timeline \<Rightarrow> string" where
  "timeline_text t =
     line (''execution '' @ tm_exec t @ ''  ('' @ wf_id (tm_workflow t) @ ''@'' @ wf_version (tm_workflow t) @ '')'') @
     concat (map (node_line t) (wf_nodes (tm_workflow t))) @
     line (''total: '' @ money (tm_cost t) @ '', '' @ itoa (tm_tokens t) @ '' tokens'')"

text \<open>\<open>duration\<close> is the text of a \<open>time.Duration\<close>.\<close>

definition inspect_text :: "(int \<Rightarrow> string) \<Rightarrow> timeline \<Rightarrow> string \<Rightarrow> audit_node \<Rightarrow> string" where
  "inspect_text duration t i r =
     line (''node '' @ i @ ''  ('' @ tm_exec t @ '')'') @
     line (''  state:    '' @ node_state_text (rec_state r)) @
     line (''  cost:     '' @ money (rec_cost r)) @
     line (''  tokens:   '' @ itoa (rec_tokens r)) @
     line (''  type:     '' @ rec_type r) @
     line (''  hash:     '' @ rec_hash r) @
     (case node_duration (tm_events t) i of None \<Rightarrow> [] | Some d \<Rightarrow> line (''  duration: '' @ duration d)) @
     (if rec_err r \<noteq> [] then line (''  error:    '' @ rec_err r) else []) @
     (if rec_content r \<noteq> [] then line ''  artifact:'' @ line (rec_content r) else [])"

definition inspect_command ::
  "(int \<Rightarrow> string) \<Rightarrow> (string \<Rightarrow> err + timeline) \<Rightarrow> string \<Rightarrow> string \<Rightarrow> cli_error + string" where
  "inspect_command duration audit_fn i nid =
     (case audit_fn i of
        Inl e \<Rightarrow> Inl (Coded exit_validation e)
      | Inr t \<Rightarrow>
          if nid \<noteq> [] then map_sum id (inspect_text duration t nid) (inspect_node t nid)
          else Inr (timeline_text t))"

definition list_command :: "runner_env \<Rightarrow> (string \<Rightarrow> err + (string \<times> bool) list) \<Rightarrow> string \<Rightarrow> string" where
  "list_command env listing ws =
     line ''workflows:'' @ concat (map (\<lambda>w. line (''  '' @ w)) (find_workflows env ''.'')) @
     line ''executions:'' @ concat (map (\<lambda>i. line (''  '' @ i)) (list_executions listing ws))"

definition status_word :: "divergence_status \<Rightarrow> string" where
  "status_word st = (case st of Cached \<Rightarrow> ''cached'' | ReExecuted \<Rightarrow> ''re-executed'' | Added \<Rightarrow> ''added'' | Removed \<Rightarrow> ''removed'')"

definition divergence_line :: "node_divergence \<Rightarrow> string" where
  "divergence_line d =
     line (''  '' @ pad_right 16 (dv_node d) @ '' '' @ pad_right 11 (status_word (dv_status d)) @ '' '' @ short_hash (dv_old_hash d) @ '' '' @
       glyph_arrow @ '' '' @ short_hash (dv_new_hash d))"

definition reexecution_text :: "string \<Rightarrow> string \<Rightarrow> timeline \<Rightarrow> timeline \<Rightarrow> string" where
  "reexecution_text i new original again =
     line (''re-executed '' @ i @ '' as '' @ new) @ line [] @ concat (map divergence_line (divergence original again)) @
     line [] @ line (''original: '' @ money (tm_cost original) @ ''  re-execution: '' @ money (tm_cost again))"

definition export_text :: "workflow \<Rightarrow> string \<Rightarrow> nat \<Rightarrow> template_facts \<Rightarrow> string" where
  "export_text w out bytes_written facts =
     line (''exported '' @ wf_id w @ ''@'' @ wf_version w @ '' '' @ glyph_arrow @ '' '' @ out @ '' ('' @ nat_str bytes_written @ '' bytes)'') @
     line (''  '' @ (if tf_write_capable facts then ''write-capable'' else ''read-only'') @ '' '' @ glyph_dot @ '' expected cost '' @
       glyph_at_most @ '' $'' @ fixed_text 2 (tf_expected_cost facts) @ '' '' @ glyph_dot @ '' expected duration '' @ glyph_at_most @ '' '' @
       itoa (tf_expected_ms facts) @ ''ms '' @ glyph_dot @ '' tools: '' @
       (if tf_tools facts = [] then ''none'' else join '', '' (tf_tools facts)))"

section \<open>The cache commands\<close>

definition cache_line :: "cache_entry \<Rightarrow> string" where
  "cache_line e = line (short_hash (ce_key e) @ ''  '' @ short_hash (ce_hash e) @ ''  '' @ money (ce_cost e) @ ''  '' @
     itoa (ce_tokens e) @ '' tok  '' @ ce_type e)"

definition cache_ls_command :: "faults \<Rightarrow> cache \<Rightarrow> (cli_error + string) \<times> cache" where
  "cache_ls_command fault c =
     (case cache_list fault c of
        (Inl e, c) \<Rightarrow> (Inl (Uncoded e), c)
      | (Inr es, c) \<Rightarrow> (Inr (if es = [] then line ''cache is empty'' else concat (map cache_line es)), c))"

definition cache_inspect_command :: "faults \<Rightarrow> string \<Rightarrow> cache \<Rightarrow> (cli_error + string) \<times> cache" where
  "cache_inspect_command fault k c =
     (case cache_inspect fault k c of
        (Inl e, c) \<Rightarrow> (Inl (Uncoded e), c)
      | (Inr None, c) \<Rightarrow> (Inl (Coded exit_validation (EMsg (''no cache entry for key '' @ quote k))), c)
      | (Inr (Some e), c) \<Rightarrow>
          (Inr (line (''key:      '' @ ce_key e) @ line (''artifact: '' @ ce_hash e @ '' ('' @ ce_type e @ '')'') @
             line (''saved:    '' @ money (ce_cost e) @ '', '' @ itoa (ce_tokens e) @ '' tokens'') @
             line (''created:  '' @ ce_created e)), c))"

definition cache_clear_command :: "faults \<Rightarrow> cache \<Rightarrow> (cli_error + string) \<times> cache" where
  "cache_clear_command fault c =
     (case cache_clear fault c of
        (Some e, c) \<Rightarrow> (Inl (Uncoded e), c)
      | (None, c) \<Rightarrow> (Inr (line ''cache cleared''), c))"

section \<open>The smoke run\<close>

definition smoke_workflow :: bytes where
  "smoke_workflow = text_lines
    [''id: cli-smoke'',
     ''version: 1.0.0'',
     ''nodes:'',
     ''  - id: check'',
     ''    tool:'',
     ''      toolName: terminal'',
     ''      input:'',
     ''        command: echo'',
     ''        args: [\"cli-ok\"]'',
     ''edges: []'',
     ''budget:'',
     ''  maxCostUsd: 0'',
     ''  maxTokens: 0'',
     ''  maxDurationMs: 30000'',
     ''  maxRetriesPerNode: 1'',
     '''']"

definition smoke_config :: bytes where
  "smoke_config = text_lines
    [''terminal:'',
     ''  allow: [\"echo\"]'',
     ''  timeoutMs: 5000'',
     '''']"

definition smoke_files :: "string \<Rightarrow> (string \<times> bytes) list" where
  "smoke_files base = [(file_join base ''check.yaml'', smoke_workflow), (file_join base ''wee.yaml'', smoke_config)]"

fun write_all :: "(string \<Rightarrow> err option) \<Rightarrow> (string \<times> bytes) list \<Rightarrow> files \<Rightarrow> err option \<times> files" where
  "write_all fault [] d = (None, d)"
| "write_all fault ((p, b) # fs) d =
     (case fault p of Some e \<Rightarrow> (Some e, d) | None \<Rightarrow> write_all fault fs (d(p \<mapsto> b)))"

definition smoke_options :: "loaded \<Rightarrow> string \<Rightarrow> run_options" where
  "smoke_options l i =
     \<lparr>ro_execution_id = i, ro_concurrency = 0, ro_budget = wf_budget (ld_workflow l), ro_backoff = 0, ro_backoff_max = 0,
      ro_cache = CacheOff, ro_definition_hashes = definition_hashes (ld_registry l) (wf_nodes (ld_workflow l)),
      ro_workers = pinned_workers (ld_registry l) (wf_nodes (ld_workflow l)), ro_inputs = Map.empty,
      ro_connections = Map.empty, ro_allow_mutations = True\<rparr>"

text \<open>\<open>printCLIArtifact\<close>: the standard output of the node, or what its artifact holds; \<open>stdout_of\<close> decodes a terminal's
  artifact, with the empty text for what does not decode.\<close>

definition smoke_artifact :: "(bytes \<Rightarrow> string) \<Rightarrow> err + timeline \<Rightarrow> err + string" where
  "smoke_artifact stdout_of audit_of =
     (case audit_of of
        Inl e \<Rightarrow> Inl e
      | Inr t \<Rightarrow>
     (case map_of (tm_nodes t) ''check'' of
        None \<Rightarrow> Inl (EMsg ''cli smoke output missing node check'')
      | Some r \<Rightarrow>
          let out = (if stdout_of (rec_content r) = [] then rec_content r else stdout_of (rec_content r))
          in Inr (rev (dropWhile (\<lambda>c. c = CHR 0x0A) (rev out)))))"

text \<open>The call of the engine, if it comes to one, and the text of the artifact or the error. \<open>temp\<close> is the directory made for
  the run; \<open>env d\<close> reads the files \<open>d\<close>; \<open>audit_of i\<close> is the audit afterwards. The deferred removal of the directory, unless it
  is to be kept, gives the files that remain.\<close>

definition remove_all :: "string \<Rightarrow> files \<Rightarrow> files" where
  "remove_all base d = (\<lambda>q. if has_prefix q (base @ ''/'') then None else d q)"

definition smoke_command ::
  "err + string \<Rightarrow> (string \<Rightarrow> err option) \<Rightarrow> (files \<Rightarrow> runner_env) \<Rightarrow> (string \<Rightarrow> string) \<Rightarrow>
   (engine_call \<Rightarrow> run_result option \<times> err option) \<Rightarrow> (bytes \<Rightarrow> string) \<Rightarrow> (string \<Rightarrow> err + timeline) \<Rightarrow> bool \<Rightarrow> files \<Rightarrow>
     (engine_call option \<times> (cli_error + string)) \<times> files" where
  "smoke_command temp fault env mint engine stdout_of audit_of keep d =
     (case temp of
        Inl e \<Rightarrow> ((None, Inl (Uncoded e)), d)
      | Inr base \<Rightarrow>
          let p = file_join base ''check.yaml'';
              ws = file_join base ''.workflow'';
              left = (if keep then (\<lambda>d. d) else remove_all base)
          in (case write_all fault (smoke_files base) d of
                (Some e, d') \<Rightarrow> ((None, Inl (Uncoded e)), left d')
              | (None, d') \<Rightarrow>
             (case load_with (env d') p ws of
                Inl e \<Rightarrow> ((None, Inl (Coded exit_validation e)), left d')
              | Inr l \<Rightarrow>
             (case validate_workflow_file (env d') (ld_workflow l) p of
                Some e \<Rightarrow> ((None, Inl (Coded exit_validation e)), left d')
              | None \<Rightarrow>
                  let i = mint (wf_id (ld_workflow l));
                      call = CallRun (ld_workflow l) (smoke_options l i)
                  in ((Some call,
                       case exit_for_run (snd (engine call)) of
                         Some x \<Rightarrow> Inl x
                       | None \<Rightarrow> map_sum Uncoded id (smoke_artifact stdout_of (audit_of i))), left d')))))"

section \<open>The live view adds up\<close>

lemma wrap64_twice: "wrap64 (wrap64 x) = wrap64 x"
  by (simp add: wrap64_def)

text \<open>The running totals of the live view, after the events of a log, are the cost and the tokens that the control plane
  reports for the same log.\<close>

theorem live_total_is_summary:
  "hm_cost (fold (human_event paint) evs new_human) = su_cost (summarize_events i evs) \<and>
   hm_tokens (fold (human_event paint) evs new_human) = su_tokens (summarize_events i evs)"
proof -
  have step: "hm_cost (human_event paint ev r) = su_cost (fst (summarize_step ev a)) \<and>
      hm_tokens (human_event paint ev r) = su_tokens (fst (summarize_step ev a)) \<and>
      wrap64 (hm_tokens (human_event paint ev r)) = hm_tokens (human_event paint ev r)"
    if "hm_cost r = su_cost (fst a) \<and> hm_tokens r = su_tokens (fst a) \<and> wrap64 (hm_tokens r) = hm_tokens r" for ev r a
    using that
    by (cases a; cases "ev_type ev")
      (auto simp: human_event_def summarize_step_def say_def Let_def payload_num_def trunc_rat_def wrap64_twice split: option.splits)
  have "hm_cost (fold (human_event paint) evs r) = su_cost (fst (fold summarize_step evs a)) \<and>
      hm_tokens (fold (human_event paint) evs r) = su_tokens (fst (fold summarize_step evs a))"
    if "hm_cost r = su_cost (fst a) \<and> hm_tokens r = su_tokens (fst a) \<and> wrap64 (hm_tokens r) = hm_tokens r" for r a
    using that
  proof (induction evs arbitrary: r a)
    case (Cons ev evs)
    from Cons.IH [OF step [OF Cons.prems]] show ?case by simp
  qed simp
  from this [of new_human "((zero_summary i)\<lparr>su_state := ''running''\<rparr>, 0, 0)"]
  show ?thesis
    by (cases "fold summarize_step evs ((zero_summary i)\<lparr>su_state := ''running''\<rparr>, 0, 0)")
      (simp add: summarize_events_def new_human_def zero_summary_def wrap64_def)
qed

section \<open>The smoke run leaves nothing behind\<close>

lemma write_all_outside: "write_all fault fs d = (r, d') \<Longrightarrow> q \<notin> fst ` set fs \<Longrightarrow> d' q = d q"
  by (induction fault fs d rule: write_all.induct) (auto split: option.splits)

text \<open>Unless it is told to keep them, whatever fails: no file is left in its directory, and the others are as they were.\<close>

lemma smoke_cleans_up:
  assumes "smoke_command (Inr base) fault env mint engine stdout_of audit_of False d = (r, d')"
    and "\<forall>(p, b)\<in>set (smoke_files base). has_prefix p (base @ ''/'')"
  shows "d' q = (if has_prefix q (base @ ''/'') then None else d q)"
proof -
  obtain x d1 where w: "write_all fault (smoke_files base) d = (x, d1)" by fastforce
  have "d' = remove_all base d1"
    using assms(1) w by (auto simp: smoke_command_def Let_def split: option.splits sum.splits)
  moreover have "d1 q = d q" if "\<not> has_prefix q (base @ ''/'')"
    using write_all_outside [OF w] assms(2) that by force
  ultimately show ?thesis by (simp add: remove_all_def)
qed

end
