(* ===== verification/Spec2Isabelle.thy ===== *)
theory Spec2Isabelle
  imports ValidRun RetryLoop ContextPolicy EventLog NodeTrace ControlTheorems Router Report
begin

text \<open>
  A verification development for \<open>wee\<close>, a workflow execution engine written in Go.

  \<^bold>\<open>The program.\<close> A workflow is a versioned graph of nodes; a node is backed by a worker (a model call under a contract)
  or by a tool (a file, git, terminal or HTTP action). The parts and how they call each other:
  \<^item> Definitions come from files (\<open>core/serialize\<close>), from Go code (\<open>sdk\<close>) or from a bundle (\<open>core/registry\<close>), and are
    checked against JSON schemas and graph rules (\<open>core/validate\<close>).
  \<^item> The scheduler (\<open>core/engine/scheduler.go\<close>) decides which nodes run, are skipped or failed, and holds the worker
    pool; a node's run (\<open>node.go\<close>) looks in the cache (\<open>core/cache\<close>), retries (\<open>retry.go\<close>), calls the executor and
    stores the artifact (\<open>core/store\<close>); the executor is the worker's (\<open>worker_executor.go\<close>, with \<open>core/contract\<close>,
    \<open>core/policy\<close>, \<open>core/cost\<close>, \<open>core/model\<close>) or the tool's (\<open>tool_executor.go\<close>, with \<open>core/tool\<close>).
  \<^item> Everything that happens is an event of a hash-chained log (\<open>core/eventlog\<close>). A run is resumed
    (\<open>resume.go\<close>), audited, compared, exported and re-executed (\<open>core/replay\<close>) from its log and its snapshot.
  \<^item> The control plane (\<open>core/server\<close>, \<open>core/settings\<close>) and the commands (\<open>cli\<close>) assemble, start, watch, cancel, approve and
    resume runs.

  \<^bold>\<open>Conventions.\<close> A struct is a record, an enumeration a datatype (with a constructor for strings from a user's file that
  are none of the constants), an error a chain of type \<open>err\<close> on which \<open>errors.Is\<close> and \<open>errors.As\<close> are functions. A result
  with an error is a sum or a pair with an \<open>err option\<close>; every early return is a branch. Strings and byte slices are HOL
  strings, one character per byte. \<open>int64\<close> values are integers with \<open>wrap64\<close> where the source adds or multiplies without
  a bound; \<open>float64\<close> values are rationals, so rounding is not modelled. A Go map that the code iterates over is an
  association list, one that it only looks up is a function. A failing system call is a value of a \<open>faults\<close> function. What
  is not under \<open>src\<close> (the operating system, the network, SHA-256, JSON, YAML, tar, regular expressions, the JSON schema
  library) is an argument of the definitions that use it, and what the code relies on is a hypothesis of the theorem.

  \<^bold>\<open>Theories, from the bottom up.\<close>
  \<^item> \<open>Prelude\<close>: Go's string, integer and slice operations and the facts about them; the collections \<open>go_str\<close> and \<open>go_opt\<close>.
    \<open>Domain\<close>: \<open>core/domain\<close>. \<open>GoErr\<close>: error chains and \<open>core/diagnostic\<close>.
  \<^item> \<open>RunConfig\<close>, \<open>BudgetTracker\<close>, \<open>Condition\<close>, \<open>RunTypes\<close>: run inputs, failure policies, budgets, edge conditions and the types
    the engine's parts exchange.
  \<^item> \<open>Scheduler\<close>: the coordinator. Its \<open>select\<close> loop is the step relation \<open>sched_step\<close>, with \<open>sched_do\<close> its executable form.
    \<open>SchedulerInv\<close>, \<open>SchedulerStart\<close>, \<open>SchedulerStep\<close>: the invariant, that the loop starts in it, that every step keeps it.
    \<open>SchedulerProps\<close>, \<open>SchedulerResult\<close>, \<open>SchedulerTheorems\<close>: what follows (termination by a measure of at most \<open>6 * n + 2\<close>
    iterations, inputs of a dispatched node, halting, cancellation, budgets, fallbacks, the result).
  \<^item> \<open>Graph\<close>, \<open>ValidRun\<close>: \<open>core/validate/graph.go\<close> decides validity, and what it accepts is resolved completely. The search for
    a cycle has the number of nodes as fuel, which the theorem shows to be enough.
  \<^item> \<open>RetryLoop\<close>, \<open>ContextPolicy\<close>, \<open>Providers\<close>, \<open>CacheKey\<close>, \<open>WorkerExec\<close>: retries (a \<open>partial_function\<close>, proved to return), the
    artifacts a worker sees, the model clients, cache keys, the worker executor and the dispatch.
  \<^item> \<open>Tools\<close>, \<open>ToolSet\<close>, \<open>ToolInput\<close>, \<open>ToolExec\<close>: the four tools, their schemas and constructors, placeholders and secrets, the
    approval gate and the tool executor.
  \<^item> \<open>Canonical\<close>, \<open>ContentStore\<close>, \<open>ArtifactStore\<close>, \<open>CacheStore\<close>: canonical JSON and hashes; the locales \<open>content_store\<close>,
    \<open>key_index\<close> and \<open>node_cache\<close> of what the engine stores results through, interpreted on the artifact store and the
    cache index of the code. \<open>PutReader\<close> refines adding an entry to a map.
  \<^item> \<open>NodeExec\<close>, \<open>NodeLog\<close>, \<open>NodeTrace\<close>: one node from start to last event; what is read off its events; their shape and number.
  \<^item> \<open>EventLog\<close>, \<open>Resume\<close>, \<open>Replay\<close>, \<open>RunEvents\<close>: the log (lines of at most 16 MiB can be read back), runs rebuilt from it,
    audits, bundles, divergence, summaries, progress and the event stream.
  \<^item> \<open>VersionRef\<close>, \<open>Registry\<close>, \<open>WorkerVersions\<close>, \<open>Gallery\<close>: versions and references, the definition registry (locale
    \<open>versioned\<close>, interpreted for workers and for workflows), bundles of definitions, worker editing, the template gallery.
  \<^item> \<open>Settings\<close>, \<open>Control\<close>, \<open>ControlTheorems\<close>: settings, the handlers of the control plane and its registry of runs as the step
    relation \<open>server_step\<close>.
  \<^item> \<open>Locate\<close>: workflow files, the YAML tree and JSON pointers, the two users of the schema library
    (\<open>core/serialize\<close>, \<open>core/validate/schema.go\<close>, \<open>dynamic.go\<close>).
  \<^item> \<open>Sdk\<close>: the builder, \<open>Run\<close>'s options and event channel of 256 events, reading an artifact (\<open>sdk\<close>).
  \<^item> \<open>Backup\<close>: \<open>wee backup\<close> (\<open>cli/cmd/backup.go\<close>), writing and restoring an archive.
  \<^item> \<open>Runner\<close>, \<open>Cli\<close>, \<open>Report\<close>: assembling an engine from files (\<open>cli/internal/runner\<close>, \<open>cli/cmd/serve.go\<close>), the commands with
    their exit codes, and what they print.
  \<^item> \<open>Router\<close>: the routes of the control plane, its multiplexer, and the whole server from a request to a reply, with the step
    relation \<open>site_step\<close>.

  \<^bold>\<open>What the theorems show.\<close> Scheduling: only nodes whose incoming edges are all active run, on exactly the upstream outputs;
  the pool is bounded; the loop ends; a validated workflow is resolved completely; the result and the exit code tell the
  truth. Effects: a tool acts only when it was approved, allowed unattended or harmless; secrets do not reach the log; file
  access stays in its root, a restored backup in its workspace. Storage: stores, caches, settings and logs return what was
  put in, whatever system call fails. History: a resumed, audited or re-read run agrees with what ran, released definitions
  are immutable. Control: one run per execution, only validated workflows are driven, reading requests change nothing,
  approvals reach the gate, a restart settles what was interrupted. Lemmas named for a defect (\<open>retry_race\<close>,
  \<open>escaped_secret_is_logged\<close>, \<open>linked_workspace_lost\<close>, ...) are concrete runs of the model in which the code does something
  other than it documents.

  \<^bold>\<open>Not modelled.\<close> Rounding of \<open>float64\<close>; the byte formats of JSON, YAML, gzip and tar; HTTP headers, the WebSocket protocol and
  the listening socket; the flags of commands and terminal styles; file modes and times; the memory model: an operation
  under a mutex is atomic, and interleavings are those of the step relations. The code under \<open>examples\<close> and \<open>ui\<close> only uses
  the parts above.
\<close>

end
